(* ===== verification/Prelude.thy ===== *)
theory Prelude
  imports Complex_Main "HOL-Library.Word" "HOL-Library.AList" "HOL-Library.Multiset"
begin

text \<open>
  Shared vocabulary of the development.

  The program is C, so an operation can do something the language leaves undefined: follow a
  null or a freed pointer, run past an array, call a null function pointer.  Every operation
  of the model that could do so returns a value of \<open>'a run\<close>: \<open>Inr x\<close> is a defined
  execution with result \<open>x\<close>, \<open>Inl f\<close> says which kind of undefined behaviour the
  code runs into.  \<open>rbind\<close> is sequencing, \<open>rfold\<close> is a \<open>for\<close> loop over a list.
\<close>

datatype fault =
    NullDeref          \<comment> \<open>a null pointer is followed\<close>
  | UninitPointer      \<comment> \<open>an uninitialised pointer is followed\<close>
  | OutOfBounds        \<comment> \<open>a read past the end of an object\<close>
  | BufferOverflow     \<comment> \<open>a write past the end of an object\<close>
  | UseAfterFree       \<comment> \<open>a freed object is accessed\<close>
  | SignedOverflow     \<comment> \<open>an \<open>int\<close> addition overflows\<close>
  | NullCall           \<comment> \<open>a null function pointer is called\<close>
  | OutOfFuel          \<comment> \<open>the bound of a modelled loop is used up (shown never to happen)\<close>

type_synonym 'a run = "fault + 'a"

named_theorems run_simps \<open>sequencing of fallible operations\<close>
named_theorems array_simps \<open>lengths and contents of the fixed-size arrays\<close>
named_theorems frame_simps \<open>what an operation leaves unchanged\<close>

primrec rbind :: "'a run \<Rightarrow> ('a \<Rightarrow> 'b run) \<Rightarrow> 'b run" where
  "rbind (Inl f) k = Inl f"
| "rbind (Inr x) k = k x"

declare rbind.simps [run_simps]

lemma rbind_cong [fundef_cong]:
  "m = m' \<Longrightarrow> (\<And>x. m' = Inr x \<Longrightarrow> k x = k' x) \<Longrightarrow> rbind m k = rbind m' k'"
  by (cases m') auto

lemma rbind_eq_Inr [run_simps]: "rbind m k = Inr y \<longleftrightarrow> (\<exists>x. m = Inr x \<and> k x = Inr y)"
  by (cases m) auto

lemma rbind_eq_Inl: "rbind m k = Inl f \<longleftrightarrow> m = Inl f \<or> (\<exists>x. m = Inr x \<and> k x = Inl f)"
  by (cases m) auto

lemma rbind_assoc: "rbind (rbind m k) l = rbind m (\<lambda>x. rbind (k x) l)"
  by (cases m) auto

lemma rbind_InrE [elim]:
  assumes "rbind m k = Inr y"
  obtains x where "m = Inr x" and "k x = Inr y"
  using assms by (cases m) auto

text \<open>Following a possibly null or dangling pointer.\<close>

definition deref :: "fault \<Rightarrow> 'a option \<Rightarrow> 'a run" where
  "deref f x = (case x of None \<Rightarrow> Inl f | Some y \<Rightarrow> Inr y)"

lemma deref_simps [simp, run_simps]: "deref f None = Inl f" "deref f (Some x) = Inr x"
  by (simp_all add: deref_def)

lemma deref_eq_Inr [simp, run_simps]: "deref f x = Inr y \<longleftrightarrow> x = Some y"
  by (cases x) auto

text \<open>A loop over a list that stops at the first undefined step.\<close>

fun rfold :: "('a \<Rightarrow> 's \<Rightarrow> 's run) \<Rightarrow> 'a list \<Rightarrow> 's \<Rightarrow> 's run" where
  "rfold f [] s = Inr s"
| "rfold f (x # xs) s = rbind (f x s) (rfold f xs)"

lemma rfold_append: "rfold f (xs @ ys) s = rbind (rfold f xs s) (rfold f ys)"
  by (induction xs arbitrary: s) (auto simp: rbind_assoc intro: rbind_cong)

lemma rfold_cong [fundef_cong]:
  assumes "xs = ys" and "s = t" and "\<And>x u. x \<in> set ys \<Longrightarrow> f x u = g x u"
  shows "rfold f xs s = rfold g ys t"
proof -
  have "rfold f ys u = rfold g ys u" for u
    using assms(3) by (induction ys arbitrary: u) (auto intro: rbind_cong)
  then show ?thesis using assms(1,2) by simp
qed

text \<open>A predicate or a projection that one step keeps is kept by the loop.\<close>

lemma rfold_invariant:
  assumes "rfold f xs s = Inr t" and "P s"
    and "\<And>x u v. x \<in> set xs \<Longrightarrow> P u \<Longrightarrow> f x u = Inr v \<Longrightarrow> P v"
  shows "P t"
  using assms by (induction xs arbitrary: s) (auto simp: run_simps)

lemma rfold_frame:
  assumes "rfold f xs s = Inr t"
    and "\<And>x u v. x \<in> set xs \<Longrightarrow> f x u = Inr v \<Longrightarrow> g v = g u"
  shows "g t = g s"
  using assms(1) by (rule rfold_invariant [where P = "\<lambda>u. g u = g s"]) (auto dest: assms(2))

text \<open>If every step is defined under an invariant, so is the loop.\<close>

lemma rfold_defined:
  assumes "P s"
    and "\<And>x u. x \<in> set xs \<Longrightarrow> P u \<Longrightarrow> \<exists>v. f x u = Inr v \<and> P v"
  shows "\<exists>t. rfold f xs s = Inr t \<and> P t"
  using assms
proof (induction xs arbitrary: s)
  case Nil
  then show ?case by simp
next
  case (Cons x xs)
  from Cons.prems obtain v where v: "f x s = Inr v" "P v" by fastforce
  with Cons.IH [OF v(2)] Cons.prems(2) show ?case by simp
qed

text \<open>Association lists: the facts about \<open>AList\<close> the hash tables use.\<close>

lemma map_fst_delete_distinct: "distinct (map fst h) \<Longrightarrow> distinct (map fst (AList.delete k h))"
  by (rule distinct_delete)

lemma map_fst_update_distinct: "distinct (map fst h) \<Longrightarrow> distinct (map fst (AList.update k v h))"
  by (rule distinct_update)

lemma update_fresh_append: "k \<notin> fst ` set h \<Longrightarrow> AList.update k v h = h @ [(k, v)]"
  by (induction h) auto

lemma delete_absent: "k \<notin> fst ` set h \<Longrightarrow> AList.delete k h = h"
  by (simp add: delete_id)

text \<open>Lists cut at a position.\<close>

lemma list_update_beyond_take: "i \<ge> n \<Longrightarrow> take n (xs[i := x]) = take n xs"
  by simp

lemma drop_update_before: "i < n \<Longrightarrow> drop n (xs[i := x]) = drop n xs"
  by simp

lemma takeWhile_until: "P y = False \<Longrightarrow> (\<And>x. x \<in> set xs \<Longrightarrow> P x) \<Longrightarrow> takeWhile P (xs @ y # ys) = xs"
  by simp

end
