(* ===== verification/CStr.thy ===== *)
theory CStr
  imports Prelude
begin

text \<open>
  C strings and the parts of the C library the sources use on them.

  A pointer to characters is modelled by the bytes from the pointer to the end of the object it
  points into; a character array is the list of all its bytes.  \<open>cstr\<close> reads the string at a
  pointer: the bytes up to the first NUL, undefined (\<open>OutOfBounds\<close>) where the object has none.
  \<open>pad n s\<close> is an array of \<open>n\<close> bytes that holds \<open>s\<close> and is zero after it, which is what
  \<open>calloc\<close> or \<open>memset\<close> followed by a copy leaves.
\<close>

abbreviation NUL :: char where "NUL \<equiv> CHR 0x00"
abbreviation LF :: char where "LF \<equiv> CHR 0x0A"
abbreviation CR :: char where "CR \<equiv> CHR 0x0D"
abbreviation SP :: char where "SP \<equiv> CHR 0x20"

definition CRLF :: string where
  "CRLF = [CR, LF]"

type_synonym cptr = "char list"

definition cstr :: "cptr \<Rightarrow> string run" where
  "cstr p = (if NUL \<in> set p then Inr (takeWhile (\<lambda>c. c \<noteq> NUL) p) else Inl OutOfBounds)"

lemma cstr_terminated [simp]: "NUL \<notin> set s \<Longrightarrow> cstr (s @ NUL # r) = Inr s"
  by (auto simp: cstr_def takeWhile_tail takeWhile_eq_all_conv)

lemma cstr_Nil [simp]: "cstr (NUL # r) = Inr []"
  by (simp add: cstr_def)

lemma cstr_defined: "NUL \<in> set p \<Longrightarrow> \<exists>s. cstr p = Inr s"
  by (simp add: cstr_def)

lemma cstr_no_NUL: "cstr p = Inr s \<Longrightarrow> NUL \<notin> set s"
  by (auto simp: cstr_def split: if_splits dest: set_takeWhileD)

lemma cstr_InrD: "cstr p = Inr s \<Longrightarrow> \<exists>r. p = s @ NUL # r"
proof -
  assume "cstr p = Inr s"
  then have in_p: "NUL \<in> set p" and s: "s = takeWhile (\<lambda>c. c \<noteq> NUL) p"
    by (auto simp: cstr_def split: if_splits)
  from in_p have "dropWhile (\<lambda>c. c \<noteq> NUL) p \<noteq> []" by (auto simp: dropWhile_eq_Nil_conv)
  then obtain c r where d: "dropWhile (\<lambda>c. c \<noteq> NUL) p = c # r"
    by (cases "dropWhile (\<lambda>c. c \<noteq> NUL) p") auto
  then have "c = NUL" using hd_dropWhile [of "\<lambda>c. c \<noteq> NUL" p] by auto
  with d s have "p = s @ NUL # r" by (metis takeWhile_dropWhile_id)
  then show ?thesis ..
qed

lemma cstr_length: "cstr p = Inr s \<Longrightarrow> length s < length p"
  by (auto dest: cstr_InrD)

text \<open>Arrays.\<close>

definition pad :: "nat \<Rightarrow> string \<Rightarrow> char list" where
  "pad n s = s @ replicate (n - length s) NUL"

lemma length_pad [array_simps]: "length s \<le> n \<Longrightarrow> length (pad n s) = n"
  by (simp add: pad_def)

lemma cstr_pad [array_simps]: "NUL \<notin> set s \<Longrightarrow> length s < n \<Longrightarrow> cstr (pad n s) = Inr s"
  by (cases "n - length s") (auto simp: pad_def)

lemma pad_Nil [simp]: "pad n [] = replicate n NUL"
  by (simp add: pad_def)

lemma take_pad [array_simps]: "length s \<le> n \<Longrightarrow> k \<le> length s \<Longrightarrow> take k (pad n s) = take k s"
  by (simp add: pad_def)

lemma pad_length_eq [array_simps]: "length s = n \<Longrightarrow> pad n s = s"
  by (simp add: pad_def)

text \<open>\<open>strcpy\<close>: the string and its NUL must fit; \<open>strncpy\<close> copies at most \<open>n\<close> bytes and fills
  with NULs up to \<open>n\<close>, and adds no NUL when the source has \<open>n\<close> bytes or more.\<close>

definition strcpy :: "char list \<Rightarrow> string \<Rightarrow> char list run" where
  "strcpy dst s =
     (if length s < length dst then Inr (s @ NUL # drop (length s + 1) dst)
      else Inl BufferOverflow)"

definition strncpy :: "char list \<Rightarrow> string \<Rightarrow> nat \<Rightarrow> char list run" where
  "strncpy dst s n =
     (if n \<le> length dst then Inr (pad n (take n s) @ drop n dst) else Inl BufferOverflow)"

lemma strcpy_length: "strcpy dst s = Inr d \<Longrightarrow> length d = length dst"
  by (auto simp: strcpy_def split: if_splits)

lemma strcpy_cstr: "strcpy dst s = Inr d \<Longrightarrow> NUL \<notin> set s \<Longrightarrow> cstr d = Inr s"
  by (auto simp: strcpy_def split: if_splits)

lemma strncpy_length: "strncpy dst s n = Inr d \<Longrightarrow> length d = length dst"
  by (auto simp: strncpy_def length_pad split: if_splits)

lemma strncpy_cstr:
  assumes "strncpy dst s n = Inr d" and "NUL \<notin> set s" and "length s < n"
  shows "cstr d = Inr s"
proof -
  from assms have d: "d = s @ replicate (n - length s) NUL @ drop n dst"
    by (auto simp: strncpy_def pad_def split: if_splits)
  from assms(3) obtain k where "n - length s = Suc k" by (metis Suc_diff_Suc)
  with d assms(2) show ?thesis by simp
qed

text \<open>\<open>tolower\<close> in the C locale, which the program never changes, and the in-place loops
  \<open>for (c = name; *c; c++) *c = tolower(*c)\<close> as a function of the string.\<close>

definition tolower :: "char \<Rightarrow> char" where
  "tolower c = (if 65 \<le> (of_char c :: nat) \<and> (of_char c :: nat) \<le> 90
                then char_of ((of_char c :: nat) + 32) else c)"

definition lowercase :: "string \<Rightarrow> string" where
  "lowercase s = map tolower s"

lemma tolower_idem [simp]: "tolower (tolower c) = tolower c"
proof (cases "65 \<le> (of_char c :: nat) \<and> (of_char c :: nat) \<le> 90")
  case True
  then have "of_char (char_of ((of_char c :: nat) + 32) :: char) = (of_char c :: nat) + 32"
    by simp
  with True show ?thesis by (simp add: tolower_def)
next
  case False
  then show ?thesis by (auto simp: tolower_def)
qed

lemma lowercase_idem [simp]: "lowercase (lowercase s) = lowercase s"
  by (simp add: lowercase_def)

lemma length_lowercase [simp]: "length (lowercase s) = length s"
  by (simp add: lowercase_def)

lemma tolower_NUL_iff [simp]: "tolower c = NUL \<longleftrightarrow> c = NUL"
proof
  assume h: "tolower c = NUL"
  show "c = NUL"
  proof (cases "65 \<le> (of_char c :: nat) \<and> (of_char c :: nat) \<le> 90")
    case True
    then have "(of_char (tolower c) :: nat) = of_char c + 32"
      by (simp add: tolower_def)
    with h show ?thesis by simp
  qed (use h in \<open>auto simp: tolower_def\<close>)
qed (simp add: tolower_def)

lemma lowercase_no_NUL: "NUL \<in> set (lowercase s) \<longleftrightarrow> NUL \<in> set s"
proof (induction s)
  case (Cons c s)
  have "NUL = tolower c \<longleftrightarrow> NUL = c" using tolower_NUL_iff [of c] by metis
  with Cons show ?case by (simp add: lowercase_def)
qed (simp add: lowercase_def)

text \<open>\<open>strcspn\<close>: the length of the prefix without characters of the set.\<close>

definition strcspn :: "string \<Rightarrow> string \<Rightarrow> nat" where
  "strcspn s reject = length (takeWhile (\<lambda>c. c \<notin> set reject) s)"

lemma strcspn_eq_length: "strcspn s reject = length s \<longleftrightarrow> set s \<inter> set reject = {}"
  unfolding strcspn_def
  by (metis (no_types, lifting) disjoint_iff takeWhile_eq_all_conv takeWhile_eq_take take_all_iff
      order_refl)

text \<open>
  \<open>strtok_r\<close> with the delimiter \<open>","\<close>.  The saved pointer is the rest of the string after the
  token and its terminator.  Leading delimiters are skipped; \<open>None\<close> is the null pointer.
\<close>

definition strtok_r :: "string \<Rightarrow> char \<Rightarrow> (string \<times> string) option" where
  "strtok_r s delim =
     (let t = dropWhile (\<lambda>c. c = delim) s
      in if t = [] then None
         else Some (takeWhile (\<lambda>c. c \<noteq> delim) t,
                    drop 1 (dropWhile (\<lambda>c. c \<noteq> delim) t)))"

lemma strtok_r_shorter: "strtok_r s delim = Some (t, r) \<Longrightarrow> length r < length s"
proof -
  assume "strtok_r s delim = Some (t, r)"
  then have ne: "dropWhile (\<lambda>c. c = delim) s \<noteq> []"
    and r: "r = drop 1 (dropWhile (\<lambda>c. c \<noteq> delim) (dropWhile (\<lambda>c. c = delim) s))"
    by (auto simp: strtok_r_def Let_def split: if_splits)
  let ?d = "dropWhile (\<lambda>c. c = delim) s" and ?e = "\<lambda>t. dropWhile (\<lambda>c. c \<noteq> delim) t"
  have "length ?d \<le> length s" by (rule length_dropWhile_le)
  moreover have "length (?e ?d) \<le> length ?d" by (rule length_dropWhile_le)
  moreover have "0 < length ?d" using ne by blast
  ultimately show ?thesis unfolding r length_drop by linarith
qed

text \<open>The whole sequence of tokens that repeated calls return.\<close>

function strtok_all :: "string \<Rightarrow> char \<Rightarrow> string list" where
  "strtok_all s delim =
     (case strtok_r s delim of None \<Rightarrow> [] | Some (t, r) \<Rightarrow> t # strtok_all r delim)"
  by pat_completeness auto
termination
  by (relation "measure (\<lambda>(s, _). length s)") (auto dest: strtok_r_shorter)

declare strtok_all.simps [simp del]

end
