(* ===== verification/GHash.thy ===== *)
theory GHash
  imports Prelude
begin

text \<open>
  Hash tables: the interface the server relies on, and GLib's \<open>GHashTable\<close>.

  The server keeps its nicknames, clients, channels and channel members in tables of GLib, which
  is not part of the repository.  What the code relies on is their documented behaviour: a map
  from keys to values, where inserting an existing key replaces its value.  The model of a table
  is the association list of its entries with distinct keys (\<open>g_wf\<close>).  The order in which
  \<open>g_hash_table_iter_next\<close> visits the entries is not documented, so it is a parameter of the model
  (\<open>iter\<close> fields of the environment), of which only \<open>iteration_ok\<close> is ever used.

  Locale \<open>dict\<close> states what a client may rely on after an insertion, \<open>registry\<close> adds removal; the
  lemmas the server's nickname table needs are proved once inside \<open>registry\<close> and used through the
  interpretation \<open>gh\<close>.  The repository's own \<open>src/hashtable.c\<close> interprets \<open>dict\<close> (theory
  \<open>HashtableMap\<close>).
\<close>

subsection \<open>The interface\<close>

locale dict =
  fixes empty :: 't
    and lookup :: "'t \<Rightarrow> 'k \<Rightarrow> 'v option"
    and insert :: "'k \<Rightarrow> 'v \<Rightarrow> 't \<Rightarrow> 't option"   \<comment> \<open>\<open>None\<close>: the table refuses\<close>
    and inv :: "'t \<Rightarrow> bool"
  assumes inv_empty: "inv empty"
    and lookup_empty: "lookup empty k = None"
    and inv_insert: "inv t \<Longrightarrow> insert k v t = Some t' \<Longrightarrow> inv t'"
    and lookup_insert: "inv t \<Longrightarrow> insert k v t = Some t' \<Longrightarrow> lookup t' = (lookup t)(k \<mapsto> v)"
begin

fun insert_all :: "('k \<times> 'v) list \<Rightarrow> 't \<Rightarrow> 't option" where
  "insert_all [] t = Some t"
| "insert_all ((k, v) # kvs) t = Option.bind (insert k v t) (insert_all kvs)"

lemma insert_all_inv_lookup:
  "inv t \<Longrightarrow> insert_all kvs t = Some t' \<Longrightarrow> inv t' \<and> lookup t' = lookup t ++ map_of (rev kvs)"
proof (induction kvs t arbitrary: t' rule: insert_all.induct)
  case (2 k v kvs t)
  then obtain u where u: "insert k v t = Some u" "insert_all kvs u = Some t'"
    by (auto simp: bind_eq_Some_conv)
  have "inv u" and l: "lookup u = (lookup t)(k \<mapsto> v)"
    using inv_insert [OF "2.prems"(1) u(1)] lookup_insert [OF "2.prems"(1) u(1)] by auto
  have t': "inv t'" "lookup t' = lookup u ++ map_of (rev kvs)"
    using "2.IH" [OF u(1) \<open>inv u\<close> u(2)] by blast+
  have "lookup t ++ map_of (rev ((k, v) # kvs)) = (lookup t)(k \<mapsto> v) ++ map_of (rev kvs)"
    by (auto simp: map_add_def fun_eq_iff split: option.split)
  then show ?case using t' unfolding l by metis
qed simp

lemma insert_all_from_empty:
  "insert_all kvs empty = Some t \<Longrightarrow> inv t \<and> lookup t = map_of (rev kvs)"
  using insert_all_inv_lookup [OF inv_empty, of kvs t]
  by (auto simp: lookup_empty fun_eq_iff map_add_def split: option.split)

end

text \<open>
  A registry assigns keys to owners: \<open>owns t own\<close> says that the table holds exactly the key of
  every owner that has one.
\<close>

locale registry = dict empty lookup insert inv
  for empty :: 't
    and lookup :: "'t \<Rightarrow> 'k \<Rightarrow> 'v option"
    and insert :: "'k \<Rightarrow> 'v \<Rightarrow> 't \<Rightarrow> 't option"
    and inv :: "'t \<Rightarrow> bool" +
  fixes remove :: "'k \<Rightarrow> 't \<Rightarrow> 't"
  assumes inv_remove: "inv t \<Longrightarrow> inv (remove k t)"
    and lookup_remove: "inv t \<Longrightarrow> lookup (remove k t) = (lookup t)(k := None)"
begin

definition owns :: "'t \<Rightarrow> ('v \<Rightarrow> 'k option) \<Rightarrow> bool" where
  "owns t own \<longleftrightarrow> inv t \<and> (\<forall>k v. lookup t k = Some v \<longleftrightarrow> own v = Some k)"

lemma owns_inj: "owns t own \<Longrightarrow> own a = Some k \<Longrightarrow> own b = Some k \<Longrightarrow> a = b"
  unfolding owns_def by (metis option.inject)

lemma owns_empty: "owns empty (\<lambda>_. None)"
  by (simp add: owns_def inv_empty lookup_empty)

lemma owns_register:
  assumes "owns t own" and "own v = None" and "lookup t k = None" and "insert k v t = Some t'"
  shows "owns t' (own(v := Some k))"
proof -
  have t: "inv t" and o: "\<And>j u. lookup t j = Some u \<longleftrightarrow> own u = Some j"
    using assms(1) by (auto simp: owns_def)
  have l: "lookup t' = (lookup t)(k \<mapsto> v)" by (rule lookup_insert [OF t assms(4)])
  have no_k: "own u \<noteq> Some k" for u using o [of k u] assms(3) by simp
  have "(lookup t' j = Some u) = ((own(v := Some k)) u = Some j)" for j u
  proof (cases "j = k")
    case True
    then show ?thesis using no_k [of u] by (auto simp: l)
  next
    case False
    then show ?thesis using o [of j u] assms(2) by (auto simp: l)
  qed
  then show ?thesis using inv_insert [OF t assms(4)] by (simp add: owns_def)
qed

lemma owns_release:
  assumes "owns t own" and "own v = Some k"
  shows "owns (remove k t) (own(v := None))"
proof -
  have t: "inv t" and o: "\<And>j u. lookup t j = Some u \<longleftrightarrow> own u = Some j"
    using assms(1) by (auto simp: owns_def)
  have l: "lookup (remove k t) = (lookup t)(k := None)" by (rule lookup_remove [OF t])
  have only_v: "own u = Some k \<Longrightarrow> u = v" for u by (rule owns_inj [OF assms(1) _ assms(2)])
  have "(lookup (remove k t) j = Some u) = ((own(v := None)) u = Some j)" for j u
  proof (cases "j = k")
    case True
    then show ?thesis using only_v [of u] by (auto simp: l)
  next
    case False
    then show ?thesis using o [of j u] assms(2) by (auto simp: l)
  qed
  then show ?thesis using inv_remove [OF t] by (simp add: owns_def)
qed

lemma owns_rename:
  assumes "owns t own" and "own v = Some old" and "lookup t new = None"
    and "insert new v (remove old t) = Some t'"
  shows "owns t' (own(v := Some new))"
proof -
  have "lookup (remove old t) new = None"
    using assms(1,3) by (simp add: owns_def lookup_remove)
  with owns_register [OF owns_release [OF assms(1,2)] _ _ assms(4)] show ?thesis by simp
qed

end

subsection \<open>\<open>GHashTable\<close>\<close>

type_synonym ('k, 'v) ghash = "('k \<times> 'v) list"

definition g_empty :: "('k, 'v) ghash" where
  "g_empty = []"

definition g_lookup :: "('k, 'v) ghash \<Rightarrow> 'k \<Rightarrow> 'v option" where
  "g_lookup h = map_of h"

definition g_contains :: "('k, 'v) ghash \<Rightarrow> 'k \<Rightarrow> bool" where
  "g_contains h k = (map_of h k \<noteq> None)"

definition g_insert :: "'k \<Rightarrow> 'v \<Rightarrow> ('k, 'v) ghash \<Rightarrow> ('k, 'v) ghash" where
  "g_insert k v h = AList.update k v h"

definition g_remove :: "'k \<Rightarrow> ('k, 'v) ghash \<Rightarrow> ('k, 'v) ghash" where
  "g_remove k h = AList.delete k h"

definition g_size :: "('k, 'v) ghash \<Rightarrow> nat" where
  "g_size h = length h"

definition g_wf :: "('k, 'v) ghash \<Rightarrow> bool" where
  "g_wf h \<longleftrightarrow> distinct (map fst h)"

text \<open>What the code relies on about iteration: every entry is visited exactly once.\<close>

definition iteration_ok :: "(('k, 'v) ghash \<Rightarrow> ('k \<times> 'v) list) \<Rightarrow> bool" where
  "iteration_ok it \<longleftrightarrow> (\<forall>h. mset (it h) = mset h)"

lemma iteration_ok_id: "iteration_ok (\<lambda>h. h)"
  by (simp add: iteration_ok_def)

lemma iteration_ok_rev: "iteration_ok rev"
  by (simp add: iteration_ok_def)

lemma iteration_set: "iteration_ok it \<Longrightarrow> set (it h) = set h"
  unfolding iteration_ok_def by (metis set_mset_mset)

lemma iteration_length: "iteration_ok it \<Longrightarrow> length (it h) = length h"
  unfolding iteration_ok_def by (metis size_mset)

lemma g_wf_empty [simp]: "g_wf g_empty"
  by (simp add: g_wf_def g_empty_def)

lemma g_wf_insert [simp]: "g_wf h \<Longrightarrow> g_wf (g_insert k v h)"
  by (simp add: g_wf_def g_insert_def map_fst_update_distinct)

lemma g_wf_remove [simp]: "g_wf h \<Longrightarrow> g_wf (g_remove k h)"
  by (simp add: g_wf_def g_remove_def map_fst_delete_distinct)

lemma g_lookup_insert [simp]: "g_lookup (g_insert k v h) = (g_lookup h)(k \<mapsto> v)"
  by (simp add: g_lookup_def g_insert_def update_conv')

lemma g_lookup_remove [simp]: "g_lookup (g_remove k h) = (g_lookup h)(k := None)"
  by (simp add: g_lookup_def g_remove_def delete_conv')

lemma g_lookup_empty [simp]: "g_lookup g_empty k = None"
  by (simp add: g_lookup_def g_empty_def)

lemma g_contains_lookup: "g_contains h k \<longleftrightarrow> g_lookup h k \<noteq> None"
  by (simp add: g_contains_def g_lookup_def)

lemma g_lookup_in_set: "g_wf h \<Longrightarrow> g_lookup h k = Some v \<longleftrightarrow> (k, v) \<in> set h"
  by (simp add: g_wf_def g_lookup_def map_of_eq_Some_iff)

lemma g_size_zero_iff: "g_size h = 0 \<longleftrightarrow> (\<forall>k. g_lookup h k = None)"
  by (cases h) (auto simp: g_size_def g_lookup_def map_of_eq_None_iff split: if_splits)

interpretation gh: registry g_empty g_lookup "\<lambda>k v h. Some (g_insert k v h)" g_wf g_remove
  by unfold_locales auto

end
