(* ===== verification/State.thy ===== *)
theory State
  imports CStr GHash
begin

text \<open>
  The data of the server: the structs of \<open>include/*.h\<close> as records, and the whole process state
  as the record \<open>world\<close>.

  A \<open>client_s *\<close> or a \<open>channel_s *\<close> is an address; \<open>client_mem\<close> and \<open>channel_mem\<close> hold the
  objects that \<open>calloc\<close> returned and nobody freed, so following an address that is not there is
  \<open>UseAfterFree\<close>.  Fresh objects get the address \<open>next_addr\<close>, which is never reused.  There is one
  server, \<open>g_server\<close>, so \<open>client->server\<close> and the handlers' \<open>server\<close> argument are the field
  \<open>server\<close> of the world.  \<open>wire\<close> is the sequence of \<open>write\<close> calls, each with its descriptor and
  bytes; \<open>interest\<close> is the epoll interest list, from descriptors to registered handlers.
\<close>

abbreviation IRC_MSG_SIZE :: nat where "IRC_MSG_SIZE \<equiv> 512"
abbreviation IRC_NICK_SIZE :: nat where "IRC_NICK_SIZE \<equiv> 9"
abbreviation IRC_HOSTNAME_MAX :: nat where "IRC_HOSTNAME_MAX \<equiv> 63"
abbreviation CHANNEL_NAME_MAX :: nat where "CHANNEL_NAME_MAX \<equiv> 50"
abbreviation CHANNEL_TOPIC_MAX :: nat where "CHANNEL_TOPIC_MAX \<equiv> 255"
abbreviation HOSTNAME_MAX :: nat where "HOSTNAME_MAX \<equiv> 255"

type_synonym caddr = nat
type_synonym chaddr = nat

subsection \<open>Structs\<close>

record response_s =
  response :: "char list"        \<comment> \<open>\<open>char[IRC_MSG_SIZE + 1]\<close>\<close>
  resp_len :: nat

record conn_s =
  conn_fd :: int
  discardNext :: bool
  eagain :: "32 word"
  totalRead :: nat
  conn_responses :: "response_s list"   \<comment> \<open>the \<open>GQueue\<close>, head first\<close>
  conn_message :: "char list"    \<comment> \<open>\<open>char[IRC_MSG_SIZE]\<close>\<close>
  store :: "char list"           \<comment> \<open>\<open>char[IRC_MSG_SIZE]\<close>\<close>

record client_s =
  registered :: bool
  receivedNick :: bool
  receivedUser :: bool
  clientId :: int
  conn :: conn_s
  nickname :: "char list"        \<comment> \<open>\<open>char[IRC_NICK_SIZE + 1]\<close>\<close>
  username :: "char list"        \<comment> \<open>\<open>char[IRC_MSG_SIZE]\<close>\<close>
  client_hostname :: "char list" \<comment> \<open>\<open>char[IRC_HOSTNAME_MAX + 1]\<close>\<close>
  fullname :: "char list"        \<comment> \<open>\<open>char[IRC_MSG_SIZE]\<close>\<close>
  away :: bool
  away_message :: "char list"    \<comment> \<open>\<open>char[IRC_MSG_SIZE + 1]\<close>\<close>

record channel_s =
  chan_name :: "char list"       \<comment> \<open>\<open>char[CHANNEL_NAME_MAX + 1]\<close>\<close>
  chan_topic :: "char list"      \<comment> \<open>\<open>char[CHANNEL_TOPIC_MAX + 1]\<close>\<close>
  members :: "(int, caddr) ghash"
  member_modes :: "(int, nat) ghash"
  chan_private :: bool
  secret :: bool
  invite_only :: bool
  no_outside_messages :: bool
  moderated :: bool

record server_s =
  server_fd :: int
  idCounter :: int
  nicks :: "(string, int) ghash"
  clients :: "(int, caddr) ghash"
  channels :: "(string, chaddr) ghash"
  server_hostname :: "char list" \<comment> \<open>\<open>char[HOSTNAME_MAX]\<close>\<close>
  motd :: "cptr option"          \<comment> \<open>null, or the string \<open>Motd_Get\<close> returned\<close>
  nUsers :: "32 word"
  nServices :: "32 word"
  nUnknown :: "32 word"
  nOperators :: "32 word"
  nChannels :: "32 word"
  nServers :: "32 word"

text \<open>
  Event handlers of the reactor: function pointers are constructors, \<open>None\<close> is the null pointer.
\<close>

datatype handler_instance = Server_instance | Client_instance caddr
datatype read_event_func = Server_HandleReadEvent_fn | Client_HandleReadEvent_fn
datatype write_event_func = Server_HandleWriteEvent_fn | Client_HandleWriteEvent_fn

record reactor_event_handler_s =
  handler_fd :: int
  handler_inst :: handler_instance
  handle_read :: "read_event_func option"
  handle_write :: "write_event_func option"

record world =
  server :: server_s
  client_mem :: "caddr \<Rightarrow> client_s option"
  channel_mem :: "chaddr \<Rightarrow> channel_s option"
  next_addr :: nat
  interest :: "(int \<times> reactor_event_handler_s) list"
  wire :: "(int \<times> char list) list"

text \<open>What GLib decides and does not document: the iteration order of its tables.\<close>

record env =
  iter_members :: "(int, caddr) ghash \<Rightarrow> (int \<times> caddr) list"
  iter_channels :: "(string, chaddr) ghash \<Rightarrow> (string \<times> chaddr) list"

definition env_ok :: "env \<Rightarrow> bool" where
  "env_ok e \<longleftrightarrow> iteration_ok (iter_members e) \<and> iteration_ok (iter_channels e)"

subsection \<open>Access to the heap\<close>

definition get_client :: "world \<Rightarrow> caddr \<Rightarrow> client_s run" where
  "get_client w a = deref UseAfterFree (client_mem w a)"

definition get_channel :: "world \<Rightarrow> chaddr \<Rightarrow> channel_s run" where
  "get_channel w a = deref UseAfterFree (channel_mem w a)"

definition upd_client :: "caddr \<Rightarrow> (client_s \<Rightarrow> client_s) \<Rightarrow> world \<Rightarrow> world" where
  "upd_client a f w = w\<lparr>client_mem := (client_mem w)(a := map_option f (client_mem w a))\<rparr>"

definition upd_channel :: "chaddr \<Rightarrow> (channel_s \<Rightarrow> channel_s) \<Rightarrow> world \<Rightarrow> world" where
  "upd_channel a f w = w\<lparr>channel_mem := (channel_mem w)(a := map_option f (channel_mem w a))\<rparr>"

definition upd_server :: "(server_s \<Rightarrow> server_s) \<Rightarrow> world \<Rightarrow> world" where
  "upd_server f w = w\<lparr>server := f (server w)\<rparr>"

lemma get_client_eq [run_simps]: "get_client w a = Inr c \<longleftrightarrow> client_mem w a = Some c"
  by (simp add: get_client_def)

lemma get_channel_eq [run_simps]: "get_channel w a = Inr c \<longleftrightarrow> channel_mem w a = Some c"
  by (simp add: get_channel_def)

lemma upd_client_simps [simp]:
  "client_mem (upd_client a f w) b = (if b = a then map_option f (client_mem w a) else client_mem w b)"
  "server (upd_client a f w) = server w"
  "channel_mem (upd_client a f w) = channel_mem w"
  "wire (upd_client a f w) = wire w"
  "interest (upd_client a f w) = interest w"
  "next_addr (upd_client a f w) = next_addr w"
  by (simp_all add: upd_client_def)

lemma upd_channel_simps [simp]:
  "channel_mem (upd_channel a g w) b = (if b = a then map_option g (channel_mem w a) else channel_mem w b)"
  "server (upd_channel a g w) = server w"
  "client_mem (upd_channel a g w) = client_mem w"
  "wire (upd_channel a g w) = wire w"
  "interest (upd_channel a g w) = interest w"
  "next_addr (upd_channel a g w) = next_addr w"
  by (simp_all add: upd_channel_def)

lemma upd_server_simps [simp]:
  "server (upd_server h w) = h (server w)"
  "client_mem (upd_server h w) = client_mem w"
  "channel_mem (upd_server h w) = channel_mem w"
  "wire (upd_server h w) = wire w"
  "interest (upd_server h w) = interest w"
  "next_addr (upd_server h w) = next_addr w"
  by (simp_all add: upd_server_def)

subsection \<open>What sending does not touch\<close>

text \<open>
  Sending and in-place edits of the message buffer change, in a client, only the response queue
  and the contents of the message buffer of its connection.  \<open>view\<close> is the client heap without those
  two, and \<open>quiet w w'\<close> says that nothing but queues, message buffers and the wire differ.
  \<open>calm a w w'\<close> adds that no queue but \<open>a\<close>'s is left with a response in it that was empty before.
\<close>

definition core :: "client_s \<Rightarrow> client_s" where
  "core c = c\<lparr>conn := (conn c)\<lparr>conn_responses := [],
                               conn_message := replicate (length (conn_message (conn c))) NUL\<rparr>\<rparr>"

definition view :: "world \<Rightarrow> caddr \<Rightarrow> client_s option" where
  "view w a = map_option core (client_mem w a)"

definition idle :: "world \<Rightarrow> caddr \<Rightarrow> bool" where
  "idle w a \<longleftrightarrow> (\<forall>c. client_mem w a = Some c \<longrightarrow> conn_responses (conn c) = [])"

definition quiet :: "world \<Rightarrow> world \<Rightarrow> bool" where
  "quiet w w' \<longleftrightarrow> view w' = view w \<and> server w' = server w \<and> channel_mem w' = channel_mem w \<and>
     next_addr w' = next_addr w \<and> interest w' = interest w"

definition calm :: "caddr \<Rightarrow> world \<Rightarrow> world \<Rightarrow> bool" where
  "calm a w w' \<longleftrightarrow> quiet w w' \<and> (\<forall>b. b \<noteq> a \<longrightarrow> idle w b \<longrightarrow> idle w' b)"

lemma quiet_refl [simp, intro]: "quiet w w"
  by (simp add: quiet_def)

lemma quiet_trans [trans]: "quiet u v \<Longrightarrow> quiet v w \<Longrightarrow> quiet u w"
  by (simp add: quiet_def)

lemma calm_refl [simp, intro]: "calm a w w"
  by (simp add: calm_def)

lemma calm_trans [trans]: "calm a u v \<Longrightarrow> calm a v w \<Longrightarrow> calm a u w"
  by (auto simp: calm_def intro: quiet_trans)

lemma calm_quiet: "calm a w w' \<Longrightarrow> quiet w w'"
  by (simp add: calm_def)

lemma core_simps [simp]:
  "registered (core c) = registered c" "receivedNick (core c) = receivedNick c"
  "receivedUser (core c) = receivedUser c" "clientId (core c) = clientId c"
  "nickname (core c) = nickname c" "username (core c) = username c"
  "client_hostname (core c) = client_hostname c" "fullname (core c) = fullname c"
  "away (core c) = away c" "away_message (core c) = away_message c"
  "conn_fd (conn (core c)) = conn_fd (conn c)"
  "discardNext (conn (core c)) = discardNext (conn c)"
  "eagain (conn (core c)) = eagain (conn c)"
  "totalRead (conn (core c)) = totalRead (conn c)"
  "store (conn (core c)) = store (conn c)"
  "length (conn_message (conn (core c))) = length (conn_message (conn c))"
  by (simp_all add: core_def)

lemma core_core [simp]: "core (core c) = core c"
  by (simp add: core_def)

lemma view_SomeD: "view w a = Some v \<Longrightarrow> \<exists>c. client_mem w a = Some c \<and> v = core c"
  by (auto simp: view_def)

lemma view_SomeI: "client_mem w a = Some c \<Longrightarrow> view w a = Some (core c)"
  by (simp add: view_def)

lemma view_None: "view w a = None \<longleftrightarrow> client_mem w a = None"
  by (simp add: view_def)

text \<open>An update that neither reads nor writes the queue and the buffer acts on the view.\<close>

lemma view_upd_client:
  "(\<And>c. core (f c) = f (core c)) \<Longrightarrow> view (upd_client a f w) = (view w)(a := map_option f (view w a))"
  by (simp add: view_def fun_eq_iff option.map_comp comp_def)

lemma view_upd_client_quiet:
  "(\<And>c. core (f c) = core c) \<Longrightarrow> view (upd_client a f w) = view w"
  by (simp add: view_def fun_eq_iff option.map_comp comp_def)

lemma view_other [simp]:
  "view (upd_channel ch g w) = view w" "view (upd_server h w) = view w"
  "view (w\<lparr>wire := x\<rparr>) = view w" "view (w\<lparr>interest := i\<rparr>) = view w"
  "view (w\<lparr>channel_mem := cm\<rparr>) = view w" "view (w\<lparr>channel_mem := cm, next_addr := n\<rparr>) = view w"
  by (simp_all add: view_def fun_eq_iff)

lemma idle_other [simp]:
  "idle (upd_channel ch g w) = idle w" "idle (upd_server h w) = idle w"
  "idle (w\<lparr>wire := x\<rparr>) = idle w" "idle (w\<lparr>interest := i\<rparr>) = idle w"
  "idle (w\<lparr>channel_mem := cm\<rparr>) = idle w" "idle (w\<lparr>channel_mem := cm, next_addr := n\<rparr>) = idle w"
  by (simp_all add: idle_def fun_eq_iff)

lemma idle_upd_client:
  "(\<And>c. conn_responses (conn (f c)) = conn_responses (conn c)) \<Longrightarrow> idle (upd_client a f w) = idle w"
  by (auto simp: idle_def fun_eq_iff)

lemma idle_upd_other: "b \<noteq> a \<Longrightarrow> idle (upd_client a f w) b = idle w b"
  by (simp add: idle_def)

lemma quiet_upd_client: "(\<And>c. core (f c) = core c) \<Longrightarrow> quiet w (upd_client a f w)"
  by (simp add: quiet_def view_upd_client_quiet)

lemma calm_upd_client: "(\<And>c. core (f c) = core c) \<Longrightarrow> calm a w (upd_client a f w)"
  by (simp add: calm_def quiet_upd_client idle_upd_other)

lemma quiet_wire [simp]: "quiet w (w\<lparr>wire := x\<rparr>)"
  by (simp add: quiet_def)

lemma calm_wire [simp]: "calm a w (w\<lparr>wire := x\<rparr>)"
  by (simp add: calm_def)

lemma quiet_client_mem:
  "quiet w w' \<Longrightarrow> client_mem w a = Some c \<Longrightarrow> \<exists>c'. client_mem w' a = Some c' \<and> core c' = core c"
  unfolding quiet_def view_def fun_eq_iff by (metis map_option_eq_Some)

lemma quiet_client_mem':
  "quiet w w' \<Longrightarrow> client_mem w' a = Some c' \<Longrightarrow> \<exists>c. client_mem w a = Some c \<and> core c' = core c"
  unfolding quiet_def view_def fun_eq_iff by (metis map_option_eq_Some)

lemma core_eqD:
  assumes "core c = core d"
  shows "registered c = registered d" "receivedNick c = receivedNick d"
    "receivedUser c = receivedUser d" "clientId c = clientId d" "nickname c = nickname d"
    "username c = username d" "client_hostname c = client_hostname d" "fullname c = fullname d"
    "away c = away d" "away_message c = away_message d"
    "conn_fd (conn c) = conn_fd (conn d)" "discardNext (conn c) = discardNext (conn d)"
    "totalRead (conn c) = totalRead (conn d)" "store (conn c) = store (conn d)"
    "length (conn_message (conn c)) = length (conn_message (conn d))"
  using assms by (metis core_simps)+

end
