(* ===== verification/Printf.thy ===== *)
theory Printf
  imports State
begin

text \<open>
  \<open>sprintf\<close> and \<open>snprintf\<close> into the buffer of a fresh \<open>response_s\<close>.

  Every function of \<open>src/replies.c\<close> formats into \<open>response->response\<close>, an array of
  \<open>IRC_MSG_SIZE + 1\<close> bytes that its caller has just allocated, and its caller stores the returned
  length in \<open>response->len\<close>.  \<open>vformat\<close> reads the format string of the source; its arguments are
  \<open>S p\<close> for \<open>%s\<close> (a pointer), \<open>D i\<close> for \<open>%d\<close> and \<open>%03d\<close>, \<open>Ch c\<close> for \<open>%c\<close>.  \<open>sprintf_response\<close> is undefined when the text
  and its NUL do not fit; \<open>snprintf_response\<close> truncates the text, but returns the length of the
  whole text, as the C function does.
\<close>

subsection \<open>Decimal numbers\<close>

definition digit :: "nat \<Rightarrow> char" where
  "digit n = char_of (48 + n)"

fun nat_dec :: "nat \<Rightarrow> string" where
  "nat_dec n = (if n < 10 then [digit n] else nat_dec (n div 10) @ [digit (n mod 10)])"

declare nat_dec.simps [simp del]

definition dec :: "int \<Rightarrow> string" where
  "dec i = (if i < 0 then CHR ''-'' # nat_dec (nat (- i)) else nat_dec (nat i))"

definition dec03 :: "int \<Rightarrow> string" where
  "dec03 i = replicate (3 - length (dec i)) (CHR ''0'') @ dec i"

lemma digit_simps [simp]:
  "digit 0 = CHR ''0''" "digit (Suc 0) = CHR ''1''" "digit 1 = CHR ''1''" "digit 2 = CHR ''2''" "digit 3 = CHR ''3''"
  "digit 4 = CHR ''4''" "digit 5 = CHR ''5''" "digit 6 = CHR ''6''" "digit 7 = CHR ''7''"
  "digit 8 = CHR ''8''" "digit 9 = CHR ''9''"
  by code_simp+

lemma digit_not_NUL [simp]: "n < 10 \<Longrightarrow> digit n \<noteq> NUL"
proof
  assume "n < 10" and h: "digit n = NUL"
  from h have "(of_char (digit n) :: nat) = 0" by simp
  with \<open>n < 10\<close> show False by (simp add: digit_def)
qed

lemma nat_dec_no_NUL: "NUL \<notin> set (nat_dec n)"
proof (induction n rule: nat_dec.induct)
  case (1 n)
  show ?case
  proof (cases "n < 10")
    case True
    then have "digit n \<noteq> NUL" by simp
    with True show ?thesis by (subst nat_dec.simps) (simp del: digit_not_NUL)
  next
    case False
    have "digit (n mod 10) \<noteq> NUL" by (rule digit_not_NUL) simp
    with False 1 show ?thesis by (subst nat_dec.simps) (simp del: digit_not_NUL)
  qed
qed

lemma dec_no_NUL: "NUL \<notin> set (dec i)" "NUL \<notin> set (dec03 i)"
  using nat_dec_no_NUL by (auto simp: dec_def dec03_def)

lemma nat_dec_length: "n < 10 ^ k \<Longrightarrow> 0 < k \<Longrightarrow> length (nat_dec n) \<le> k"
proof (induction n arbitrary: k rule: nat_dec.induct)
  case (1 n)
  show ?case
  proof (cases "n < 10")
    case True
    with "1.prems" show ?thesis by (subst nat_dec.simps) simp
  next
    case False
    obtain j where k: "k = Suc j" using "1.prems"(2) by (cases k) auto
    with "1.prems" False have "0 < j" by (cases j) auto
    moreover have "n div 10 < 10 ^ j" using "1.prems"(1) k by (simp add: less_mult_imp_div_less mult.commute)
    ultimately have "length (nat_dec (n div 10)) \<le> j" using "1.IH" [OF False] by blast
    with False k show ?thesis by (subst nat_dec.simps) simp
  qed
qed

text \<open>A 32-bit value takes at most 11 characters.\<close>

lemma dec_sint32_length: "length (dec (sint (w :: 32 word))) \<le> 11"
proof -
  have "sint w < 2 ^ 31" "- (2 ^ 31) \<le> sint w"
    using sint_lt [of w] sint_ge [of w] by simp_all
  then have "nat (sint w) < 10 ^ 10" "nat (- sint w) < 10 ^ 10" by auto
  then have "length (nat_dec (nat (sint w))) \<le> 10" "length (nat_dec (nat (- sint w))) \<le> 10"
    by (auto intro: nat_dec_length)
  then show ?thesis by (simp add: dec_def)
qed

subsection \<open>Formatting\<close>

datatype farg = S cptr | D int | Ch char

fun vformat :: "string \<Rightarrow> farg list \<Rightarrow> string run" where
  "vformat [] as = Inr []"
| "vformat (c # cs) as =
     (if c \<noteq> CHR ''%'' then rbind (vformat cs as) (\<lambda>r. Inr (c # r))
      else case as of
        S p # as' \<Rightarrow>
          (if take 1 cs = ''s'' then
             rbind (cstr p) (\<lambda>s. rbind (vformat (drop 1 cs) as') (\<lambda>r. Inr (s @ r)))
           else Inl OutOfBounds)
      | D i # as' \<Rightarrow>
          (if take 1 cs = ''d'' then rbind (vformat (drop 1 cs) as') (\<lambda>r. Inr (dec i @ r))
           else if take 3 cs = ''03d'' then rbind (vformat (drop 3 cs) as') (\<lambda>r. Inr (dec03 i @ r))
           else Inl OutOfBounds)
      | Ch x # as' \<Rightarrow>
          (if take 1 cs = ''c'' then rbind (vformat (drop 1 cs) as') (\<lambda>r. Inr (x # r))
           else Inl OutOfBounds)
      | [] \<Rightarrow> Inl OutOfBounds)"

lemma vformat_CRLF [simp]: "vformat CRLF as = Inr CRLF"
  by (simp add: CRLF_def)

definition sprintf_response :: "string \<Rightarrow> farg list \<Rightarrow> response_s run" where
  "sprintf_response fmt args =
     rbind (vformat fmt args) (\<lambda>s.
       if length s < IRC_MSG_SIZE + 1 then
         Inr \<lparr>response = pad (IRC_MSG_SIZE + 1) s, resp_len = length s\<rparr>
       else Inl BufferOverflow)"

definition snprintf_response :: "string \<Rightarrow> farg list \<Rightarrow> response_s run" where
  "snprintf_response fmt args =
     rbind (vformat fmt args) (\<lambda>s.
       Inr \<lparr>response = pad (IRC_MSG_SIZE + 1) (take IRC_MSG_SIZE s), resp_len = length s\<rparr>)"

text \<open>What \<open>write(fd, response->response, response->len)\<close> sends.\<close>

definition resp_bytes :: "response_s \<Rightarrow> char list run" where
  "resp_bytes r =
     (if resp_len r \<le> length (response r) then Inr (take (resp_len r) (response r))
      else Inl OutOfBounds)"

definition text_response :: "string \<Rightarrow> response_s" where
  "text_response s = \<lparr>response = pad (IRC_MSG_SIZE + 1) s, resp_len = length s\<rparr>"

lemma resp_bytes_text: "length s \<le> IRC_MSG_SIZE \<Longrightarrow> resp_bytes (text_response s) = Inr s"
  by (simp add: resp_bytes_def text_response_def length_pad take_pad)

lemma sprintf_response_eq:
  "vformat fmt args = Inr s \<Longrightarrow>
     sprintf_response fmt args = (if length s \<le> IRC_MSG_SIZE then Inr (text_response s) else Inl BufferOverflow)"
  by (auto simp: sprintf_response_def text_response_def)

lemma snprintf_response_eq:
  "vformat fmt args = Inr s \<Longrightarrow> length s \<le> IRC_MSG_SIZE \<Longrightarrow>
     snprintf_response fmt args = Inr (text_response s)"
  by (auto simp: snprintf_response_def text_response_def)

text \<open>\<open>snprintf\<close> itself never overruns; the length it reports can exceed the array.\<close>

lemma snprintf_response_len:
  "vformat fmt args = Inr s \<Longrightarrow>
     \<exists>r. snprintf_response fmt args = Inr r \<and> length (response r) = IRC_MSG_SIZE + 1 \<and>
         resp_len r = length s"
  by (auto simp: snprintf_response_def length_pad)

lemma sprintf_response_Inr:
  "sprintf_response fmt args = Inr r \<Longrightarrow>
     length (response r) = IRC_MSG_SIZE + 1 \<and> resp_len r \<le> IRC_MSG_SIZE"
  by (auto simp: sprintf_response_def length_pad run_simps split: if_splits)

text \<open>Formatting is defined as soon as every pointer argument is terminated.\<close>

definition arg_ok :: "farg \<Rightarrow> bool" where
  "arg_ok a = (case a of S p \<Rightarrow> NUL \<in> set p | D _ \<Rightarrow> True | Ch _ \<Rightarrow> True)"

end
