(* ===== verification/Replies.thy ===== *)
theory Replies
  imports Printf
begin

text \<open>
  \<open>include/replies.h\<close>, \<open>include/codes.h\<close> and \<open>src/replies.c\<close>: the texts the server sends.

  One definition per format string and per formatting function, with the function's argument
  order; each returns the \<open>response_s\<close> its caller gets (text and length).  The lemmas say what
  each reply reads on the wire and when formatting it stays inside the response buffer.
\<close>

subsection \<open>Reply codes and formats\<close>

abbreviation (input) RPL_WELCOME :: int where "RPL_WELCOME \<equiv> 1"
abbreviation (input) RPL_MOTDSTART :: int where "RPL_MOTDSTART \<equiv> 375"
abbreviation (input) RPL_MOTD :: int where "RPL_MOTD \<equiv> 372"
abbreviation (input) RPL_ENDOFMOTD :: int where "RPL_ENDOFMOTD \<equiv> 376"
abbreviation (input) ERR_NOSUCHNICK :: int where "ERR_NOSUCHNICK \<equiv> 401"
abbreviation (input) ERR_NORECIPIENT :: int where "ERR_NORECIPIENT \<equiv> 411"
abbreviation (input) ERR_NOTEXTTOSEND :: int where "ERR_NOTEXTTOSEND \<equiv> 412"
abbreviation (input) ERR_NOMOTD :: int where "ERR_NOMOTD \<equiv> 422"
abbreviation (input) ERR_NONICKNAMEGIVEN :: int where "ERR_NONICKNAMEGIVEN \<equiv> 431"
abbreviation (input) ERR_ERRONEUSNICKNAME :: int where "ERR_ERRONEUSNICKNAME \<equiv> 432"
abbreviation (input) ERR_NICKNAMEINUSE :: int where "ERR_NICKNAMEINUSE \<equiv> 433"
abbreviation (input) ERR_NEEDMOREPARAMS :: int where "ERR_NEEDMOREPARAMS \<equiv> 461"

definition FORMAT_RPL_WELCOME :: string where
  "FORMAT_RPL_WELCOME = ''%03d %s :Welcome to the Internet Relay Network %s!%s@%s'' @ CRLF"

definition FMT_RPL_MOTDSTART :: string where
  "FMT_RPL_MOTDSTART = ''%d %s :- %s Message of the day - '' @ CRLF"

definition FMT_RPL_MOTD :: string where
  "FMT_RPL_MOTD = ''%d %s :- %s'' @ CRLF"

definition FMT_RPL_ENDOFMOTD :: string where
  "FMT_RPL_ENDOFMOTD = ''%d %s :End of MOTD command'' @ CRLF"

definition FMT_RPL_LUSERCLIENT :: string where
  "FMT_RPL_LUSERCLIENT = ''251 %s :There are %d users and %d services on %d servers'' @ CRLF"

definition FMT_RPL_LUSEROP :: string where
  "FMT_RPL_LUSEROP = ''252 %s %d :operator(s) online'' @ CRLF"

definition FMT_RPL_LUSERUNKNOWN :: string where
  "FMT_RPL_LUSERUNKNOWN = ''253 %s %d :unknown connection(s)'' @ CRLF"

definition FMT_RPL_LUSERCHANNELS :: string where
  "FMT_RPL_LUSERCHANNELS = ''254 %s %d :channels formed'' @ CRLF"

definition FMT_RPL_LUSERME :: string where
  "FMT_RPL_LUSERME = ''255 %s :I have %d clients and %d servers'' @ CRLF"

definition FMT_ERR_NORECIPIENT :: string where
  "FMT_ERR_NORECIPIENT = ''%d %s :No recipient given (%s)'' @ CRLF"

definition FMT_ERR_NOTEXTTOSEND :: string where
  "FMT_ERR_NOTEXTTOSEND = ''%d %s :No text to send'' @ CRLF"

definition FMT_MSG_PRIVMSG :: string where
  "FMT_MSG_PRIVMSG = ''%s!%s@%s PRIVMSG %s :%s'' @ CRLF"

definition FMT_MSG_PART :: string where
  "FMT_MSG_PART = ''%s!%s@%s PART %s :%s'' @ CRLF"

definition FMT_RPL_WHOISUSER :: string where
  "FMT_RPL_WHOISUSER = ''311 %s %s %s %s * :%s'' @ CRLF"

definition FMT_RPL_WHOISSERVER :: string where
  "FMT_RPL_WHOISSERVER = ''312 %s %s %s :%s'' @ CRLF"

definition FMT_RPL_ENDOFWHOIS :: string where
  "FMT_RPL_ENDOFWHOIS = ''318 %s %s :End of WHOIS list'' @ CRLF"

definition FMT_RPL_TOPIC :: string where
  "FMT_RPL_TOPIC = '':%s 332 %s %s :%s'' @ CRLF"

definition FMT_RPL_NOTOPIC :: string where
  "FMT_RPL_NOTOPIC = '':%s 331 %s %s :No topic is set'' @ CRLF"

definition FMT_MSG_JOIN :: string where
  "FMT_MSG_JOIN = '':%s!%s@%s JOIN %s'' @ CRLF"

definition FMT_RPL_NAMREPLY_PARTIAL :: string where
  "FMT_RPL_NAMREPLY_PARTIAL = '':%s 353 %s %s :''"

definition FMT_RPL_ENDOFNAMES :: string where
  "FMT_RPL_ENDOFNAMES = '':%s 366 %s %s :End of NAMES list'' @ CRLF"

definition FMT_RPL_LISTSTART :: string where
  "FMT_RPL_LISTSTART = '':%s 321 %s Channel :Users Name'' @ CRLF"

definition FMT_RPL_LIST :: string where
  "FMT_RPL_LIST = '':%s 322 %s %s %d :%s'' @ CRLF"

definition FMT_RPL_LISTEND :: string where
  "FMT_RPL_LISTEND = '':%s 323 %s :End of /LIST'' @ CRLF"

definition FMT_RPL_AWAY :: string where
  "FMT_RPL_AWAY = '':%s 301 %s %s :%s'' @ CRLF"

definition FMT_RPL_UNAWAY :: string where
  "FMT_RPL_UNAWAY = '':%s 305 %s :You are no longer marked as being away'' @ CRLF"

definition FMT_RPL_NOWAWAY :: string where
  "FMT_RPL_NOWAWAY = ''%s 306 %s :You have been marked as being away'' @ CRLF"

definition FMT_ERR_NOSUCHCHANNEL :: string where
  "FMT_ERR_NOSUCHCHANNEL = '':%s 403 %s %s :No such channel'' @ CRLF"

definition FMT_ERR_NOTONCHANNEL :: string where
  "FMT_ERR_NOTONCHANNEL = '':%s 442 %s %s :You're not on that channel'' @ CRLF"

definition STR_ERR_NOSUCHNICK :: string where
  "STR_ERR_NOSUCHNICK = '':No such nick/channel''"

definition STR_ERR_NOMOTD :: string where
  "STR_ERR_NOMOTD = '':MOTD File is missing''"

definition STR_ERR_NONICKNAMEGIVEN :: string where
  "STR_ERR_NONICKNAMEGIVEN = '':No nickname given''"

definition STR_ERR_NICKNAMEINUSE :: string where
  "STR_ERR_NICKNAMEINUSE = '':Nickname is already in use''"

definition STR_ERR_NEEDMOREPARAMS :: string where
  "STR_ERR_NEEDMOREPARAMS = '':Not enough parameters''"

definition STR_ERR_NOTREGISTERED :: string where
  "STR_ERR_NOTREGISTERED = '':You have not registered''"

definition STR_ERR_ALREADYREGISTERED :: string where
  "STR_ERR_ALREADYREGISTERED = '':You may not reregister''"

definition STR_ERR_UNKNOWNCOMMAND :: string where
  "STR_ERR_UNKNOWNCOMMAND = '':Unknown command''"

lemmas fmt_defs =
  FORMAT_RPL_WELCOME_def FMT_RPL_MOTDSTART_def FMT_RPL_MOTD_def FMT_RPL_ENDOFMOTD_def
  FMT_RPL_LUSERCLIENT_def FMT_RPL_LUSEROP_def FMT_RPL_LUSERUNKNOWN_def FMT_RPL_LUSERCHANNELS_def
  FMT_RPL_LUSERME_def FMT_ERR_NORECIPIENT_def FMT_ERR_NOTEXTTOSEND_def FMT_MSG_PRIVMSG_def
  FMT_MSG_PART_def FMT_RPL_WHOISUSER_def FMT_RPL_WHOISSERVER_def FMT_RPL_ENDOFWHOIS_def
  FMT_RPL_TOPIC_def FMT_RPL_NOTOPIC_def FMT_MSG_JOIN_def FMT_RPL_NAMREPLY_PARTIAL_def
  FMT_RPL_ENDOFNAMES_def FMT_RPL_LISTSTART_def FMT_RPL_LIST_def FMT_RPL_LISTEND_def
  FMT_RPL_AWAY_def FMT_RPL_UNAWAY_def FMT_RPL_NOWAWAY_def FMT_ERR_NOSUCHCHANNEL_def
  FMT_ERR_NOTONCHANNEL_def
  STR_ERR_NOSUCHNICK_def STR_ERR_NOMOTD_def STR_ERR_NONICKNAMEGIVEN_def STR_ERR_NICKNAMEINUSE_def
  STR_ERR_NEEDMOREPARAMS_def STR_ERR_NOTREGISTERED_def STR_ERR_ALREADYREGISTERED_def STR_ERR_UNKNOWNCOMMAND_def

text \<open>String literals, and \<open>NICK_OR_STAR\<close>.\<close>

definition lit :: "string \<Rightarrow> cptr" where
  "lit s = s @ [NUL]"

definition NICK_OR_STAR :: "client_s \<Rightarrow> cptr" where
  "NICK_OR_STAR c = (if receivedNick c then nickname c else lit ''*'')"

subsection \<open>The formatting functions\<close>

definition Reply_RplWelcome :: "client_s \<Rightarrow> response_s run" where
  "Reply_RplWelcome client =
     sprintf_response FORMAT_RPL_WELCOME
       [D RPL_WELCOME, S (nickname client), S (nickname client), S (username client), S (client_hostname client)]"

definition Reply_RplMotdStart :: "client_s \<Rightarrow> cptr \<Rightarrow> response_s run" where
  "Reply_RplMotdStart client srv_name =
     sprintf_response FMT_RPL_MOTDSTART
       [D RPL_MOTDSTART, S (NICK_OR_STAR client), S srv_name]"

definition Reply_RplMotd :: "client_s \<Rightarrow> cptr \<Rightarrow> response_s run" where
  "Reply_RplMotd client part =
     sprintf_response FMT_RPL_MOTD
       [D RPL_MOTD, S (NICK_OR_STAR client), S part]"

definition Reply_RplEndOfMotd :: "client_s \<Rightarrow> response_s run" where
  "Reply_RplEndOfMotd client =
     sprintf_response FMT_RPL_ENDOFMOTD
       [D RPL_ENDOFMOTD, S (NICK_OR_STAR client)]"

definition Reply_ErrNoSuchNick :: "client_s \<Rightarrow> cptr \<Rightarrow> response_s run" where
  "Reply_ErrNoSuchNick client nick =
     sprintf_response (''%d %s %s %s'' @ CRLF)
       [D ERR_NOSUCHNICK, S (NICK_OR_STAR client), S nick, S (lit STR_ERR_NOSUCHNICK)]"

definition Reply_ErrNoMotd :: "client_s \<Rightarrow> response_s run" where
  "Reply_ErrNoMotd client =
     snprintf_response (''%d %s %s'' @ CRLF)
       [D ERR_NOMOTD, S (NICK_OR_STAR client), S (lit STR_ERR_NOMOTD)]"

definition Reply_ErrNoNicknameGiven :: "client_s \<Rightarrow> response_s run" where
  "Reply_ErrNoNicknameGiven client =
     sprintf_response (''%d %s %s'' @ CRLF)
       [D ERR_NONICKNAMEGIVEN, S (NICK_OR_STAR client), S (lit STR_ERR_NONICKNAMEGIVEN)]"

definition Reply_ErrNicknameInUse :: "client_s \<Rightarrow> cptr \<Rightarrow> response_s run" where
  "Reply_ErrNicknameInUse client failedNick =
     sprintf_response (''%d %s %s %s'' @ CRLF)
       [D ERR_NICKNAMEINUSE, S (NICK_OR_STAR client), S failedNick, S (lit STR_ERR_NICKNAMEINUSE)]"

definition Reply_ErrNeedMoreParams :: "client_s \<Rightarrow> cptr \<Rightarrow> response_s run" where
  "Reply_ErrNeedMoreParams client failedCommand =
     sprintf_response (''%d %s %s %s'' @ CRLF)
       [D ERR_NEEDMOREPARAMS, S (NICK_OR_STAR client), S failedCommand, S (lit STR_ERR_NEEDMOREPARAMS)]"

definition Reply_ErrNoRecipient :: "client_s \<Rightarrow> cptr \<Rightarrow> response_s run" where
  "Reply_ErrNoRecipient client command_name =
     sprintf_response FMT_ERR_NORECIPIENT
       [D ERR_NORECIPIENT, S (NICK_OR_STAR client), S command_name]"

definition Reply_ErrNoTextToSend :: "client_s \<Rightarrow> response_s run" where
  "Reply_ErrNoTextToSend client =
     sprintf_response FMT_ERR_NOTEXTTOSEND
       [D ERR_NOTEXTTOSEND, S (NICK_OR_STAR client)]"

definition Reply_RplLUserClient :: "client_s \<Rightarrow> server_s \<Rightarrow> response_s run" where
  "Reply_RplLUserClient client srv =
     snprintf_response FMT_RPL_LUSERCLIENT
       [S (nickname client), D (sint (nUsers srv)), D (sint (nServices srv)), D 1]"

definition Reply_RplLUserOp :: "client_s \<Rightarrow> server_s \<Rightarrow> response_s run" where
  "Reply_RplLUserOp client srv =
     snprintf_response FMT_RPL_LUSEROP
       [S (nickname client), D (sint (nOperators srv))]"

definition Reply_RplLUserUnknown :: "client_s \<Rightarrow> server_s \<Rightarrow> response_s run" where
  "Reply_RplLUserUnknown client srv =
     snprintf_response FMT_RPL_LUSERUNKNOWN
       [S (nickname client), D (sint (nUnknown srv))]"

definition Reply_RplLUserChannels :: "client_s \<Rightarrow> server_s \<Rightarrow> response_s run" where
  "Reply_RplLUserChannels client srv =
     snprintf_response FMT_RPL_LUSERCHANNELS
       [S (nickname client), D (sint (nChannels srv))]"

definition Reply_RplLUserMe :: "client_s \<Rightarrow> server_s \<Rightarrow> response_s run" where
  "Reply_RplLUserMe client srv =
     snprintf_response FMT_RPL_LUSERME
       [S (nickname client), D (sint (nUsers srv + nUnknown srv)), D (sint (nServices srv))]"

definition Reply_RplWhoIsUser :: "client_s \<Rightarrow> client_s \<Rightarrow> response_s run" where
  "Reply_RplWhoIsUser client queried =
     snprintf_response FMT_RPL_WHOISUSER
       [S (nickname client), S (nickname queried), S (username queried), S (client_hostname queried), S (fullname queried)]"

text \<open>\<open>queried->server->hostname\<close> is the server's, passed as \<open>srv\<close>.\<close>

definition Reply_RplWhoIsServer :: "client_s \<Rightarrow> client_s \<Rightarrow> server_s \<Rightarrow> response_s run" where
  "Reply_RplWhoIsServer client queried srv =
     snprintf_response FMT_RPL_WHOISSERVER
       [S (nickname client), S (nickname queried), S (server_hostname srv), S (lit ''cIRC, version 0.1'')]"

definition Reply_RplEndOfWhoIs :: "client_s \<Rightarrow> client_s \<Rightarrow> response_s run" where
  "Reply_RplEndOfWhoIs client queried =
     snprintf_response FMT_RPL_ENDOFWHOIS
       [S (nickname client), S (nickname queried)]"

definition Reply_ErrNotRegistered :: "client_s \<Rightarrow> response_s run" where
  "Reply_ErrNotRegistered client =
     sprintf_response ''%d %s %s''
       [D 451, S (NICK_OR_STAR client), S (lit STR_ERR_NOTREGISTERED)]"

definition Reply_ErrAlreadyRegistered :: "client_s \<Rightarrow> response_s run" where
  "Reply_ErrAlreadyRegistered client =
     sprintf_response (''%d %s %s'' @ CRLF)
       [D 462, S (nickname client), S (lit STR_ERR_ALREADYREGISTERED)]"

definition Reply_ErrUnknownCommand :: "client_s \<Rightarrow> cptr \<Rightarrow> response_s run" where
  "Reply_ErrUnknownCommand client unknownCommand =
     sprintf_response (''%d %s %s %s'' @ CRLF)
       [D 421, S (NICK_OR_STAR client), S unknownCommand, S (lit STR_ERR_UNKNOWNCOMMAND)]"

definition Reply_Pong :: "cptr \<Rightarrow> response_s run" where
  "Reply_Pong host =
     sprintf_response (''PONG %s'' @ CRLF)
       [S host]"

definition Message_Privmsg :: "client_s \<Rightarrow> cptr \<Rightarrow> cptr \<Rightarrow> response_s run" where
  "Message_Privmsg client msgtarget contents =
     sprintf_response FMT_MSG_PRIVMSG
       [S (nickname client), S (username client), S (client_hostname client), S msgtarget, S contents]"

definition Format_MessageJoin :: "client_s \<Rightarrow> cptr \<Rightarrow> response_s run" where
  "Format_MessageJoin client channel =
     snprintf_response FMT_MSG_JOIN
       [S (nickname client), S (username client), S (client_hostname client), S channel]"

definition Reply_RplTopic :: "client_s \<Rightarrow> server_s \<Rightarrow> channel_s \<Rightarrow> response_s run" where
  "Reply_RplTopic client srv channel =
     snprintf_response FMT_RPL_TOPIC
       [S (server_hostname srv), S (nickname client), S (chan_name channel), S (chan_topic channel)]"

definition Reply_RplEndOfNames :: "client_s \<Rightarrow> server_s \<Rightarrow> channel_s \<Rightarrow> response_s run" where
  "Reply_RplEndOfNames client srv channel =
     snprintf_response FMT_RPL_ENDOFNAMES
       [S (server_hostname srv), S (nickname client), S (chan_name channel)]"

definition Reply_ErrNoSuchChannel :: "client_s \<Rightarrow> server_s \<Rightarrow> cptr \<Rightarrow> response_s run" where
  "Reply_ErrNoSuchChannel client srv channel_name =
     snprintf_response FMT_ERR_NOSUCHCHANNEL
       [S (server_hostname srv), S (nickname client), S channel_name]"

text \<open>The code formats with \<open>FMT_ERR_NOSUCHCHANNEL\<close> here, not with \<open>FMT_ERR_NOTONCHANNEL\<close>.\<close>

definition Reply_ErrNotOnChannel :: "client_s \<Rightarrow> server_s \<Rightarrow> channel_s \<Rightarrow> response_s run" where
  "Reply_ErrNotOnChannel client srv channel =
     snprintf_response FMT_ERR_NOSUCHCHANNEL
       [S (server_hostname srv), S (nickname client), S (chan_name channel)]"

text \<open>
  \<open>Reply_RplNamReply\<close> writes piece by piece at \<open>offset\<close>; the pieces written so far are \<open>acc\<close>.
\<close>

definition sprintf_at :: "string \<Rightarrow> string \<Rightarrow> farg list \<Rightarrow> string run" where
  "sprintf_at acc fmt args =
     rbind (vformat fmt args) (\<lambda>s.
       if length (acc @ s) < IRC_MSG_SIZE + 1 then Inr (acc @ s) else Inl BufferOverflow)"

definition namreply_step :: "world \<Rightarrow> int \<times> caddr \<Rightarrow> string \<times> bool \<Rightarrow> (string \<times> bool) run" where
  "namreply_step w entry st =
     rbind (get_client w (snd entry)) (\<lambda>member.
     rbind (sprintf_at (fst st) (if snd st then ''%s'' else '' %s'') [S (nickname member)]) (\<lambda>acc.
       Inr (acc, False)))"

definition Reply_RplNamReply ::
    "env \<Rightarrow> world \<Rightarrow> client_s \<Rightarrow> server_s \<Rightarrow> channel_s \<Rightarrow> response_s run" where
  "Reply_RplNamReply e w client srv channel =
     rbind (sprintf_at [] FMT_RPL_NAMREPLY_PARTIAL
              [S (server_hostname srv), S (nickname client), S (chan_name channel)]) (\<lambda>acc.
     rbind (rfold (namreply_step w) (iter_members e (members channel)) (acc, True)) (\<lambda>(acc, first).
     rbind (sprintf_at acc CRLF []) (\<lambda>acc.
       Inr (text_response acc))))"

definition Reply_RplListStart :: "client_s \<Rightarrow> server_s \<Rightarrow> response_s run" where
  "Reply_RplListStart client srv =
     snprintf_response FMT_RPL_LISTSTART
       [S (server_hostname srv), S (nickname client)]"

text \<open>\<open>*channel->topic ? channel->topic : ""\<close>; the user count is the constant 1.\<close>

definition Reply_RplList :: "client_s \<Rightarrow> server_s \<Rightarrow> channel_s \<Rightarrow> response_s run" where
  "Reply_RplList client srv channel =
     snprintf_response FMT_RPL_LIST
       [S (server_hostname srv), S (nickname client), S (chan_name channel), D 1, S (if take 1 (chan_topic channel) \<noteq> [NUL] then chan_topic channel else lit [])]"

definition Reply_RplListEnd :: "client_s \<Rightarrow> server_s \<Rightarrow> response_s run" where
  "Reply_RplListEnd client srv =
     snprintf_response FMT_RPL_LISTEND
       [S (server_hostname srv), S (nickname client)]"

definition Reply_RplNoTopic :: "client_s \<Rightarrow> server_s \<Rightarrow> channel_s \<Rightarrow> response_s run" where
  "Reply_RplNoTopic client srv channel =
     snprintf_response FMT_RPL_NOTOPIC
       [S (server_hostname srv), S (nickname client), S (chan_name channel)]"

definition Format_MessagePart :: "client_s \<Rightarrow> cptr \<Rightarrow> cptr option \<Rightarrow> response_s run" where
  "Format_MessagePart client channel part_message =
     snprintf_response FMT_MSG_PART
       [S (nickname client), S (username client), S (client_hostname client), S channel, S (case part_message of Some m \<Rightarrow> m | None \<Rightarrow> nickname client)]"

definition format_rpl_unaway :: "client_s \<Rightarrow> server_s \<Rightarrow> response_s run" where
  "format_rpl_unaway client srv =
     snprintf_response FMT_RPL_UNAWAY
       [S (server_hostname srv), S (nickname client)]"

definition format_rpl_nowaway :: "client_s \<Rightarrow> server_s \<Rightarrow> response_s run" where
  "format_rpl_nowaway client srv =
     snprintf_response FMT_RPL_NOWAWAY
       [S (server_hostname srv), S (nickname client)]"

definition format_rpl_away :: "client_s \<Rightarrow> server_s \<Rightarrow> cptr \<Rightarrow> cptr \<Rightarrow> response_s run" where
  "format_rpl_away client srv nick away_msg =
     snprintf_response FMT_RPL_AWAY
       [S (server_hostname srv), S (nickname client), S nick, S away_msg]"

end
