(* ===== verification/Client.thy ===== *)
theory Client
  imports Replies
begin

text \<open>
  \<open>src/client.c\<close>: sending to a client, registration, nicknames and the away status.

  A \<open>client_s *\<close> argument is an address \<open>a\<close>.  The response queue that the handlers call
  \<open>responses\<close> is always the queue of the client that sent the message (\<open>conn->responses\<close>), so it
  is that client's \<open>conn_responses\<close> field: a message a client sends to itself goes through the very
  queue its handler is filling.
\<close>

subsection \<open>The response queue\<close>

definition set_queue :: "response_s list \<Rightarrow> client_s \<Rightarrow> client_s" where
  "set_queue rs c = c\<lparr>conn := (conn c)\<lparr>conn_responses := rs\<rparr>\<rparr>"

text \<open>\<open>g_queue_push_tail(client->conn.responses, response)\<close>\<close>

definition push_tail :: "caddr \<Rightarrow> response_s \<Rightarrow> world \<Rightarrow> world" where
  "push_tail a r w = upd_client a (\<lambda>c. set_queue (conn_responses (conn c) @ [r]) c) w"

text \<open>The macro \<open>push_reply\<close>, and the three statements it abbreviates where they are written out.\<close>

definition push_reply :: "caddr \<Rightarrow> response_s run \<Rightarrow> world \<Rightarrow> world run" where
  "push_reply a reply w = rbind reply (\<lambda>r. Inr (push_tail a r w))"

definition queue_length :: "caddr \<Rightarrow> world \<Rightarrow> nat" where
  "queue_length a w = (case client_mem w a of None \<Rightarrow> 0 | Some c \<Rightarrow> length (conn_responses (conn c)))"

lemma set_queue_simps [simp]:
  "conn_responses (conn (set_queue rs c)) = rs" "conn_fd (conn (set_queue rs c)) = conn_fd (conn c)"
  "core (set_queue rs c) = core c" "set_queue rs (set_queue qs c) = set_queue rs c"
  by (simp_all add: set_queue_def core_def)

lemma set_queue_same [simp]: "conn_responses (conn c) = rs \<Longrightarrow> set_queue rs c = c"
  by (auto simp: set_queue_def)

text \<open>The loop: pop the head, write it, free it.\<close>

function Client_TryEmptyBuffer :: "caddr \<Rightarrow> world \<Rightarrow> world run" where
  "Client_TryEmptyBuffer a w =
     rbind (get_client w a) (\<lambda>c.
       case conn_responses (conn c) of
         [] \<Rightarrow> Inr w
       | r # rs \<Rightarrow>
           rbind (resp_bytes r) (\<lambda>bs.
             Client_TryEmptyBuffer a
               ((upd_client a (set_queue rs) w)\<lparr>wire := wire w @ [(conn_fd (conn c), bs)]\<rparr>)))"
  by pat_completeness auto
termination
  by (relation "measure (\<lambda>(a, w). queue_length a w)") (auto simp: queue_length_def get_client_eq)

declare Client_TryEmptyBuffer.simps [simp del]

definition Client_Send :: "caddr \<Rightarrow> response_s \<Rightarrow> world \<Rightarrow> world run" where
  "Client_Send a r w =
     rbind (get_client w a) (\<lambda>c. Client_TryEmptyBuffer a (push_tail a r w))"

subsection \<open>Registration and nicknames\<close>

text \<open>The second component of the result is \<open>*response\<close>.\<close>

definition Client_TryRegister :: "caddr \<Rightarrow> world \<Rightarrow> (world \<times> response_s option) run" where
  "Client_TryRegister a w =
     rbind (get_client w a) (\<lambda>c.
       if \<not> registered c \<and> receivedUser c \<and> receivedNick c then
         (let w = upd_server (\<lambda>s. s\<lparr>clients := g_insert (clientId c) a (clients s)\<rparr>) w;
              w = upd_client a (\<lambda>c. c\<lparr>registered := True\<rparr>) w;
              w = upd_server (\<lambda>s. s\<lparr>nUnknown := nUnknown s - 1\<rparr>) w;
              w = upd_server (\<lambda>s. s\<lparr>nUsers := nUsers s + 1\<rparr>) w
          in rbind (get_client w a) (\<lambda>c.
             rbind (Reply_RplWelcome c) (\<lambda>r. Inr (w, Some r))))
       else Inr (w, None))"

text \<open>\<open>nick\<close> is the string the argument points to.\<close>

definition Client_TryChangeNick ::
    "caddr \<Rightarrow> string \<Rightarrow> world \<Rightarrow> (world \<times> response_s option \<times> int) run" where
  "Client_TryChangeNick a nick w =
     rbind (get_client w a) (\<lambda>c.
       if g_contains (nicks (server w)) nick then
         rbind (Reply_ErrNicknameInUse c (lit nick)) (\<lambda>r. Inr (w, Some r, -1))
       else
         rbind (if receivedNick c then
                  rbind (cstr (nickname c)) (\<lambda>old.
                    Inr (upd_server (\<lambda>s. s\<lparr>nicks := g_remove old (nicks s)\<rparr>) w))
                else Inr w) (\<lambda>w.
         let w = upd_server (\<lambda>s. s\<lparr>nicks := g_insert nick (clientId c) (nicks s)\<rparr>) w in
         rbind (strcpy (nickname c) nick) (\<lambda>nn.
           Inr (upd_client a (\<lambda>c. c\<lparr>nickname := nn, receivedNick := True\<rparr>) w, None, 0))))"

subsection \<open>Away\<close>

definition client_set_away :: "caddr \<Rightarrow> string \<Rightarrow> world \<Rightarrow> world run" where
  "client_set_away a msg w =
     rbind (get_client w a) (\<lambda>c.
     rbind (strncpy (away_message c) msg IRC_MSG_SIZE) (\<lambda>am.
       Inr (upd_client a (\<lambda>c. c\<lparr>away := True, away_message := am\<rparr>) w)))"

definition client_unset_away :: "caddr \<Rightarrow> world \<Rightarrow> world run" where
  "client_unset_away a w =
     rbind (get_client w a) (\<lambda>c. Inr (upd_client a (\<lambda>c. c\<lparr>away := False\<rparr>) w))"

subsection \<open>What sending does\<close>

lemma push_tail_calm: "calm a w (push_tail a r w)"
  by (simp add: push_tail_def calm_upd_client)

lemma push_tail_simps [simp]:
  "server (push_tail a r w) = server w" "channel_mem (push_tail a r w) = channel_mem w"
  "wire (push_tail a r w) = wire w" "interest (push_tail a r w) = interest w"
  "next_addr (push_tail a r w) = next_addr w"
  "client_mem (push_tail a r w) b =
     (if b = a then map_option (\<lambda>c. set_queue (conn_responses (conn c) @ [r]) c) (client_mem w a)
      else client_mem w b)"
  by (simp_all add: push_tail_def)

lemma push_reply_calm: "push_reply a reply w = Inr w' \<Longrightarrow> calm a w w'"
  by (auto simp: push_reply_def push_tail_calm elim!: rbind_InrE)

lemma push_reply_wire: "push_reply a reply w = Inr w' \<Longrightarrow> wire w' = wire w"
  by (auto simp: push_reply_def elim!: rbind_InrE)

text \<open>Emptying a queue: nothing else changes, and the queue is empty.\<close>

lemma Client_TryEmptyBuffer_quiet:
  "Client_TryEmptyBuffer a w = Inr w' \<Longrightarrow>
     quiet w w' \<and> idle w' a \<and> (\<forall>b. b \<noteq> a \<longrightarrow> client_mem w' b = client_mem w b)"
proof (induction a w arbitrary: w' rule: Client_TryEmptyBuffer.induct)
  case (1 a w)
  from "1.prems" obtain c where c: "get_client w a = Inr c"
    by (subst (asm) Client_TryEmptyBuffer.simps) auto
  show ?case
  proof (cases "conn_responses (conn c)")
    case Nil
    then show ?thesis using "1.prems" c
      by (subst (asm) Client_TryEmptyBuffer.simps) (simp add: idle_def get_client_eq)
  next
    case (Cons r rs)
    let ?v = "\<lambda>bs. (upd_client a (set_queue rs) w)\<lparr>wire := wire w @ [(conn_fd (conn c), bs)]\<rparr>"
    from "1.prems" c Cons obtain bs where bs: "resp_bytes r = Inr bs"
      and rest: "Client_TryEmptyBuffer a (?v bs) = Inr w'"
      by (subst (asm) Client_TryEmptyBuffer.simps) auto
    have "quiet w (?v bs)"
      using quiet_trans [OF quiet_upd_client quiet_wire] by (metis set_queue_simps(3))
    moreover have "quiet (?v bs) w' \<and> idle w' a \<and> (\<forall>b. b \<noteq> a \<longrightarrow> client_mem w' b = client_mem (?v bs) b)"
      using "1.IH" [OF c Cons bs rest] .
    ultimately show ?thesis by (auto intro: quiet_trans)
  qed
qed

lemma Client_TryEmptyBuffer_calm: "Client_TryEmptyBuffer t w = Inr w' \<Longrightarrow> calm a w w'"
  using Client_TryEmptyBuffer_quiet [of t w w'] by (auto simp: calm_def idle_def)

lemma Client_Send_calm: "Client_Send t r w = Inr w' \<Longrightarrow> calm a w w'"
proof -
  assume "Client_Send t r w = Inr w'"
  then have "Client_TryEmptyBuffer t (push_tail t r w) = Inr w'"
    by (auto simp: Client_Send_def elim!: rbind_InrE)
  from Client_TryEmptyBuffer_quiet [OF this] show ?thesis
    using calm_quiet [OF push_tail_calm [of t w r]]
    by (auto simp: calm_def idle_def intro: quiet_trans)
qed

text \<open>The bytes of a list of responses, when every length is within its array.\<close>

fun all_bytes :: "response_s list \<Rightarrow> char list list run" where
  "all_bytes [] = Inr []"
| "all_bytes (r # rs) = rbind (resp_bytes r) (\<lambda>b. rbind (all_bytes rs) (\<lambda>bs. Inr (b # bs)))"

lemma all_bytes_append:
  "all_bytes rs = Inr bs \<Longrightarrow> all_bytes qs = Inr cs \<Longrightarrow> all_bytes (rs @ qs) = Inr (bs @ cs)"
  by (induction rs arbitrary: bs) (auto simp: run_simps)

lemma all_bytes_text:
  "\<forall>s\<in>set ss. length s \<le> IRC_MSG_SIZE \<Longrightarrow> all_bytes (map text_response ss) = Inr ss"
  by (induction ss) (auto simp: resp_bytes_text)

definition flushed :: "caddr \<Rightarrow> int \<Rightarrow> char list list \<Rightarrow> world \<Rightarrow> world" where
  "flushed a fd bss w = (upd_client a (set_queue []) w)\<lparr>wire := wire w @ map (Pair fd) bss\<rparr>"

lemma upd_client_twice: "upd_client a f (upd_client a g w) = upd_client a (f \<circ> g) w"
  by (auto simp: upd_client_def option.map_comp fun_eq_iff)

lemma upd_client_wire: "upd_client a f (w\<lparr>wire := x\<rparr>) = (upd_client a f w)\<lparr>wire := x\<rparr>"
  by (simp add: upd_client_def)

lemma Client_TryEmptyBuffer_writes:
  "client_mem w a = Some c \<Longrightarrow> all_bytes (conn_responses (conn c)) = Inr bss \<Longrightarrow>
     Client_TryEmptyBuffer a w = Inr (flushed a (conn_fd (conn c)) bss w)"
proof (induction "conn_responses (conn c)" arbitrary: w c bss)
  case Nil
  have "upd_client a (set_queue []) w = w"
    using Nil by (auto simp: upd_client_def fun_upd_idem)
  then show ?case
    using Nil by (subst Client_TryEmptyBuffer.simps) (simp add: get_client_def flushed_def)
next
  case (Cons r rs)
  let ?fd = "conn_fd (conn c)"
  from Cons.prems(2) Cons.hyps(2) obtain b bs where b: "resp_bytes r = Inr b" "all_bytes rs = Inr bs"
    "bss = b # bs"
    unfolding Cons.hyps(2) [symmetric] by (auto simp: run_simps)
  let ?v = "(upd_client a (set_queue rs) w)\<lparr>wire := wire w @ [(?fd, b)]\<rparr>"
  have "Client_TryEmptyBuffer a ?v = Inr (flushed a ?fd bs ?v)"
    using Cons.hyps(1) [of "set_queue rs c" ?v bs] b(2) Cons.prems(1) by simp
  moreover have "flushed a ?fd bs ?v = flushed a ?fd bss w"
    by (simp add: flushed_def upd_client_wire upd_client_twice b(3) comp_def)
  ultimately show ?case using Cons.prems(1) b(1)
    by (subst Client_TryEmptyBuffer.simps) (simp add: get_client_def Cons.hyps(2) [symmetric])
qed

text \<open>A client whose queue is empty is sent exactly the one message, at once.\<close>

lemma Client_Send_writes:
  assumes "client_mem w a = Some c" and "conn_responses (conn c) = []" and "resp_bytes r = Inr bs"
  shows "Client_Send a r w = Inr (w\<lparr>wire := wire w @ [(conn_fd (conn c), bs)]\<rparr>)"
proof -
  let ?w = "push_tail a r w"
  have "Client_TryEmptyBuffer a ?w = Inr (flushed a (conn_fd (conn c)) [bs] ?w)"
    using Client_TryEmptyBuffer_writes [of ?w a "set_queue [r] c" "[bs]"] assms by simp
  moreover have "upd_client a (set_queue []) ?w = w"
    using assms(1,2)
    by (cases w) (auto simp: push_tail_def upd_client_def fun_upd_idem)
  ultimately show ?thesis using assms(1)
    by (simp add: Client_Send_def get_client_def flushed_def)
qed

end
