(* ===== verification/ReplyTexts.thy ===== *)
theory ReplyTexts
  imports Client
begin

text \<open>
  The texts of the replies as plain strings, and when they fit.  A function that uses \<open>sprintf\<close> is
  undefined when its text is longer than the response buffer; one that uses \<open>snprintf\<close> then
  returns a length beyond the buffer, and writing the response reads past its end.
\<close>

named_theorems reply_texts \<open>what each reply reads\<close>

lemma dec_codes [simp]:
  "dec 372 = ''372''" "dec 375 = ''375''" "dec 376 = ''376''" "dec 401 = ''401''" "dec 411 = ''411''"
  "dec 412 = ''412''" "dec 421 = ''421''" "dec 422 = ''422''" "dec 431 = ''431''" "dec 433 = ''433''"
  "dec 451 = ''451''" "dec 461 = ''461''" "dec 462 = ''462''" "dec03 1 = ''001''" "dec 1 = ''1''"
  by code_simp+

lemma cstr_lit [simp]: "NUL \<notin> set s \<Longrightarrow> cstr (lit s) = Inr s"
  by (simp add: lit_def)

definition fits :: "string \<Rightarrow> response_s run" where
  "fits s = (if length s \<le> IRC_MSG_SIZE then Inr (text_response s) else Inl BufferOverflow)"

definition clipped :: "string \<Rightarrow> response_s run" where
  "clipped s = Inr \<lparr>response = pad (IRC_MSG_SIZE + 1) (take IRC_MSG_SIZE s), resp_len = length s\<rparr>"

lemma sprintf_fits: "vformat fmt args = Inr s \<Longrightarrow> sprintf_response fmt args = fits s"
  by (simp add: sprintf_response_eq fits_def)

lemma snprintf_clipped: "vformat fmt args = Inr s \<Longrightarrow> snprintf_response fmt args = clipped s"
  by (simp add: snprintf_response_def clipped_def)

lemma clipped_short: "length s \<le> IRC_MSG_SIZE \<Longrightarrow> clipped s = Inr (text_response s)"
  by (simp add: clipped_def text_response_def)

text \<open>Sending a clipped text sends it whole up to the array size, and overruns it beyond.\<close>

lemma clipped_bytes:
  "clipped s = Inr r \<Longrightarrow>
     resp_bytes r = (if length s \<le> IRC_MSG_SIZE then Inr s
                     else if length s = IRC_MSG_SIZE + 1 then Inr (take IRC_MSG_SIZE s @ [NUL])
                     else Inl OutOfBounds)"
  by (auto simp: clipped_def resp_bytes_def length_pad pad_def)

definition star_nick :: "client_s \<Rightarrow> string \<Rightarrow> string" where
  "star_nick c n = (if receivedNick c then n else ''*'')"

lemma NICK_OR_STAR_text [simp]: "cstr (nickname c) = Inr n \<Longrightarrow> cstr (NICK_OR_STAR c) = Inr (star_nick c n)"
  by (simp add: NICK_OR_STAR_def star_nick_def)

lemma Message_Privmsg_text [reply_texts]:
  "cstr (nickname c) = Inr n \<Longrightarrow> cstr (username c) = Inr u \<Longrightarrow> cstr (client_hostname c) = Inr h \<Longrightarrow>
   cstr tg = Inr t \<Longrightarrow> cstr ct = Inr m \<Longrightarrow>
   Message_Privmsg c tg ct = fits (n @ ''!'' @ u @ ''@'' @ h @ '' PRIVMSG '' @ t @ '' :'' @ m @ CRLF)"
  unfolding Message_Privmsg_def FMT_MSG_PRIVMSG_def by (rule sprintf_fits) (simp add: CRLF_def)

lemma Reply_RplWelcome_text [reply_texts]:
  "cstr (nickname c) = Inr n \<Longrightarrow> cstr (username c) = Inr u \<Longrightarrow> cstr (client_hostname c) = Inr h \<Longrightarrow>
   Reply_RplWelcome c =
     fits (''001 '' @ n @ '' :Welcome to the Internet Relay Network '' @ n @ ''!'' @ u @ ''@'' @ h @ CRLF)"
  unfolding Reply_RplWelcome_def FORMAT_RPL_WELCOME_def by (rule sprintf_fits) (simp add: CRLF_def)

lemma format_rpl_away_text [reply_texts]:
  "cstr (server_hostname s) = Inr sh \<Longrightarrow> cstr (nickname c) = Inr n \<Longrightarrow> cstr nk = Inr t \<Longrightarrow> cstr am = Inr m \<Longrightarrow>
   format_rpl_away c s nk am = clipped ('':'' @ sh @ '' 301 '' @ n @ '' '' @ t @ '' :'' @ m @ CRLF)"
  unfolding format_rpl_away_def FMT_RPL_AWAY_def by (rule snprintf_clipped) (simp add: CRLF_def)

lemma Reply_ErrNoSuchNick_text [reply_texts]:
  "cstr (nickname c) = Inr n \<Longrightarrow> cstr nk = Inr t \<Longrightarrow>
   Reply_ErrNoSuchNick c nk = fits (''401 '' @ star_nick c n @ '' '' @ t @ '' :No such nick/channel'' @ CRLF)"
  unfolding Reply_ErrNoSuchNick_def STR_ERR_NOSUCHNICK_def by (rule sprintf_fits) (simp add: CRLF_def)

lemma Reply_ErrNicknameInUse_text [reply_texts]:
  "cstr (nickname c) = Inr n \<Longrightarrow> cstr nk = Inr t \<Longrightarrow>
   Reply_ErrNicknameInUse c nk = fits (''433 '' @ star_nick c n @ '' '' @ t @ '' :Nickname is already in use'' @ CRLF)"
  unfolding Reply_ErrNicknameInUse_def STR_ERR_NICKNAMEINUSE_def by (rule sprintf_fits) (simp add: CRLF_def)

lemma Reply_RplMotdStart_text [reply_texts]:
  "cstr (nickname c) = Inr n \<Longrightarrow> cstr sn = Inr s \<Longrightarrow>
   Reply_RplMotdStart c sn = fits (''375 '' @ star_nick c n @ '' :- '' @ s @ '' Message of the day - '' @ CRLF)"
  unfolding Reply_RplMotdStart_def FMT_RPL_MOTDSTART_def by (rule sprintf_fits) (simp add: CRLF_def)

lemma Reply_RplMotd_text [reply_texts]:
  "cstr (nickname c) = Inr n \<Longrightarrow> cstr pt = Inr p \<Longrightarrow>
   Reply_RplMotd c pt = fits (''372 '' @ star_nick c n @ '' :- '' @ p @ CRLF)"
  unfolding Reply_RplMotd_def FMT_RPL_MOTD_def by (rule sprintf_fits) (simp add: CRLF_def)

lemma Reply_RplEndOfMotd_text [reply_texts]:
  "cstr (nickname c) = Inr n \<Longrightarrow>
   Reply_RplEndOfMotd c = fits (''376 '' @ star_nick c n @ '' :End of MOTD command'' @ CRLF)"
  unfolding Reply_RplEndOfMotd_def FMT_RPL_ENDOFMOTD_def by (rule sprintf_fits) (simp add: CRLF_def)

lemma Format_MessageJoin_text [reply_texts]:
  "cstr (nickname c) = Inr n \<Longrightarrow> cstr (username c) = Inr u \<Longrightarrow> cstr (client_hostname c) = Inr h \<Longrightarrow>
   cstr ch = Inr k \<Longrightarrow>
   Format_MessageJoin c ch = clipped ('':'' @ n @ ''!'' @ u @ ''@'' @ h @ '' JOIN '' @ k @ CRLF)"
  unfolding Format_MessageJoin_def FMT_MSG_JOIN_def by (rule snprintf_clipped) (simp add: CRLF_def)

lemma Reply_RplTopic_text [reply_texts]:
  "cstr (server_hostname s) = Inr sh \<Longrightarrow> cstr (nickname c) = Inr n \<Longrightarrow> cstr (chan_name k) = Inr kn \<Longrightarrow>
   cstr (chan_topic k) = Inr t \<Longrightarrow>
   Reply_RplTopic c s k = clipped ('':'' @ sh @ '' 332 '' @ n @ '' '' @ kn @ '' :'' @ t @ CRLF)"
  unfolding Reply_RplTopic_def FMT_RPL_TOPIC_def by (rule snprintf_clipped) (simp add: CRLF_def)

lemma Reply_RplList_text [reply_texts]:
  "cstr (server_hostname s) = Inr sh \<Longrightarrow> cstr (nickname c) = Inr n \<Longrightarrow> cstr (chan_name k) = Inr kn \<Longrightarrow>
   cstr (chan_topic k) = Inr t \<Longrightarrow>
   Reply_RplList c s k = clipped ('':'' @ sh @ '' 322 '' @ n @ '' '' @ kn @ '' 1 :'' @ t @ CRLF)"
  unfolding Reply_RplList_def FMT_RPL_LIST_def
proof (rule snprintf_clipped)
  assume a: "cstr (server_hostname s) = Inr sh" "cstr (nickname c) = Inr n" "cstr (chan_name k) = Inr kn"
    and t: "cstr (chan_topic k) = Inr t"
  have "take 1 (chan_topic k) = [NUL] \<Longrightarrow> t = []"
    using t by (cases "chan_topic k") (auto simp: cstr_def split: if_splits)
  then have "cstr (if take 1 (chan_topic k) \<noteq> [NUL] then chan_topic k else lit []) = Inr t"
    using t by (auto simp: lit_def)
  with a show "vformat ('':%s 322 %s %s %d :%s'' @ CRLF) [S (server_hostname s), S (nickname c),
      S (chan_name k), D 1, S (if take 1 (chan_topic k) \<noteq> [NUL] then chan_topic k else lit [])] =
      Inr ('':'' @ sh @ '' 322 '' @ n @ '' '' @ kn @ '' 1 :'' @ t @ CRLF)"
    by (simp add: CRLF_def)
qed

lemma Reply_RplLUser_text [reply_texts]:
  assumes "cstr (nickname c) = Inr n"
  shows "Reply_RplLUserClient c s = clipped (''251 '' @ n @ '' :There are '' @ dec (sint (nUsers s)) @
           '' users and '' @ dec (sint (nServices s)) @ '' services on 1 servers'' @ CRLF)"
    and "Reply_RplLUserUnknown c s = clipped (''253 '' @ n @ '' '' @ dec (sint (nUnknown s)) @
           '' :unknown connection(s)'' @ CRLF)"
    and "Reply_RplLUserMe c s = clipped (''255 '' @ n @ '' :I have '' @ dec (sint (nUsers s + nUnknown s)) @
           '' clients and '' @ dec (sint (nServices s)) @ '' servers'' @ CRLF)"
  unfolding Reply_RplLUserClient_def FMT_RPL_LUSERCLIENT_def Reply_RplLUserUnknown_def FMT_RPL_LUSERUNKNOWN_def
    Reply_RplLUserMe_def FMT_RPL_LUSERME_def
  by (rule snprintf_clipped, simp add: assms CRLF_def)+

text \<open>\<open>RPL_NAMREPLY\<close>: the loop collects the nicknames, separated by spaces.\<close>

fun joined :: "string list \<Rightarrow> string" where
  "joined [] = []"
| "joined [s] = s"
| "joined (s # t # ss) = s @ '' '' @ joined (t # ss)"

lemma joined_snoc: "ss \<noteq> [] \<Longrightarrow> joined (ss @ [s]) = joined ss @ '' '' @ s"
  by (induction ss rule: joined.induct) auto

lemma namreply_loop:
  assumes "\<forall>m\<in>set ms. \<exists>c. client_mem w (snd m) = Some c \<and> cstr (nickname c) = Inr (nk (snd m))"
    and "length acc + (if f then 0 else 1) + length (joined (map (\<lambda>x. nk (snd x)) ms)) \<le> IRC_MSG_SIZE"
  shows "rfold (namreply_step w) ms (acc, f) =
     Inr (acc @ (if f \<or> ms = [] then [] else '' '') @ joined (map (\<lambda>x. nk (snd x)) ms), f \<and> ms = [])"
  using assms
proof (induction ms arbitrary: acc f)
  case (Cons m ms)
  from Cons.prems(1) obtain c where c: "client_mem w (snd m) = Some c" "cstr (nickname c) = Inr (nk (snd m))"
    by auto
  let ?acc = "acc @ (if f then [] else '' '') @ nk (snd m)"
  have len: "length (nk (snd m)) \<le> length (joined (map (\<lambda>x. nk (snd x)) (m # ms)))"
    by (cases ms) auto
  have "length ?acc \<le> IRC_MSG_SIZE"
  proof -
    define L where "L = length (joined (map (\<lambda>x. nk (snd x)) (m # ms)))"
    have "length (nk (snd m)) \<le> L" "length acc + (if f then 0 else 1) + L \<le> IRC_MSG_SIZE"
      unfolding L_def using len Cons.prems(2) by blast+
    then show ?thesis by (cases f) auto
  qed
  then have "namreply_step w m (acc, f) = Inr (?acc, False)"
    using c by (cases f) (auto simp: namreply_step_def sprintf_at_def get_client_def)
  moreover have "rfold (namreply_step w) ms (?acc, False) =
     Inr (?acc @ (if ms = [] then [] else '' '') @ joined (map (\<lambda>x. nk (snd x)) ms), False)"
  proof -
    have "length ?acc + 1 + length (joined (map (\<lambda>x. nk (snd x)) ms)) \<le> IRC_MSG_SIZE" if "ms \<noteq> []"
      using Cons.prems(2) that by (cases ms) auto
    then show ?thesis using Cons.IH [of ?acc False] Cons.prems(1)
      by (cases "ms = []") auto
  qed
  moreover have "joined (map (\<lambda>x. nk (snd x)) (m # ms)) =
      nk (snd m) @ (if ms = [] then [] else '' '' @ joined (map (\<lambda>x. nk (snd x)) ms))"
    by (cases ms) auto
  ultimately show ?case by (simp del: joined.simps add: joined.simps(1))
qed auto

end
