(* ===== verification/Channel.thy ===== *)
theory Channel
  imports Client
begin

text \<open>
  \<open>src/channel.c\<close>: channels, their members, and forwarding a message to the members; and the
  channel operations of \<open>src/server.c\<close> (lookup, creation, removal) and \<open>client_join_channel\<close> of
  \<open>src/client.c\<close>.

  A \<open>channel_s *\<close> is an address \<open>ch\<close>.  The arguments \<open>name\<close> that the code lowercases in place are
  strings here; where the code goes on to use the buffer, the operation returns the lowercased
  string.
\<close>

subsection \<open>\<open>src/channel.c\<close>\<close>

definition channel_new :: "string \<Rightarrow> caddr \<Rightarrow> world \<Rightarrow> (world \<times> chaddr) run" where
  "channel_new name operator w =
     rbind (strncpy (replicate (CHANNEL_NAME_MAX + 1) NUL) name CHANNEL_NAME_MAX) (\<lambda>nm.
     rbind (get_client w operator) (\<lambda>c.
       let ch = next_addr w;
           channel = \<lparr>chan_name = nm, chan_topic = replicate (CHANNEL_TOPIC_MAX + 1) NUL,
                      members = g_insert (clientId c) operator g_empty, member_modes = g_empty,
                      chan_private = False, secret = False, invite_only = False,
                      no_outside_messages = False, moderated = False\<rparr>
       in Inr (w\<lparr>channel_mem := (channel_mem w)(ch \<mapsto> channel), next_addr := ch + 1\<rparr>, ch)))"

definition INVALID_CHARSET :: string where
  "INVALID_CHARSET = [CHR 0x07, CR, LF, CHR '','']"

text \<open>\<open>name[0]\<close> is the terminating NUL for the empty string.\<close>

definition channel_verify_name :: "string \<Rightarrow> int" where
  "channel_verify_name name =
     (if length name > CHANNEL_NAME_MAX then -1
      else if take 1 name \<in> {''&'', ''#'', ''+'', ''!''} then
        (if strcspn name INVALID_CHARSET \<noteq> length name then -1 else 0)
      else -1)"

text \<open>
  The loop of \<open>channel_send_message\<close>: a copy of the message to every member but the source.  The
  copy is a struct copy, so in the model it is the message itself.
\<close>

definition forward_step :: "response_s \<Rightarrow> int \<Rightarrow> int \<times> caddr \<Rightarrow> world \<Rightarrow> world run" where
  "forward_step message source entry w =
     (if fst entry \<noteq> source then Client_Send (snd entry) message w else Inr w)"

definition channel_send_message ::
    "env \<Rightarrow> chaddr \<Rightarrow> response_s \<Rightarrow> int \<Rightarrow> world \<Rightarrow> world run" where
  "channel_send_message e ch message source w =
     rbind (get_channel w ch) (\<lambda>channel.
       rfold (forward_step message source) (iter_members e (members channel)) w)"

definition channel_sendall_join :: "env \<Rightarrow> chaddr \<Rightarrow> caddr \<Rightarrow> world \<Rightarrow> world run" where
  "channel_sendall_join e ch source w =
     rbind (get_channel w ch) (\<lambda>channel.
     rbind (get_client w source) (\<lambda>c.
     rbind (Format_MessageJoin c (chan_name channel)) (\<lambda>r.
       channel_send_message e ch r (clientId c) w)))"

definition channel_sendall_part ::
    "env \<Rightarrow> chaddr \<Rightarrow> caddr \<Rightarrow> cptr option \<Rightarrow> world \<Rightarrow> world run" where
  "channel_sendall_part e ch source part_message w =
     rbind (get_channel w ch) (\<lambda>channel.
     rbind (get_client w source) (\<lambda>c.
     rbind (Format_MessagePart c (chan_name channel) part_message) (\<lambda>r.
       channel_send_message e ch r (clientId c) w)))"

definition channel_sendall_privmsg :: "env \<Rightarrow> chaddr \<Rightarrow> caddr \<Rightarrow> cptr \<Rightarrow> world \<Rightarrow> world run" where
  "channel_sendall_privmsg e ch source contents w =
     rbind (get_channel w ch) (\<lambda>channel.
     rbind (get_client w source) (\<lambda>c.
     rbind (Message_Privmsg c (chan_name channel) contents) (\<lambda>r.
       channel_send_message e ch r (clientId c) w)))"

definition channel_join :: "env \<Rightarrow> chaddr \<Rightarrow> caddr \<Rightarrow> world \<Rightarrow> (world \<times> int) run" where
  "channel_join e ch client w =
     rbind (get_channel w ch) (\<lambda>channel.
     rbind (get_client w client) (\<lambda>c.
       if g_lookup (members channel) (clientId c) \<noteq> None then Inr (w, 0)
       else rbind (channel_sendall_join e ch client
                     (upd_channel ch (\<lambda>k. k\<lparr>members := g_insert (clientId c) client (members k)\<rparr>) w))
              (\<lambda>w. Inr (w, 0))))"

definition channel_is_member :: "channel_s \<Rightarrow> client_s \<Rightarrow> bool" where
  "channel_is_member channel client = (g_lookup (members channel) (clientId client) \<noteq> None)"

definition channel_remove_member :: "chaddr \<Rightarrow> caddr \<Rightarrow> world \<Rightarrow> world run" where
  "channel_remove_member ch client w =
     rbind (get_channel w ch) (\<lambda>_.
     rbind (get_client w client) (\<lambda>c.
       Inr (upd_channel ch (\<lambda>k. k\<lparr>members := g_remove (clientId c) (members k),
                                  member_modes := g_remove (clientId c) (member_modes k)\<rparr>) w)))"

definition channel_size :: "channel_s \<Rightarrow> nat" where
  "channel_size channel = g_size (members channel)"

definition channel_set_topic :: "chaddr \<Rightarrow> string \<Rightarrow> world \<Rightarrow> world run" where
  "channel_set_topic ch topic w =
     rbind (get_channel w ch) (\<lambda>channel.
     rbind (strncpy (chan_topic channel) topic CHANNEL_TOPIC_MAX) (\<lambda>t.
       if CHANNEL_TOPIC_MAX < length t then
         Inr (upd_channel ch (\<lambda>k. k\<lparr>chan_topic := t[CHANNEL_TOPIC_MAX := NUL]\<rparr>) w)
       else Inl BufferOverflow))"

subsection \<open>The channel table of \<open>src/server.c\<close>\<close>

text \<open>Returns the name as the loop leaves it and the address found.\<close>

definition server_get_channel :: "server_s \<Rightarrow> string \<Rightarrow> string \<times> chaddr option" where
  "server_get_channel srv name = (lowercase name, g_lookup (channels srv) (lowercase name))"

definition server_create_channel :: "string \<Rightarrow> caddr \<Rightarrow> world \<Rightarrow> (world \<times> chaddr) run" where
  "server_create_channel name operator w =
     rbind (channel_new (lowercase name) operator w) (\<lambda>(w, ch).
       Inr (upd_server (\<lambda>s. s\<lparr>channels := g_insert (lowercase name) ch (channels s)\<rparr>) w, ch))"

definition server_remove_channel :: "chaddr \<Rightarrow> world \<Rightarrow> world run" where
  "server_remove_channel ch w =
     rbind (get_channel w ch) (\<lambda>channel.
     rbind (cstr (chan_name channel)) (\<lambda>name.
       let w = upd_server (\<lambda>s. s\<lparr>channels := g_remove name (channels s)\<rparr>) w in
       Inr (w\<lparr>channel_mem := (channel_mem w)(ch := None)\<rparr>)))"

definition client_join_channel :: "env \<Rightarrow> caddr \<Rightarrow> string \<Rightarrow> world \<Rightarrow> (world \<times> int) run" where
  "client_join_channel e client name w =
     (let name = lowercase name in
      if channel_verify_name name = -1 then Inr (w, -1)
      else case g_lookup (channels (server w)) name of
        Some ch \<Rightarrow> channel_join e ch client w
      | None \<Rightarrow>
          rbind (channel_new name client w) (\<lambda>(w, ch).
            Inr (upd_server (\<lambda>s. s\<lparr>channels := g_insert name ch (channels s)\<rparr>) w, 0)))"

subsection \<open>Frames\<close>

lemma rfold_calm:
  assumes "rfold f xs w = Inr w'" and "\<And>x u v. x \<in> set xs \<Longrightarrow> f x u = Inr v \<Longrightarrow> calm a u v"
  shows "calm a w w'"
  using assms(1) by (rule rfold_invariant [where P = "calm a w"]) (auto intro: calm_trans dest: assms(2))

lemma channel_send_message_calm: "channel_send_message e ch r source w = Inr w' \<Longrightarrow> calm a w w'"
  by (auto simp: channel_send_message_def forward_step_def elim!: rbind_InrE rfold_calm
      split: if_splits intro: Client_Send_calm)

lemma channel_sendall_calm:
  "channel_sendall_join e ch s w = Inr w' \<Longrightarrow> calm a w w'"
  "channel_sendall_part e ch s pm w = Inr w' \<Longrightarrow> calm a w w'"
  "channel_sendall_privmsg e ch s p w = Inr w' \<Longrightarrow> calm a w w'"
  by (auto simp: channel_sendall_join_def channel_sendall_part_def channel_sendall_privmsg_def
      elim!: rbind_InrE intro: channel_send_message_calm)

subsection \<open>Delivery\<close>

text \<open>
  The members a message goes to, in the order of the iteration, and what is written to them.
\<close>

definition recipients :: "env \<Rightarrow> channel_s \<Rightarrow> int \<Rightarrow> caddr list" where
  "recipients e channel source =
     map snd (filter (\<lambda>m. fst m \<noteq> source) (iter_members e (members channel)))"

definition fd_of :: "world \<Rightarrow> caddr \<Rightarrow> int" where
  "fd_of w a = (case client_mem w a of None \<Rightarrow> -1 | Some c \<Rightarrow> conn_fd (conn c))"

definition ready :: "world \<Rightarrow> caddr \<Rightarrow> bool" where
  "ready w a \<longleftrightarrow> client_mem w a \<noteq> None \<and> idle w a"

lemma forward_all:
  assumes "\<forall>m\<in>set ms. fst m \<noteq> source \<longrightarrow> ready w (snd m)" and "resp_bytes r = Inr bs"
  shows "rfold (forward_step r source) ms w =
     Inr (w\<lparr>wire := wire w @ map (\<lambda>a. (fd_of w a, bs)) (map snd (filter (\<lambda>m. fst m \<noteq> source) ms))\<rparr>)"
  using assms(1)
proof (induction ms arbitrary: w)
  case (Cons m ms)
  show ?case
  proof (cases "fst m = source")
    case True
    then show ?thesis using Cons by (simp add: forward_step_def)
  next
    case False
    with Cons.prems obtain c where c: "client_mem w (snd m) = Some c" "conn_responses (conn c) = []"
      by (auto simp: ready_def idle_def)
    let ?v = "w\<lparr>wire := wire w @ [(conn_fd (conn c), bs)]\<rparr>"
    have "forward_step r source m w = Inr ?v"
      using False Client_Send_writes [OF c assms(2)] by (simp add: forward_step_def)
    moreover have "\<forall>m\<in>set ms. fst m \<noteq> source \<longrightarrow> ready ?v (snd m)"
      using Cons.prems by (auto simp: ready_def)
    ultimately show ?thesis using Cons.IH [of ?v] False c by (simp add: fd_of_def cong: map_cong)
  qed
qed simp

lemma channel_send_message_delivers:
  assumes "channel_mem w ch = Some channel" and "resp_bytes r = Inr bs"
    and "\<forall>a\<in>set (recipients e channel source). ready w a"
  shows "channel_send_message e ch r source w =
     Inr (w\<lparr>wire := wire w @ map (\<lambda>a. (fd_of w a, bs)) (recipients e channel source)\<rparr>)"
  using forward_all [of "iter_members e (members channel)" source w r bs] assms
  by (auto simp: channel_send_message_def get_channel_def recipients_def)

lemma recipients_set:
  "env_ok e \<Longrightarrow> set (recipients e channel source) = {a. \<exists>i. (i, a) \<in> set (members channel) \<and> i \<noteq> source}"
  by (auto simp: recipients_def env_ok_def iteration_set image_iff)

lemma recipients_mset:
  "env_ok e \<Longrightarrow> mset (recipients e channel source) =
     image_mset snd (filter_mset (\<lambda>m. fst m \<noteq> source) (mset (members channel)))"
  by (simp add: recipients_def env_ok_def iteration_ok_def)

subsection \<open>Names\<close>

lemma server_get_channel_idem:
  "server_get_channel srv (fst (server_get_channel srv name)) = server_get_channel srv name"
  by (simp add: server_get_channel_def)

end
