(* ===== verification/Msgtok.thy ===== *)
theory Msgtok
  imports CStr
begin

text \<open>
  The tokenizer of \<open>src/msgtok.c\<close>.

  The buffer is the whole character array the caller passes, pointers into it are positions,
  and \<open>None\<close> is the null pointer.  \<open>msgtok_r\<close> writes NULs into the buffer, so it returns the new
  buffer with the token pointer, the token length and the saved pointer.  Reading at or past the
  end of the array is \<open>OutOfBounds\<close>.

  The second half gives the tokenizer's contract: on the line before the first CRLF it returns
  the tokens \<open>tok_next\<close> describes, one per call, as C strings inside the buffer, and reads and
  writes only inside the array.
\<close>

subsection \<open>The code\<close>

text \<open>\<open>while (*str == ' ') str++\<close>\<close>

function skip_spaces :: "char list \<Rightarrow> nat \<Rightarrow> nat run" where
  "skip_spaces buf i =
     (if i < length buf then (if buf ! i = SP then skip_spaces buf (i + 1) else Inr i)
      else Inl OutOfBounds)"
  by pat_completeness auto
termination by (relation "measure (\<lambda>(buf, i). length buf - i)") auto

text \<open>\<open>strstr(str, CRLF)\<close>: the first CRLF before the terminating NUL.\<close>

function strstr_crlf :: "char list \<Rightarrow> nat \<Rightarrow> nat option run" where
  "strstr_crlf buf i =
     (if i < length buf then
        (if buf ! i = NUL then Inr None
         else if buf ! i = CR then
           (if i + 1 < length buf then
              (if buf ! (i + 1) = LF then Inr (Some i) else strstr_crlf buf (i + 1))
            else Inl OutOfBounds)
         else strstr_crlf buf (i + 1))
      else Inl OutOfBounds)"
  by pat_completeness auto
termination by (relation "measure (\<lambda>(buf, i). length buf - i)") auto

text \<open>\<open>for (i = str; *i != 0 && i != end; i++) if (*i == ' ') ...\<close>\<close>

function find_space :: "char list \<Rightarrow> nat \<Rightarrow> nat \<Rightarrow> nat option run" where
  "find_space buf i fin =
     (if i < length buf then
        (if buf ! i = NUL \<or> i = fin then Inr None
         else if buf ! i = SP then Inr (Some i)
         else find_space buf (i + 1) fin)
      else Inl OutOfBounds)"
  by pat_completeness auto
termination by (relation "measure (\<lambda>(buf, i, _). length buf - i)") auto

declare skip_spaces.simps [simp del] strstr_crlf.simps [simp del] find_space.simps [simp del]

record tok_result =
  tok_buf :: "char list"
  tok :: "nat option"
  toklen :: nat
  saveptr :: "nat option"

definition msgtok_scan :: "char list \<Rightarrow> nat \<Rightarrow> nat option \<Rightarrow> tok_result run" where
  "msgtok_scan buf str save =
     rbind (strstr_crlf buf str) (\<lambda>e. case e of
       None \<Rightarrow> Inr \<lparr>tok_buf = buf, tok = None, toklen = 0, saveptr = save\<rparr>
     | Some fin \<Rightarrow>
         if buf ! str = CHR '':'' then
           Inr \<lparr>tok_buf = buf[fin := NUL], tok = Some (str + 1),
                toklen = fin - (str + 1), saveptr = None\<rparr>
         else
           rbind (find_space buf str fin) (\<lambda>sp. case sp of
             Some i \<Rightarrow>
               rbind (skip_spaces (buf[i := NUL]) (i + 1)) (\<lambda>p.
                 Inr \<lparr>tok_buf = buf[i := NUL], tok = Some str, toklen = i - str,
                      saveptr = Some p\<rparr>)
           | None \<Rightarrow>
               Inr \<lparr>tok_buf = buf[fin := NUL], tok = Some str, toklen = fin - str,
                    saveptr = None\<rparr>))"

definition msgtok_r :: "char list \<Rightarrow> nat option \<Rightarrow> nat option \<Rightarrow> tok_result run" where
  "msgtok_r buf str save =
     (case str of
        None \<Rightarrow>
          (case save of
             None \<Rightarrow> Inr \<lparr>tok_buf = buf, tok = None, toklen = 0, saveptr = save\<rparr>
           | Some p \<Rightarrow> msgtok_scan buf p save)
      | Some s \<Rightarrow> rbind (skip_spaces buf s) (\<lambda>p. msgtok_scan buf p save))"

text \<open>
  \<open>msgtok\<close> is the older version, with the saved pointer in the static variable \<open>msgtok_ptr\<close>,
  which is an argument here and the \<open>saveptr\<close> of the result.
\<close>

definition msgtok :: "char list \<Rightarrow> nat option \<Rightarrow> nat option \<Rightarrow> tok_result run" where
  "msgtok buf str msgtok_ptr =
     (case (str, msgtok_ptr) of
        (None, None) \<Rightarrow> Inr \<lparr>tok_buf = buf, tok = None, toklen = 0, saveptr = msgtok_ptr\<rparr>
      | _ \<Rightarrow>
        rbind (case str of Some s \<Rightarrow> skip_spaces buf s | None \<Rightarrow> deref NullDeref msgtok_ptr) (\<lambda>s.
        rbind (strstr_crlf buf s) (\<lambda>e. case e of
          None \<Rightarrow> Inr \<lparr>tok_buf = buf, tok = None, toklen = 0, saveptr = msgtok_ptr\<rparr>
        | Some fin \<Rightarrow>
            if buf ! s = CHR '':'' then
              Inr \<lparr>tok_buf = buf[fin := NUL], tok = Some (s + 1), toklen = fin - (s + 1),
                   saveptr = None\<rparr>
            else
              rbind (find_space buf s fin) (\<lambda>sp. case sp of
                Some i \<Rightarrow>
                  rbind (skip_spaces (buf[i := NUL]) (i + 1)) (\<lambda>p.
                    Inr \<lparr>tok_buf = buf[i := NUL], tok = Some s, toklen = i - s,
                         saveptr = Some p\<rparr>)
              | None \<Rightarrow>
                  Inr \<lparr>tok_buf = buf[fin := NUL], tok = Some s, toklen = fin - s,
                       saveptr = None\<rparr>))))"

subsection \<open>The tokens of a line\<close>

text \<open>
  A line is what stands before the first CRLF.  \<open>line_at buf p l\<close>: from \<open>p\<close> the buffer holds the
  line \<open>l\<close>, then CRLF.
\<close>

fun find_crlf :: "char list \<Rightarrow> nat option" where
  "find_crlf (c # d # cs) =
     (if c = CR \<and> d = LF then Some 0 else map_option Suc (find_crlf (d # cs)))"
| "find_crlf _ = None"

definition is_line :: "string \<Rightarrow> bool" where
  "is_line l \<longleftrightarrow> NUL \<notin> set l \<and> find_crlf l = None"

definition line_at :: "char list \<Rightarrow> nat \<Rightarrow> string \<Rightarrow> bool" where
  "line_at buf p l \<longleftrightarrow> p \<le> length buf \<and> is_line l \<and> (\<exists>r. drop p buf = l @ CRLF @ r)"

definition tok_next :: "string \<Rightarrow> string \<times> string option" where
  "tok_next l =
     (if l \<noteq> [] \<and> hd l = CHR '':'' then (tl l, None)
      else if SP \<in> set l then
        (takeWhile (\<lambda>c. c \<noteq> SP) l,
         Some (dropWhile (\<lambda>c. c = SP) (dropWhile (\<lambda>c. c \<noteq> SP) l)))
      else (l, None))"

subsection \<open>Lines\<close>

lemma find_crlf_Cons:
  "find_crlf (c # l) = None \<longleftrightarrow> \<not> (c = CR \<and> l \<noteq> [] \<and> hd l = LF) \<and> find_crlf l = None"
  by (cases l) auto

lemma is_line_Nil [simp]: "is_line []"
  by (simp add: is_line_def)

lemma is_line_ConsD: "is_line (c # l) \<Longrightarrow> is_line l \<and> c \<noteq> NUL \<and> \<not> (c = CR \<and> l \<noteq> [] \<and> hd l = LF)"
  by (auto simp: is_line_def find_crlf_Cons)

lemma is_line_dropWhile: "is_line l \<Longrightarrow> is_line (dropWhile P l)"
  by (induction l) (auto dest: is_line_ConsD)

lemma is_line_drop: "is_line l \<Longrightarrow> is_line (drop n l)"
proof (induction l arbitrary: n)
  case (Cons c l)
  then show ?case by (cases n) (auto dest: is_line_ConsD)
qed simp

lemma is_line_no_NUL: "is_line l \<Longrightarrow> NUL \<notin> set l"
  by (simp add: is_line_def)

lemma line_at_nth:
  "line_at buf p l \<Longrightarrow> i < length l \<Longrightarrow> p + i < length buf \<and> buf ! (p + i) = l ! i"
proof -
  assume h: "line_at buf p l" "i < length l"
  then obtain r where d: "drop p buf = l @ CRLF @ r" and p: "p \<le> length buf"
    by (auto simp: line_at_def)
  from d have "length (drop p buf) = length (l @ CRLF @ r)" by simp
  with h(2) p have "p + i < length buf" by simp
  moreover have "drop p buf ! i = l ! i" using d h(2) by (simp add: nth_append)
  ultimately show ?thesis using p by simp
qed

lemma line_at_crlf:
  assumes "line_at buf p l"
  shows "p + length l + 1 < length buf \<and> buf ! (p + length l) = CR \<and> buf ! (p + length l + 1) = LF"
proof -
  from assms obtain r where d: "drop p buf = l @ CRLF @ r" and p: "p \<le> length buf"
    by (auto simp: line_at_def)
  from d have "length (drop p buf) = length (l @ CRLF @ r)" by simp
  then have len: "p + length l + 1 < length buf" by (simp add: CRLF_def)
  have "drop p buf ! length l = CR" "drop p buf ! (length l + 1) = LF"
    using d by (simp_all add: nth_append CRLF_def)
  with len p show ?thesis by (simp add: add.assoc)
qed

lemma line_at_tl: "line_at buf p (c # l) \<Longrightarrow> line_at buf (p + 1) l"
  by (auto simp: line_at_def drop_Suc tl_drop [symmetric] dest: is_line_ConsD
      intro: Suc_leI le_neq_implies_less)

lemma line_at_drop:
  assumes "line_at buf p l" and "n \<le> length l"
  shows "line_at buf (p + n) (drop n l)"
proof -
  from assms obtain r where d: "drop p buf = l @ CRLF @ r" and p: "p \<le> length buf"
    by (auto simp: line_at_def)
  have "drop (p + n) buf = drop n (l @ CRLF @ r)" using d by (metis add.commute drop_drop)
  with assms(2) have "drop (p + n) buf = drop n l @ CRLF @ r" by simp
  moreover have "p + n \<le> length buf"
    using line_at_crlf [OF assms(1)] assms(2) by simp
  ultimately show ?thesis using assms(1) by (auto simp: line_at_def intro: is_line_drop)
qed

lemma line_at_update_before: "i < p \<Longrightarrow> line_at (buf[i := c]) p l = line_at buf p l"
  by (simp add: line_at_def)

subsection \<open>The scanning loops on a line\<close>

lemma strstr_crlf_line: "line_at buf p l \<Longrightarrow> strstr_crlf buf p = Inr (Some (p + length l))"
proof (induction l arbitrary: p)
  case Nil
  then show ?case
    using line_at_crlf [OF Nil] by (subst strstr_crlf.simps) simp
next
  case (Cons c l)
  have c: "p < length buf" "buf ! p = c" using line_at_nth [OF Cons.prems, of 0] by auto
  have tl: "line_at buf (p + 1) l" using Cons.prems by (rule line_at_tl)
  have ok: "c \<noteq> NUL" "\<not> (c = CR \<and> l \<noteq> [] \<and> hd l = LF)"
    using Cons.prems by (auto simp: line_at_def dest: is_line_ConsD)
  have next_c: "p + 1 < length buf \<and> buf ! (p + 1) = (if l = [] then CR else hd l)"
    using line_at_nth [OF tl, of 0] line_at_crlf [OF tl] by (cases l) auto
  have "strstr_crlf buf p = strstr_crlf buf (p + 1)"
    by (subst strstr_crlf.simps) (use c ok next_c in \<open>auto split: if_splits\<close>)
  with Cons.IH [OF tl] show ?case by simp
qed

lemma find_space_line:
  "line_at buf p l \<Longrightarrow> find_space buf p (p + length l) =
     Inr (if SP \<in> set l then Some (p + length (takeWhile (\<lambda>c. c \<noteq> SP) l)) else None)"
proof (induction l arbitrary: p)
  case Nil
  then show ?case using line_at_crlf [OF Nil] by (subst find_space.simps) simp
next
  case (Cons c l)
  have c: "p < length buf" "buf ! p = c" using line_at_nth [OF Cons.prems, of 0] by auto
  have tl: "line_at buf (p + 1) l" using Cons.prems by (rule line_at_tl)
  have ok: "c \<noteq> NUL" using Cons.prems by (auto simp: line_at_def dest: is_line_ConsD)
  show ?case
    by (subst find_space.simps) (use c ok Cons.IH [OF tl] in simp)
qed

lemma skip_spaces_line:
  "line_at buf p l \<Longrightarrow>
     skip_spaces buf p = Inr (p + length (takeWhile (\<lambda>c. c = SP) l)) \<and>
     line_at buf (p + length (takeWhile (\<lambda>c. c = SP) l)) (dropWhile (\<lambda>c. c = SP) l)"
proof (induction l arbitrary: p)
  case Nil
  then show ?case using line_at_crlf [OF Nil] by (subst skip_spaces.simps) simp
next
  case (Cons c l)
  have c: "p < length buf" "buf ! p = c" using line_at_nth [OF Cons.prems, of 0] by auto
  have tl: "line_at buf (p + 1) l" using Cons.prems by (rule line_at_tl)
  show ?case
    by (subst skip_spaces.simps) (use c Cons.IH [OF tl] Cons.prems in auto)
qed

subsection \<open>The contract of one call\<close>

text \<open>
  \<open>tok_spec buf p l R\<close>: \<open>R\<close> is what a call on the line \<open>l\<close> at \<open>p\<close> has to return: the token as a
  C string at or after \<open>p\<close>, its length, and the rest of the line, with everything before \<open>p\<close>
  untouched.
\<close>

definition tok_spec :: "char list \<Rightarrow> nat \<Rightarrow> string \<Rightarrow> tok_result \<Rightarrow> bool" where
  "tok_spec buf p l R \<longleftrightarrow>
     length (tok_buf R) = length buf \<and> take p (tok_buf R) = take p buf \<and>
     toklen R = length (fst (tok_next l)) \<and>
     (\<exists>q. tok R = Some q \<and> p \<le> q \<and> cstr (drop q (tok_buf R)) = Inr (fst (tok_next l)) \<and>
        (case snd (tok_next l) of
           None \<Rightarrow> saveptr R = None
         | Some l' \<Rightarrow> (\<exists>p'. saveptr R = Some p' \<and> q + length (fst (tok_next l)) < p' \<and>
                          line_at (tok_buf R) p' l')))"

lemma cstr_after_update:
  assumes "line_at buf p l" and "n \<le> length l" and "m \<le> n"
  shows "cstr (drop (p + m) (buf[p + n := NUL])) = Inr (drop m (take n l))"
proof -
  from assms(1) obtain r where d: "drop p buf = l @ CRLF @ r"
    by (auto simp: line_at_def)
  have nul: "NUL \<notin> set l" using assms(1) by (auto simp: line_at_def is_line_no_NUL)
  have "(drop p buf)[n := NUL] = drop p (buf[p + n := NUL])"
    by (simp add: drop_update_swap)
  then have "drop (p + m) (buf[p + n := NUL]) = drop m ((drop p buf)[n := NUL])"
    by (simp add: add.commute)
  also have "\<dots> = drop m ((l @ CRLF @ r)[n := NUL])" by (simp only: d)
  also have "(l @ CRLF @ r)[n := NUL] = take n l @ NUL # drop (n + 1) (l @ CRLF @ r)"
    using assms(2) by (subst upd_conv_take_nth_drop) (auto simp: CRLF_def)
  also have "drop m \<dots> = drop m (take n l) @ NUL # drop (n + 1) (l @ CRLF @ r)"
    using assms(2,3) by simp
  finally have "drop (p + m) (buf[p + n := NUL]) = \<dots>" .
  moreover have "NUL \<notin> set (drop m (take n l))"
    using nul by (meson in_set_dropD in_set_takeD)
  ultimately show ?thesis by simp
qed

lemma cstr_stable:
  assumes "cstr (drop q buf) = Inr t" and "q + length t < p" and "take p buf' = take p buf"
  shows "cstr (drop q buf') = Inr t"
proof -
  obtain r where r: "drop q buf = t @ NUL # r" using cstr_InrD [OF assms(1)] by blast
  have "take (p - q) (drop q buf') = take (p - q) (drop q buf)"
    using assms(3) by (metis take_drop take_add drop_take)
  also have "\<dots> = t @ NUL # take (p - q - length t - 1) r"
    using r assms(2) by (simp add: take_Cons' )
  finally have "drop q buf' = t @ NUL # take (p - q - length t - 1) r @ drop (p - q) (drop q buf')"
    by (metis append.assoc append_Cons append_take_drop_id)
  then show ?thesis using cstr_no_NUL [OF assms(1)] by simp
qed

lemma msgtok_scan_line:
  assumes l: "line_at buf p l"
  shows "\<exists>R. msgtok_scan buf p save = Inr R \<and> tok_spec buf p l R"
proof -
  have strstr: "strstr_crlf buf p = Inr (Some (p + length l))" by (rule strstr_crlf_line [OF l])
  have first: "l \<noteq> [] \<Longrightarrow> buf ! p = hd l"
    using line_at_nth [OF l, of 0] by (cases l) auto
  have empty: "l = [] \<Longrightarrow> buf ! p = CR" using line_at_crlf [OF l] by simp
  consider (colon) "l \<noteq> []" "hd l = CHR '':''"
    | (space) "\<not> (l \<noteq> [] \<and> hd l = CHR '':'')" "SP \<in> set l"
    | (last) "\<not> (l \<noteq> [] \<and> hd l = CHR '':'')" "SP \<notin> set l" by blast
  then show ?thesis
  proof cases
    case colon
    have "cstr (drop (p + 1) (buf[p + length l := NUL])) = Inr (tl l)"
      using cstr_after_update [OF l, of "length l" 1] colon(1) by (cases l) (auto simp: drop_Suc)
    then show ?thesis using colon first
      by (auto simp: msgtok_scan_def strstr tok_spec_def tok_next_def)
  next
    case space
    let ?n = "length (takeWhile (\<lambda>c. c \<noteq> SP) l)" and ?rest = "dropWhile (\<lambda>c. c \<noteq> SP) l"
    let ?buf = "buf[p + ?n := NUL]"
    have n: "?n \<le> length l" by (rule length_takeWhile_le)
    have tn: "take ?n l = takeWhile (\<lambda>c. c \<noteq> SP) l" by (simp add: takeWhile_eq_take [symmetric])
    have rest: "?rest \<noteq> []" "hd ?rest = SP"
      using space(2) hd_dropWhile [of "\<lambda>c. c \<noteq> SP" l] by (auto simp: dropWhile_eq_Nil_conv)
    have dr: "drop ?n l = ?rest" by (simp add: dropWhile_eq_drop)
    have lt: "?n < length l" using rest(1) dr by (metis drop_eq_Nil not_le)
    have tl_rest: "drop (?n + 1) l = tl ?rest" by (simp only: dr [symmetric] tl_drop drop_Suc Suc_eq_plus1 [symmetric])
    have "line_at buf (p + (?n + 1)) (drop (?n + 1) l)"
      using line_at_drop [OF l, of "?n + 1"] lt by simp
    then have "line_at buf (p + ?n + 1) (tl ?rest)"
      by (simp only: tl_rest add.assoc)
    then have l1: "line_at ?buf (p + ?n + 1) (tl ?rest)"
      by (simp add: line_at_update_before)
    have sk: "skip_spaces ?buf (p + ?n + 1) =
        Inr (p + ?n + 1 + length (takeWhile (\<lambda>c. c = SP) (tl ?rest)))"
      and l2: "line_at ?buf (p + ?n + 1 + length (takeWhile (\<lambda>c. c = SP) (tl ?rest)))
            (dropWhile (\<lambda>c. c = SP) (tl ?rest))"
      using skip_spaces_line [OF l1] by auto
    have dw: "dropWhile (\<lambda>c. c = SP) ?rest = dropWhile (\<lambda>c. c = SP) (tl ?rest)"
      using rest by (cases ?rest) auto
    have c: "cstr (drop p ?buf) = Inr (takeWhile (\<lambda>c. c \<noteq> SP) l)"
      using cstr_after_update [OF l n, of 0] tn by simp
    have fs: "find_space buf p (p + length l) = Inr (Some (p + ?n))"
      using find_space_line [OF l] space(2) by simp
    have nc: "buf ! p \<noteq> CHR '':''" using space first empty by (cases l) auto
    show ?thesis
      using space l2 sk c dw fs nc strstr
      by (auto simp: msgtok_scan_def tok_spec_def tok_next_def add.assoc)
  next
    case last
    have c: "cstr (drop p (buf[p + length l := NUL])) = Inr l"
      using cstr_after_update [OF l, of "length l" 0] by simp
    have fs: "find_space buf p (p + length l) = Inr None"
      using find_space_line [OF l] last(2) by simp
    have nc: "buf ! p \<noteq> CHR '':''" using last first empty by (cases l) auto
    show ?thesis using last c fs nc strstr
      by (auto simp: msgtok_scan_def tok_spec_def tok_next_def)
  qed
qed

lemma msgtok_r_first:
  assumes "line_at buf p l"
  shows "\<exists>R p'. msgtok_r buf (Some p) save = Inr R \<and> p \<le> p' \<and>
           line_at buf p' (dropWhile (\<lambda>c. c = SP) l) \<and>
           tok_spec buf p' (dropWhile (\<lambda>c. c = SP) l) R"
proof -
  let ?p = "p + length (takeWhile (\<lambda>c. c = SP) l)"
  from skip_spaces_line [OF assms]
  have sk: "skip_spaces buf p = Inr ?p" and l: "line_at buf ?p (dropWhile (\<lambda>c. c = SP) l)" by auto
  from msgtok_scan_line [OF l, of save] obtain R
    where "msgtok_scan buf ?p save = Inr R" "tok_spec buf ?p (dropWhile (\<lambda>c. c = SP) l) R" by blast
  with sk l show ?thesis by (auto simp: msgtok_r_def intro!: exI [of _ ?p])
qed

lemma msgtok_r_next:
  assumes "line_at buf p l"
  shows "\<exists>R. msgtok_r buf None (Some p) = Inr R \<and> tok_spec buf p l R"
  using msgtok_scan_line [OF assms] by (simp add: msgtok_r_def)

lemma msgtok_r_end: "msgtok_r buf None None = Inr \<lparr>tok_buf = buf, tok = None, toklen = 0, saveptr = None\<rparr>"
  by (simp add: msgtok_r_def)

subsection \<open>All tokens of a line\<close>

lemma tok_next_shorter: "tok_next l = (t, Some l') \<Longrightarrow> length l' < length l"
proof -
  assume h: "tok_next l = (t, Some l')"
  then have sp: "SP \<in> set l" and l': "l' = dropWhile (\<lambda>c. c = SP) (dropWhile (\<lambda>c. c \<noteq> SP) l)"
    by (auto simp: tok_next_def split: if_splits)
  let ?r = "dropWhile (\<lambda>c. c \<noteq> SP) l"
  have "?r \<noteq> []" using sp by (auto simp: dropWhile_eq_Nil_conv)
  moreover have "hd ?r = SP" using hd_dropWhile [of "\<lambda>c. c \<noteq> SP" l] \<open>?r \<noteq> []\<close> by auto
  ultimately obtain r where r: "?r = SP # r" by (cases ?r) auto
  have "length l' \<le> length r" unfolding l' r by (simp add: length_dropWhile_le)
  moreover have "length ?r \<le> length l" by (rule length_dropWhile_le)
  ultimately show ?thesis using r by simp
qed

function tokens :: "string \<Rightarrow> string list" where
  "tokens l = fst (tok_next l) #
     (case snd (tok_next l) of None \<Rightarrow> [] | Some l' \<Rightarrow> tokens l')"
  by pat_completeness auto
termination
proof (relation "measure length")
  fix l l' assume "snd (tok_next l) = Some l'"
  then have "tok_next l = (fst (tok_next l), Some l')" by (metis prod.collapse)
  then have "length l' < length l" by (rule tok_next_shorter)
  then show "(l', l) \<in> measure length" by simp
qed simp

declare tokens.simps [simp del]

text \<open>Calls with a null first argument until the null pointer is returned.\<close>

fun drain :: "nat \<Rightarrow> char list \<Rightarrow> nat option \<Rightarrow> (char list \<times> nat list) run" where
  "drain 0 buf save = Inl OutOfFuel"
| "drain (Suc n) buf save =
     rbind (msgtok_r buf None save) (\<lambda>R. case tok R of
       None \<Rightarrow> Inr (tok_buf R, [])
     | Some q \<Rightarrow> rbind (drain n (tok_buf R) (saveptr R)) (\<lambda>(buf', qs). Inr (buf', q # qs)))"

lemma drain_line:
  assumes "line_at buf p l" and "length l + 1 < n"
  shows "\<exists>buf' qs. drain n buf (Some p) = Inr (buf', qs) \<and> take p buf' = take p buf \<and>
           map (\<lambda>q. cstr (drop q buf')) qs = map Inr (tokens l)"
  using assms
proof (induction l arbitrary: n buf p rule: tokens.induct)
  case (1 l)
  obtain R where R: "msgtok_r buf None (Some p) = Inr R" and spec: "tok_spec buf p l R"
    using msgtok_r_next [OF "1.prems"(1)] by blast
  obtain q where q: "tok R = Some q" "p \<le> q" "cstr (drop q (tok_buf R)) = Inr (fst (tok_next l))"
    using spec by (auto simp: tok_spec_def)
  have tp: "take p (tok_buf R) = take p buf" using spec by (simp add: tok_spec_def)
  have "1 < n" using "1.prems"(2) by simp
  then obtain m where n: "n = Suc (Suc m)" by (auto simp: gr0_conv_Suc dest!: less_imp_Suc_add)
  show ?case
  proof (cases "snd (tok_next l)")
    case None
    then have sv: "saveptr R = None" using spec by (auto simp: tok_spec_def)
    then show ?thesis using R q tp None n
      by (simp add: msgtok_r_end tokens.simps [of l])
  next
    case (Some l')
    then obtain p' where sv: "saveptr R = Some p'" "q + length (fst (tok_next l)) < p'"
      and l': "line_at (tok_buf R) p' l'"
      using spec q by (auto simp: tok_spec_def)
    have "length l' < length l" using Some by (intro tok_next_shorter [of l "fst (tok_next l)"]) (metis prod.collapse)
    then have "length l' + 1 < Suc m" using "1.prems"(2) n by simp
    then obtain buf' qs where D: "drain (Suc m) (tok_buf R) (Some p') = Inr (buf', qs)"
      "take p' buf' = take p' (tok_buf R)" "map (\<lambda>q. cstr (drop q buf')) qs = map Inr (tokens l')"
      using "1.IH" [OF Some l'] by blast
    have "cstr (drop q buf') = Inr (fst (tok_next l))"
      by (rule cstr_stable [OF q(3) sv(2) D(2)])
    moreover have "take p buf' = take p buf"
      using D(2) q(2) sv(2) tp by (metis le_add1 less_imp_le le_trans min.absorb1 take_take)
    ultimately show ?thesis using R q(1) sv(1) D Some n
      by (simp add: tokens.simps [of l] del: drain.simps(2))
         (simp add: sv(1))
  qed
qed

subsection \<open>Memory safety on any terminated buffer\<close>

text \<open>\<open>stops buf p\<close>: from \<open>p\<close> on the array holds a NUL or a CRLF.\<close>

definition stops :: "char list \<Rightarrow> nat \<Rightarrow> bool" where
  "stops buf p \<longleftrightarrow> NUL \<in> set (drop p buf) \<or> find_crlf (drop p buf) \<noteq> None"

lemma stops_bound: "stops buf p \<Longrightarrow> p < length buf"
  by (rule ccontr) (simp add: stops_def)

lemma drop_unfold: "p < length buf \<Longrightarrow> drop p buf = buf ! p # drop (p + 1) buf"
  by (simp add: Cons_nth_drop_Suc)

lemma stops_step:
  assumes "stops buf p" and "buf ! p \<noteq> NUL"
    and "\<not> (buf ! p = CR \<and> p + 1 < length buf \<and> buf ! (p + 1) = LF)"
  shows "stops buf (p + 1)"
proof -
  have d: "drop p buf = buf ! p # drop (p + 1) buf" by (rule drop_unfold [OF stops_bound [OF assms(1)]])
  show ?thesis
  proof (cases "p + 1 < length buf")
    case True
    then have d': "drop (p + 1) buf = buf ! (p + 1) # drop (p + 1 + 1) buf" by (rule drop_unfold)
    have "find_crlf (drop p buf) = map_option Suc (find_crlf (drop (p + 1) buf))"
      using assms(3) True by (simp only: d d' find_crlf.simps) auto
    then show ?thesis using assms(1,2) unfolding stops_def by (auto simp: d simp del: drop_drop)
  next
    case False
    then have "drop (p + 1) buf = []" by simp
    then show ?thesis using assms(1,2) unfolding stops_def by (simp add: d)
  qed
qed

lemma skip_spaces_total:
  "stops buf p \<Longrightarrow> \<exists>p'. skip_spaces buf p = Inr p' \<and> p \<le> p' \<and> stops buf p'"
proof (induction buf p rule: skip_spaces.induct)
  case (1 buf p)
  have b: "p < length buf" using "1.prems" by (rule stops_bound)
  show ?case
  proof (cases "buf ! p = SP")
    case True
    then have "stops buf (p + 1)" using "1.prems" by (intro stops_step) auto
    then show ?thesis using "1.IH" [OF b True] True b
      by (subst skip_spaces.simps) auto
  next
    case False
    then show ?thesis using b "1.prems" by (subst skip_spaces.simps) auto
  qed
qed

lemma strstr_crlf_total:
  "stops buf p \<Longrightarrow> strstr_crlf buf p = Inr None \<or> (\<exists>l. line_at buf p l)"
proof (induction buf p rule: strstr_crlf.induct)
  case (1 buf p)
  have b: "p < length buf" using "1.prems" by (rule stops_bound)
  have d: "drop p buf = buf ! p # drop (p + 1) buf" by (rule drop_unfold [OF b])
  consider (nul) "buf ! p = NUL"
    | (crlf) "buf ! p = CR" "p + 1 < length buf" "buf ! (p + 1) = LF"
    | (step) "buf ! p \<noteq> NUL" "\<not> (buf ! p = CR \<and> p + 1 < length buf \<and> buf ! (p + 1) = LF)" by blast
  then show ?case
  proof cases
    case nul
    then show ?thesis using b by (subst strstr_crlf.simps) simp
  next
    case crlf
    have "drop p buf = [] @ CRLF @ drop (p + 1 + 1) buf"
      using d crlf drop_unfold [OF crlf(2)] by (simp add: CRLF_def)
    then have "line_at buf p []" using b unfolding line_at_def by (intro conjI exI) auto
    then show ?thesis by blast
  next
    case step
    have st: "stops buf (p + 1)" by (rule stops_step [OF "1.prems" step])
    then have b1: "p + 1 < length buf" by (rule stops_bound)
    have eq: "strstr_crlf buf p = strstr_crlf buf (p + 1)"
      using b b1 step by (subst strstr_crlf.simps) auto
    have "strstr_crlf buf (p + 1) = Inr None \<or> (\<exists>l. line_at buf (p + 1) l)"
      using "1.IH" b b1 step st by blast
    then show ?thesis
    proof
      assume "\<exists>l. line_at buf (p + 1) l"
      then obtain l r where l: "is_line l" "drop (p + 1) buf = l @ CRLF @ r"
        by (auto simp: line_at_def)
      have nth1: "buf ! (p + 1) = (l @ CRLF @ r) ! 0" using l(2) b1 by (metis add_0_right nth_drop less_imp_le)
      then have "\<not> (buf ! p = CR \<and> l \<noteq> [] \<and> hd l = LF)"
        using step(2) b1 by (cases l) (auto simp: nth_append)
      then have "is_line (buf ! p # l)" using l(1) step(1) by (auto simp: is_line_def find_crlf_Cons)
      moreover have "drop p buf = (buf ! p # l) @ CRLF @ r" using d l(2) by simp
      ultimately have "line_at buf p (buf ! p # l)" using b unfolding line_at_def by auto
      then show ?thesis by blast
    qed (simp add: eq)
  qed
qed

lemma crlf_stops: "stops (l @ CRLF @ r) 0"
proof -
  have "find_crlf (l @ CRLF @ r) \<noteq> None"
  proof (induction l)
    case Nil
    then show ?case by (simp add: CRLF_def)
  next
    case (Cons c l)
    then show ?case by (cases "l @ CRLF @ r") auto
  qed
  then show ?thesis by (simp add: stops_def)
qed

lemma line_at_skip_spaces:
  "skip_spaces buf p = Inr p' \<Longrightarrow> line_at buf p' l \<Longrightarrow> \<exists>l'. line_at buf p l'"
proof (induction buf p rule: skip_spaces.induct)
  case (1 buf p)
  show ?case
  proof (cases "p < length buf \<and> buf ! p = SP")
    case True
    then have "skip_spaces buf (p + 1) = Inr p'" using "1.prems"(1) by (simp add: skip_spaces.simps [of buf p])
    then obtain l' where l': "line_at buf (p + 1) l'" using "1.IH" True "1.prems"(2) by blast
    then obtain r where r: "drop (p + 1) buf = l' @ CRLF @ r" and line: "is_line l'" by (auto simp: line_at_def)
    have "drop p buf = (SP # l') @ CRLF @ r" using True r drop_unfold [of p buf] by simp
    moreover have "is_line (SP # l')" using line by (simp add: is_line_def find_crlf_Cons)
    ultimately have "line_at buf p (SP # l')" using True unfolding line_at_def by auto
    then show ?thesis by blast
  next
    case False
    then have "p' = p" using "1.prems"(1) by (auto simp: skip_spaces.simps [of buf p] split: if_splits)
    then show ?thesis using "1.prems"(2) by blast
  qed
qed

lemma msgtok_scan_total:
  assumes "stops buf p"
  shows "\<exists>R. msgtok_scan buf p save = Inr R \<and> length (tok_buf R) = length buf"
proof -
  from strstr_crlf_total [OF assms] consider "strstr_crlf buf p = Inr None" | l where "line_at buf p l"
    by blast
  then show ?thesis
  proof cases
    case 1
    then show ?thesis by (simp add: msgtok_scan_def)
  next
    case 2
    then show ?thesis using msgtok_scan_line [OF 2, of save] by (auto simp: tok_spec_def)
  qed
qed

subsection \<open>Rendering a message and tokenizing it again\<close>

text \<open>
  A message as the protocol writes it: words separated by single spaces, and an optional last
  parameter after a colon, which may hold spaces.
\<close>

definition word_ok :: "string \<Rightarrow> bool" where
  "word_ok w \<longleftrightarrow> w \<noteq> [] \<and> hd w \<noteq> CHR '':'' \<and> set w \<inter> {SP, NUL, CR, LF} = {}"

fun render :: "string list \<Rightarrow> string option \<Rightarrow> string" where
  "render [] t = (case t of None \<Rightarrow> [] | Some x \<Rightarrow> CHR '':'' # x)"
| "render (w # ws) t = w @ (if ws = [] \<and> t = None then [] else SP # render ws t)"

lemma tok_next_word:
  assumes "word_ok w"
  shows "tok_next (w @ SP # l) = (w, Some (dropWhile (\<lambda>c. c = SP) l))" and "tok_next w = (w, None)"
proof -
  have sp: "SP \<notin> set w" and hd: "w \<noteq> []" "hd w \<noteq> CHR '':''"
    using assms by (auto simp: word_ok_def)
  then have "\<forall>c \<in> set w. c \<noteq> SP" by auto
  then have tw: "takeWhile (\<lambda>c. c \<noteq> SP) (w @ SP # l) = w"
    and dw: "dropWhile (\<lambda>c. c \<noteq> SP) (w @ SP # l) = SP # l"
    by (simp_all add: takeWhile_append2 dropWhile_append2)
  show "tok_next (w @ SP # l) = (w, Some (dropWhile (\<lambda>c. c = SP) l))"
    using hd by (simp only: tok_next_def tw dw) simp
  show "tok_next w = (w, None)" using sp hd by (simp add: tok_next_def)
qed

lemma render_no_leading_space:
  assumes "\<forall>w \<in> set ws. word_ok w"
  shows "dropWhile (\<lambda>c. c = SP) (render ws t) = render ws t"
proof (cases ws)
  case Nil
  then show ?thesis by (simp split: option.split)
next
  case (Cons w vs)
  with assms have "w \<noteq> []" "SP \<notin> set w" by (auto simp: word_ok_def)
  then show ?thesis using Cons by (cases w) auto
qed

lemma tokens_render:
  assumes "\<forall>w \<in> set ws. word_ok w" and "(ws, t) \<noteq> ([], None)"
  shows "tokens (render ws t) = ws @ (case t of None \<Rightarrow> [] | Some x \<Rightarrow> [x])"
  using assms
proof (induction ws)
  case Nil
  then show ?case by (auto simp: tokens.simps [of "CHR '':'' # _"] tok_next_def)
next
  case (Cons w ws)
  then have w: "word_ok w" and ws: "\<forall>w \<in> set ws. word_ok w" by auto
  show ?case
  proof (cases "ws = [] \<and> t = None")
    case True
    then show ?thesis using w by (simp add: tokens.simps [of w] tok_next_word)
  next
    case False
    then show ?thesis using Cons.IH [OF ws] w render_no_leading_space [OF ws, of t]
      by (auto simp: tokens.simps [of "w @ SP # render ws t"] tok_next_word)
  qed
qed

subsection \<open>The tokens of a whole line\<close>

lemma tokenizes_line:
  assumes "line_at buf p l"
  shows "\<exists>R q buf' qs. msgtok_r buf (Some p) save = Inr R \<and> tok R = Some q \<and>
           drain (length l + 2) (tok_buf R) (saveptr R) = Inr (buf', qs) \<and>
           map (\<lambda>q. cstr (drop q buf')) (q # qs) = map Inr (tokens (dropWhile (\<lambda>c. c = SP) l))"
proof -
  let ?l = "dropWhile (\<lambda>c. c = SP) l"
  obtain R p1 where R: "msgtok_r buf (Some p) save = Inr R" and spec: "tok_spec buf p1 ?l R"
    using msgtok_r_first [OF assms] by blast
  obtain q where q: "tok R = Some q" "cstr (drop q (tok_buf R)) = Inr (fst (tok_next ?l))"
    using spec by (auto simp: tok_spec_def)
  show ?thesis
  proof (cases "snd (tok_next ?l)")
    case None
    then have "saveptr R = None" using spec by (auto simp: tok_spec_def)
    then show ?thesis using R q None by (simp add: msgtok_r_end tokens.simps [of ?l])
  next
    case (Some l')
    then obtain p' where sv: "saveptr R = Some p'" "q + length (fst (tok_next ?l)) < p'"
      and l': "line_at (tok_buf R) p' l'"
      using spec q by (auto simp: tok_spec_def)
    have "length l' < length ?l"
      using Some by (intro tok_next_shorter [of ?l "fst (tok_next ?l)"]) (metis prod.collapse)
    then have "length l' + 1 < length l + 2"
      using length_dropWhile_le [of "\<lambda>c. c = SP" l] by linarith
    then obtain buf' qs where D: "drain (length l + 2) (tok_buf R) (Some p') = Inr (buf', qs)"
      "take p' buf' = take p' (tok_buf R)" "map (\<lambda>q. cstr (drop q buf')) qs = map Inr (tokens l')"
      using drain_line [OF l'] by blast
    have "cstr (drop q buf') = Inr (fst (tok_next ?l))" by (rule cstr_stable [OF q(2) sv(2) D(2)])
    then show ?thesis using R q(1) sv(1) D Some by (auto simp: tokens.simps [of ?l])
  qed
qed

subsection \<open>Properties\<close>

text \<open>
  Memory safety of \<open>msgtok_r\<close>.  Whatever the bytes are, if the array holds a NUL or a CRLF
  at or after the position the call starts from (the string, or the saved pointer), no read or
  write leaves the array: the call returns, and the array keeps its length.
\<close>

theorem msgtok_r_memory_safe:
  assumes "case str of Some p \<Rightarrow> stops buf p | None \<Rightarrow> (case save of Some p \<Rightarrow> stops buf p | None \<Rightarrow> True)"
  shows "\<exists>R. msgtok_r buf str save = Inr R \<and> length (tok_buf R) = length buf"
proof (cases str)
  case None
  then show ?thesis using assms msgtok_scan_total
    by (auto simp: msgtok_r_def split: option.splits)
next
  case (Some p)
  with assms obtain p' where "skip_spaces buf p = Inr p'" "stops buf p'"
    using skip_spaces_total by fastforce
  with Some msgtok_scan_total show ?thesis by (fastforce simp: msgtok_r_def)
qed

theorem msgtok_r_memory_safe_witness:
  "\<exists>R. msgtok_r [SP, CHR ''A'', CR, LF] (Some 0) None = Inr R \<and> length (tok_buf R) = 4"
  using msgtok_r_memory_safe [where str = "Some 0" and buf = "[SP, CHR ''A'', CR, LF]" and save = None]
  by (simp add: stops_def numeral_eq_Suc)

text \<open>
  C15: the tokenizer computes the tokens of the line.  If the array holds a line followed by CRLF,
  a first call followed by calls with a null pointer returns exactly the tokens of that line
  (leading spaces skipped), and when it is done every returned pointer still reads its token as
  a C string: later calls never disturb an earlier token.
\<close>

theorem msgtok_r_tokenizes:
  assumes "line_at buf p l"
  shows "\<exists>R q buf' qs. msgtok_r buf (Some p) save = Inr R \<and> tok R = Some q \<and>
           drain (length l + 2) (tok_buf R) (saveptr R) = Inr (buf', qs) \<and>
           map (\<lambda>q. cstr (drop q buf')) (q # qs) = map Inr (tokens (dropWhile (\<lambda>c. c = SP) l))"
  by (rule tokenizes_line [OF assms])

theorem msgtok_r_tokenizes_witness:
  "\<exists>R q buf' qs. msgtok_r (''PASS :a b'' @ CRLF) (Some 0) None = Inr R \<and> tok R = Some q \<and>
     drain 11 (tok_buf R) (saveptr R) = Inr (buf', qs) \<and>
     map (\<lambda>q. cstr (drop q buf')) (q # qs) = [Inr ''PASS'', Inr ''a b'']"
proof -
  have l: "line_at (''PASS :a b'' @ CRLF) 0 ''PASS :a b''"
    by (simp add: line_at_def is_line_def)
  have "tokens (dropWhile (\<lambda>c. c = SP) ''PASS :a b'') = [''PASS'', ''a b'']"
    by (simp add: tokens.simps tok_next_def)
  with msgtok_r_tokenizes [OF l, of None] show ?thesis
    by (simp add: numeral_eq_Suc del: drain.simps)
qed

text \<open>
  C29: rendering then tokenizing is the identity.  A message written as words separated by single
  spaces, with an optional colon parameter, comes back from \<open>msgtok_r\<close> as exactly those words
  and that parameter (colon removed, spaces inside it kept).
\<close>

theorem msgtok_r_roundtrip:
  assumes "\<forall>w \<in> set ws. word_ok w" and "(ws, t) \<noteq> ([], None)"
    and "is_line (render ws t)"
  shows "\<exists>R q buf' qs. msgtok_r (render ws t @ CRLF @ rest) (Some 0) save = Inr R \<and> tok R = Some q \<and>
           drain (length (render ws t) + 2) (tok_buf R) (saveptr R) = Inr (buf', qs) \<and>
           map (\<lambda>q. cstr (drop q buf')) (q # qs) =
             map Inr (ws @ (case t of None \<Rightarrow> [] | Some x \<Rightarrow> [x]))"
proof -
  have l: "line_at (render ws t @ CRLF @ rest) 0 (render ws t)"
    using assms(3) by (simp add: line_at_def)
  have "tokens (dropWhile (\<lambda>c. c = SP) (render ws t)) = ws @ (case t of None \<Rightarrow> [] | Some x \<Rightarrow> [x])"
    using render_no_leading_space [OF assms(1), of t] tokens_render [OF assms(1,2)] by simp
  then show ?thesis using tokenizes_line [OF l, of save] by simp
qed

theorem msgtok_r_roundtrip_witness:
  "\<exists>R q buf' qs. msgtok_r (''JOIN #c'' @ CRLF @ [NUL]) (Some 0) None = Inr R \<and> tok R = Some q \<and>
     drain 9 (tok_buf R) (saveptr R) = Inr (buf', qs) \<and>
     map (\<lambda>q. cstr (drop q buf')) (q # qs) = [Inr ''JOIN'', Inr ''#c'']"
  using msgtok_r_roundtrip [of "[''JOIN'', ''#c'']" None "[NUL]" None]
  by (simp add: word_ok_def is_line_def numeral_eq_Suc del: drain.simps)

text \<open>
  C31: the two tokenizers agree: \<open>msgtok\<close>, with the saved pointer in its static variable, computes
  what \<open>msgtok_r\<close> computes with that pointer passed in.
\<close>

theorem msgtok_eq_msgtok_r: "msgtok buf str ptr = msgtok_r buf str ptr"
  by (auto simp: msgtok_def msgtok_r_def msgtok_scan_def split: option.split)

end
