(* ===== verification/Parser.thy ===== *)
theory Parser
  imports Msgtok Replies
begin

text \<open>
  \<open>include/irc.h\<close> and \<open>src/parser.c\<close>: from a line in the message buffer to an \<open>irc_message\<close>.

  The members of the C union share their storage: every struct in it starts with one or two
  \<open>char *\<close>, so the union is the two pointer slots \<open>slot0\<close>, \<open>slot1\<close> and the \<open>int\<close> after them.  The
  abbreviations give them the source's names.  A pointer is a position in the message buffer.
  The parsers only assign what the code assigns: fields they leave alone keep the value of the
  previous message, and the caller reuses one struct for all messages of a read.

  The second half states what a parse means: \<open>parse_spec\<close> reads the list of tokens, and \<open>denotes\<close>
  says that the struct and the buffer stand for a command.
\<close>

subsection \<open>Messages\<close>

datatype irc_message_type =
    INVALID | UNKNOWN | USER | NICK | PRIVMSG | NOTICE | PING | PONG | MOTD | LUSERS | WHOIS
  | JOIN | PART | TOPIC | LIST | NAMES | AWAY

record irc_message =
  msg_type :: irc_message_type
  msg_command :: "nat option"
  parse_err :: int
  slot0 :: "nat option"
  slot1 :: "nat option"
  leave_all :: int

abbreviation (input) nick_nick :: "irc_message \<Rightarrow> nat option" where "nick_nick \<equiv> slot0"
abbreviation (input) user_username :: "irc_message \<Rightarrow> nat option" where "user_username \<equiv> slot0"
abbreviation (input) user_fullname :: "irc_message \<Rightarrow> nat option" where "user_fullname \<equiv> slot1"
abbreviation (input) privmsg_msgtarget :: "irc_message \<Rightarrow> nat option" where "privmsg_msgtarget \<equiv> slot0"
abbreviation (input) privmsg_contents :: "irc_message \<Rightarrow> nat option" where "privmsg_contents \<equiv> slot1"
abbreviation (input) whois_mask :: "irc_message \<Rightarrow> nat option" where "whois_mask \<equiv> slot1"
abbreviation (input) join_channels :: "irc_message \<Rightarrow> nat option" where "join_channels \<equiv> slot0"
abbreviation (input) part_channels :: "irc_message \<Rightarrow> nat option" where "part_channels \<equiv> slot0"
abbreviation (input) part_message :: "irc_message \<Rightarrow> nat option" where "part_message \<equiv> slot1"
abbreviation (input) list_channels :: "irc_message \<Rightarrow> nat option" where "list_channels \<equiv> slot0"
abbreviation (input) topic_channel :: "irc_message \<Rightarrow> nat option" where "topic_channel \<equiv> slot0"
abbreviation (input) topic_topic :: "irc_message \<Rightarrow> nat option" where "topic_topic \<equiv> slot1"
abbreviation (input) names_channels :: "irc_message \<Rightarrow> nat option" where "names_channels \<equiv> slot0"
abbreviation (input) away_text :: "irc_message \<Rightarrow> nat option" where "away_text \<equiv> slot0"

text \<open>\<open>memset(&message, 0, sizeof(irc_message_s))\<close>; the type of value 0 is \<open>UNKNOWN\<close>.\<close>

definition zero_message :: irc_message where
  "zero_message = \<lparr>msg_type = UNKNOWN, msg_command = None, parse_err = 0,
                    slot0 = None, slot1 = None, leave_all = 0\<rparr>"

abbreviation NICK_MAX_SIZE :: nat where "NICK_MAX_SIZE \<equiv> 9"

subsection \<open>The parsers\<close>

text \<open>Each takes the buffer, the struct and \<open>saveptr\<close>, and returns buffer, struct and return value.\<close>

type_synonym parsed = "char list \<times> irc_message \<times> int"

definition parse_message_nick :: "char list \<Rightarrow> irc_message \<Rightarrow> nat option \<Rightarrow> parsed run" where
  "parse_message_nick buf m save =
     (let m = m\<lparr>msg_type := NICK\<rparr> in
      rbind (msgtok_r buf None save) (\<lambda>R.
        if tok R = None \<or> toklen R = 0 then
          Inr (tok_buf R, m\<lparr>parse_err := ERR_NONICKNAMEGIVEN\<rparr>, ERR_NONICKNAMEGIVEN)
        else if toklen R > NICK_MAX_SIZE then
          Inr (tok_buf R, m\<lparr>parse_err := ERR_ERRONEUSNICKNAME\<rparr>, ERR_ERRONEUSNICKNAME)
        else Inr (tok_buf R, m\<lparr>slot0 := tok R, parse_err := 0\<rparr>, 0)))"

definition parse_message_user :: "char list \<Rightarrow> irc_message \<Rightarrow> nat option \<Rightarrow> parsed run" where
  "parse_message_user buf m save =
     (let m = m\<lparr>msg_type := USER\<rparr>;
          few = (\<lambda>b m. Inr (b, m\<lparr>parse_err := ERR_NEEDMOREPARAMS\<rparr>, ERR_NEEDMOREPARAMS)) in
      rbind (msgtok_r buf None save) (\<lambda>R.
        if tok R = None \<or> toklen R = 0 then few (tok_buf R) m
        else let m = m\<lparr>slot0 := tok R\<rparr> in
          rbind (msgtok_r (tok_buf R) None (saveptr R)) (\<lambda>R.
            if tok R = None then few (tok_buf R) m else
          rbind (msgtok_r (tok_buf R) None (saveptr R)) (\<lambda>R.
            if tok R = None then few (tok_buf R) m else
          rbind (msgtok_r (tok_buf R) None (saveptr R)) (\<lambda>R.
            if tok R = None then few (tok_buf R) m
            else Inr (tok_buf R, m\<lparr>slot1 := tok R, parse_err := 0\<rparr>, 0))))))"

definition parse_message_privmsg :: "char list \<Rightarrow> irc_message \<Rightarrow> nat option \<Rightarrow> parsed run" where
  "parse_message_privmsg buf m save =
     (let m = m\<lparr>msg_type := PRIVMSG\<rparr> in
      rbind (msgtok_r buf None save) (\<lambda>R.
        if tok R = None \<or> toklen R = 0 then
          Inr (tok_buf R, m\<lparr>parse_err := ERR_NORECIPIENT\<rparr>, ERR_NORECIPIENT)
        else let m = m\<lparr>slot0 := tok R\<rparr> in
          rbind (msgtok_r (tok_buf R) None (saveptr R)) (\<lambda>R.
            if tok R = None then
              Inr (tok_buf R, m\<lparr>parse_err := ERR_NOTEXTTOSEND\<rparr>, ERR_NOTEXTTOSEND)
            else Inr (tok_buf R, m\<lparr>slot1 := tok R, parse_err := 0\<rparr>, 0))))"

definition parse_message_ping :: "char list \<Rightarrow> irc_message \<Rightarrow> nat option \<Rightarrow> parsed run" where
  "parse_message_ping buf m save = Inr (buf, m\<lparr>msg_type := PING\<rparr>, 0)"

definition parse_message_pong :: "char list \<Rightarrow> irc_message \<Rightarrow> nat option \<Rightarrow> parsed run" where
  "parse_message_pong buf m save = Inr (buf, m\<lparr>msg_type := PONG\<rparr>, 0)"

definition parse_message_motd :: "char list \<Rightarrow> irc_message \<Rightarrow> nat option \<Rightarrow> parsed run" where
  "parse_message_motd buf m save = Inr (buf, m\<lparr>msg_type := MOTD\<rparr>, 0)"

definition parse_message_lusers :: "char list \<Rightarrow> irc_message \<Rightarrow> nat option \<Rightarrow> parsed run" where
  "parse_message_lusers buf m save = Inr (buf, m\<lparr>msg_type := LUSERS\<rparr>, 0)"

definition parse_message_whois :: "char list \<Rightarrow> irc_message \<Rightarrow> nat option \<Rightarrow> parsed run" where
  "parse_message_whois buf m save =
     rbind (msgtok_r buf None save) (\<lambda>R.
       Inr (tok_buf R, m\<lparr>msg_type := WHOIS, slot1 := tok R\<rparr>, 0))"

definition parse_message_join :: "char list \<Rightarrow> irc_message \<Rightarrow> nat option \<Rightarrow> parsed run" where
  "parse_message_join buf m save =
     (let m = m\<lparr>msg_type := JOIN\<rparr> in
      rbind (msgtok_r buf None save) (\<lambda>R.
        if tok R = None \<or> toklen R = 0 then
          Inr (tok_buf R, m\<lparr>parse_err := ERR_NEEDMOREPARAMS\<rparr>, ERR_NEEDMOREPARAMS)
        else rbind (cstr (drop (the (tok R)) (tok_buf R))) (\<lambda>t.
          if t = ''0'' then Inr (tok_buf R, m\<lparr>leave_all := 1\<rparr>, 0)
          else Inr (tok_buf R, m\<lparr>slot0 := tok R, parse_err := 0\<rparr>, 0))))"

definition parse_message_part :: "char list \<Rightarrow> irc_message \<Rightarrow> nat option \<Rightarrow> parsed run" where
  "parse_message_part buf m save =
     (let m = m\<lparr>msg_type := PART\<rparr> in
      rbind (msgtok_r buf None save) (\<lambda>R.
        if tok R = None \<or> toklen R = 0 then
          Inr (tok_buf R, m\<lparr>parse_err := ERR_NEEDMOREPARAMS\<rparr>, ERR_NEEDMOREPARAMS)
        else let m = m\<lparr>slot0 := tok R\<rparr> in
          rbind (msgtok_r (tok_buf R) None (saveptr R)) (\<lambda>R.
            if tok R = None \<or> toklen R = 0 then
              Inr (tok_buf R, m\<lparr>slot1 := None, parse_err := 0\<rparr>, 0)
            else Inr (tok_buf R, m\<lparr>slot1 := tok R, parse_err := 0\<rparr>, 0))))"

definition parse_message_list :: "char list \<Rightarrow> irc_message \<Rightarrow> nat option \<Rightarrow> parsed run" where
  "parse_message_list buf m save =
     (let m = m\<lparr>msg_type := LIST\<rparr> in
      rbind (msgtok_r buf None save) (\<lambda>R.
        if tok R = None \<or> toklen R = 0 then Inr (tok_buf R, m, 0)
        else Inr (tok_buf R, m\<lparr>slot0 := tok R, parse_err := 0\<rparr>, 0)))"

definition parse_message_topic :: "char list \<Rightarrow> irc_message \<Rightarrow> nat option \<Rightarrow> parsed run" where
  "parse_message_topic buf m save =
     (let m = m\<lparr>msg_type := TOPIC\<rparr> in
      rbind (msgtok_r buf None save) (\<lambda>R.
        if tok R = None \<or> toklen R = 0 then
          Inr (tok_buf R, m\<lparr>parse_err := ERR_NEEDMOREPARAMS\<rparr>, ERR_NEEDMOREPARAMS)
        else let m = m\<lparr>slot0 := tok R\<rparr> in
          rbind (msgtok_r (tok_buf R) None (saveptr R)) (\<lambda>R.
            if tok R = None then Inr (tok_buf R, m\<lparr>parse_err := 0\<rparr>, 0)
            else Inr (tok_buf R, m\<lparr>slot1 := tok R, parse_err := 0\<rparr>, 0))))"

definition parse_message_names :: "char list \<Rightarrow> irc_message \<Rightarrow> nat option \<Rightarrow> parsed run" where
  "parse_message_names buf m save =
     rbind (msgtok_r buf None save) (\<lambda>R.
       if tok R \<noteq> None then Inr (tok_buf R, m\<lparr>msg_type := NAMES, slot0 := tok R\<rparr>, 0)
       else Inr (tok_buf R, m\<lparr>msg_type := NAMES, slot0 := None\<rparr>, 0))"

definition parse_message_away :: "char list \<Rightarrow> irc_message \<Rightarrow> nat option \<Rightarrow> parsed run" where
  "parse_message_away buf m save =
     rbind (msgtok_r buf None save) (\<lambda>R.
       if tok R \<noteq> None then Inr (tok_buf R, m\<lparr>msg_type := AWAY, slot0 := tok R\<rparr>, 0)
       else Inr (tok_buf R, m\<lparr>msg_type := AWAY, slot0 := None\<rparr>, 0))"

definition parse_message :: "char list \<Rightarrow> irc_message \<Rightarrow> parsed run" where
  "parse_message buf m =
     rbind (msgtok_r buf (Some 0) None) (\<lambda>R.
       if tok R \<noteq> None \<and> toklen R \<noteq> 0 then
         rbind (cstr (drop (the (tok R)) (tok_buf R))) (\<lambda>t.
           let m = m\<lparr>msg_command := tok R\<rparr>; b = tok_buf R; s = saveptr R in
           if t = ''NICK'' then parse_message_nick b m s
           else if t = ''USER'' then parse_message_user b m s
           else if t = ''PING'' then parse_message_ping b m s
           else if t = ''PONG'' then parse_message_pong b m s
           else if t = ''MOTD'' then parse_message_motd b m s
           else if t = ''PRIVMSG'' then parse_message_privmsg b m s
           else if t = ''LUSERS'' then parse_message_lusers b m s
           else if t = ''WHOIS'' then parse_message_whois b m s
           else if t = ''JOIN'' then parse_message_join b m s
           else if t = ''PART'' then parse_message_part b m s
           else if t = ''LIST'' then parse_message_list b m s
           else if t = ''TOPIC'' then parse_message_topic b m s
           else if t = ''NAMES'' then parse_message_names b m s
           else if t = ''AWAY'' then parse_message_away b m s
           else Inr (b, m\<lparr>msg_type := UNKNOWN\<rparr>, 0))
       else Inr (tok_buf R, m, -1))"

subsection \<open>What a line means\<close>

datatype irc_cmd =
    Cmd_nick string | Cmd_nick_missing | Cmd_nick_too_long
  | Cmd_user string string | Cmd_user_few
  | Cmd_privmsg string string | Cmd_privmsg_no_recipient | Cmd_privmsg_no_text
  | Cmd_ping | Cmd_pong | Cmd_motd | Cmd_lusers
  | Cmd_whois "string option"
  | Cmd_join string | Cmd_join_zero | Cmd_join_few
  | Cmd_part string "string option" | Cmd_part_few
  | Cmd_list "string option"
  | Cmd_topic string "string option" | Cmd_topic_few
  | Cmd_names "string option"
  | Cmd_away "string option"
  | Cmd_unknown string
  | Cmd_invalid

definition first_arg :: "string list \<Rightarrow> string option" where
  "first_arg args = (case args of [] \<Rightarrow> None | a # _ \<Rightarrow> Some a)"

definition nonempty_arg :: "string list \<Rightarrow> string option" where
  "nonempty_arg args = (case args of [] \<Rightarrow> None | a # _ \<Rightarrow> if a = [] then None else Some a)"

definition parse_spec :: "string list \<Rightarrow> irc_cmd" where
  "parse_spec ts = (case ts of [] \<Rightarrow> Cmd_invalid | c # args \<Rightarrow>
     if c = [] then Cmd_invalid
     else if c = ''NICK'' then
       (case nonempty_arg args of None \<Rightarrow> Cmd_nick_missing
        | Some n \<Rightarrow> if length n > 9 then Cmd_nick_too_long else Cmd_nick n)
     else if c = ''USER'' then
       (case args of u # _ # _ # r # _ \<Rightarrow> if u = [] then Cmd_user_few else Cmd_user u r
        | _ \<Rightarrow> Cmd_user_few)
     else if c = ''PING'' then Cmd_ping
     else if c = ''PONG'' then Cmd_pong
     else if c = ''MOTD'' then Cmd_motd
     else if c = ''PRIVMSG'' then
       (case nonempty_arg args of None \<Rightarrow> Cmd_privmsg_no_recipient
        | Some t \<Rightarrow> (case first_arg (tl args) of None \<Rightarrow> Cmd_privmsg_no_text | Some x \<Rightarrow> Cmd_privmsg t x))
     else if c = ''LUSERS'' then Cmd_lusers
     else if c = ''WHOIS'' then Cmd_whois (first_arg args)
     else if c = ''JOIN'' then
       (case nonempty_arg args of None \<Rightarrow> Cmd_join_few
        | Some ch \<Rightarrow> if ch = ''0'' then Cmd_join_zero else Cmd_join ch)
     else if c = ''PART'' then
       (case nonempty_arg args of None \<Rightarrow> Cmd_part_few
        | Some ch \<Rightarrow> Cmd_part ch (nonempty_arg (tl args)))
     else if c = ''LIST'' then Cmd_list (nonempty_arg args)
     else if c = ''TOPIC'' then
       (case nonempty_arg args of None \<Rightarrow> Cmd_topic_few
        | Some ch \<Rightarrow> Cmd_topic ch (first_arg (tl args)))
     else if c = ''NAMES'' then Cmd_names (first_arg args)
     else if c = ''AWAY'' then Cmd_away (first_arg args)
     else Cmd_unknown c)"

text \<open>A pointer into the buffer that reads a string; null for an optional parameter left out.\<close>

definition points :: "char list \<Rightarrow> nat option \<Rightarrow> string \<Rightarrow> bool" where
  "points buf p s \<longleftrightarrow> (\<exists>q. p = Some q \<and> cstr (drop q buf) = Inr s)"

definition points_opt :: "char list \<Rightarrow> nat option \<Rightarrow> string option \<Rightarrow> bool" where
  "points_opt buf p s = (case s of None \<Rightarrow> p = None | Some x \<Rightarrow> points buf p x)"

text \<open>The string \<open>s\<close> at \<open>p\<close>, with its terminator, ends before \<open>q\<close>.\<close>

definition apart :: "nat option \<Rightarrow> string \<Rightarrow> nat option \<Rightarrow> bool" where
  "apart p s q \<longleftrightarrow> (\<exists>i j. p = Some i \<and> q = Some j \<and> i + length s < j)"

text \<open>
  \<open>denotes old buf m ret cmd\<close>: after a parse with return value \<open>ret\<close>, the struct \<open>m\<close> stands for
  \<open>cmd\<close>; \<open>old\<close> is the struct before, of which the code keeps some fields.
\<close>

fun denotes :: "irc_message \<Rightarrow> char list \<Rightarrow> irc_message \<Rightarrow> int \<Rightarrow> irc_cmd \<Rightarrow> bool" where
  "denotes old buf m ret (Cmd_nick n) \<longleftrightarrow>
     ret = 0 \<and> msg_type m = NICK \<and> parse_err m = 0 \<and> points buf (nick_nick m) n"
| "denotes old buf m ret Cmd_nick_missing \<longleftrightarrow>
     ret = 431 \<and> msg_type m = NICK \<and> parse_err m = 431"
| "denotes old buf m ret Cmd_nick_too_long \<longleftrightarrow>
     ret = 432 \<and> msg_type m = NICK \<and> parse_err m = 432 \<and> nick_nick m = nick_nick old"
| "denotes old buf m ret (Cmd_user u r) \<longleftrightarrow>
     ret = 0 \<and> msg_type m = USER \<and> parse_err m = 0 \<and>
     points buf (user_username m) u \<and> points buf (user_fullname m) r"
| "denotes old buf m ret Cmd_user_few \<longleftrightarrow> ret = 461 \<and> msg_type m = USER \<and> parse_err m = 461"
| "denotes old buf m ret (Cmd_privmsg t x) \<longleftrightarrow>
     ret = 0 \<and> msg_type m = PRIVMSG \<and> parse_err m = 0 \<and>
     points buf (privmsg_msgtarget m) t \<and> points buf (privmsg_contents m) x"
| "denotes old buf m ret Cmd_privmsg_no_recipient \<longleftrightarrow>
     ret = 411 \<and> msg_type m = PRIVMSG \<and> parse_err m = 411"
| "denotes old buf m ret Cmd_privmsg_no_text \<longleftrightarrow>
     ret = 412 \<and> msg_type m = PRIVMSG \<and> parse_err m = 412"
| "denotes old buf m ret Cmd_ping \<longleftrightarrow> ret = 0 \<and> msg_type m = PING"
| "denotes old buf m ret Cmd_pong \<longleftrightarrow> ret = 0 \<and> msg_type m = PONG"
| "denotes old buf m ret Cmd_motd \<longleftrightarrow> ret = 0 \<and> msg_type m = MOTD"
| "denotes old buf m ret Cmd_lusers \<longleftrightarrow> ret = 0 \<and> msg_type m = LUSERS"
| "denotes old buf m ret (Cmd_whois x) \<longleftrightarrow>
     ret = 0 \<and> msg_type m = WHOIS \<and> points_opt buf (whois_mask m) x"
| "denotes old buf m ret (Cmd_join ch) \<longleftrightarrow>
     ret = 0 \<and> msg_type m = JOIN \<and> parse_err m = 0 \<and> points buf (join_channels m) ch"
| "denotes old buf m ret Cmd_join_zero \<longleftrightarrow>
     ret = 0 \<and> msg_type m = JOIN \<and> parse_err m = parse_err old \<and> leave_all m = 1 \<and>
     join_channels m = join_channels old"
| "denotes old buf m ret Cmd_join_few \<longleftrightarrow> ret = 461 \<and> msg_type m = JOIN \<and> parse_err m = 461"
| "denotes old buf m ret (Cmd_part ch x) \<longleftrightarrow>
     ret = 0 \<and> msg_type m = PART \<and> parse_err m = 0 \<and> points buf (part_channels m) ch \<and>
     points_opt buf (part_message m) x \<and> (x \<noteq> None \<longrightarrow> apart (part_channels m) ch (part_message m))"
| "denotes old buf m ret Cmd_part_few \<longleftrightarrow>
     ret = 461 \<and> msg_type m = PART \<and> parse_err m = 461 \<and> part_channels m = part_channels old"
| "denotes old buf m ret (Cmd_list x) \<longleftrightarrow>
     ret = 0 \<and> msg_type m = LIST \<and>
     (case x of None \<Rightarrow> list_channels m = list_channels old | Some ch \<Rightarrow> points buf (list_channels m) ch)"
| "denotes old buf m ret (Cmd_topic ch x) \<longleftrightarrow>
     ret = 0 \<and> msg_type m = TOPIC \<and> parse_err m = 0 \<and> points buf (topic_channel m) ch \<and>
     (case x of None \<Rightarrow> topic_topic m = topic_topic old
      | Some t \<Rightarrow> points buf (topic_topic m) t \<and> apart (topic_channel m) ch (topic_topic m))"
| "denotes old buf m ret Cmd_topic_few \<longleftrightarrow> ret = 461 \<and> msg_type m = TOPIC \<and> parse_err m = 461"
| "denotes old buf m ret (Cmd_names x) \<longleftrightarrow>
     ret = 0 \<and> msg_type m = NAMES \<and> points_opt buf (names_channels m) x"
| "denotes old buf m ret (Cmd_away x) \<longleftrightarrow>
     ret = 0 \<and> msg_type m = AWAY \<and> points_opt buf (away_text m) x"
| "denotes old buf m ret (Cmd_unknown c) \<longleftrightarrow>
     ret = 0 \<and> msg_type m = UNKNOWN \<and> points buf (msg_command m) c"
| "denotes old buf m ret Cmd_invalid \<longleftrightarrow> ret = -1 \<and> m = old"

subsection \<open>The saved pointer as a list of tokens\<close>

text \<open>
  \<open>rest_toks buf save ts\<close>: further calls of the tokenizer return \<open>ts\<close>.  \<open>tok_at buf save q t\<close>: \<open>q\<close>
  reads \<open>t\<close>, in a part of the buffer that further calls leave alone.
\<close>

definition rest_toks :: "char list \<Rightarrow> nat option \<Rightarrow> string list \<Rightarrow> bool" where
  "rest_toks buf save ts =
     (case save of None \<Rightarrow> ts = [] | Some p \<Rightarrow> (\<exists>l. line_at buf p l \<and> ts = tokens l))"

definition tok_at :: "char list \<Rightarrow> nat option \<Rightarrow> nat \<Rightarrow> string \<Rightarrow> bool" where
  "tok_at buf save q t \<longleftrightarrow> cstr (drop q buf) = Inr t \<and>
     (case save of None \<Rightarrow> True | Some p \<Rightarrow> q + length t < p)"

lemma tok_at_cstr: "tok_at buf save q t \<Longrightarrow> cstr (drop q buf) = Inr t"
  by (simp add: tok_at_def)

lemma tok_at_points: "tok_at buf save q t \<Longrightarrow> points buf (Some q) t"
  by (simp add: tok_at_def points_def)

lemma rest_toks_Nil:
  "rest_toks buf save [] \<Longrightarrow>
     msgtok_r buf None save = Inr \<lparr>tok_buf = buf, tok = None, toklen = 0, saveptr = None\<rparr>"
  by (auto simp: rest_toks_def msgtok_r_end tokens.simps split: option.splits)

lemma spec_rest_toks:
  assumes "tok_spec buf p l R"
  shows "\<exists>q. tok R = Some q \<and> p \<le> q \<and> toklen R = length (fst (tok_next l)) \<and>
           length (tok_buf R) = length buf \<and>
           tok_at (tok_buf R) (saveptr R) q (fst (tok_next l)) \<and>
           rest_toks (tok_buf R) (saveptr R) (tl (tokens l))"
  using assms
  by (auto simp: tok_spec_def tok_at_def rest_toks_def tokens.simps [of l] split: option.splits)

lemma rest_toks_Cons:
  assumes "rest_toks buf save (t # ts)"
  shows "\<exists>R q. msgtok_r buf None save = Inr R \<and> tok R = Some q \<and> toklen R = length t \<and>
           length (tok_buf R) = length buf \<and>
           tok_at (tok_buf R) (saveptr R) q t \<and> rest_toks (tok_buf R) (saveptr R) ts \<and>
           (\<forall>q' t'. tok_at buf save q' t' \<longrightarrow> tok_at (tok_buf R) (saveptr R) q' t' \<and> q' + length t' < q)"
proof -
  obtain p l where p: "save = Some p" and l: "line_at buf p l" "t # ts = tokens l"
    using assms by (auto simp: rest_toks_def split: option.splits)
  then have t: "t = fst (tok_next l)" "ts = tl (tokens l)" by (simp_all add: tokens.simps [of l])
  obtain R where R: "msgtok_r buf None (Some p) = Inr R" "tok_spec buf p l R"
    using msgtok_r_next [OF l(1)] by blast
  obtain q where q: "tok R = Some q" "p \<le> q" "toklen R = length t" "length (tok_buf R) = length buf"
    "tok_at (tok_buf R) (saveptr R) q t" "rest_toks (tok_buf R) (saveptr R) ts"
    using spec_rest_toks [OF R(2)] t by auto
  have "tok_at (tok_buf R) (saveptr R) q' t' \<and> q' + length t' < q" if h: "tok_at buf save q' t'" for q' t'
  proof -
    have c: "cstr (drop q' buf) = Inr t'" and lt: "q' + length t' < p"
      using h by (auto simp: tok_at_def p)
    have tk: "take p (tok_buf R) = take p buf" using R(2) by (simp add: tok_spec_def)
    have "cstr (drop q' (tok_buf R)) = Inr t'" by (rule cstr_stable [OF c lt tk])
    moreover have "case saveptr R of None \<Rightarrow> True | Some p' \<Rightarrow> q' + length t' < p'"
      using q(2,5) lt by (auto simp: tok_at_def split: option.split)
    ultimately show ?thesis using lt q(2) by (simp add: tok_at_def)
  qed
  with R(1) q p show ?thesis by auto
qed

lemma rest_toks_first:
  assumes "line_at buf 0 l"
  shows "\<exists>R q. msgtok_r buf (Some 0) None = Inr R \<and> tok R = Some q \<and>
           toklen R = length (hd (tokens (dropWhile (\<lambda>c. c = SP) l))) \<and>
           length (tok_buf R) = length buf \<and>
           tok_at (tok_buf R) (saveptr R) q (hd (tokens (dropWhile (\<lambda>c. c = SP) l))) \<and>
           rest_toks (tok_buf R) (saveptr R) (tl (tokens (dropWhile (\<lambda>c. c = SP) l)))"
proof -
  obtain R p' where R: "msgtok_r buf (Some 0) None = Inr R"
    "tok_spec buf p' (dropWhile (\<lambda>c. c = SP) l) R"
    using msgtok_r_first [OF assms] by blast
  have hd: "hd (tokens (dropWhile (\<lambda>c. c = SP) l)) = fst (tok_next (dropWhile (\<lambda>c. c = SP) l))"
    by (subst tokens.simps) simp
  obtain q where "tok R = Some q" "toklen R = length (fst (tok_next (dropWhile (\<lambda>c. c = SP) l)))"
    "length (tok_buf R) = length buf"
    "tok_at (tok_buf R) (saveptr R) q (fst (tok_next (dropWhile (\<lambda>c. c = SP) l)))"
    "rest_toks (tok_buf R) (saveptr R) (tl (tokens (dropWhile (\<lambda>c. c = SP) l)))"
    using spec_rest_toks [OF R(2)] by blast
  then show ?thesis unfolding hd using R(1) by blast
qed

text \<open>The call of one token, ready for a case analysis of the tokens that are left.\<close>

lemma next_tok_cases:
  assumes "rest_toks buf save ts"
  obtains (none) "ts = []"
      "msgtok_r buf None save = Inr \<lparr>tok_buf = buf, tok = None, toklen = 0, saveptr = None\<rparr>"
  | (some) t ts' R q where "ts = t # ts'" "msgtok_r buf None save = Inr R" "tok R = Some q"
      "toklen R = length t" "length (tok_buf R) = length buf" "tok_at (tok_buf R) (saveptr R) q t"
      "rest_toks (tok_buf R) (saveptr R) ts'"
      "\<And>q' t'. tok_at buf save q' t' \<Longrightarrow> tok_at (tok_buf R) (saveptr R) q' t'"
      "\<And>q' t'. tok_at buf save q' t' \<Longrightarrow> q' + length t' < q"
proof (cases ts)
  case Nil
  show thesis by (rule none [OF Nil rest_toks_Nil]) (use assms Nil in simp)
next
  case (Cons t ts')
  with assms have "rest_toks buf save (t # ts')" by simp
  from rest_toks_Cons [OF this] show thesis using some [OF Cons] by blast
qed

subsection \<open>Each parser against the specification\<close>

definition parses :: "parsed run \<Rightarrow> char list \<Rightarrow> irc_message \<Rightarrow> irc_cmd \<Rightarrow> bool" where
  "parses r buf m cmd \<longleftrightarrow> (\<exists>buf' m' ret. r = Inr (buf', m', ret) \<and> length buf' = length buf \<and>
     denotes m buf' m' ret cmd)"

lemmas parses_simps = parses_def parse_spec_def first_arg_def nonempty_arg_def points_opt_def

lemma parse_nick_ok:
  assumes "rest_toks buf save args"
  shows "parses (parse_message_nick buf m save) buf m (parse_spec (''NICK'' # args))"
  using assms
  by (cases rule: next_tok_cases)
     (auto simp: parse_message_nick_def parses_simps dest: tok_at_points)

lemma parse_whois_ok:
  assumes "rest_toks buf save args"
  shows "parses (parse_message_whois buf m save) buf m (parse_spec (''WHOIS'' # args))"
  using assms
  by (cases rule: next_tok_cases)
     (auto simp: parse_message_whois_def parses_simps dest: tok_at_points)

lemma parse_names_ok:
  assumes "rest_toks buf save args"
  shows "parses (parse_message_names buf m save) buf m (parse_spec (''NAMES'' # args))"
  using assms
  by (cases rule: next_tok_cases)
     (auto simp: parse_message_names_def parses_simps dest: tok_at_points)

lemma parse_away_ok:
  assumes "rest_toks buf save args"
  shows "parses (parse_message_away buf m save) buf m (parse_spec (''AWAY'' # args))"
  using assms
  by (cases rule: next_tok_cases)
     (auto simp: parse_message_away_def parses_simps dest: tok_at_points)

lemma parse_list_ok:
  assumes "rest_toks buf save args"
  shows "parses (parse_message_list buf m save) buf m (parse_spec (''LIST'' # args))"
  using assms
  by (cases rule: next_tok_cases)
     (auto simp: parse_message_list_def parses_simps dest: tok_at_points)

lemma parse_join_ok:
  assumes "rest_toks buf save args"
  shows "parses (parse_message_join buf m save) buf m (parse_spec (''JOIN'' # args))"
  using assms
  by (cases rule: next_tok_cases)
     (auto simp: parse_message_join_def parses_simps tok_at_cstr intro: tok_at_points)

lemma parse_privmsg_ok:
  assumes "rest_toks buf save args"
  shows "parses (parse_message_privmsg buf m save) buf m (parse_spec (''PRIVMSG'' # args))"
  using assms
proof (cases rule: next_tok_cases)
  case none
  then show ?thesis by (simp add: parse_message_privmsg_def parses_simps)
next
  case (some t ts R q)
  from some(7) show ?thesis
    by (cases rule: next_tok_cases)
       (use some in \<open>auto simp: parse_message_privmsg_def parses_simps dest: tok_at_points\<close>)
qed

lemma parse_part_ok:
  assumes "rest_toks buf save args"
  shows "parses (parse_message_part buf m save) buf m (parse_spec (''PART'' # args))"
  using assms
proof (cases rule: next_tok_cases)
  case none
  then show ?thesis by (simp add: parse_message_part_def parses_simps)
next
  case (some t ts R q)
  from some(7) show ?thesis
    by (cases rule: next_tok_cases)
       (use some in \<open>auto simp: parse_message_part_def parses_simps apart_def dest: tok_at_points\<close>)
qed

lemma parse_topic_ok:
  assumes "rest_toks buf save args"
  shows "parses (parse_message_topic buf m save) buf m (parse_spec (''TOPIC'' # args))"
  using assms
proof (cases rule: next_tok_cases)
  case none
  then show ?thesis by (simp add: parse_message_topic_def parses_simps)
next
  case (some t ts R q)
  from some(7) show ?thesis
    by (cases rule: next_tok_cases)
       (use some in \<open>auto simp: parse_message_topic_def parses_simps apart_def dest: tok_at_points\<close>)
qed

lemma parse_user_ok:
  assumes "rest_toks buf save args"
  shows "parses (parse_message_user buf m save) buf m (parse_spec (''USER'' # args))"
  using assms
proof (cases rule: next_tok_cases)
  case none
  then show ?thesis by (simp add: parse_message_user_def parses_simps)
next
  case (some u ts1 R1 q1)
  note s1 = some
  show ?thesis
  proof (cases "u = []")
    case True
    then show ?thesis using s1 by (auto simp: parse_message_user_def parses_simps split: list.split)
  next
    case False
    from s1(7) show ?thesis
    proof (cases rule: next_tok_cases)
      case none
      then show ?thesis using s1 False by (auto simp: parse_message_user_def parses_simps)
    next
      case (some t2 ts2 R2 q2)
      note s2 = some
      from s2(7) show ?thesis
      proof (cases rule: next_tok_cases)
        case none
        then show ?thesis using s1 s2 False by (auto simp: parse_message_user_def parses_simps)
      next
        case (some t3 ts3 R3 q3)
        note s3 = some
        from s3(7) show ?thesis
        proof (cases rule: next_tok_cases)
          case none
          then show ?thesis using s1 s2 s3 False by (auto simp: parse_message_user_def parses_simps)
        next
          case (some r ts4 R4 q4)
          have "tok_at (tok_buf R4) (saveptr R4) q1 u"
            by (intro some(8) s3(8) s2(8) s1(6))
          then have "points (tok_buf R4) (Some q1) u" "points (tok_buf R4) (Some q4) r"
            using some(6) by (auto intro: tok_at_points)
          then show ?thesis using s1(1-5) s2(1-5) s3(1-5) some(1-5) False
            by (simp add: parse_message_user_def parses_simps)
        qed
      qed
    qed
  qed
qed

lemma denotes_command:
  "cmd \<noteq> Cmd_invalid \<Longrightarrow> denotes (m\<lparr>msg_command := c\<rparr>) buf m' ret cmd = denotes m buf m' ret cmd"
  by (cases cmd) (auto split: option.splits)

lemma parse_spec_invalid_iff: "parse_spec (c # args) = Cmd_invalid \<longleftrightarrow> c = []"
  by (auto simp: parse_spec_def split: option.splits list.splits if_splits)

lemma parses_command:
  "parses r buf (m\<lparr>msg_command := c\<rparr>) cmd \<Longrightarrow> cmd \<noteq> Cmd_invalid \<Longrightarrow> parses r buf m cmd"
  by (auto simp: parses_def denotes_command)

lemma parses_length: "parses r buf m cmd \<Longrightarrow> length buf = length buf' \<Longrightarrow> parses r buf' m cmd"
  by (simp add: parses_def)

lemma parses_if:
  "(b \<Longrightarrow> parses x buf m cmd) \<Longrightarrow> (\<not> b \<Longrightarrow> parses y buf m cmd) \<Longrightarrow>
     parses (if b then x else y) buf m cmd"
  by simp

lemma parse_message_line:
  assumes "line_at buf 0 l"
  shows "parses (parse_message buf m) buf m (parse_spec (tokens (dropWhile (\<lambda>c. c = SP) l)))"
proof -
  let ?ts = "tokens (dropWhile (\<lambda>c. c = SP) l)"
  obtain c args where ts: "?ts = c # args" by (subst (asm) tokens.simps) blast
  obtain R q where R: "msgtok_r buf (Some 0) None = Inr R" "tok R = Some q" "toklen R = length c"
    "length (tok_buf R) = length buf" "tok_at (tok_buf R) (saveptr R) q c"
    "rest_toks (tok_buf R) (saveptr R) args"
    using rest_toks_first [OF assms] ts by auto
  have cs: "cstr (drop q (tok_buf R)) = Inr c" using R(5) by (rule tok_at_cstr)
  show ?thesis
  proof (cases "c = []")
    case True
    then show ?thesis using R ts by (simp add: parse_message_def parses_simps)
  next
    case False
    let ?m = "m\<lparr>msg_command := Some q\<rparr>" and ?b = "tok_buf R" and ?s = "saveptr R"
    have pm: "parse_message buf m =
       (if c = ''NICK'' then parse_message_nick ?b ?m ?s
        else if c = ''USER'' then parse_message_user ?b ?m ?s
        else if c = ''PING'' then parse_message_ping ?b ?m ?s
        else if c = ''PONG'' then parse_message_pong ?b ?m ?s
        else if c = ''MOTD'' then parse_message_motd ?b ?m ?s
        else if c = ''PRIVMSG'' then parse_message_privmsg ?b ?m ?s
        else if c = ''LUSERS'' then parse_message_lusers ?b ?m ?s
        else if c = ''WHOIS'' then parse_message_whois ?b ?m ?s
        else if c = ''JOIN'' then parse_message_join ?b ?m ?s
        else if c = ''PART'' then parse_message_part ?b ?m ?s
        else if c = ''LIST'' then parse_message_list ?b ?m ?s
        else if c = ''TOPIC'' then parse_message_topic ?b ?m ?s
        else if c = ''NAMES'' then parse_message_names ?b ?m ?s
        else if c = ''AWAY'' then parse_message_away ?b ?m ?s
        else Inr (?b, ?m\<lparr>msg_type := UNKNOWN\<rparr>, 0))"
      using R(1,2,3) cs False by (simp add: parse_message_def Let_def)
    have "parses (parse_message buf m) ?b ?m (parse_spec (c # args))"
      unfolding pm
    proof (intro parses_if, goal_cases)
      case 1
      show ?case unfolding 1(1) by (rule parse_nick_ok [OF R(6)])
    next
      case 2
      show ?case unfolding 2(2) by (rule parse_user_ok [OF R(6)])
    next
      case 3
      then show ?case by (simp add: parse_message_ping_def parses_simps)
    next
      case 4
      then show ?case by (simp add: parse_message_pong_def parses_simps)
    next
      case 5
      then show ?case by (simp add: parse_message_motd_def parses_simps)
    next
      case 6
      show ?case unfolding 6(6) by (rule parse_privmsg_ok [OF R(6)])
    next
      case 7
      then show ?case by (simp add: parse_message_lusers_def parses_simps)
    next
      case 8
      show ?case unfolding 8(8) by (rule parse_whois_ok [OF R(6)])
    next
      case 9
      show ?case unfolding 9(9) by (rule parse_join_ok [OF R(6)])
    next
      case 10
      show ?case unfolding 10(10) by (rule parse_part_ok [OF R(6)])
    next
      case 11
      show ?case unfolding 11(11) by (rule parse_list_ok [OF R(6)])
    next
      case 12
      show ?case unfolding 12(12) by (rule parse_topic_ok [OF R(6)])
    next
      case 13
      show ?case unfolding 13(13) by (rule parse_names_ok [OF R(6)])
    next
      case 14
      show ?case unfolding 14(14) by (rule parse_away_ok [OF R(6)])
    next
      case 15
      then show ?case using False tok_at_points [OF R(5)] by (simp add: parses_simps)
    qed
    then show ?thesis
      using False R(4) ts by (auto intro: parses_command parses_length simp: parse_spec_invalid_iff)
  qed
qed

lemma find_crlf_has_CR: "find_crlf bs = Some i \<Longrightarrow> CR \<in> set bs"
  by (induction bs arbitrary: i rule: find_crlf.induct) (auto split: if_splits)

lemma parse_message_total:
  assumes "stops buf 0"
  shows "\<exists>buf' m' ret. parse_message buf m = Inr (buf', m', ret) \<and> length buf' = length buf \<and>
           (ret = -1 \<or> (\<exists>l. line_at buf 0 l \<and>
              denotes m buf' m' ret (parse_spec (tokens (dropWhile (\<lambda>c. c = SP) l)))))"
proof -
  obtain p where p: "skip_spaces buf 0 = Inr p" "stops buf p" using skip_spaces_total [OF assms] by blast
  from strstr_crlf_total [OF p(2)] show ?thesis
  proof
    assume "strstr_crlf buf p = Inr None"
    then have "parse_message buf m = Inr (buf, m, -1)"
      using p(1) by (simp add: parse_message_def msgtok_r_def msgtok_scan_def)
    then show ?thesis by simp
  next
    assume "\<exists>l. line_at buf p l"
    then obtain l where l: "line_at buf 0 l" using line_at_skip_spaces [OF p(1)] by blast
    then show ?thesis using parse_message_line [OF l, of m] by (auto simp: parses_def)
  qed
qed

subsection \<open>Properties\<close>

text \<open>
  C4: \<open>parse_message\<close> computes the command the line stands for.  For every line in the buffer and
  every previous content of the struct, it returns, stays inside the buffer, and leaves struct,
  buffer and return value denoting exactly the command that \<open>parse_spec\<close> reads off the tokens of
  the line: the right type and error code for every one of the fifteen commands, and pointers
  that read the right parameters.
\<close>

theorem parse_message_correct:
  assumes "line_at buf 0 l"
  shows "\<exists>buf' m' ret. parse_message buf m = Inr (buf', m', ret) \<and> length buf' = length buf \<and>
           denotes m buf' m' ret (parse_spec (tokens (dropWhile (\<lambda>c. c = SP) l)))"
  using parse_message_line [OF assms, of m] by (simp add: parses_def)

theorem parse_message_correct_witness:
  "\<exists>buf' m' ret. parse_message (''NICK bob'' @ CRLF) zero_message = Inr (buf', m', ret) \<and>
     ret = 0 \<and> msg_type m' = NICK \<and> points buf' (nick_nick m') ''bob''"
proof -
  have l: "line_at (''NICK bob'' @ CRLF) 0 ''NICK bob''" by (simp add: line_at_def is_line_def)
  have "tokens ''NICK bob'' = [''NICK'', ''bob'']" by (simp add: tokens.simps tok_next_def)
  then have "parse_spec (tokens (dropWhile (\<lambda>c. c = SP) ''NICK bob'')) = Cmd_nick ''bob''"
    by (simp add: parse_spec_def nonempty_arg_def)
  with parse_message_correct [OF l, of zero_message] show ?thesis by auto
qed

text \<open>
  C16: parsing is memory safe on every buffer that holds a CRLF or a NUL, whatever else is in it
  (embedded NULs, several CRLFs, only spaces): \<open>parse_message\<close> returns, and no token function or
  parser reads or writes outside the buffer.
\<close>

theorem parse_message_memory_safe:
  assumes "stops buf 0"
  shows "\<exists>buf' m' ret. parse_message buf m = Inr (buf', m', ret) \<and> length buf' = length buf"
  using parse_message_total [OF assms, of m] by blast

theorem parse_message_memory_safe_witness:
  "\<exists>buf' m' ret. parse_message ([SP, NUL] @ CRLF) zero_message = Inr (buf', m', ret) \<and> length buf' = 4"
  using parse_message_memory_safe [of "[SP, NUL] @ CRLF" zero_message]
  by (simp add: stops_def CRLF_def numeral_eq_Suc)

text \<open>
  Writing a nickname command and parsing it gives the nickname back.  For every nickname that
  is a proper word of at most nine characters, parsing \<open>NICK <nickname>\<close> in a message buffer
  yields type \<open>NICK\<close>, no error, and a pointer that reads exactly that nickname; with ten or more
  characters it yields \<open>ERR_ERRONEUSNICKNAME\<close> and leaves the pointer of the previous message.
\<close>

theorem nick_command_roundtrip:
  assumes "word_ok n"
  shows "\<exists>buf' m' ret. parse_message (''NICK '' @ n @ CRLF @ rest) m = Inr (buf', m', ret) \<and>
           msg_type m' = NICK \<and>
           (if length n \<le> 9 then ret = 0 \<and> parse_err m' = 0 \<and> points buf' (nick_nick m') n
            else parse_err m' = ERR_ERRONEUSNICKNAME \<and> nick_nick m' = nick_nick m)"
proof -
  have w: "word_ok ''NICK''" by (simp add: word_ok_def)
  have "find_crlf n = None"
  proof (rule ccontr)
    assume "find_crlf n \<noteq> None"
    then obtain i where "find_crlf n = Some i" by blast
    from find_crlf_has_CR [OF this] assms show False by (simp add: word_ok_def)
  qed
  then have line: "is_line (''NICK '' @ n)" using assms by (auto simp: is_line_def find_crlf_Cons word_ok_def)
  have l: "line_at (''NICK '' @ n @ CRLF @ rest) 0 (''NICK '' @ n)" using line by (simp add: line_at_def)
  have "tokens (''NICK '' @ n) = [''NICK'', n]"
    using tokens_render [of "[''NICK'', n]" None] w assms by simp
  moreover have "n \<noteq> []" using assms by (simp add: word_ok_def)
  ultimately have "parse_spec (tokens (dropWhile (\<lambda>c. c = SP) (''NICK '' @ n))) =
      (if length n > 9 then Cmd_nick_too_long else Cmd_nick n)"
    by (simp add: parse_spec_def nonempty_arg_def)
  with parse_message_line [OF l, of m] show ?thesis
    by (auto simp: parses_def split: if_splits)
qed

theorem nick_command_roundtrip_witness:
  "\<exists>buf' m' ret. parse_message (''NICK ann'' @ CRLF @ [NUL]) zero_message = Inr (buf', m', ret) \<and>
     ret = 0 \<and> points buf' (nick_nick m') ''ann''"
  using nick_command_roundtrip [of "''ann''" "[NUL]" zero_message] by (auto simp: word_ok_def)

end
