(* ===== verification/Handlers.thy ===== *)
theory Handlers
  imports Channel Parser
begin

text \<open>
  \<open>src/handlers.c\<close>: one handler per message type and the table that dispatches on the type.

  A handler takes the address of the client that sent the message, the parsed message and the
  world; it returns the world and its \<open>int\<close> result.  The pointers in the message point into the
  client's message buffer, so reading one reads that buffer, and the in-place lowercasing is a
  write to it.  The token loops (\<open>strtok_r\<close> on a channel list) run over the list of tokens: the
  bytes they overwrite, separators and the case of a token already read, are not read again before
  the buffer is cleared for the next message.
\<close>

subsection \<open>The message buffer\<close>

definition msg_ptr :: "caddr \<Rightarrow> nat option \<Rightarrow> world \<Rightarrow> cptr run" where
  "msg_ptr a p w =
     rbind (deref NullDeref p) (\<lambda>q. rbind (get_client w a) (\<lambda>c. Inr (drop q (conn_message (conn c)))))"

definition msg_str :: "caddr \<Rightarrow> nat option \<Rightarrow> world \<Rightarrow> string run" where
  "msg_str a p w = rbind (msg_ptr a p w) cstr"

definition write_at :: "nat \<Rightarrow> string \<Rightarrow> char list \<Rightarrow> char list" where
  "write_at p s buf = take p buf @ s @ drop (p + length s) buf"

definition set_message :: "char list \<Rightarrow> client_s \<Rightarrow> client_s" where
  "set_message buf c = c\<lparr>conn := (conn c)\<lparr>conn_message := buf\<rparr>\<rparr>"

text \<open>Write the string back where it was read from: \<open>s\<close> is as long as the string at \<open>p\<close>.\<close>

definition store_str :: "caddr \<Rightarrow> nat option \<Rightarrow> string \<Rightarrow> world \<Rightarrow> world" where
  "store_str a p s w =
     (case p of None \<Rightarrow> w
      | Some q \<Rightarrow> upd_client a (\<lambda>c. set_message (write_at q s (conn_message (conn c))) c) w)"

subsection \<open>Handlers\<close>

type_synonym handler2_t = "caddr \<Rightarrow> irc_message \<Rightarrow> world \<Rightarrow> (world \<times> int) run"

definition Handler_Unknown :: handler2_t where
  "Handler_Unknown a m w =
     rbind (get_client w a) (\<lambda>c.
     rbind (msg_ptr a (msg_command m) w) (\<lambda>command.
     rbind (push_reply a (Reply_ErrUnknownCommand c command) w) (\<lambda>w. Inr (w, 0))))"

definition push_optional :: "caddr \<Rightarrow> response_s option \<Rightarrow> world \<Rightarrow> world" where
  "push_optional a r w = (case r of None \<Rightarrow> w | Some r \<Rightarrow> push_tail a r w)"

definition Handler_Nick :: handler2_t where
  "Handler_Nick a m w =
     rbind (get_client w a) (\<lambda>c.
       if parse_err m = ERR_NONICKNAMEGIVEN then
         rbind (push_reply a (Reply_ErrNoNicknameGiven c) w) (\<lambda>w. Inr (w, -1))
       else
         rbind (msg_str a (nick_nick m) w) (\<lambda>nick.
         rbind (Client_TryChangeNick a nick w) (\<lambda>(w, r, result).
           if result = -1 then Inr (push_optional a r w, -1)
           else rbind (Client_TryRegister a w) (\<lambda>(w, r). Inr (push_optional a r w, 0)))))"

definition Handler_User :: handler2_t where
  "Handler_User a m w =
     rbind (get_client w a) (\<lambda>c.
       if parse_err m = ERR_NEEDMOREPARAMS then
         rbind (push_reply a (Reply_ErrNeedMoreParams c (lit ''USER'')) w) (\<lambda>w. Inr (w, -1))
       else if registered c then
         rbind (push_reply a (Reply_ErrAlreadyRegistered c) w) (\<lambda>w. Inr (w, -1))
       else
         rbind (msg_str a (user_username m) w) (\<lambda>user.
         rbind (strncpy (username c) user IRC_MSG_SIZE) (\<lambda>un.
         rbind (msg_str a (user_fullname m) w) (\<lambda>full.
         rbind (strncpy (fullname c) full IRC_MSG_SIZE) (\<lambda>fn.
           let w = upd_client a (\<lambda>c. c\<lparr>username := un, fullname := fn, receivedUser := True\<rparr>) w in
           rbind (Client_TryRegister a w) (\<lambda>(w, r). Inr (push_optional a r w, 0)))))))"

text \<open>A null pointer from the client table is followed by \<open>Client_Send\<close>.\<close>

definition Handler_Privmsg :: "env \<Rightarrow> handler2_t" where
  "Handler_Privmsg e a m w =
     rbind (get_client w a) (\<lambda>c.
       if parse_err m = ERR_NORECIPIENT then
         rbind (push_reply a (Reply_ErrNoRecipient c (lit ''PRIVMSG'')) w) (\<lambda>w. Inr (w, -1))
       else if parse_err m = ERR_NOTEXTTOSEND then
         rbind (push_reply a (Reply_ErrNoTextToSend c) w) (\<lambda>w. Inr (w, -1))
       else
         rbind (msg_str a (privmsg_msgtarget m) w) (\<lambda>target.
           if take 1 target \<in> {''#'', ''+'', ''!'', ''&''} then
             (case g_lookup (channels (server w)) target of
                None \<Rightarrow> Inr (w, 0)
              | Some ch \<Rightarrow>
                  rbind (msg_ptr a (privmsg_contents m) w) (\<lambda>contents.
                  rbind (channel_sendall_privmsg e ch a contents w) (\<lambda>w. Inr (w, 0))))
           else
             (let targetId = (case g_lookup (nicks (server w)) target of None \<Rightarrow> 0 | Some i \<Rightarrow> i) in
              if targetId = 0 then
                rbind (push_reply a (Reply_ErrNoSuchNick c (lit target)) w) (\<lambda>w. Inr (w, -1))
              else
                rbind (msg_ptr a (privmsg_contents m) w) (\<lambda>contents.
                rbind (Message_Privmsg c (lit target) contents) (\<lambda>response.
                rbind (deref NullDeref (g_lookup (clients (server w)) targetId)) (\<lambda>t.
                rbind (Client_Send t response w) (\<lambda>w.
                rbind (get_client w t) (\<lambda>tc.
                  if away tc then
                    rbind (get_client w a) (\<lambda>c.
                    rbind (push_reply a
                             (format_rpl_away c (server w) (nickname tc) (away_message tc)) w) (\<lambda>w.
                      Inr (w, 0)))
                  else Inr (w, 0)))))))))"

definition Handler_Ping :: handler2_t where
  "Handler_Ping a m w =
     rbind (push_reply a (Reply_Pong (server_hostname (server w))) w) (\<lambda>w. Inr (w, 0))"

definition Handler_Pong :: handler2_t where
  "Handler_Pong a m w = Inr (w, 0)"

abbreviation (input) MOTD_FRAGMENT_MAX :: nat where "MOTD_FRAGMENT_MAX \<equiv> 80"

text \<open>
  One round of the loop of \<open>Handler_Motd\<close>; the state is the world and the local array \<open>part\<close>, which
  \<open>strncpy\<close> overwrites up to its last byte in every round.
\<close>

definition motd_step ::
    "caddr \<Rightarrow> cptr \<Rightarrow> nat \<Rightarrow> nat \<Rightarrow> nat \<Rightarrow> world \<times> char list \<Rightarrow> (world \<times> char list) run" where
  "motd_step a mt len numParts j st =
     rbind (cstr (drop (MOTD_FRAGMENT_MAX * j) mt)) (\<lambda>s.
     rbind (strncpy (snd st) s MOTD_FRAGMENT_MAX) (\<lambda>part.
       let part = (if j < numParts - 1 then part[MOTD_FRAGMENT_MAX := NUL]
                   else part[len mod MOTD_FRAGMENT_MAX := NUL]) in
       rbind (get_client (fst st) a) (\<lambda>c.
       rbind (push_reply a (Reply_RplMotd c part) (fst st)) (\<lambda>w. Inr (w, part)))))"

definition Handler_Motd :: handler2_t where
  "Handler_Motd a m w =
     rbind (get_client w a) (\<lambda>c.
       case motd (server w) of
         None \<Rightarrow> rbind (push_reply a (Reply_ErrNoMotd c) w) (\<lambda>w. Inr (w, -1))
       | Some mt \<Rightarrow>
           rbind (cstr mt) (\<lambda>s.
             let len = length s;
                 numParts = len div MOTD_FRAGMENT_MAX + (if len mod MOTD_FRAGMENT_MAX \<noteq> 0 then 1 else 0) in
             rbind (push_reply a (Reply_RplMotdStart c (server_hostname (server w))) w) (\<lambda>w.
             rbind (rfold (motd_step a mt len numParts) [0..<numParts]
                      (w, replicate (MOTD_FRAGMENT_MAX + 1) NUL)) (\<lambda>(w, _).
             rbind (push_reply a (Reply_RplEndOfMotd c) w) (\<lambda>w. Inr (w, 0))))))"

definition Handler_LUsers :: handler2_t where
  "Handler_LUsers a m w =
     (let srv = server w in
      rbind (get_client w a) (\<lambda>c.
      rbind (push_reply a (Reply_RplLUserClient c srv) w) (\<lambda>w.
      rbind (if nOperators srv \<noteq> 0 then push_reply a (Reply_RplLUserOp c srv) w else Inr w) (\<lambda>w.
      rbind (if nUnknown srv \<noteq> 0 then push_reply a (Reply_RplLUserUnknown c srv) w else Inr w) (\<lambda>w.
      rbind (if nChannels srv \<noteq> 0 then push_reply a (Reply_RplLUserChannels c srv) w else Inr w) (\<lambda>w.
      rbind (push_reply a (Reply_RplLUserMe c srv) w) (\<lambda>w. Inr (w, 0))))))))"

text \<open>A null pointer from the client table is followed by the formatting functions.\<close>

definition Handler_WhoIs :: handler2_t where
  "Handler_WhoIs a m w =
     (if whois_mask m = None then Inr (w, 0)
      else
        rbind (get_client w a) (\<lambda>c.
        rbind (msg_str a (whois_mask m) w) (\<lambda>nickMask.
          let queriedId = (case g_lookup (nicks (server w)) nickMask of None \<Rightarrow> 0 | Some i \<Rightarrow> i) in
          if queriedId = 0 then
            rbind (push_reply a (Reply_ErrNoSuchNick c (lit nickMask)) w) (\<lambda>w. Inr (w, -1))
          else
            rbind (deref NullDeref (g_lookup (clients (server w)) queriedId)) (\<lambda>q.
            rbind (get_client w q) (\<lambda>queried.
            rbind (push_reply a (Reply_RplWhoIsUser c queried) w) (\<lambda>w.
            rbind (push_reply a (Reply_RplWhoIsServer c queried (server w)) w) (\<lambda>w.
            rbind (push_reply a (Reply_RplEndOfWhoIs c queried) w) (\<lambda>w. Inr (w, 0)))))))))"

text \<open>The body of the loop of \<open>handler_join\<close>, for one channel name.\<close>

definition join_one :: "env \<Rightarrow> caddr \<Rightarrow> string \<Rightarrow> world \<Rightarrow> world run" where
  "join_one e a channel_name w =
     rbind (case server_get_channel (server w) channel_name of
              (_, Some ch) \<Rightarrow> rbind (channel_join e ch a w) (\<lambda>(w, _). Inr (w, ch))
            | (name, None) \<Rightarrow> server_create_channel name a w) (\<lambda>(w, ch).
     rbind (get_channel w ch) (\<lambda>channel.
     rbind (get_client w a) (\<lambda>c.
     rbind (push_reply a (Format_MessageJoin c (chan_name channel)) w) (\<lambda>w.
     rbind (cstr (chan_topic channel)) (\<lambda>topic.
     rbind (if length topic \<noteq> 0 then push_reply a (Reply_RplTopic c (server w) channel) w else Inr w) (\<lambda>w.
     rbind (push_reply a (Reply_RplNamReply e w c (server w) channel) w) (\<lambda>w.
       push_reply a (Reply_RplEndOfNames c (server w) channel) w)))))))"

text \<open>\<open>strtok_r(NULL, ",", &save_ptr)\<close> reads \<open>save_ptr\<close>, which nothing has initialised.\<close>

definition handler_join :: "env \<Rightarrow> handler2_t" where
  "handler_join e a m w =
     rbind (get_client w a) (\<lambda>c.
       if parse_err m = ERR_NEEDMOREPARAMS then
         rbind (push_reply a (Reply_ErrNeedMoreParams c (lit ''JOIN'')) w) (\<lambda>w. Inr (w, -1))
       else if join_channels m = None then Inl UninitPointer
       else
         rbind (msg_str a (join_channels m) w) (\<lambda>chans.
         rbind (rfold (join_one e a) (strtok_all chans (CHR '','')) w) (\<lambda>w. Inr (w, 0))))"

definition handler_part :: "env \<Rightarrow> handler2_t" where
  "handler_part e a m w =
     rbind (get_client w a) (\<lambda>c.
     rbind (msg_str a (part_channels m) w) (\<lambda>given.
       let w = store_str a (part_channels m) (lowercase given) w in
       case server_get_channel (server w) (lowercase given) of
         (channel_name, None) \<Rightarrow>
           rbind (push_reply a (Reply_ErrNoSuchChannel c (server w) (lit channel_name)) w) (\<lambda>w.
             Inr (w, -1))
       | (channel_name, Some ch) \<Rightarrow>
           rbind (get_channel w ch) (\<lambda>channel.
             if \<not> channel_is_member channel c then
               rbind (push_reply a (Reply_ErrNotOnChannel c (server w) channel) w) (\<lambda>w. Inr (w, -1))
             else
               rbind (if part_message m = None then Inr None
                      else rbind (msg_ptr a (part_message m) w) (\<lambda>p. Inr (Some p))) (\<lambda>pm.
               rbind (channel_sendall_part e ch a pm w) (\<lambda>w.
               rbind (channel_remove_member ch a w) (\<lambda>w.
               rbind (get_channel w ch) (\<lambda>channel.
                 if channel_size channel = 0 then
                   rbind (server_remove_channel ch w) (\<lambda>w. Inr (w, 0))
                 else Inr (w, 0))))))))"

definition list_one :: "caddr \<Rightarrow> chaddr \<Rightarrow> world \<Rightarrow> world run" where
  "list_one a ch w =
     rbind (get_channel w ch) (\<lambda>channel.
     rbind (get_client w a) (\<lambda>c. push_reply a (Reply_RplList c (server w) channel) w))"

definition list_named :: "caddr \<Rightarrow> string \<Rightarrow> world \<Rightarrow> world run" where
  "list_named a channel_name w =
     (case server_get_channel (server w) channel_name of
        (_, Some ch) \<Rightarrow> list_one a ch w
      | (_, None) \<Rightarrow> Inr w)"

definition handler_list :: "env \<Rightarrow> handler2_t" where
  "handler_list e a m w =
     rbind (get_client w a) (\<lambda>c.
     rbind (push_reply a (Reply_RplListStart c (server w)) w) (\<lambda>w.
     rbind (if list_channels m = None then
              rfold (\<lambda>entry. list_one a (snd entry)) (iter_channels e (channels (server w))) w
            else
              rbind (msg_str a (list_channels m) w) (\<lambda>chans.
                rfold (list_named a) (strtok_all chans (CHR '','')) w)) (\<lambda>w.
     rbind (push_reply a (Reply_RplListEnd c (server w)) w) (\<lambda>w. Inr (w, 0)))))"

definition handler_topic :: handler2_t where
  "handler_topic a m w =
     rbind (get_client w a) (\<lambda>c.
       if parse_err m = ERR_NEEDMOREPARAMS then
         rbind (push_reply a (Reply_ErrNeedMoreParams c (lit ''TOPIC'')) w) (\<lambda>w. Inr (w, -1))
       else
         rbind (msg_str a (topic_channel m) w) (\<lambda>given.
           let (name, found) = server_get_channel (server w) given;
               w = store_str a (topic_channel m) name w in
           if topic_topic m = None then
             (case found of
                None \<Rightarrow>
                  rbind (push_reply a (Reply_ErrNoSuchChannel c (server w) (lit name)) w) (\<lambda>w. Inr (w, -1))
              | Some ch \<Rightarrow>
                  rbind (get_channel w ch) (\<lambda>channel.
                    if take 1 (chan_topic channel) \<noteq> [NUL] then
                      rbind (push_reply a (Reply_RplTopic c (server w) channel) w) (\<lambda>w. Inr (w, 0))
                    else
                      rbind (push_reply a (Reply_RplNoTopic c (server w) channel) w) (\<lambda>w. Inr (w, 0))))
           else
             rbind (deref NullDeref found) (\<lambda>ch.
             rbind (msg_str a (topic_topic m) w) (\<lambda>topic.
             rbind (channel_set_topic ch topic w) (\<lambda>w. Inr (w, 0))))))"

definition names_one :: "env \<Rightarrow> caddr \<Rightarrow> string \<Rightarrow> world \<Rightarrow> world run" where
  "names_one e a tk w =
     (case server_get_channel (server w) tk of
        (_, Some ch) \<Rightarrow>
          rbind (get_channel w ch) (\<lambda>channel.
          rbind (get_client w a) (\<lambda>c.
          rbind (push_reply a (Reply_RplNamReply e w c (server w) channel) w) (\<lambda>w.
            push_reply a (Reply_RplEndOfNames c (server w) channel) w)))
      | (_, None) \<Rightarrow> Inr w)"

definition handler_names :: "env \<Rightarrow> handler2_t" where
  "handler_names e a m w =
     (if names_channels m = None then Inr (w, 0)
      else
        rbind (msg_str a (names_channels m) w) (\<lambda>chans.
        rbind (rfold (names_one e a) (strtok_all chans (CHR '','')) w) (\<lambda>w. Inr (w, 0))))"

definition handler_away :: handler2_t where
  "handler_away a m w =
     rbind (get_client w a) (\<lambda>c.
       if away_text m \<noteq> None then
         rbind (msg_str a (away_text m) w) (\<lambda>text.
         rbind (client_set_away a text w) (\<lambda>w.
         rbind (push_reply a (format_rpl_nowaway c (server w)) w) (\<lambda>w. Inr (w, 0))))
       else
         rbind (client_unset_away a w) (\<lambda>w.
         rbind (push_reply a (format_rpl_unaway c (server w)) w) (\<lambda>w. Inr (w, 0))))"

subsection \<open>Dispatch\<close>

text \<open>
  The table that \<open>Handler_Register\<close> fills; an entry nobody sets is the null pointer.  \<open>INVALID\<close> is
  \<open>-1\<close>, an index before the array.
\<close>

definition handlers2 :: "env \<Rightarrow> irc_message_type \<Rightarrow> handler2_t option" where
  "handlers2 e t =
     (case t of
        UNKNOWN \<Rightarrow> Some Handler_Unknown
      | NICK \<Rightarrow> Some Handler_Nick
      | USER \<Rightarrow> Some Handler_User
      | PING \<Rightarrow> Some Handler_Ping
      | PONG \<Rightarrow> Some Handler_Pong
      | MOTD \<Rightarrow> Some Handler_Motd
      | PRIVMSG \<Rightarrow> Some (Handler_Privmsg e)
      | LUSERS \<Rightarrow> Some Handler_LUsers
      | WHOIS \<Rightarrow> Some Handler_WhoIs
      | JOIN \<Rightarrow> Some (handler_join e)
      | PART \<Rightarrow> Some (handler_part e)
      | LIST \<Rightarrow> Some (handler_list e)
      | TOPIC \<Rightarrow> Some handler_topic
      | NAMES \<Rightarrow> Some (handler_names e)
      | AWAY \<Rightarrow> Some handler_away
      | NOTICE \<Rightarrow> None
      | INVALID \<Rightarrow> None)"

definition Handler_HandleMessage :: "env \<Rightarrow> handler2_t" where
  "Handler_HandleMessage e a m w =
     (if msg_type m = INVALID then Inl OutOfBounds
      else case handlers2 e (msg_type m) of None \<Rightarrow> Inl NullCall | Some h \<Rightarrow> h a m w)"

text \<open>The older table and its dispatch: nothing fills \<open>handlers1\<close>, so every entry is the null pointer.\<close>

definition handlers1 :: "irc_message_type \<Rightarrow> (world \<Rightarrow> world run) option" where
  "handlers1 t = None"

definition handle_message1 :: "irc_message \<Rightarrow> world \<Rightarrow> world run" where
  "handle_message1 m w =
     (if msg_type m = INVALID then Inl OutOfBounds
      else case handlers1 (msg_type m) of None \<Rightarrow> Inl NullCall | Some h \<Rightarrow> h w)"

end
