(* ===== verification/ReadMessage.thy ===== *)
theory ReadMessage
  imports State Msgtok
begin

text \<open>
  Framing: \<open>src/connection.c\<close> and \<open>conn_read_message\<close> of \<open>src/read_message.c\<close>.

  A connection collects bytes in \<open>store\<close> (\<open>totalRead\<close> of them) and hands out one message at a
  time in \<open>conn_message\<close>.  The contract is \<open>frame\<close> on the pending bytes: the bytes up to and with
  the first CRLF, or, when 511 or 512 bytes hold no CRLF, the first 510 closed with a CRLF.
\<close>

subsection \<open>Memory primitives on arrays\<close>

definition memcpy :: "char list \<Rightarrow> char list \<Rightarrow> nat \<Rightarrow> char list run" where
  "memcpy dst src n =
     (if length src < n then Inl OutOfBounds
      else if length dst < n then Inl BufferOverflow
      else Inr (take n src @ drop n dst))"

definition memset0 :: "char list \<Rightarrow> nat \<Rightarrow> nat \<Rightarrow> char list run" where
  "memset0 a off n =
     (if off + n \<le> length a then Inr (take off a @ replicate n NUL @ drop (off + n) a)
      else Inl BufferOverflow)"

text \<open>\<open>memmove(a, a + off, n)\<close>\<close>

definition memmove_down :: "char list \<Rightarrow> nat \<Rightarrow> nat \<Rightarrow> char list run" where
  "memmove_down a off n =
     (if off + n \<le> length a then Inr (take n (drop off a) @ drop n a) else Inl OutOfBounds)"

subsection \<open>\<open>strncrlf\<close>\<close>

function strncrlf_from :: "char list \<Rightarrow> nat \<Rightarrow> nat \<Rightarrow> nat option run" where
  "strncrlf_from str limit i =
     (if i < limit then
        (if i < length str then
           (if str ! i = LF \<and> str ! (i - 1) = CR then Inr (Some (i - 1))
            else strncrlf_from str limit (i + 1))
         else Inl OutOfBounds)
      else Inr None)"
  by pat_completeness auto
termination by (relation "measure (\<lambda>(_, limit, i). limit - i)") auto

declare strncrlf_from.simps [simp del]

definition strncrlf :: "char list \<Rightarrow> nat \<Rightarrow> nat option run" where
  "strncrlf str limit = strncrlf_from str limit 1"

subsection \<open>\<open>Conn_ReadStoreBuffer\<close>\<close>

text \<open>
  What \<open>read\<close> returns: an error, or at most as many bytes as were asked for (none: the peer has
  closed the connection).  The bytes go to the start of \<open>store\<close>, whatever \<open>totalRead\<close> is, as in
  the code.
\<close>

datatype read_result = Read_error | Read_bytes "char list"

definition Conn_ReadStoreBuffer :: "conn_s \<Rightarrow> read_result \<Rightarrow> (conn_s \<times> int) run" where
  "Conn_ReadStoreBuffer cn rr =
     (case rr of
        Read_error \<Rightarrow> Inr (cn, -1)
      | Read_bytes bytes \<Rightarrow>
          let bs = take (IRC_MSG_SIZE - totalRead cn) bytes in
          rbind (memcpy (store cn) bs (length bs)) (\<lambda>st.
            Inr (cn\<lparr>store := st, totalRead := totalRead cn + length bs\<rparr>, int (length bs))))"

subsection \<open>\<open>conn_read_message\<close>\<close>

text \<open>The branch with a CRLF at \<open>crlf\<close>: copy the message out unless it is to be discarded, and shift
  the rest of the store down.\<close>

definition take_message :: "conn_s \<Rightarrow> nat \<Rightarrow> conn_s run" where
  "take_message cn crlf =
     (let messageLen = crlf + 2; remainingLen = totalRead cn - messageLen in
      rbind (if discardNext cn then Inr (conn_message cn)
             else memcpy (conn_message cn) (store cn) messageLen) (\<lambda>msg.
      rbind (memmove_down (store cn) messageLen remainingLen) (\<lambda>st.
      rbind (memset0 st remainingLen messageLen) (\<lambda>st.
        Inr (cn\<lparr>conn_message := msg, store := st, totalRead := totalRead cn - messageLen\<rparr>)))))"

text \<open>The branch with 511 or 512 bytes and no CRLF.\<close>

definition truncate_message :: "conn_s \<Rightarrow> conn_s run" where
  "truncate_message cn =
     rbind (if discardNext cn then Inr (conn_message cn)
            else rbind (memcpy (conn_message cn) (store cn) (IRC_MSG_SIZE - 2)) (\<lambda>m.
                   Inr (m[IRC_MSG_SIZE - 2 := CR, IRC_MSG_SIZE - 1 := LF]))) (\<lambda>msg.
     if totalRead cn = IRC_MSG_SIZE - 1 then
       rbind (memset0 ((store cn)[0 := store cn ! (IRC_MSG_SIZE - 2)]) 1 (IRC_MSG_SIZE - 1)) (\<lambda>st.
         Inr (cn\<lparr>conn_message := msg, store := st, totalRead := 1\<rparr>))
     else
       rbind (memset0 ((store cn)[0 := store cn ! (IRC_MSG_SIZE - 2), 1 := store cn ! (IRC_MSG_SIZE - 1)])
                2 (IRC_MSG_SIZE - 2)) (\<lambda>st.
         Inr (cn\<lparr>conn_message := msg, store := st, totalRead := 2\<rparr>)))"

text \<open>The loop; the boolean of the result says whether a message is returned or the null pointer.\<close>

function conn_read_loop :: "conn_s \<Rightarrow> (conn_s \<times> bool) run" where
  "conn_read_loop cn =
     rbind (strncrlf (store cn) (totalRead cn)) (\<lambda>crlf. case crlf of
       Some i \<Rightarrow>
         rbind (take_message cn i) (\<lambda>cn'.
           if discardNext cn then conn_read_loop (cn'\<lparr>discardNext := False\<rparr>) else Inr (cn', True))
     | None \<Rightarrow>
         if totalRead cn > IRC_MSG_SIZE - 2 then
           rbind (truncate_message cn) (\<lambda>cn'.
             if discardNext cn then conn_read_loop (cn'\<lparr>discardNext := False\<rparr>) else Inr (cn', True))
         else Inr (cn, False))"
  by pat_completeness auto
termination by (relation "measure (\<lambda>cn. if discardNext cn then 1 else 0)") auto

declare conn_read_loop.simps [simp del]

definition conn_read_message :: "conn_s \<Rightarrow> (conn_s \<times> bool) run" where
  "conn_read_message cn =
     rbind (memset0 (conn_message cn) 0 IRC_MSG_SIZE) (\<lambda>m. conn_read_loop (cn\<lparr>conn_message := m\<rparr>))"

subsection \<open>The contract\<close>

definition conn_wf :: "conn_s \<Rightarrow> bool" where
  "conn_wf cn \<longleftrightarrow> length (store cn) = IRC_MSG_SIZE \<and> length (conn_message cn) = IRC_MSG_SIZE \<and>
     totalRead cn \<le> IRC_MSG_SIZE"

definition pending :: "conn_s \<Rightarrow> char list" where
  "pending cn = take (totalRead cn) (store cn)"

definition frame :: "char list \<Rightarrow> (char list \<times> char list) option" where
  "frame bs =
     (case find_crlf bs of
        Some i \<Rightarrow> Some (take (i + 2) bs, drop (i + 2) bs)
      | None \<Rightarrow> if length bs > IRC_MSG_SIZE - 2
                then Some (take (IRC_MSG_SIZE - 2) bs @ CRLF, drop (IRC_MSG_SIZE - 2) bs) else None)"

lemma length_pending: "conn_wf cn \<Longrightarrow> length (pending cn) = totalRead cn"
  by (simp add: conn_wf_def pending_def)

lemma find_crlf_bound: "find_crlf bs = Some i \<Longrightarrow> i + 2 \<le> length bs \<and> bs ! i = CR \<and> bs ! (i + 1) = LF"
proof (induction bs arbitrary: i rule: find_crlf.induct)
  case (1 c d cs)
  show ?case
  proof (cases "c = CR \<and> d = LF")
    case True
    with "1.prems" show ?thesis by auto
  next
    case False
    with "1.prems" obtain j where j: "find_crlf (d # cs) = Some j" "i = Suc j" by (auto split: if_splits)
    then show ?thesis using "1.IH" [OF False] by auto
  qed
qed auto

lemma find_crlf_first: "find_crlf bs = Some i \<Longrightarrow> find_crlf (take (i + 1) bs) = None"
proof (induction bs arbitrary: i rule: find_crlf.induct)
  case (1 c d cs)
  show ?case
  proof (cases "c = CR \<and> d = LF")
    case True
    with "1.prems" show ?thesis by auto
  next
    case False
    with "1.prems" obtain j where j: "find_crlf (d # cs) = Some j" "i = Suc j" by (auto split: if_splits)
    then show ?thesis using "1.IH" [OF False, of j] False by auto
  qed
qed auto

lemma find_crlf_short: "length bs \<le> 1 \<Longrightarrow> find_crlf bs = None"
  by (cases bs rule: find_crlf.cases) auto

text \<open>The index loop of \<open>strncrlf\<close> finds the first CRLF.\<close>

lemma strncrlf_from_eq:
  "limit \<le> length str \<Longrightarrow> 1 \<le> i \<Longrightarrow>
     strncrlf_from str limit i =
       Inr (map_option (\<lambda>k. k + (i - 1)) (find_crlf (drop (i - 1) (take limit str))))"
proof (induction str limit i rule: strncrlf_from.induct)
  case (1 str limit i)
  show ?case
  proof (cases "i < limit")
    case True
    then have len: "i < length str" using "1.prems" by simp
    have d: "drop (i - 1) (take limit str) = str ! (i - 1) # str ! i # drop (i + 1) (take limit str)"
      using True "1.prems"
      by (metis (no_types, lifting) Cons_nth_drop_Suc One_nat_def Suc_diff_1 Suc_eq_plus1 Suc_le_eq
          length_take less_imp_diff_less min.absorb2 nth_take)
    show ?thesis
    proof (cases "str ! i = LF \<and> str ! (i - 1) = CR")
      case hit: True
      then show ?thesis using True len by (subst strncrlf_from.simps) (simp only: d, simp)
    next
      case False
      have IH: "strncrlf_from str limit (i + 1) =
          Inr (map_option (\<lambda>k. k + i) (find_crlf (drop i (take limit str))))"
        using "1.IH" [OF True len False] "1.prems" by simp
      have d': "drop i (take limit str) = str ! i # drop (i + 1) (take limit str)"
        using True "1.prems" by (metis Cons_nth_drop_Suc Suc_eq_plus1 length_take min.absorb2 nth_take)
      have "find_crlf (drop (i - 1) (take limit str)) = map_option Suc (find_crlf (drop i (take limit str)))"
        using False by (simp only: d d' find_crlf.simps) auto
      then have "map_option (\<lambda>k. k + (i - 1)) (find_crlf (drop (i - 1) (take limit str)))
          = map_option (\<lambda>k. k + i) (find_crlf (drop i (take limit str)))"
        using "1.prems" by (simp add: option.map_comp comp_def)
      then show ?thesis using IH True len False by (subst strncrlf_from.simps) auto
    qed
  next
    case False
    then have "length (drop (i - 1) (take limit str)) \<le> 1" using "1.prems" by simp
    then have "find_crlf (drop (i - 1) (take limit str)) = None" by (rule find_crlf_short)
    with False show ?thesis by (subst strncrlf_from.simps) simp
  qed
qed

lemma strncrlf_eq: "limit \<le> length str \<Longrightarrow> strncrlf str limit = Inr (find_crlf (take limit str))"
  by (simp add: strncrlf_def strncrlf_from_eq option.map_ident)

text \<open>One branch each.\<close>

definition conn_frame :: "conn_s \<Rightarrow> conn_s \<Rightarrow> bool" where
  "conn_frame cn cn' \<longleftrightarrow> conn_fd cn' = conn_fd cn \<and> eagain cn' = eagain cn \<and>
     conn_responses cn' = conn_responses cn"

lemma conn_frame_refl [simp]: "conn_frame cn cn"
  by (simp add: conn_frame_def)

lemma take_message_frame:
  assumes "conn_wf cn" and "find_crlf (pending cn) = Some i"
  shows "\<exists>cn'. take_message cn i = Inr cn' \<and> conn_wf cn' \<and> conn_frame cn cn' \<and>
           discardNext cn' = discardNext cn \<and>
           pending cn' = drop (i + 2) (pending cn) \<and>
           conn_message cn' = (if discardNext cn then conn_message cn
                               else take (i + 2) (pending cn) @ drop (i + 2) (conn_message cn))"
proof -
  have len: "length (store cn) = IRC_MSG_SIZE" "length (conn_message cn) = IRC_MSG_SIZE"
    "totalRead cn \<le> IRC_MSG_SIZE" using assms(1) by (auto simp: conn_wf_def)
  have i: "i + 2 \<le> totalRead cn"
    using find_crlf_bound [OF assms(2)] length_pending [OF assms(1)] by simp
  let ?r = "totalRead cn - (i + 2)"
  have mv: "memmove_down (store cn) (i + 2) ?r = Inr (take ?r (drop (i + 2) (store cn)) @ drop ?r (store cn))"
    using i len by (simp add: memmove_down_def)
  let ?st = "take ?r (drop (i + 2) (store cn)) @ drop ?r (store cn)"
  have lst: "length ?st = IRC_MSG_SIZE" using i len by simp
  have ms: "memset0 ?st ?r (i + 2) = Inr (take ?r ?st @ replicate (i + 2) NUL @ drop (?r + (i + 2)) ?st)"
    using i len lst by (simp add: memset0_def)
  have tk: "take ?r ?st = take ?r (drop (i + 2) (store cn))" using i len by simp
  have pend: "drop (i + 2) (pending cn) = take ?r (drop (i + 2) (store cn))"
    using i by (simp add: pending_def drop_take)
  have tm: "take (i + 2) (pending cn) = take (i + 2) (store cn)" using i by (simp add: pending_def)
  show ?thesis
    using mv ms len i lst
    by (auto simp: take_message_def Let_def memcpy_def conn_wf_def conn_frame_def tk pend tm pending_def drop_take)
qed

lemma find_crlf_frame_None: "frame bs = None \<longleftrightarrow> find_crlf bs = None \<and> length bs \<le> IRC_MSG_SIZE - 2"
  by (auto simp: frame_def split: option.splits)

lemma take_Suc_nth_drop: "n < length xs \<Longrightarrow> take 1 (drop n xs) = [xs ! n]"
  by (simp add: take_Suc_conv_app_nth hd_drop_conv_nth take_Suc)

lemma truncate_message_frame:
  assumes "conn_wf cn" and "totalRead cn > IRC_MSG_SIZE - 2"
  shows "\<exists>cn'. truncate_message cn = Inr cn' \<and> conn_wf cn' \<and> conn_frame cn cn' \<and>
           discardNext cn' = discardNext cn \<and>
           pending cn' = drop (IRC_MSG_SIZE - 2) (pending cn) \<and>
           conn_message cn' = (if discardNext cn then conn_message cn
                               else take (IRC_MSG_SIZE - 2) (pending cn) @ CRLF)"
proof -
  have len: "length (store cn) = 512" "length (conn_message cn) = 512"
    using assms(1) by (auto simp: conn_wf_def)
  have tr: "totalRead cn = 511 \<or> totalRead cn = 512" using assms by (auto simp: conn_wf_def)
  have two: "drop 510 xs = [xs ! 510, xs ! 511]" if "length xs = 512" for xs :: "char list"
    using that by (simp add: Cons_nth_drop_Suc [symmetric])
  let ?m = "take 510 (store cn) @ drop 510 (conn_message cn)"
  have msg: "?m[510 := CR, 511 := LF] = take 510 (store cn) @ CRLF"
    using len by (simp add: two list_update_append CRLF_def)
  have cp: "memcpy (conn_message cn) (store cn) 510 = Inr ?m"
    using len by (simp add: memcpy_def)
  have tp: "take 510 (pending cn) = take 510 (store cn)" using tr by (auto simp: pending_def)
  obtain a b r where st: "store cn = a # b # r" and r: "length r = 510"
    using len(1) by (cases "store cn" rule: find_crlf.cases) auto
  show ?thesis using tr
  proof
    assume t: "totalRead cn = 511"
    have pend: "drop 510 (pending cn) = [store cn ! 510]"
      using t two [OF len(1)] by (simp add: pending_def drop_take)
    have ms: "memset0 ((store cn)[0 := x]) 1 511 = Inr (x # replicate 511 NUL)" for x
      using r by (simp add: memset0_def st)
    show ?thesis using t cp msg ms len
      by (simp add: truncate_message_def conn_wf_def conn_frame_def tp pend)
         (simp add: pending_def CRLF_def)
  next
    assume t: "totalRead cn = 512"
    have pend: "drop 510 (pending cn) = [store cn ! 510, store cn ! 511]"
      using t two [OF len(1)] len by (simp add: pending_def)
    have ms: "memset0 ((store cn)[0 := x, 1 := y]) 2 510 = Inr (x # y # replicate 510 NUL)" for x y
      using r by (simp add: memset0_def st)
    show ?thesis using t cp msg ms len
      by (simp add: truncate_message_def conn_wf_def conn_frame_def tp pend)
         (simp add: pending_def CRLF_def)
  qed
qed

subsection \<open>The abstract reader\<close>

text \<open>
  \<open>next_message d bs\<close>: what one call returns on the pending bytes \<open>bs\<close> with the discard flag \<open>d\<close>:
  the message, the new flag and the bytes left.
\<close>

definition next_message :: "bool \<Rightarrow> char list \<Rightarrow> char list option \<times> bool \<times> char list" where
  "next_message d bs =
     (case frame bs of
        None \<Rightarrow> (None, d, bs)
      | Some (m, rest) \<Rightarrow>
          if d then (case frame rest of None \<Rightarrow> (None, False, rest)
                     | Some (m', rest') \<Rightarrow> (Some m', False, rest'))
          else (Some m, False, rest))"

definition reads :: "conn_s \<Rightarrow> bool \<Rightarrow> conn_s \<Rightarrow> char list option \<times> bool \<times> char list \<Rightarrow> bool" where
  "reads cn b cn' spec \<longleftrightarrow> conn_wf cn' \<and> conn_frame cn cn' \<and>
     discardNext cn' = fst (snd spec) \<and> pending cn' = snd (snd spec) \<and>
     (case fst spec of None \<Rightarrow> \<not> b | Some m \<Rightarrow> b \<and> conn_message cn' = pad IRC_MSG_SIZE m)"

lemma frame_length: "frame bs = Some (m, rest) \<Longrightarrow> length bs \<le> IRC_MSG_SIZE \<Longrightarrow>
    length m \<le> IRC_MSG_SIZE \<and> length rest < length bs"
  by (auto simp: frame_def CRLF_def split: option.splits if_splits dest: find_crlf_bound)

text \<open>One round of the loop: the branches agree with \<open>frame\<close>.\<close>

lemma conn_read_round:
  assumes "conn_wf cn" and "conn_message cn = replicate IRC_MSG_SIZE NUL"
    and "frame (pending cn) = Some (m, rest)"
  shows "\<exists>cn'. conn_read_loop cn =
             (if discardNext cn then conn_read_loop (cn'\<lparr>discardNext := False\<rparr>) else Inr (cn', True)) \<and>
           conn_wf cn' \<and> conn_frame cn cn' \<and> discardNext cn' = discardNext cn \<and> pending cn' = rest \<and>
           conn_message cn' = (if discardNext cn then conn_message cn else pad IRC_MSG_SIZE m)"
proof -
  have tr: "totalRead cn \<le> length (store cn)" using assms(1) by (simp add: conn_wf_def)
  have crlf: "strncrlf (store cn) (totalRead cn) = Inr (find_crlf (pending cn))"
    by (simp only: strncrlf_eq [OF tr] pending_def)
  have lp: "length (pending cn) = totalRead cn" by (rule length_pending [OF assms(1)])
  show ?thesis
  proof (cases "find_crlf (pending cn)")
    case (Some i)
    then have m: "m = take (i + 2) (pending cn)" "rest = drop (i + 2) (pending cn)"
      using assms(3) by (auto simp: frame_def)
    have i: "i + 2 \<le> length (pending cn)" using find_crlf_bound [OF Some] by simp
    then have "take (i + 2) (pending cn) @ drop (i + 2) (conn_message cn) = pad IRC_MSG_SIZE m"
      using assms(2) by (simp add: pad_def m min_absorb2)
    with take_message_frame [OF assms(1) Some] crlf Some m show ?thesis
      by (subst conn_read_loop.simps) (auto simp del: One_nat_def)
  next
    case None
    then have big: "totalRead cn > IRC_MSG_SIZE - 2"
      and m: "m = take (IRC_MSG_SIZE - 2) (pending cn) @ CRLF" "rest = drop (IRC_MSG_SIZE - 2) (pending cn)"
      using assms(3) lp by (auto simp: frame_def split: if_splits)
    have "pad IRC_MSG_SIZE m = m" using big lp by (intro pad_length_eq) (simp add: m CRLF_def)
    with truncate_message_frame [OF assms(1) big] crlf None m big show ?thesis
      by (subst conn_read_loop.simps) auto
  qed
qed

lemma conn_read_stop:
  assumes "conn_wf cn" and "frame (pending cn) = None"
  shows "conn_read_loop cn = Inr (cn, False)"
proof -
  have tr: "totalRead cn \<le> length (store cn)" using assms(1) by (simp add: conn_wf_def)
  have "strncrlf (store cn) (totalRead cn) = Inr None" "totalRead cn \<le> IRC_MSG_SIZE - 2"
    using assms length_pending [OF assms(1)]
    by (simp_all add: strncrlf_eq [OF tr] find_crlf_frame_None pending_def [symmetric])
  then show ?thesis by (subst conn_read_loop.simps) simp
qed

lemma conn_read_loop_fresh:
  assumes "conn_wf cn" and "conn_message cn = replicate IRC_MSG_SIZE NUL" and "\<not> discardNext cn"
  shows "\<exists>cn' b. conn_read_loop cn = Inr (cn', b) \<and> reads cn b cn' (next_message False (pending cn))"
proof (cases "frame (pending cn)")
  case None
  then show ?thesis using assms conn_read_stop [OF assms(1) None]
    by (auto simp: reads_def next_message_def)
next
  case (Some f)
  obtain m rest where f: "f = (m, rest)" by (cases f)
  show ?thesis using conn_read_round [OF assms(1,2), of m rest] Some assms(3)
    by (auto simp: reads_def next_message_def f)
qed

lemma conn_wf_discard [simp]: "conn_wf (cn\<lparr>discardNext := b\<rparr>) = conn_wf cn"
  by (simp add: conn_wf_def)

lemma pending_discard [simp]: "pending (cn\<lparr>discardNext := b\<rparr>) = pending cn"
  by (simp add: pending_def)

lemma conn_frame_discard [simp]: "conn_frame (cn\<lparr>discardNext := b\<rparr>) cn' = conn_frame cn cn'"
  by (simp add: conn_frame_def)

lemma conn_frame_trans: "conn_frame a b \<Longrightarrow> conn_frame b c \<Longrightarrow> conn_frame a c"
  by (simp add: conn_frame_def)

lemma conn_read_message_refines:
  assumes "conn_wf cn"
  shows "\<exists>cn' b. conn_read_message cn = Inr (cn', b) \<and>
           reads cn b cn' (next_message (discardNext cn) (pending cn))"
proof -
  let ?z = "cn\<lparr>conn_message := replicate IRC_MSG_SIZE NUL\<rparr>"
  have z: "conn_read_message cn = conn_read_loop ?z" "conn_wf ?z" "pending ?z = pending cn"
    and fr: "conn_frame ?z c = conn_frame cn c" for c
    using assms by (auto simp: conn_read_message_def memset0_def conn_wf_def pending_def conn_frame_def)
  show ?thesis
  proof (cases "discardNext cn")
    case False
    with conn_read_loop_fresh [OF z(2)] show ?thesis by (simp add: z(1,3) reads_def fr)
  next
    case True
    show ?thesis
    proof (cases "frame (pending cn)")
      case None
      then show ?thesis using True conn_read_stop [OF z(2)] z
        by (auto simp: reads_def next_message_def conn_frame_def)
    next
      case (Some f)
      obtain m rest where f: "f = (m, rest)" by (cases f)
      obtain c where c: "conn_read_loop ?z = conn_read_loop (c\<lparr>discardNext := False\<rparr>)"
        "conn_wf c" "conn_frame cn c" "pending c = rest" "conn_message c = replicate IRC_MSG_SIZE NUL"
        using conn_read_round [OF z(2), of m rest] True Some z(3) f by (auto simp: fr)
      obtain c' b where c': "conn_read_loop (c\<lparr>discardNext := False\<rparr>) = Inr (c', b)"
        "reads c b c' (next_message False rest)"
        using conn_read_loop_fresh [of "c\<lparr>discardNext := False\<rparr>"] c by (auto simp: reads_def)
      have "next_message True (pending cn) = next_message False rest"
        using Some f by (auto simp: next_message_def split: option.split)
      with c c' True show ?thesis
        by (auto simp: z(1) reads_def intro: conn_frame_trans)
    qed
  qed
qed

subsection \<open>All messages of the store\<close>

lemma frame_shorter: "frame bs = Some (m, rest) \<Longrightarrow> length rest < length bs"
  by (auto simp: frame_def split: option.splits if_splits dest: find_crlf_bound)

function messages :: "char list \<Rightarrow> char list list" where
  "messages bs = (case frame bs of None \<Rightarrow> [] | Some (m, rest) \<Rightarrow> m # messages rest)"
  by pat_completeness auto
termination by (relation "measure length") (auto dest: frame_shorter)

function residue :: "char list \<Rightarrow> char list" where
  "residue bs = (case frame bs of None \<Rightarrow> bs | Some (m, rest) \<Rightarrow> residue rest)"
  by pat_completeness auto
termination by (relation "measure length") (auto dest: frame_shorter)

declare messages.simps [simp del] residue.simps [simp del]

lemma find_crlf_append: "find_crlf l = None \<Longrightarrow> find_crlf (l @ CRLF @ r) = Some (length l)"
proof (induction l)
  case Nil
  then show ?case by (simp add: CRLF_def)
next
  case (Cons c l)
  have "find_crlf l = None" using Cons.prems by (simp add: find_crlf_Cons)
  with Cons.IH have IH: "find_crlf (l @ CRLF @ r) = Some (length l)" by blast
  have "\<not> (c = CR \<and> hd (l @ CRLF @ r) = LF)"
    using Cons.prems by (cases l) (auto simp: CRLF_def find_crlf_Cons)
  then show ?case using IH by (cases "l @ CRLF @ r") (auto simp: CRLF_def)
qed

lemma frame_line: "find_crlf l = None \<Longrightarrow> frame (l @ CRLF @ r) = Some (l @ CRLF, r)"
  using find_crlf_append [of l r] by (simp add: frame_def CRLF_def)

lemma residue_bound: "length (residue bs) \<le> IRC_MSG_SIZE - 2"
proof (induction bs rule: residue.induct)
  case (1 bs)
  then show ?case
    by (subst residue.simps) (auto simp: find_crlf_frame_None split: option.split)
qed

lemma messages_end_crlf: "m \<in> set (messages bs) \<Longrightarrow> \<exists>l. m = l @ CRLF"
proof (induction bs rule: messages.induct)
  case (1 bs)
  show ?case
  proof (cases "frame bs")
    case None
    with "1.prems" show ?thesis by (simp add: messages.simps [of bs])
  next
    case (Some f)
    obtain k rest where f: "f = (k, rest)" by (cases f)
    from "1.prems" Some f consider "m = k" | "m \<in> set (messages rest)"
      by (auto simp: messages.simps [of bs])
    then show ?thesis
    proof cases
      case 1
      show ?thesis
      proof (cases "find_crlf bs")
        case None
        with Some f \<open>m = k\<close> show ?thesis by (auto simp: frame_def split: if_splits)
      next
        case (Some i)
        have "take (i + 2) bs = take i bs @ CRLF"
          using find_crlf_bound [OF Some] by (simp add: take_Suc_conv_app_nth CRLF_def)
        with Some f \<open>m = k\<close> \<open>frame bs = Some f\<close> show ?thesis by (auto simp: frame_def)
      qed
    next
      case 2
      with "1.IH" Some f show ?thesis by blast
    qed
  qed
qed

subsection \<open>Properties\<close>

text \<open>
  C3: \<open>conn_read_message\<close> refines the abstract reader.  On every well-formed connection it returns
  (no array access is out of bounds and the loop ends), hands out exactly the message
  \<open>next_message\<close> prescribes on the pending bytes, zero-padded in the message buffer, keeps the
  bytes after it pending in order, and leaves descriptor and response queue alone.
\<close>

theorem conn_read_message_correct:
  assumes "conn_wf cn"
  shows "\<exists>cn' b. conn_read_message cn = Inr (cn', b) \<and>
           reads cn b cn' (next_message (discardNext cn) (pending cn))"
  by (rule conn_read_message_refines [OF assms])

definition example_conn :: "char list \<Rightarrow> conn_s" where
  "example_conn bs = \<lparr>conn_fd = 5, discardNext = False, eagain = 0, totalRead = length bs,
     conn_responses = [], conn_message = replicate 512 NUL, store = pad 512 bs\<rparr>"

lemma example_conn_simps:
  "length bs \<le> 512 \<Longrightarrow> conn_wf (example_conn bs)" "pending (example_conn bs) = bs"
  "discardNext (example_conn bs) = False" "totalRead (example_conn bs) = length bs"
  "store (example_conn bs) = pad 512 bs"
  by (auto simp: example_conn_def conn_wf_def pending_def pad_def)

theorem conn_read_message_correct_witness:
  "\<exists>cn' b. conn_read_message (example_conn (''PING'' @ CRLF @ ''PO'')) = Inr (cn', b) \<and>
     reads (example_conn (''PING'' @ CRLF @ ''PO'')) b cn' (Some (''PING'' @ CRLF), False, ''PO'')"
proof -
  have "frame (''PING'' @ CRLF @ ''PO'') = Some (''PING'' @ CRLF, ''PO'')"
    by (rule frame_line) simp
  then have "next_message False (''PING'' @ CRLF @ ''PO'') = (Some (''PING'' @ CRLF), False, ''PO'')"
    by (simp add: next_message_def)
  moreover have "conn_wf (example_conn (''PING'' @ CRLF @ ''PO''))"
    by (rule example_conn_simps) (simp add: CRLF_def)
  ultimately show ?thesis
    using conn_read_message_correct [of "example_conn (''PING'' @ CRLF @ ''PO'')"]
    by (simp only: example_conn_simps)
qed

text \<open>
  Framing loses nothing.  If the pending bytes are lines closed by CRLF followed by an
  unfinished line of at most 510 bytes, repeated calls hand out exactly those lines in order, and
  what stays pending is the unfinished line.
\<close>

theorem framing_lossless:
  assumes "\<forall>l \<in> set ls. find_crlf l = None" and "find_crlf t = None" and "length t \<le> 510"
  shows "messages (concat (map (\<lambda>l. l @ CRLF) ls) @ t) = map (\<lambda>l. l @ CRLF) ls \<and>
         residue (concat (map (\<lambda>l. l @ CRLF) ls) @ t) = t"
  using assms(1)
proof (induction ls)
  case Nil
  have "frame t = None" using assms(2,3) by (simp add: find_crlf_frame_None)
  then show ?case by (simp add: messages.simps [of t] residue.simps [of t])
next
  case (Cons l ls)
  let ?r = "concat (map (\<lambda>l. l @ CRLF) ls) @ t"
  have "frame (l @ CRLF @ ?r) = Some (l @ CRLF, ?r)" using Cons.prems by (intro frame_line) simp
  with Cons show ?case
    by (simp add: messages.simps [of "l @ CRLF @ ?r"] residue.simps [of "l @ CRLF @ ?r"])
qed

theorem framing_lossless_witness:
  "messages (''A'' @ CRLF @ ''B'' @ CRLF @ ''C'') = [''A'' @ CRLF, ''B'' @ CRLF]"
  using framing_lossless [of "[''A'', ''B'']" "''C''"] by simp

text \<open>
  C30: an overlong line is cut, and its tail becomes a message of its own.  511 or 512 pending
  bytes without a CRLF give the message of their first 510 bytes closed with CRLF; the remaining
  bytes stay pending and the discard flag is not set, so they are read as the start of the next
  message although the comments say they are to be discarded.
\<close>

theorem overlong_tail_not_discarded:
  assumes "conn_wf cn" and "\<not> discardNext cn" and "totalRead cn > 510" and "find_crlf (pending cn) = None"
  shows "\<exists>cn'. conn_read_message cn = Inr (cn', True) \<and>
           conn_message cn' = take 510 (pending cn) @ CRLF \<and>
           pending cn' = drop 510 (pending cn) \<and> pending cn' \<noteq> [] \<and> \<not> discardNext cn'"
proof -
  have len: "length (pending cn) = totalRead cn" by (rule length_pending [OF assms(1)])
  have "next_message False (pending cn) =
      (Some (take 510 (pending cn) @ CRLF), False, drop 510 (pending cn))"
    using assms(3,4) len by (simp add: next_message_def frame_def)
  moreover have "pad 512 (take 510 (pending cn) @ CRLF) = take 510 (pending cn) @ CRLF"
    using assms(3) len by (intro pad_length_eq) (simp add: CRLF_def)
  ultimately show ?thesis
    using conn_read_message_refines [OF assms(1)] assms(2,3) len by (auto simp: reads_def)
qed

theorem overlong_tail_not_discarded_witness:
  "\<exists>cn'. conn_read_message (example_conn (replicate 512 (CHR ''a''))) = Inr (cn', True) \<and>
     pending cn' = replicate 2 (CHR ''a'') \<and> \<not> discardNext cn'"
proof -
  have "find_crlf (replicate n (CHR ''a'')) = None" for n
    by (induction n) (auto simp: find_crlf_Cons)
  then show ?thesis
    using overlong_tail_not_discarded [of "example_conn (replicate 512 (CHR ''a''))"]
    by (auto simp: example_conn_simps)
qed

text \<open>
  A line that arrives in two reads is damaged.  \<open>Conn_ReadStoreBuffer\<close> stores new bytes at the
  start of the store, so with \<open>k > 0\<close> bytes of an unfinished line pending, reading the rest of
  the line (at least \<open>k\<close> bytes) overwrites them: the next message is the new bytes alone.
\<close>

theorem split_line_overwritten:
  assumes "conn_wf cn" and "\<not> discardNext cn" and "find_crlf l = None"
    and "totalRead cn \<le> length l + 2" and "totalRead cn + length l + 2 \<le> 512"
  shows "\<exists>cn1 cn2. Conn_ReadStoreBuffer cn (Read_bytes (l @ CRLF)) = Inr (cn1, int (length l + 2)) \<and>
           conn_read_message cn1 = Inr (cn2, True) \<and> conn_message cn2 = pad 512 (l @ CRLF)"
proof -
  let ?bs = "l @ CRLF"
  have lb: "length ?bs = length l + 2" by (simp add: CRLF_def)
  have st: "length (store cn) = 512" using assms(1) by (simp add: conn_wf_def)
  let ?c1 = "cn\<lparr>store := ?bs @ drop (length ?bs) (store cn), totalRead := totalRead cn + length ?bs\<rparr>"
  have c1: "Conn_ReadStoreBuffer cn (Read_bytes ?bs) = Inr (?c1, int (length l + 2))"
    using assms(5) st lb by (simp add: Conn_ReadStoreBuffer_def memcpy_def)
  have wf: "conn_wf ?c1" using assms(1,5) st lb by (simp add: conn_wf_def)
  have "pending ?c1 = l @ CRLF @ take (totalRead cn) (drop (length ?bs) (store cn))"
    by (simp add: pending_def)
  then have "next_message False (pending ?c1) =
      (Some ?bs, False, take (totalRead cn) (drop (length ?bs) (store cn)))"
    using frame_line [OF assms(3)] by (simp add: next_message_def)
  with conn_read_message_refines [OF wf] assms(2) c1 show ?thesis by (auto simp: reads_def)
qed

theorem split_line_overwritten_witness:
  "\<exists>cn1 cn2. Conn_ReadStoreBuffer (example_conn ''NI'') (Read_bytes (''CK a'' @ CRLF)) = Inr (cn1, 6) \<and>
     conn_read_message cn1 = Inr (cn2, True) \<and> conn_message cn2 = pad 512 (''CK a'' @ CRLF)"
  using split_line_overwritten [of "example_conn ''NI''" "''CK a''"]
  by (simp add: example_conn_simps)

text \<open>
  After the store has been drained there is room to read.  Whatever is pending, once no
  further message can be taken at most 510 bytes remain, so the next \<open>read\<close> asks for at least two
  bytes and a result of 0 really means that the peer closed the connection.
\<close>

theorem drained_store_has_room:
  assumes "conn_wf cn" and "conn_read_message cn = Inr (cn', False)"
  shows "totalRead cn' \<le> 510 \<and> messages (pending cn') = []"
proof -
  obtain cn2 b where r: "conn_read_message cn = Inr (cn2, b)"
    "reads cn b cn2 (next_message (discardNext cn) (pending cn))"
    using conn_read_message_refines [OF assms(1)] by blast
  with assms(2) have eq: "cn2 = cn'" "b = False" by auto
  have f: "frame (pending cn') = None"
    using r(2) unfolding eq by (auto simp: reads_def next_message_def split: option.splits if_splits)
  have "conn_wf cn'" using r(2) eq by (simp add: reads_def)
  then have "totalRead cn' \<le> 510"
    using f length_pending [of cn'] by (simp add: find_crlf_frame_None)
  then show ?thesis using f by (simp add: messages.simps [of "pending cn'"])
qed

theorem drained_store_has_room_witness:
  "\<exists>cn'. conn_read_message (example_conn ''PI'') = Inr (cn', False) \<and> totalRead cn' \<le> 510"
proof -
  have "next_message False ''PI'' = (None, False, ''PI'')" by (simp add: next_message_def frame_def)
  then obtain cn' where "conn_read_message (example_conn ''PI'') = Inr (cn', False)"
    using conn_read_message_refines [of "example_conn ''PI''"] by (auto simp: example_conn_simps reads_def)
  with drained_store_has_room [of "example_conn ''PI''" cn'] show ?thesis
    by (simp add: example_conn_simps)
qed

end
