(* ===== verification/EventLoop.thy ===== *)
theory EventLoop
  imports Handlers ReadMessage
begin

text \<open>
  The event loop: \<open>src/reactor.c\<close>, the event handlers of \<open>src/client.c\<close>, and \<open>start_server\<close> and
  \<open>server_generate_id\<close> of \<open>src/server.c\<close>.

  What the kernel decides is an argument: which registered descriptors are ready and with which
  event bits, what \<open>accept\<close>, \<open>read\<close> and \<open>epoll_ctl\<close> return.  Of \<open>epoll\<close> the model uses what its
  manual states: adding a descriptor that is already registered fails, changing or deleting one
  that is not registered fails, and closing a descriptor takes it out of the interest list.
\<close>

subsection \<open>The reactor\<close>

abbreviation (input) EPOLLIN :: "32 word" where "EPOLLIN \<equiv> 1"
abbreviation (input) EPOLLOUT :: "32 word" where "EPOLLOUT \<equiv> 4"
abbreviation (input) EPOLLERR :: "32 word" where "EPOLLERR \<equiv> 8"
abbreviation (input) EPOLLHUP :: "32 word" where "EPOLLHUP \<equiv> 16"

unbundle bit_operations_syntax

text \<open>\<open>event->events\<close> after the call, from its value before.\<close>

definition reactor_configure_events :: "32 word \<Rightarrow> reactor_event_handler_s \<Rightarrow> 32 word" where
  "reactor_configure_events events h =
     (let events = (if handle_read h \<noteq> None then EPOLLIN OR EPOLLERR else events)
      in if handle_write h \<noteq> None then EPOLLOUT else events)"

text \<open>\<open>ok\<close> is whether \<open>epoll_ctl\<close> has the resources it needs.\<close>

definition reactor_register_handler ::
    "bool \<Rightarrow> reactor_event_handler_s \<Rightarrow> world \<Rightarrow> world \<times> int" where
  "reactor_register_handler ok h w =
     (if ok \<and> handler_fd h \<notin> fst ` set (interest w)
      then (w\<lparr>interest := interest w @ [(handler_fd h, h)]\<rparr>, 0) else (w, -1))"

definition reactor_change_registration ::
    "bool \<Rightarrow> reactor_event_handler_s \<Rightarrow> world \<Rightarrow> world \<times> int" where
  "reactor_change_registration ok h w =
     (if ok \<and> handler_fd h \<in> fst ` set (interest w)
      then (w\<lparr>interest := AList.update (handler_fd h) h (interest w)\<rparr>, 0) else (w, -1))"

definition Reactor_UnregisterHandler :: "reactor_event_handler_s \<Rightarrow> world \<Rightarrow> world \<times> int" where
  "Reactor_UnregisterHandler h w =
     (if handler_fd h \<in> fst ` set (interest w)
      then (w\<lparr>interest := AList.delete (handler_fd h) (interest w)\<rparr>, 0) else (w, -1))"

text \<open>\<open>close(fd)\<close>\<close>

definition close_fd :: "int \<Rightarrow> world \<Rightarrow> world" where
  "close_fd fd w = w\<lparr>interest := AList.delete fd (interest w)\<rparr>"

subsection \<open>Reading from a client\<close>

definition set_conn :: "caddr \<Rightarrow> conn_s \<Rightarrow> world \<Rightarrow> world" where
  "set_conn a cn w = upd_client a (\<lambda>c. c\<lparr>conn := cn\<rparr>) w"

text \<open>
  One round of the loop of \<open>Client_HandleRead\<close> after \<open>conn_read_message\<close> has returned a message:
  parse it, handle it, send the responses.  \<open>m\<close> is the one \<open>irc_message_s\<close> all rounds share.
\<close>

definition handle_one ::
    "env \<Rightarrow> caddr \<Rightarrow> irc_message \<Rightarrow> world \<Rightarrow> (world \<times> irc_message) run" where
  "handle_one e a m w =
     rbind (get_client w a) (\<lambda>c.
     rbind (parse_message (conn_message (conn c)) m) (\<lambda>(buf, m, result).
       let w = upd_client a (set_message buf) w in
       rbind (if result \<noteq> -1 then rbind (Handler_HandleMessage e a m w) (\<lambda>(w, _). Inr w)
              else Inr w) (\<lambda>w.
       rbind (Client_TryEmptyBuffer a w) (\<lambda>w. Inr (w, m)))))"

text \<open>
  The loop, with a bound \<open>n\<close> on the rounds; \<open>None\<close> says that the bound was too small.  Every round
  takes at least one byte out of the store, so \<open>IRC_MSG_SIZE + 1\<close> rounds are always enough
  (\<open>client_read_terminates\<close>).
\<close>

definition next_round :: "caddr \<Rightarrow> world \<Rightarrow> (world \<times> bool) run" where
  "next_round a w =
     rbind (get_client w a) (\<lambda>c.
     rbind (conn_read_message (conn c)) (\<lambda>(cn, found). Inr (set_conn a cn w, found)))"

fun handle_messages :: "nat \<Rightarrow> env \<Rightarrow> caddr \<Rightarrow> irc_message \<Rightarrow> world \<Rightarrow> world run option" where
  "handle_messages 0 e a m w = None"
| "handle_messages (Suc n) e a m w =
     (case next_round a w of
        Inl f \<Rightarrow> Some (Inl f)
      | Inr (w, False) \<Rightarrow> Some (Inr w)
      | Inr (w, True) \<Rightarrow>
          (case handle_one e a m w of
             Inl f \<Rightarrow> Some (Inl f)
           | Inr (w, m) \<Rightarrow> handle_messages n e a m w))"

definition handle_store :: "env \<Rightarrow> caddr \<Rightarrow> world \<Rightarrow> world run" where
  "handle_store e a w =
     (case handle_messages (IRC_MSG_SIZE + 1) e a zero_message w of
        None \<Rightarrow> Inl OutOfFuel | Some r \<Rightarrow> r)"

abbreviation (input) CONN_RESULT_CLOSE :: int where "CONN_RESULT_CLOSE \<equiv> 1"

text \<open>The end of \<open>Client_HandleRead\<close> when \<open>read\<close> has returned 0.\<close>

definition close_client :: "caddr \<Rightarrow> world \<Rightarrow> (world \<times> int) run" where
  "close_client a w =
     rbind (get_client w a) (\<lambda>c.
       let w = close_fd (conn_fd (conn c)) w;
           w = (if registered c then upd_server (\<lambda>s. s\<lparr>nUsers := nUsers s - 1\<rparr>) w
                else upd_server (\<lambda>s. s\<lparr>nUnknown := nUnknown s - 1\<rparr>) w)
       in Inr (w, CONN_RESULT_CLOSE))"

definition Client_HandleRead :: "env \<Rightarrow> read_result \<Rightarrow> caddr \<Rightarrow> world \<Rightarrow> (world \<times> int) run" where
  "Client_HandleRead e rr a w =
     rbind (get_client w a) (\<lambda>c.
     rbind (Conn_ReadStoreBuffer (conn c) rr) (\<lambda>(cn, numRead).
       let w = set_conn a cn w in
       if numRead = -1 then Inr (w, -1)
       else
         rbind (handle_store e a w) (\<lambda>w.
           if numRead = 0 then close_client a w else Inr (w, 0))))"

text \<open>The result only decides what is logged.\<close>

definition Client_HandleReadEvent :: "env \<Rightarrow> read_result \<Rightarrow> caddr \<Rightarrow> world \<Rightarrow> world run" where
  "Client_HandleReadEvent e rr a w = rbind (Client_HandleRead e rr a w) (\<lambda>(w, _). Inr w)"

definition Client_HandleWriteEvent :: "caddr \<Rightarrow> world \<Rightarrow> world run" where
  "Client_HandleWriteEvent a w = Inr w"

definition Server_HandleWriteEvent :: "world \<Rightarrow> world run" where
  "Server_HandleWriteEvent w = Inr w"

subsection \<open>Accepting a client\<close>

definition server_generate_id :: "server_s \<Rightarrow> (server_s \<times> int) run" where
  "server_generate_id s =
     (let id = idCounter s in
      if id + 1 < 2 ^ 31 then Inr (s\<lparr>idCounter := id + 1\<rparr>, id) else Inl SignedOverflow)"

definition zero_conn :: conn_s where
  "zero_conn = \<lparr>conn_fd = 0, discardNext = False, eagain = 0, totalRead = 0, conn_responses = [],
                conn_message = replicate IRC_MSG_SIZE NUL, store = replicate IRC_MSG_SIZE NUL\<rparr>"

definition zero_client :: client_s where
  "zero_client =
     \<lparr>registered = False, receivedNick = False, receivedUser = False, clientId = 0, conn = zero_conn,
      nickname = replicate (IRC_NICK_SIZE + 1) NUL, username = replicate IRC_MSG_SIZE NUL,
      client_hostname = replicate (IRC_HOSTNAME_MAX + 1) NUL, fullname = replicate IRC_MSG_SIZE NUL,
      away = False, away_message = replicate (IRC_MSG_SIZE + 1) NUL\<rparr>"

datatype accept_result = Accept_error | Accepted int string

text \<open>
  \<open>getnameinfo(..., client->hostname, IRC_HOSTNAME_MAX, ...)\<close>: the name and its NUL must fit in the
  size given, otherwise the call fails and the array stays zero.
\<close>

definition getnameinfo_hostname :: "string \<Rightarrow> char list" where
  "getnameinfo_hostname host =
     pad (IRC_HOSTNAME_MAX + 1)
       (if length host < IRC_HOSTNAME_MAX \<and> NUL \<notin> set host then host else [])"

definition client_handler :: "int \<Rightarrow> caddr \<Rightarrow> reactor_event_handler_s" where
  "client_handler fd a =
     \<lparr>handler_fd = fd, handler_inst = Client_instance a,
      handle_read = Some Client_HandleReadEvent_fn, handle_write = None\<rparr>"

text \<open>The object at \<open>next_addr\<close> is the one \<open>calloc\<close> returns; \<open>goto error\<close> frees it.\<close>

definition Server_HandleReadEvent :: "accept_result \<Rightarrow> bool \<Rightarrow> world \<Rightarrow> world run" where
  "Server_HandleReadEvent ar ok w =
     (let a = next_addr w; w = w\<lparr>next_addr := a + 1\<rparr> in
      case ar of
        Accept_error \<Rightarrow> Inr w
      | Accepted fd host \<Rightarrow>
          rbind (server_generate_id (server w)) (\<lambda>(s, id).
            let c = zero_client\<lparr>clientId := id, conn := zero_conn\<lparr>conn_fd := fd\<rparr>,
                                client_hostname := getnameinfo_hostname host\<rparr>;
                w = w\<lparr>server := s, client_mem := (client_mem w)(a \<mapsto> c)\<rparr>;
                w = upd_server (\<lambda>s. s\<lparr>nUnknown := nUnknown s + 1\<rparr>) w;
                w = upd_server (\<lambda>s. s\<lparr>clients := g_insert id a (clients s)\<rparr>) w;
                (w, result) = reactor_register_handler ok (client_handler fd a) w
            in if result = -1 then Inr (w\<lparr>client_mem := (client_mem w)(a := None)\<rparr>) else Inr w))"

subsection \<open>Dispatching events\<close>

text \<open>One entry of the array \<open>epoll_wait\<close> fills, with what the system calls of its handler return.\<close>

record io_event =
  ev_handler :: reactor_event_handler_s
  ev_bits :: "32 word"
  ev_read :: read_result
  ev_accept :: accept_result
  ev_registered :: bool

text \<open>A handler function gets its \<open>instance\<close> as \<open>void *\<close>; one of the wrong type is no object for it.\<close>

definition call_read :: "env \<Rightarrow> io_event \<Rightarrow> world \<Rightarrow> world run" where
  "call_read e ev w =
     (case (handle_read (ev_handler ev), handler_inst (ev_handler ev)) of
        (Some Client_HandleReadEvent_fn, Client_instance a) \<Rightarrow> Client_HandleReadEvent e (ev_read ev) a w
      | (Some Server_HandleReadEvent_fn, Server_instance) \<Rightarrow>
          Server_HandleReadEvent (ev_accept ev) (ev_registered ev) w
      | (Some _, _) \<Rightarrow> Inl OutOfBounds
      | (None, _) \<Rightarrow> Inl NullCall)"

definition call_write :: "io_event \<Rightarrow> world \<Rightarrow> world run" where
  "call_write ev w =
     (case (handle_write (ev_handler ev), handler_inst (ev_handler ev)) of
        (Some Client_HandleWriteEvent_fn, Client_instance a) \<Rightarrow> Client_HandleWriteEvent a w
      | (Some Server_HandleWriteEvent_fn, Server_instance) \<Rightarrow> Server_HandleWriteEvent w
      | (Some _, _) \<Rightarrow> Inl OutOfBounds
      | (None, _) \<Rightarrow> Inl NullCall)"

definition handle_event :: "env \<Rightarrow> io_event \<Rightarrow> world \<Rightarrow> world run" where
  "handle_event e ev w =
     rbind (if ev_bits ev AND (EPOLLIN OR EPOLLERR) \<noteq> 0 then call_read e ev w else Inr w) (\<lambda>w.
       if ev_bits ev AND EPOLLOUT \<noteq> 0 then call_write ev w else Inr w)"

definition reactor_handle_events :: "env \<Rightarrow> io_event list \<Rightarrow> world \<Rightarrow> world run" where
  "reactor_handle_events e evs w = rfold (handle_event e) evs w"

text \<open>
  What \<open>epoll_wait\<close> may report: at most 64 events, at most one per registered descriptor, with bits
  that were asked for (\<open>EPOLLERR\<close> and \<open>EPOLLHUP\<close> need not be).
\<close>

abbreviation (input) REACTOR_MAX_EVENTS :: nat where "REACTOR_MAX_EVENTS \<equiv> 64"

definition reported :: "world \<Rightarrow> io_event list \<Rightarrow> bool" where
  "reported w evs \<longleftrightarrow>
     length evs \<le> REACTOR_MAX_EVENTS \<and>
     distinct (map (\<lambda>ev. handler_fd (ev_handler ev)) evs) \<and>
     (\<forall>ev\<in>set evs. (handler_fd (ev_handler ev), ev_handler ev) \<in> set (interest w) \<and>
        ev_bits ev AND NOT (reactor_configure_events 0 (ev_handler ev) OR EPOLLERR OR EPOLLHUP) = 0)"

subsection \<open>\<open>start_server\<close>\<close>

definition server_handler :: "int \<Rightarrow> reactor_event_handler_s" where
  "server_handler fd =
     \<lparr>handler_fd = fd, handler_inst = Server_instance,
      handle_read = Some Server_HandleReadEvent_fn, handle_write = None\<rparr>"

text \<open>
  \<open>gethostname(g_server.hostname, IRC_HOSTNAME_MAX)\<close> stores at most that many bytes in the
  zero-initialised array.
\<close>

definition start_server_state :: "string \<Rightarrow> cptr option \<Rightarrow> int \<Rightarrow> server_s" where
  "start_server_state host mt fd =
     \<lparr>server_fd = fd, idCounter = 1, nicks = g_empty, clients = g_empty, channels = g_empty,
      server_hostname = pad HOSTNAME_MAX (take IRC_HOSTNAME_MAX (takeWhile (\<lambda>c. c \<noteq> NUL) host)),
      motd = mt, nUsers = 0, nServices = 0, nUnknown = 0, nOperators = 0, nChannels = 0, nServers = 0\<rparr>"

definition reactor_init :: "int \<Rightarrow> int option" where
  "reactor_init epoll_fd = (if epoll_fd = -1 then None else Some epoll_fd)"

lemma reactor_init_None [simp]: "reactor_init epoll_fd = None \<longleftrightarrow> epoll_fd = -1"
  by (simp add: reactor_init_def)

text \<open>
  The state at the head of the event loop; \<open>None\<close> is \<open>logExitErr\<close>, which ends the process.
  \<open>listen_fd\<close> is the result of \<open>Socket_Listen\<close>, \<open>epoll_fd\<close> that of \<open>epoll_create1\<close>.
\<close>

definition start_server ::
    "string \<Rightarrow> cptr option \<Rightarrow> int \<Rightarrow> int \<Rightarrow> bool \<Rightarrow> world option" where
  "start_server host mt listen_fd epoll_fd ok =
     (if listen_fd = -1 then None
      else if reactor_init epoll_fd = None then None
      else Some (fst (reactor_register_handler ok (server_handler listen_fd)
              \<lparr>server = start_server_state host mt listen_fd,
               client_mem = (\<lambda>_. None), channel_mem = (\<lambda>_. None), next_addr = 0,
               interest = [], wire = []\<rparr>)))"

text \<open>One iteration of the infinite loop, and what it can lead to.\<close>

definition loop_step :: "env \<Rightarrow> world \<Rightarrow> world \<Rightarrow> bool" where
  "loop_step e w w' \<longleftrightarrow> (\<exists>evs. reported w evs \<and> reactor_handle_events e evs w = Inr w')"

inductive reachable :: "env \<Rightarrow> world \<Rightarrow> bool" for e where
  started: "start_server host mt lfd efd ok = Some w \<Longrightarrow> reachable e w"
| stepped: "reachable e w \<Longrightarrow> loop_step e w w' \<Longrightarrow> reachable e w'"

inductive_cases reachable_cases: "reachable e w"

end
