(* ===== verification/Invariant.thy ===== *)
theory Invariant
  imports EventLoop
begin

text \<open>
  The invariant of the server.

  Each part of \<open>world_ok\<close> reads only the client heap up to queues and buffers (\<open>view\<close>), the server, the
  channel heap and the interest list, so operations that only send (\<open>quiet\<close>) keep all of it.
  That operations, handlers and the event loop keep it is shown in \<open>Preserve\<close>, \<open>HandlerFrames\<close> and
  \<open>ServerSafety\<close>.
\<close>

subsection \<open>The invariant\<close>

definition array_ok :: "nat \<Rightarrow> char list \<Rightarrow> bool" where
  "array_ok n a \<longleftrightarrow> length a = n \<and> NUL \<in> set a"

definition cstring :: "char list \<Rightarrow> string" where
  "cstring p = takeWhile (\<lambda>c. c \<noteq> NUL) p"

text \<open>Before NICK and USER the strings that these commands set are empty.\<close>

definition client_ok :: "client_s \<Rightarrow> bool" where
  "client_ok c \<longleftrightarrow>
     array_ok (IRC_NICK_SIZE + 1) (nickname c) \<and> array_ok IRC_MSG_SIZE (username c) \<and>
     array_ok (IRC_HOSTNAME_MAX + 1) (client_hostname c) \<and> array_ok IRC_MSG_SIZE (fullname c) \<and>
     array_ok (IRC_MSG_SIZE + 1) (away_message c) \<and>
     conn_wf (conn c) \<and> \<not> discardNext (conn c) \<and>
     (registered c \<longrightarrow> receivedNick c \<and> receivedUser c) \<and>
     (\<not> receivedNick c \<longrightarrow> cstring (nickname c) = []) \<and>
     (\<not> receivedUser c \<longrightarrow> cstring (username c) = [] \<and> cstring (fullname c) = [])"

definition channel_ok :: "channel_s \<Rightarrow> bool" where
  "channel_ok k \<longleftrightarrow> array_ok (CHANNEL_NAME_MAX + 1) (chan_name k) \<and>
     array_ok (CHANNEL_TOPIC_MAX + 1) (chan_topic k) \<and> g_wf (members k)"

text \<open>Every client object has an id of its own, below the counter, under which the table finds it.\<close>

definition clients_inv :: "world \<Rightarrow> bool" where
  "clients_inv w \<longleftrightarrow>
     1 \<le> idCounter (server w) \<and> idCounter (server w) < 2 ^ 31 \<and> g_wf (clients (server w)) \<and>
     (\<forall>a c. view w a = Some c \<longrightarrow> client_ok c \<and> a < next_addr w \<and> 1 \<le> clientId c \<and>
        g_lookup (clients (server w)) (clientId c) = Some a) \<and>
     (\<forall>i a. g_lookup (clients (server w)) i = Some a \<longrightarrow> i < idCounter (server w) \<and> a < next_addr w \<and>
        (\<forall>c. view w a = Some c \<longrightarrow> clientId c = i))"

text \<open>The nickname table holds exactly the nickname of every client that has given one.\<close>

definition nick_owner :: "world \<Rightarrow> int \<Rightarrow> string option" where
  "nick_owner w i =
     (case g_lookup (clients (server w)) i of None \<Rightarrow> None
      | Some a \<Rightarrow> (case view w a of None \<Rightarrow> None
                   | Some c \<Rightarrow> if receivedNick c then Some (cstring (nickname c)) else None))"

definition nicks_inv :: "world \<Rightarrow> bool" where
  "nicks_inv w \<longleftrightarrow> gh.owns (nicks (server w)) (nick_owner w)"

text \<open>Members are live clients, listed under their ids.\<close>

definition channels_inv :: "world \<Rightarrow> bool" where
  "channels_inv w \<longleftrightarrow> g_wf (channels (server w)) \<and>
     (\<forall>ch k. channel_mem w ch = Some k \<longrightarrow> channel_ok k \<and> ch < next_addr w \<and>
        (\<forall>i a. g_lookup (members k) i = Some a \<longrightarrow> (\<exists>c. view w a = Some c \<and> clientId c = i)))"

text \<open>The interest list: one entry per descriptor, for the server or for a live client.\<close>

definition entry_ok :: "world \<Rightarrow> int \<times> reactor_event_handler_s \<Rightarrow> bool" where
  "entry_ok w en \<longleftrightarrow>
     snd en = server_handler (fst en) \<and> fst en = server_fd (server w) \<or>
     (\<exists>a c. snd en = client_handler (fst en) a \<and> view w a = Some c \<and> conn_fd (conn c) = fst en)"

definition interest_inv :: "world \<Rightarrow> bool" where
  "interest_inv w \<longleftrightarrow> distinct (map fst (interest w)) \<and> (\<forall>en\<in>set (interest w). entry_ok w en)"

definition is_open :: "world \<Rightarrow> caddr \<Rightarrow> bool" where
  "is_open w a \<longleftrightarrow> (\<exists>fd. (fd, client_handler fd a) \<in> set (interest w))"

text \<open>
  The counters.  \<open>nUnknown\<close> also counts, for ever, the clients whose registration with epoll failed:
  they were freed, but their entry in the client table stays.
\<close>

definition open_clients :: "world \<Rightarrow> bool \<Rightarrow> caddr set" where
  "open_clients w b = {a. is_open w a \<and> (\<exists>c. view w a = Some c \<and> registered c = b)}"

definition leaked :: "world \<Rightarrow> int set" where
  "leaked w = {i. \<exists>a. g_lookup (clients (server w)) i = Some a \<and> view w a = None}"

definition counters_inv :: "world \<Rightarrow> bool" where
  "counters_inv w \<longleftrightarrow>
     nUsers (server w) = of_nat (card (open_clients w True)) \<and>
     nUnknown (server w) = of_nat (card (open_clients w False) + card (leaked w)) \<and>
     nOperators (server w) = 0 \<and> nChannels (server w) = 0 \<and> nServices (server w) = 0 \<and>
     nServers (server w) = 0"

definition hostname_inv :: "world \<Rightarrow> bool" where
  "hostname_inv w \<longleftrightarrow> array_ok HOSTNAME_MAX (server_hostname (server w))"

definition world_ok :: "world \<Rightarrow> bool" where
  "world_ok w \<longleftrightarrow> clients_inv w \<and> nicks_inv w \<and> channels_inv w \<and> interest_inv w \<and> counters_inv w \<and>
     hostname_inv w"

text \<open>Registration is complete: who has sent NICK and USER is registered; \<open>a\<close> may lag behind.\<close>

definition complete_but :: "caddr set \<Rightarrow> world \<Rightarrow> bool" where
  "complete_but X w \<longleftrightarrow>
     (\<forall>a c. a \<notin> X \<longrightarrow> view w a = Some c \<longrightarrow> receivedNick c \<longrightarrow> receivedUser c \<longrightarrow> registered c)"

text \<open>The connections, up to queues and buffers.\<close>

definition conns :: "world \<Rightarrow> caddr \<Rightarrow> conn_s option" where
  "conns w a = map_option conn (view w a)"

subsection \<open>Arrays\<close>

lemma array_ok_cstr: "array_ok n a \<Longrightarrow> cstr a = Inr (cstring a)"
  by (simp add: array_ok_def cstr_def cstring_def)

lemma cstr_cstring: "cstr a = Inr s \<Longrightarrow> cstring a = s"
  by (auto simp: cstr_def cstring_def split: if_splits)

lemma array_ok_pad [array_simps]: "NUL \<notin> set s \<Longrightarrow> length s < n \<Longrightarrow> array_ok n (pad n s)"
  by (auto simp: array_ok_def pad_def)

lemma array_ok_replicate [array_simps]: "0 < n \<Longrightarrow> array_ok n (replicate n NUL)"
  by (simp add: array_ok_def)

lemma array_ok_strcpy: "strcpy d s = Inr d' \<Longrightarrow> array_ok n d \<Longrightarrow> array_ok n d'"
  by (auto simp: array_ok_def strcpy_length) (auto simp: strcpy_def split: if_splits)

lemma array_ok_strncpy: "strncpy d s n = Inr d' \<Longrightarrow> length s < n \<Longrightarrow> array_ok m d \<Longrightarrow> array_ok m d'"
  by (auto simp: array_ok_def strncpy_length) (auto simp: strncpy_def pad_def split: if_splits)

subsection \<open>Quiet steps\<close>

lemma quiet_eqs:
  assumes "quiet w w'"
  shows "view w' = view w" "server w' = server w" "channel_mem w' = channel_mem w"
    "next_addr w' = next_addr w" "interest w' = interest w"
  using assms by (simp_all add: quiet_def)

lemma nick_owner_quiet: "quiet w w' \<Longrightarrow> nick_owner w' = nick_owner w"
  by (rule ext) (simp add: nick_owner_def quiet_eqs split: option.split)

lemma inv_quiet: "quiet w w' \<Longrightarrow> world_ok w' = world_ok w"
  by (simp add: world_ok_def clients_inv_def nicks_inv_def nick_owner_quiet channels_inv_def entry_ok_def
      interest_inv_def is_open_def open_clients_def leaked_def counters_inv_def hostname_inv_def quiet_eqs)

lemma complete_quiet: "quiet w w' \<Longrightarrow> complete_but X w' = complete_but X w"
  by (simp add: complete_but_def quiet_eqs)

lemma conns_quiet: "quiet w w' \<Longrightarrow> conns w' = conns w"
  by (simp add: conns_def quiet_eqs fun_eq_iff)

lemma is_open_quiet: "quiet w w' \<Longrightarrow> is_open w' a = is_open w a"
  by (simp add: is_open_def quiet_eqs)

subsection \<open>Consequences\<close>

lemma inv_client:
  assumes "world_ok w" and "view w a = Some c"
  shows "client_ok c" "a < next_addr w" "1 \<le> clientId c"
    "g_lookup (clients (server w)) (clientId c) = Some a"
  using assms by (auto simp: world_ok_def clients_inv_def)

lemma inv_table:
  assumes "world_ok w" and "g_lookup (clients (server w)) i = Some a" and "view w a = Some c"
  shows "clientId c = i"
  using assms by (auto simp: world_ok_def clients_inv_def)

lemma inv_id_inj:
  assumes "world_ok w" and "view w a = Some c" and "view w b = Some d" and "clientId c = clientId d"
  shows "a = b"
  using inv_client(4) [OF assms(1,2)] inv_client(4) [OF assms(1,3)] assms(4) by simp

lemma inv_nick_owner:
  "world_ok w \<Longrightarrow> view w a = Some c \<Longrightarrow>
     nick_owner w (clientId c) = (if receivedNick c then Some (cstring (nickname c)) else None)"
  using inv_client(4) [of w a c] by (simp add: nick_owner_def)

lemma inv_nick_lookup:
  assumes "world_ok w" and "g_lookup (nicks (server w)) n = Some i"
  shows "\<exists>a c. g_lookup (clients (server w)) i = Some a \<and> view w a = Some c \<and> clientId c = i \<and>
           receivedNick c \<and> cstring (nickname c) = n"
proof -
  from assms have "nick_owner w i = Some n" by (simp add: world_ok_def nicks_inv_def gh.owns_def)
  then obtain a c where "g_lookup (clients (server w)) i = Some a" "view w a = Some c"
    "receivedNick c" "cstring (nickname c) = n"
    by (auto simp: nick_owner_def split: option.splits if_splits)
  with inv_table [OF assms(1)] show ?thesis by blast
qed

lemma entry_interest_fd: "interest_inv w \<Longrightarrow> (fd, h) \<in> set (interest w) \<Longrightarrow> handler_fd h = fd"
  by (auto simp: interest_inv_def entry_ok_def server_handler_def client_handler_def)

lemma is_open_fd:
  assumes "interest_inv w" and "is_open w a" and "view w a = Some c"
  shows "(conn_fd (conn c), client_handler (conn_fd (conn c)) a) \<in> set (interest w)"
proof -
  from assms(2) obtain fd where fd: "(fd, client_handler fd a) \<in> set (interest w)"
    by (auto simp: is_open_def)
  with assms(1) have "entry_ok w (fd, client_handler fd a)" by (auto simp: interest_inv_def)
  with assms(3) have "conn_fd (conn c) = fd"
    by (auto simp: entry_ok_def client_handler_def server_handler_def)
  with fd show ?thesis by simp
qed

end
