(* ===== verification/ReplyBounds.thy ===== *)
theory ReplyBounds
  imports ReplyTexts Invariant
begin

text \<open>
  When a reply can be sent at all.  \<open>vbound\<close> reads a format string like \<open>vformat\<close>, but adds up upper
  bounds of its arguments; a reply is \<open>sendable\<close> when formatting it is defined and the bytes that
  are written lie within its array.  Every reply is sendable for a client, a server and a channel
  whose strings keep within \<open>decent\<close>, \<open>decent_server\<close> and \<open>channel_ok\<close>; the numbers there are what
  the arrays and a line length of 200 allow.
\<close>

subsection \<open>Defined with a result\<close>

definition ok :: "'a run \<Rightarrow> ('a \<Rightarrow> bool) \<Rightarrow> bool" where
  "ok r P \<longleftrightarrow> (\<exists>x. r = Inr x \<and> P x)"

lemma ok_Inr [simp]: "ok (Inr x) P = P x"
  by (simp add: ok_def)

lemma ok_Inl [simp]: "\<not> ok (Inl f) P"
  by (simp add: ok_def)

lemma ok_bind: "ok r P \<Longrightarrow> (\<And>x. r = Inr x \<Longrightarrow> P x \<Longrightarrow> ok (k x) Q) \<Longrightarrow> ok (rbind r k) Q"
  by (auto simp: ok_def)

lemma ok_mono: "ok r P \<Longrightarrow> (\<And>x. r = Inr x \<Longrightarrow> P x \<Longrightarrow> Q x) \<Longrightarrow> ok r Q"
  by (auto simp: ok_def)

lemma ok_conj: "ok r P \<Longrightarrow> (\<And>x. r = Inr x \<Longrightarrow> Q x) \<Longrightarrow> ok r (\<lambda>x. P x \<and> Q x)"
  by (auto simp: ok_def)

lemma ok_if: "(b \<Longrightarrow> ok r P) \<Longrightarrow> (\<not> b \<Longrightarrow> ok s P) \<Longrightarrow> ok (if b then r else s) P"
  by simp

lemma ok_rfold:
  "P s \<Longrightarrow> (\<And>x u. x \<in> set xs \<Longrightarrow> P u \<Longrightarrow> ok (f x u) P) \<Longrightarrow> ok (rfold f xs s) P"
  unfolding ok_def by (rule rfold_defined)

subsection \<open>Bounds of formatted text\<close>

definition fits_in :: "farg \<Rightarrow> nat \<Rightarrow> bool" where
  "fits_in x n =
     (case x of
        S p \<Rightarrow> ok (cstr p) (\<lambda>s. length s \<le> n)
      | D i \<Rightarrow> (length (dec03 i) \<le> n)
      | Ch _ \<Rightarrow> (1 \<le> n))"

lemma fits_in_simps [simp]:
  "fits_in (S p) n = ok (cstr p) (\<lambda>s. length s \<le> n)" "fits_in (D i) n = (length (dec03 i) \<le> n)"
  "fits_in (Ch c) n = (1 \<le> n)"
  by (simp_all add: fits_in_def)

fun vbound :: "string \<Rightarrow> farg list \<Rightarrow> nat list \<Rightarrow> nat option" where
  "vbound [] as ns = Some 0"
| "vbound (c # cs) as ns =
     (if c \<noteq> CHR ''%'' then map_option Suc (vbound cs as ns)
      else case (as, ns) of
        (S p # as', n # ns') \<Rightarrow> if take 1 cs = ''s'' then map_option ((+) n) (vbound (drop 1 cs) as' ns') else None
      | (D i # as', n # ns') \<Rightarrow>
          if take 1 cs = ''d'' then map_option ((+) n) (vbound (drop 1 cs) as' ns')
          else if take 3 cs = ''03d'' then map_option ((+) n) (vbound (drop 3 cs) as' ns') else None
      | (Ch x # as', n # ns') \<Rightarrow> if take 1 cs = ''c'' then map_option ((+) n) (vbound (drop 1 cs) as' ns') else None
      | _ \<Rightarrow> None)"

lemma vformat_bound:
  "vbound fmt args ns = Some k \<Longrightarrow> list_all2 fits_in args ns \<Longrightarrow> ok (vformat fmt args) (\<lambda>s. length s \<le> k)"
proof (induction fmt args ns arbitrary: k rule: vbound.induct)
  case (2 c cs as ns)
  show ?case
  proof (cases "c = CHR ''%''")
    case False
    with "2.prems" "2.IH"(1) show ?thesis by (fastforce simp: ok_def)
  next
    case True
    then obtain x as' n ns' where a: "as = x # as'" "ns = n # ns'" "fits_in x n" "list_all2 fits_in as' ns'"
      using "2.prems" by (cases as; cases ns) (auto split: farg.splits)
    have d: "length (dec i) \<le> length (dec03 i)" for i by (simp add: dec03_def)
    show ?thesis
    proof (cases x)
      case (S p)
      with a True "2.prems" obtain j where "take 1 cs = ''s''" "vbound (drop 1 cs) as' ns' = Some j" "k = n + j"
        by (auto split: if_splits)
      moreover have "ok (vformat (drop 1 cs) as') (\<lambda>s. length s \<le> j)"
        using "2.IH"(2)  [OF _ refl a(1) S a(2)] calculation True a(4) by simp
      ultimately show ?thesis using a S True by (auto simp: ok_def)
    next
      case (D i)
      with a True "2.prems" consider j where "take 1 cs = ''d''" "vbound (drop 1 cs) as' ns' = Some j" "k = n + j"
        | j where "take 1 cs \<noteq> ''d''" "take 3 cs = ''03d''" "vbound (drop 3 cs) as' ns' = Some j" "k = n + j"
        by (auto split: if_splits)
      then show ?thesis
      proof cases
        case 1
        have "ok (vformat (drop 1 cs) as') (\<lambda>s. length s \<le> j)"
          using "2.IH"(3)  [OF _ refl a(1) D a(2)] 1 True a(4) by simp
        then show ?thesis using 1 a D True d [of i] by (auto simp: ok_def)
      next
        case 2
        have "ok (vformat (drop 3 cs) as') (\<lambda>s. length s \<le> j)"
          using "2.IH"(4)  [OF _ refl a(1) D a(2)] 2 True a(4) by simp
        then show ?thesis using 2 a D True by (auto simp: ok_def)
      qed
    next
      case (Ch y)
      with a True "2.prems" obtain j where "take 1 cs = ''c''" "vbound (drop 1 cs) as' ns' = Some j" "k = n + j"
        by (auto split: if_splits)
      moreover have "ok (vformat (drop 1 cs) as') (\<lambda>s. length s \<le> j)"
        using "2.IH"(5)  [OF _ refl a(1) Ch a(2)] calculation True a(4) by simp
      ultimately show ?thesis using a Ch True by (auto simp: ok_def)
    qed
  qed
qed simp

subsection \<open>Sendable replies\<close>

definition sendable :: "response_s run \<Rightarrow> bool" where
  "sendable reply \<longleftrightarrow> ok reply (\<lambda>r. ok (resp_bytes r) (\<lambda>_. True))"

lemma sendable_text: "length s \<le> IRC_MSG_SIZE \<Longrightarrow> sendable (Inr (text_response s))"
  by (simp add: sendable_def resp_bytes_text)

lemma sprintf_sendable:
  assumes "vbound fmt args ns = Some k" and "list_all2 fits_in args ns" and "k \<le> IRC_MSG_SIZE"
  shows "sendable (sprintf_response fmt args)"
proof -
  obtain s where "vformat fmt args = Inr s" "length s \<le> k"
    using vformat_bound [OF assms(1,2)] by (auto simp: ok_def)
  then show ?thesis using assms(3) sendable_text [of s] by (simp add: sprintf_response_eq)
qed

lemma snprintf_sendable:
  assumes "vbound fmt args ns = Some k" and "list_all2 fits_in args ns" and "k \<le> IRC_MSG_SIZE"
  shows "sendable (snprintf_response fmt args)"
proof -
  obtain s where "vformat fmt args = Inr s" "length s \<le> k"
    using vformat_bound [OF assms(1,2)] by (auto simp: ok_def)
  then show ?thesis using assms(3) sendable_text [of s] by (simp add: snprintf_response_eq)
qed

subsection \<open>Strings within bounds\<close>

text \<open>The strings of a client: what USER and AWAY stored came from a line of at most 200 characters.\<close>

definition modest :: "client_s \<Rightarrow> bool" where
  "modest c \<longleftrightarrow> length (cstring (username c)) + length (cstring (fullname c)) \<le> 200 \<and>
     length (cstring (away_message c)) \<le> 200"

definition modest_server :: "server_s \<Rightarrow> bool" where
  "modest_server s \<longleftrightarrow> array_ok HOSTNAME_MAX (server_hostname s) \<and>
     length (cstring (server_hostname s)) \<le> IRC_HOSTNAME_MAX"

lemma array_ok_fits_in: "array_ok n p \<Longrightarrow> length (cstring p) \<le> k \<Longrightarrow> fits_in (S p) k"
  by (simp add: array_ok_cstr)

lemma array_ok_length: "array_ok n p \<Longrightarrow> length (cstring p) \<le> n - 1"
  using cstr_length [OF array_ok_cstr, of n p] by (auto simp: array_ok_def)

lemma array_ok_fits_in_array: "array_ok n p \<Longrightarrow> n - 1 \<le> k \<Longrightarrow> fits_in (S p) k"
  using array_ok_length array_ok_fits_in le_trans by blast

lemma client_fits:
  assumes "client_ok c"
  shows "fits_in (S (nickname c)) 9" "fits_in (S (NICK_OR_STAR c)) 9" "fits_in (S (client_hostname c)) 63"
proof -
  have n: "array_ok 10 (nickname c)" and h: "array_ok 64 (client_hostname c)"
    using assms by (simp_all add: client_ok_def)
  show "fits_in (S (nickname c)) 9" by (rule array_ok_fits_in_array [OF n]) simp
  then show "fits_in (S (NICK_OR_STAR c)) 9" by (simp add: NICK_OR_STAR_def)
  show "fits_in (S (client_hostname c)) 63" by (rule array_ok_fits_in_array [OF h]) simp
qed

lemma client_strings_fit:
  assumes "client_ok c"
  shows "fits_in (S (username c)) (length (cstring (username c)))"
    "fits_in (S (fullname c)) (length (cstring (fullname c)))"
    "fits_in (S (away_message c)) (length (cstring (away_message c)))"
  using assms by (auto simp: client_ok_def array_ok_cstr)

lemma channel_fits:
  assumes "channel_ok k"
  shows "fits_in (S (chan_name k)) 50" "fits_in (S (chan_topic k)) 255"
proof -
  have n: "array_ok 51 (chan_name k)" and t: "array_ok 256 (chan_topic k)"
    using assms by (simp_all add: channel_ok_def)
  show "fits_in (S (chan_name k)) 50" by (rule array_ok_fits_in_array [OF n]) simp
  show "fits_in (S (chan_topic k)) 255" by (rule array_ok_fits_in_array [OF t]) simp
qed

lemma server_fits: "modest_server s \<Longrightarrow> fits_in (S (server_hostname s)) 63"
  by (auto simp: modest_server_def simp del: fits_in_simps intro: array_ok_fits_in)

lemma lit_fits: "NUL \<notin> set s \<Longrightarrow> length s \<le> n \<Longrightarrow> fits_in (S (lit s)) n"
  by simp

subsection \<open>Every reply\<close>

named_theorems sendable \<open>replies that can be sent\<close>

lemma dec03_max: "length (dec03 i) = max 3 (length (dec i))"
  by (simp add: dec03_def)

lemma dec03_sint32: "length (dec03 (sint (w :: 32 word))) \<le> 11"
  using dec_sint32_length [of w] by (simp add: dec03_max)

lemmas bound_simps = dec03_max dec_sint32_length lit_fits CRLF_def

lemma Reply_RplMotdStart_sendable [sendable]:
  assumes "client_ok c" and "modest_server s"
  shows "sendable (Reply_RplMotdStart c (server_hostname s))"
  unfolding Reply_RplMotdStart_def
  by (rule sprintf_sendable [where ns = "[3, 9, 63]"])
    (use assms client_fits [OF assms(1)] server_fits [OF assms(2)] in \<open>simp add: bound_simps FMT_RPL_MOTDSTART_def modest_def\<close>)+

lemma Reply_RplEndOfMotd_sendable [sendable]:
  assumes "client_ok c"
  shows "sendable (Reply_RplEndOfMotd c)"
  unfolding Reply_RplEndOfMotd_def
  by (rule sprintf_sendable [where ns = "[3, 9]"])
    (use assms client_fits [OF assms(1)] in \<open>simp add: bound_simps FMT_RPL_ENDOFMOTD_def modest_def\<close>)+

lemma Reply_ErrNoMotd_sendable [sendable]:
  assumes "client_ok c"
  shows "sendable (Reply_ErrNoMotd c)"
  unfolding Reply_ErrNoMotd_def
  by (rule snprintf_sendable [where ns = "[3, 9, 40]"])
    (use assms client_fits [OF assms(1)] in \<open>simp add: bound_simps STR_ERR_NOMOTD_def modest_def\<close>)+

lemma Reply_ErrNoNicknameGiven_sendable [sendable]:
  assumes "client_ok c"
  shows "sendable (Reply_ErrNoNicknameGiven c)"
  unfolding Reply_ErrNoNicknameGiven_def
  by (rule sprintf_sendable [where ns = "[3, 9, 40]"])
    (use assms client_fits [OF assms(1)] in \<open>simp add: bound_simps STR_ERR_NONICKNAMEGIVEN_def modest_def\<close>)+

lemma Reply_ErrNoTextToSend_sendable [sendable]:
  assumes "client_ok c"
  shows "sendable (Reply_ErrNoTextToSend c)"
  unfolding Reply_ErrNoTextToSend_def
  by (rule sprintf_sendable [where ns = "[3, 9]"])
    (use assms client_fits [OF assms(1)] in \<open>simp add: bound_simps FMT_ERR_NOTEXTTOSEND_def modest_def\<close>)+

lemma Reply_ErrAlreadyRegistered_sendable [sendable]:
  assumes "client_ok c"
  shows "sendable (Reply_ErrAlreadyRegistered c)"
  unfolding Reply_ErrAlreadyRegistered_def
  by (rule sprintf_sendable [where ns = "[3, 9, 40]"])
    (use assms client_fits [OF assms(1)] in \<open>simp add: bound_simps STR_ERR_ALREADYREGISTERED_def modest_def\<close>)+

lemma Reply_Pong_sendable [sendable]:
  assumes "modest_server s"
  shows "sendable (Reply_Pong (server_hostname s))"
  unfolding Reply_Pong_def
  by (rule sprintf_sendable [where ns = "[63]"])
    (use assms server_fits [OF assms(1)] in \<open>simp add: bound_simps CRLF_def modest_def\<close>)+

lemma Reply_RplLUserClient_sendable [sendable]:
  assumes "client_ok c"
  shows "sendable (Reply_RplLUserClient c s)"
  unfolding Reply_RplLUserClient_def
  by (rule snprintf_sendable [where ns = "[9, 11, 11, 11]"])
    (use assms client_fits [OF assms(1)] in \<open>simp add: bound_simps FMT_RPL_LUSERCLIENT_def modest_def\<close>)+

lemma Reply_RplLUserOp_sendable [sendable]:
  assumes "client_ok c"
  shows "sendable (Reply_RplLUserOp c s)"
  unfolding Reply_RplLUserOp_def
  by (rule snprintf_sendable [where ns = "[9, 11]"])
    (use assms client_fits [OF assms(1)] in \<open>simp add: bound_simps FMT_RPL_LUSEROP_def modest_def\<close>)+

lemma Reply_RplLUserUnknown_sendable [sendable]:
  assumes "client_ok c"
  shows "sendable (Reply_RplLUserUnknown c s)"
  unfolding Reply_RplLUserUnknown_def
  by (rule snprintf_sendable [where ns = "[9, 11]"])
    (use assms client_fits [OF assms(1)] in \<open>simp add: bound_simps FMT_RPL_LUSERUNKNOWN_def modest_def\<close>)+

lemma Reply_RplLUserChannels_sendable [sendable]:
  assumes "client_ok c"
  shows "sendable (Reply_RplLUserChannels c s)"
  unfolding Reply_RplLUserChannels_def
  by (rule snprintf_sendable [where ns = "[9, 11]"])
    (use assms client_fits [OF assms(1)] in \<open>simp add: bound_simps FMT_RPL_LUSERCHANNELS_def modest_def\<close>)+

lemma Reply_RplLUserMe_sendable [sendable]:
  assumes "client_ok c"
  shows "sendable (Reply_RplLUserMe c s)"
  unfolding Reply_RplLUserMe_def
  by (rule snprintf_sendable [where ns = "[9, 11, 11]"])
    (use assms client_fits [OF assms(1)] in \<open>simp add: bound_simps FMT_RPL_LUSERME_def modest_def\<close>)+

lemma Reply_RplWhoIsServer_sendable [sendable]:
  assumes "client_ok c" and "client_ok d" and "modest_server s"
  shows "sendable (Reply_RplWhoIsServer c d s)"
  unfolding Reply_RplWhoIsServer_def
  by (rule snprintf_sendable [where ns = "[9, 9, 63, 40]"])
    (use assms client_fits [OF assms(1)] client_fits [OF assms(2)] server_fits [OF assms(3)] in \<open>simp add: bound_simps FMT_RPL_WHOISSERVER_def modest_def\<close>)+

lemma Reply_RplEndOfWhoIs_sendable [sendable]:
  assumes "client_ok c" and "client_ok d"
  shows "sendable (Reply_RplEndOfWhoIs c d)"
  unfolding Reply_RplEndOfWhoIs_def
  by (rule snprintf_sendable [where ns = "[9, 9]"])
    (use assms client_fits [OF assms(1)] client_fits [OF assms(2)] in \<open>simp add: bound_simps FMT_RPL_ENDOFWHOIS_def modest_def\<close>)+

lemma Reply_RplTopic_sendable [sendable]:
  assumes "client_ok c" and "modest_server s" and "channel_ok k"
  shows "sendable (Reply_RplTopic c s k)"
  unfolding Reply_RplTopic_def
  by (rule snprintf_sendable [where ns = "[63, 9, 50, 255]"])
    (use assms client_fits [OF assms(1)] server_fits [OF assms(2)] channel_fits [OF assms(3)] in \<open>simp add: bound_simps FMT_RPL_TOPIC_def modest_def\<close>)+

lemma Reply_RplNoTopic_sendable [sendable]:
  assumes "client_ok c" and "modest_server s" and "channel_ok k"
  shows "sendable (Reply_RplNoTopic c s k)"
  unfolding Reply_RplNoTopic_def
  by (rule snprintf_sendable [where ns = "[63, 9, 50]"])
    (use assms client_fits [OF assms(1)] server_fits [OF assms(2)] channel_fits [OF assms(3)] in \<open>simp add: bound_simps FMT_RPL_NOTOPIC_def modest_def\<close>)+

lemma Reply_RplList_sendable [sendable]:
  assumes "client_ok c" and "modest_server s" and "channel_ok k"
  shows "sendable (Reply_RplList c s k)"
  unfolding Reply_RplList_def
  by (rule snprintf_sendable [where ns = "[63, 9, 50, 11, 255]"])
    (use assms client_fits [OF assms(1)] server_fits [OF assms(2)] channel_fits [OF assms(3)] in \<open>simp add: bound_simps FMT_RPL_LIST_def modest_def\<close>)+

lemma Reply_RplEndOfNames_sendable [sendable]:
  assumes "client_ok c" and "modest_server s" and "channel_ok k"
  shows "sendable (Reply_RplEndOfNames c s k)"
  unfolding Reply_RplEndOfNames_def
  by (rule snprintf_sendable [where ns = "[63, 9, 50]"])
    (use assms client_fits [OF assms(1)] server_fits [OF assms(2)] channel_fits [OF assms(3)] in \<open>simp add: bound_simps FMT_RPL_ENDOFNAMES_def modest_def\<close>)+

lemma Reply_ErrNotOnChannel_sendable [sendable]:
  assumes "client_ok c" and "modest_server s" and "channel_ok k"
  shows "sendable (Reply_ErrNotOnChannel c s k)"
  unfolding Reply_ErrNotOnChannel_def
  by (rule snprintf_sendable [where ns = "[63, 9, 50]"])
    (use assms client_fits [OF assms(1)] server_fits [OF assms(2)] channel_fits [OF assms(3)] in \<open>simp add: bound_simps FMT_ERR_NOSUCHCHANNEL_def modest_def\<close>)+

lemma Reply_RplListStart_sendable [sendable]:
  assumes "client_ok c" and "modest_server s"
  shows "sendable (Reply_RplListStart c s)"
  unfolding Reply_RplListStart_def
  by (rule snprintf_sendable [where ns = "[63, 9]"])
    (use assms client_fits [OF assms(1)] server_fits [OF assms(2)] in \<open>simp add: bound_simps FMT_RPL_LISTSTART_def modest_def\<close>)+

lemma Reply_RplListEnd_sendable [sendable]:
  assumes "client_ok c" and "modest_server s"
  shows "sendable (Reply_RplListEnd c s)"
  unfolding Reply_RplListEnd_def
  by (rule snprintf_sendable [where ns = "[63, 9]"])
    (use assms client_fits [OF assms(1)] server_fits [OF assms(2)] in \<open>simp add: bound_simps FMT_RPL_LISTEND_def modest_def\<close>)+

lemma format_rpl_unaway_sendable [sendable]:
  assumes "client_ok c" and "modest_server s"
  shows "sendable (format_rpl_unaway c s)"
  unfolding format_rpl_unaway_def
  by (rule snprintf_sendable [where ns = "[63, 9]"])
    (use assms client_fits [OF assms(1)] server_fits [OF assms(2)] in \<open>simp add: bound_simps FMT_RPL_UNAWAY_def modest_def\<close>)+

lemma format_rpl_nowaway_sendable [sendable]:
  assumes "client_ok c" and "modest_server s"
  shows "sendable (format_rpl_nowaway c s)"
  unfolding format_rpl_nowaway_def
  by (rule snprintf_sendable [where ns = "[63, 9]"])
    (use assms client_fits [OF assms(1)] server_fits [OF assms(2)] in \<open>simp add: bound_simps FMT_RPL_NOWAWAY_def modest_def\<close>)+

lemma Reply_ErrNoSuchNick_sendable [sendable]:
  assumes "client_ok c" and "fits_in (S x) 200"
  shows "sendable (Reply_ErrNoSuchNick c x)"
  unfolding Reply_ErrNoSuchNick_def
  by (rule sprintf_sendable [where ns = "[3, 9, 200, 40]"])
    (use assms client_fits [OF assms(1)] assms(2) in \<open>simp add: bound_simps STR_ERR_NOSUCHNICK_def modest_def\<close>)+

lemma Reply_ErrNicknameInUse_sendable [sendable]:
  assumes "client_ok c" and "fits_in (S x) 200"
  shows "sendable (Reply_ErrNicknameInUse c x)"
  unfolding Reply_ErrNicknameInUse_def
  by (rule sprintf_sendable [where ns = "[3, 9, 200, 40]"])
    (use assms client_fits [OF assms(1)] assms(2) in \<open>simp add: bound_simps STR_ERR_NICKNAMEINUSE_def modest_def\<close>)+

lemma Reply_ErrNeedMoreParams_sendable [sendable]:
  assumes "client_ok c" and "fits_in (S x) 200"
  shows "sendable (Reply_ErrNeedMoreParams c x)"
  unfolding Reply_ErrNeedMoreParams_def
  by (rule sprintf_sendable [where ns = "[3, 9, 200, 40]"])
    (use assms client_fits [OF assms(1)] assms(2) in \<open>simp add: bound_simps STR_ERR_NEEDMOREPARAMS_def modest_def\<close>)+

lemma Reply_ErrNoRecipient_sendable [sendable]:
  assumes "client_ok c" and "fits_in (S x) 200"
  shows "sendable (Reply_ErrNoRecipient c x)"
  unfolding Reply_ErrNoRecipient_def
  by (rule sprintf_sendable [where ns = "[3, 9, 200]"])
    (use assms client_fits [OF assms(1)] assms(2) in \<open>simp add: bound_simps FMT_ERR_NORECIPIENT_def modest_def\<close>)+

lemma Reply_ErrUnknownCommand_sendable [sendable]:
  assumes "client_ok c" and "fits_in (S x) 200"
  shows "sendable (Reply_ErrUnknownCommand c x)"
  unfolding Reply_ErrUnknownCommand_def
  by (rule sprintf_sendable [where ns = "[3, 9, 200, 40]"])
    (use assms client_fits [OF assms(1)] assms(2) in \<open>simp add: bound_simps STR_ERR_UNKNOWNCOMMAND_def modest_def\<close>)+

lemma Reply_ErrNoSuchChannel_sendable [sendable]:
  assumes "client_ok c" and "modest_server s" and "fits_in (S x) 200"
  shows "sendable (Reply_ErrNoSuchChannel c s x)"
  unfolding Reply_ErrNoSuchChannel_def
  by (rule snprintf_sendable [where ns = "[63, 9, 200]"])
    (use assms client_fits [OF assms(1)] server_fits [OF assms(2)] assms(3) in \<open>simp add: bound_simps FMT_ERR_NOSUCHCHANNEL_def modest_def\<close>)+

lemma Reply_RplWelcome_sendable [sendable]:
  assumes "client_ok c" and "modest c"
  shows "sendable (Reply_RplWelcome c)"
  unfolding Reply_RplWelcome_def
  by (rule sprintf_sendable [where ns = "[3, 9, 9, length (cstring (username c)), 63]"])
    (use assms client_fits [OF assms(1)] client_strings_fit [OF assms(1)] in \<open>simp add: bound_simps FORMAT_RPL_WELCOME_def modest_def\<close>)+

lemma Reply_RplWhoIsUser_sendable [sendable]:
  assumes "client_ok c" and "client_ok d" and "modest d"
  shows "sendable (Reply_RplWhoIsUser c d)"
  unfolding Reply_RplWhoIsUser_def
  by (rule snprintf_sendable [where ns = "[9, 9, length (cstring (username d)), 63, length (cstring (fullname d))]"])
    (use assms client_fits [OF assms(1)] client_fits [OF assms(2)] client_strings_fit [OF assms(2)] in \<open>simp add: bound_simps FMT_RPL_WHOISUSER_def modest_def\<close>)+

lemma Format_MessageJoin_sendable [sendable]:
  assumes "client_ok c" and "modest c" and "channel_ok k"
  shows "sendable (Format_MessageJoin c (chan_name k))"
  unfolding Format_MessageJoin_def
  by (rule snprintf_sendable [where ns = "[9, length (cstring (username c)), 63, 50]"])
    (use assms client_fits [OF assms(1)] client_strings_fit [OF assms(1)] channel_fits [OF assms(3)] in \<open>simp add: bound_simps FMT_MSG_JOIN_def modest_def\<close>)+

lemma Format_MessagePart_sendable [sendable]:
  assumes "client_ok c" and "modest c" and "fits_in (S y) i"
    and "fits_in (S (case x of Some m \<Rightarrow> m | None \<Rightarrow> nickname c)) j" and "i + j \<le> 200"
  shows "sendable (Format_MessagePart c y x)"
  unfolding Format_MessagePart_def
proof (rule snprintf_sendable)
  let ?u = "length (cstring (username c))" and ?p = "case x of Some m \<Rightarrow> m | None \<Rightarrow> nickname c"
  show "vbound FMT_MSG_PART [S (nickname c), S (username c), S (client_hostname c), S y, S ?p]
      [9, ?u, 63, i, j] = Some (?u + i + j + 84)"
    by (simp add: FMT_MSG_PART_def CRLF_def split del: option.split)
  show "list_all2 fits_in [S (nickname c), S (username c), S (client_hostname c), S y, S ?p] [9, ?u, 63, i, j]"
    using client_fits [OF assms(1)] client_strings_fit [OF assms(1)] assms(3,4)
    by (simp del: fits_in_simps split del: option.split)
  show "?u + i + j + 84 \<le> IRC_MSG_SIZE" using assms(2,5) by (simp add: modest_def)
qed

lemma Message_Privmsg_sendable [sendable]:
  assumes "client_ok c" and "modest c" and "fits_in (S x) i" and "fits_in (S y) j" and "i + j \<le> 200"
  shows "sendable (Message_Privmsg c x y)"
  unfolding Message_Privmsg_def
proof (rule sprintf_sendable)
  let ?u = "length (cstring (username c))"
  show "vbound FMT_MSG_PRIVMSG [S (nickname c), S (username c), S (client_hostname c), S x, S y] [9, ?u, 63, i, j] =
      Some (?u + i + j + 87)"
    by (simp add: FMT_MSG_PRIVMSG_def CRLF_def)
  show "list_all2 fits_in [S (nickname c), S (username c), S (client_hostname c), S x, S y] [9, ?u, 63, i, j]"
    using client_fits [OF assms(1)] client_strings_fit [OF assms(1)] assms(3,4) by simp
  show "?u + i + j + 87 \<le> IRC_MSG_SIZE" using assms(2,5) by (simp add: modest_def)
qed

lemma format_rpl_away_sendable [sendable]:
  assumes "client_ok c" and "modest_server s" and "fits_in (S x) 9" and "fits_in (S y) 200"
  shows "sendable (format_rpl_away c s x y)"
  unfolding format_rpl_away_def
  by (rule snprintf_sendable [where ns = "[63, 9, 9, 200]"])
    (use assms client_fits [OF assms(1)] server_fits [OF assms(2)] assms(3,4) in \<open>simp add: bound_simps FMT_RPL_AWAY_def modest_def\<close>)+

text \<open>
  \<open>RPL_NAMREPLY\<close> holds 38 nicknames of nine characters, whatever the other names: 131 bytes before
  them, 379 for the nicknames, two for the end of the line.
\<close>

abbreviation (input) MEMBERS_MAX :: nat where "MEMBERS_MAX \<equiv> 38"

lemma joined_length: "\<forall>s\<in>set ss. length s \<le> 9 \<Longrightarrow> length (joined ss) \<le> 10 * length ss - 1"
  by (induction ss rule: joined.induct) auto

lemma Reply_RplNamReply_sendable [sendable]:
  assumes "client_ok c" and "modest_server s" and "channel_ok k" and "env_ok e"
    and "length (members k) \<le> MEMBERS_MAX"
    and live: "\<And>i a. (i, a) \<in> set (members k) \<Longrightarrow> \<exists>d. client_mem w a = Some d \<and> client_ok (core d)"
  shows "sendable (Reply_RplNamReply e w c s k)"
proof -
  let ?args = "[S (server_hostname s), S (nickname c), S (chan_name k)]"
  let ?ms = "iter_members e (members k)"
  define nk where "nk a = cstring (nickname (the (client_mem w a)))" for a
  have "ok (vformat FMT_RPL_NAMREPLY_PARTIAL ?args) (\<lambda>t. length t \<le> 131)"
    by (rule vformat_bound [where ns = "[63, 9, 50]"])
      (use assms(1-3) client_fits [OF assms(1)] server_fits [OF assms(2)] channel_fits [OF assms(3)]
        in \<open>simp add: FMT_RPL_NAMREPLY_PARTIAL_def\<close>)+
  then obtain t where t: "vformat FMT_RPL_NAMREPLY_PARTIAL ?args = Inr t" "length t \<le> 131" by (auto simp: ok_def)
  have m: "set ?ms = set (members k)" "length ?ms \<le> MEMBERS_MAX"
    using assms(4,5) by (simp_all add: env_ok_def iteration_set iteration_length)
  have d: "\<forall>m\<in>set ?ms. (\<exists>d. client_mem w (snd m) = Some d \<and> cstr (nickname d) = Inr (nk (snd m))) \<and> length (nk (snd m)) \<le> 9"
  proof
    fix x assume "x \<in> set ?ms"
    then obtain d where d: "client_mem w (snd x) = Some d" "client_ok (core d)"
      using live [of "fst x" "snd x"] m(1) by auto
    then have "array_ok 10 (nickname d)" by (simp add: client_ok_def)
    then show "(\<exists>d. client_mem w (snd x) = Some d \<and> cstr (nickname d) = Inr (nk (snd x))) \<and> length (nk (snd x)) \<le> 9"
      using d(1) array_ok_length [of 10] by (auto simp: nk_def array_ok_cstr)
  qed
  let ?j = "joined (map (\<lambda>x. nk (snd x)) ?ms)"
  have "length ?j \<le> 10 * length ?ms - 1" using joined_length [of "map (\<lambda>x. nk (snd x)) ?ms"] d by simp
  then have j: "length ?j \<le> 379" using m(2) by linarith
  have "rfold (namreply_step w) ?ms (t, True) = Inr (t @ ?j, ?ms = [])"
    using namreply_loop [of ?ms w nk t True] d t(2) j by simp
  moreover have "length (t @ ?j @ CRLF) \<le> IRC_MSG_SIZE" using t(2) j by (simp add: CRLF_def)
  ultimately show ?thesis
    using t sendable_text [of "t @ ?j @ CRLF"] by (simp add: Reply_RplNamReply_def sprintf_at_def)
qed

end
