(* ===== verification/Preserve.thy ===== *)
theory Preserve
  imports Invariant
begin

text \<open>
  The operations of \<open>src/client.c\<close>, \<open>src/channel.c\<close> and \<open>src/server.c\<close> keep the invariant, one lemma
  for each state change a handler is made of.
\<close>

subsection \<open>Changing one client\<close>

definition same_server_ids :: "world \<Rightarrow> world \<Rightarrow> bool" where
  "same_server_ids w w' \<longleftrightarrow>
     clients (server w') = clients (server w) \<and> idCounter (server w') = idCounter (server w) \<and>
     server_fd (server w') = server_fd (server w) \<and> channels (server w') = channels (server w) \<and>
     server_hostname (server w') = server_hostname (server w) \<and> channel_mem w' = channel_mem w \<and>
     next_addr w' = next_addr w \<and> interest w' = interest w"

definition same_counters :: "world \<Rightarrow> world \<Rightarrow> bool" where
  "same_counters w w' \<longleftrightarrow>
     nUsers (server w') = nUsers (server w) \<and> nUnknown (server w') = nUnknown (server w) \<and>
     nOperators (server w') = nOperators (server w) \<and> nChannels (server w') = nChannels (server w) \<and>
     nServices (server w') = nServices (server w) \<and> nServers (server w') = nServers (server w)"

definition same_clients :: "world \<Rightarrow> world \<Rightarrow> bool" where
  "same_clients w w' \<longleftrightarrow>
     (\<forall>b. view w b = None \<longrightarrow> view w' b = None) \<and>
     (\<forall>b c. view w b = Some c \<longrightarrow> (\<exists>d. view w' b = Some d \<and> client_ok d \<and>
        clientId d = clientId c \<and> conn_fd (conn d) = conn_fd (conn c)))"

lemma same_clients_None: "same_clients w w' \<Longrightarrow> view w' b = None \<longleftrightarrow> view w b = None"
  unfolding same_clients_def by (metis not_None_eq)

lemma same_clients_SomeD:
  "same_clients w w' \<Longrightarrow> view w' b = Some d \<Longrightarrow> \<exists>c. view w b = Some c \<and> client_ok d \<and>
     clientId d = clientId c \<and> conn_fd (conn d) = conn_fd (conn c)"
  unfolding same_clients_def by (metis not_None_eq option.inject)

lemma clients_inv_same:
  assumes "clients_inv w" and "same_server_ids w w'" and "same_clients w w'"
  shows "clients_inv w'"
proof -
  from assms(2) have s: "clients (server w') = clients (server w)"
    "idCounter (server w') = idCounter (server w)" "next_addr w' = next_addr w"
    by (auto simp: same_server_ids_def)
  have v: "client_ok d \<and> a < next_addr w \<and> 1 \<le> clientId d \<and>
      g_lookup (clients (server w)) (clientId d) = Some a"
    if "view w' a = Some d" for a d
    using same_clients_SomeD [OF assms(3) that] assms(1) by (auto simp: clients_inv_def)
  have t: "clientId d = i" if "g_lookup (clients (server w)) i = Some a" "view w' a = Some d" for i a d
    using same_clients_SomeD [OF assms(3) that(2)] that(1) assms(1) by (auto simp: clients_inv_def)
  show ?thesis using assms(1) v t unfolding clients_inv_def s by blast
qed

lemma channels_inv_same:
  assumes "channels_inv w" and "same_server_ids w w'" and "same_clients w w'"
  shows "channels_inv w'"
proof -
  from assms(2) have s: "channels (server w') = channels (server w)"
    "channel_mem w' = channel_mem w" "next_addr w' = next_addr w"
    by (auto simp: same_server_ids_def)
  show ?thesis using assms(1,3) unfolding channels_inv_def same_clients_def s by metis
qed

lemma interest_inv_same:
  assumes "interest_inv w" and "same_server_ids w w'" and "same_clients w w'"
  shows "interest_inv w'"
proof -
  from assms(2) have s: "interest w' = interest w" "server_fd (server w') = server_fd (server w)"
    by (auto simp: same_server_ids_def)
  show ?thesis using assms(1,3) unfolding interest_inv_def same_clients_def entry_ok_def s by metis
qed

lemma leaked_same: "same_server_ids w w' \<Longrightarrow> same_clients w w' \<Longrightarrow> leaked w' = leaked w"
  by (simp add: leaked_def same_clients_None same_server_ids_def)

lemma is_open_same: "same_server_ids w w' \<Longrightarrow> is_open w' a = is_open w a"
  by (simp add: is_open_def same_server_ids_def)

lemma open_clients_same:
  assumes "same_server_ids w w'" and "same_clients w w'"
    and "\<And>b c d. view w b = Some c \<Longrightarrow> view w' b = Some d \<Longrightarrow> registered d = registered c"
  shows "open_clients w' r = open_clients w r"
proof -
  have "(\<exists>d. view w' b = Some d \<and> registered d = r) = (\<exists>c. view w b = Some c \<and> registered c = r)" for b
    using assms(2,3) same_clients_None [OF assms(2), of b] by (metis not_None_eq)
  then show ?thesis by (simp add: open_clients_def is_open_same [OF assms(1)])
qed

lemma counters_inv_same:
  assumes "counters_inv w" and "same_server_ids w w'" and "same_counters w w'" and "same_clients w w'"
    and "\<And>b c d. view w b = Some c \<Longrightarrow> view w' b = Some d \<Longrightarrow> registered d = registered c"
  shows "counters_inv w'"
proof -
  have "open_clients w' r = open_clients w r" for r
    using open_clients_same [OF assms(2,4,5)] .
  then show ?thesis
    using assms(1,3) leaked_same [OF assms(2,4)] by (simp add: counters_inv_def same_counters_def)
qed

lemma nick_owner_same:
  assumes "clients (server w') = clients (server w)" and "same_clients w w'"
    and "\<And>b c d. view w b = Some c \<Longrightarrow> view w' b = Some d \<Longrightarrow>
       receivedNick d = receivedNick c \<and> nickname d = nickname c"
  shows "nick_owner w' = nick_owner w"
proof (rule ext)
  fix i
  show "nick_owner w' i = nick_owner w i"
  proof (cases "g_lookup (clients (server w)) i")
    case (Some a)
    show ?thesis
    proof (cases "view w a")
      case None
      then show ?thesis using Some same_clients_None [OF assms(2), of a]
        by (simp add: nick_owner_def assms(1))
    next
      case c: (Some c)
      then obtain d where d: "view w' a = Some d" using assms(2) unfolding same_clients_def by blast
      show ?thesis using Some c d assms(3) [OF c d] by (simp add: nick_owner_def assms(1))
    qed
  qed (simp add: nick_owner_def assms(1))
qed

lemma hostname_inv_same: "hostname_inv w \<Longrightarrow> same_server_ids w w' \<Longrightarrow> hostname_inv w'"
  by (simp add: hostname_inv_def same_server_ids_def)

text \<open>A client updated in fields that neither name nor number it.\<close>

lemma same_clients_upd:
  assumes "clients_inv w" and "\<And>d. core (f d) = f (core d)" and "view w' = view (upd_client a f w)"
    and "\<And>c. view w a = Some c \<Longrightarrow> client_ok (f c) \<and> clientId (f c) = clientId c \<and>
            conn_fd (conn (f c)) = conn_fd (conn c)"
  shows "same_clients w w'"
  using assms(1,4) unfolding same_clients_def assms(3) view_upd_client [of f, OF assms(2)]
  by (auto simp: clients_inv_def)

lemma inv_upd_client:
  assumes "world_ok w" and core: "\<And>d. core (f d) = f (core d)"
    and ok: "\<And>c. view w a = Some c \<Longrightarrow> client_ok (f c) \<and> clientId (f c) = clientId c \<and>
            conn_fd (conn (f c)) = conn_fd (conn c)"
    and keep: "\<And>c. receivedNick (f c) = receivedNick c" "\<And>c. nickname (f c) = nickname c"
      "\<And>c. registered (f c) = registered c"
  shows "world_ok (upd_client a f w)"
proof -
  let ?w = "upd_client a f w"
  have s: "same_server_ids w ?w" "same_counters w ?w"
    by (simp_all add: same_server_ids_def same_counters_def)
  have c: "same_clients w ?w"
    using assms(1) by (intro same_clients_upd [OF _ core refl ok]) (auto simp: world_ok_def)
  have pw: "receivedNick d = receivedNick b \<and> nickname d = nickname b \<and> registered d = registered b"
    if "view w x = Some b" "view ?w x = Some d" for x b d
    using that keep view_upd_client [of f a w, OF core] by (cases "x = a") auto
  have n: "nick_owner ?w = nick_owner w"
    by (rule nick_owner_same [OF _ c]) (simp, blast dest: pw)
  have k: "counters_inv w \<Longrightarrow> counters_inv ?w"
    using counters_inv_same [OF _ s c] pw by blast
  show ?thesis
    using assms(1) s c k
    by (auto simp: world_ok_def nicks_inv_def n intro: clients_inv_same channels_inv_same interest_inv_same
        hostname_inv_same)
qed

subsection \<open>What a handler may touch\<close>

definition handler_frame :: "caddr \<Rightarrow> world \<Rightarrow> world \<Rightarrow> bool" where
  "handler_frame a w w' \<longleftrightarrow> conns w' = conns w \<and> interest w' = interest w \<and>
     (\<forall>b. b \<noteq> a \<longrightarrow> idle w b \<longrightarrow> idle w' b) \<and>
     (\<forall>b. b \<noteq> a \<longrightarrow> view w' b = view w b)"

lemma handler_frame_refl [simp]: "handler_frame a w w"
  by (simp add: handler_frame_def)

lemma handler_frame_trans [trans]: "handler_frame a u v \<Longrightarrow> handler_frame a v w \<Longrightarrow> handler_frame a u w"
  by (simp add: handler_frame_def)

lemma handler_frame_calm: "calm a w w' \<Longrightarrow> handler_frame a w w'"
  using conns_quiet [of w w'] unfolding handler_frame_def calm_def quiet_def by metis

lemma handler_frame_others: "handler_frame a w w' \<Longrightarrow> b \<noteq> a \<Longrightarrow> view w' b = view w b"
  by (simp add: handler_frame_def)

lemma conns_upd_client:
  "(\<And>d. core (f d) = f (core d)) \<Longrightarrow> (\<And>d. conn (f d) = conn d) \<Longrightarrow> conns (upd_client a f w) = conns w"
  by (rule ext) (simp add: conns_def view_upd_client option.map_comp comp_def)

lemma conns_other [simp]:
  "conns (upd_channel ch g w) = conns w" "conns (upd_server h w) = conns w"
  "conns (w\<lparr>channel_mem := cm\<rparr>) = conns w" "conns (w\<lparr>channel_mem := cm, next_addr := n\<rparr>) = conns w"
  "conns (w\<lparr>interest := i\<rparr>) = conns w"
  by (simp_all add: conns_def fun_eq_iff)

lemma handler_frame_upd_client:
  "(\<And>d. core (f d) = f (core d)) \<Longrightarrow> (\<And>d. conn (f d) = conn d) \<Longrightarrow> handler_frame a w (upd_client a f w)"
  by (simp add: handler_frame_def conns_upd_client idle_upd_client view_upd_client)

lemma handler_frame_other [simp]:
  "handler_frame a w (upd_channel ch g w)" "handler_frame a w (upd_server h w)"
  "handler_frame a w (w\<lparr>channel_mem := cm\<rparr>)" "handler_frame a w (w\<lparr>channel_mem := cm, next_addr := n\<rparr>)"
  by (simp_all add: handler_frame_def)

lemma complete_but_mono: "complete_but X w \<Longrightarrow> X \<subseteq> Y \<Longrightarrow> complete_but Y w"
  by (auto simp: complete_but_def)

lemma complete_but_upd_client:
  assumes "complete_but X w" and "\<And>d. core (f d) = f (core d)"
  shows "complete_but (insert a X) (upd_client a f w)"
  using assms(1) view_upd_client [of f a w, OF assms(2)] by (auto simp: complete_but_def)

lemma complete_but_other [simp]:
  "complete_but X (upd_channel ch g w) = complete_but X w" "complete_but X (upd_server h w) = complete_but X w"
  "complete_but X (w\<lparr>channel_mem := cm\<rparr>) = complete_but X w"
  "complete_but X (w\<lparr>channel_mem := cm, next_addr := n\<rparr>) = complete_but X w"
  by (simp_all add: complete_but_def)

text \<open>Updates that commute with \<open>core\<close>.\<close>

lemma core_updates [simp]:
  "core (c\<lparr>registered := b\<rparr>) = (core c)\<lparr>registered := b\<rparr>"
  "core (c\<lparr>receivedNick := b\<rparr>) = (core c)\<lparr>receivedNick := b\<rparr>"
  "core (c\<lparr>receivedUser := b\<rparr>) = (core c)\<lparr>receivedUser := b\<rparr>"
  "core (c\<lparr>nickname := s\<rparr>) = (core c)\<lparr>nickname := s\<rparr>"
  "core (c\<lparr>username := s\<rparr>) = (core c)\<lparr>username := s\<rparr>"
  "core (c\<lparr>fullname := s\<rparr>) = (core c)\<lparr>fullname := s\<rparr>"
  "core (c\<lparr>away := b\<rparr>) = (core c)\<lparr>away := b\<rparr>"
  "core (c\<lparr>away_message := s\<rparr>) = (core c)\<lparr>away_message := s\<rparr>"
  by (simp_all add: core_def)

subsection \<open>Nicknames\<close>

lemma Client_TryChangeNick_cases:
  assumes "Client_TryChangeNick a nick w = Inr (w', r, res)"
  obtains (in_use) "res = -1" "w' = w" "r \<noteq> None" "g_lookup (nicks (server w)) nick \<noteq> None"
  | (changed) c nn ns where "res = 0" "r = None" "g_lookup (nicks (server w)) nick = None"
      "client_mem w a = Some c" "strcpy (nickname c) nick = Inr nn"
      "ns = (if receivedNick c then g_remove (cstring (nickname c)) (nicks (server w)) else nicks (server w))"
      "w' = upd_client a (\<lambda>c. c\<lparr>nickname := nn, receivedNick := True\<rparr>)
              (upd_server (\<lambda>s. s\<lparr>nicks := g_insert nick (clientId c) ns\<rparr>) w)"
proof -
  from assms obtain c where c: "client_mem w a = Some c"
    by (auto simp: Client_TryChangeNick_def get_client_eq elim!: rbind_InrE)
  show ?thesis
  proof (cases "g_contains (nicks (server w)) nick")
    case True
    with assms c show ?thesis
      by (intro in_use) (auto simp: Client_TryChangeNick_def get_client_def g_contains_lookup run_simps)
  next
    case False
    then have f: "g_lookup (nicks (server w)) nick = None" by (simp add: g_contains_lookup)
    show ?thesis
    proof (cases "receivedNick c")
      case True
      with assms c False obtain old nn where "cstr (nickname c) = Inr old"
        "strcpy (nickname c) nick = Inr nn" "res = 0" "r = None"
        "w' = upd_client a (\<lambda>c. c\<lparr>nickname := nn, receivedNick := True\<rparr>)
           (upd_server (\<lambda>s. s\<lparr>nicks := g_insert nick (clientId c) (nicks s)\<rparr>)
           (upd_server (\<lambda>s. s\<lparr>nicks := g_remove old (nicks s)\<rparr>) w))"
        by (auto simp: Client_TryChangeNick_def get_client_def Let_def run_simps)
      with c f True show ?thesis
        by (intro changed [of c nn]) (auto simp: cstr_cstring upd_server_def)
    next
      case no: False
      with assms c False obtain nn where "strcpy (nickname c) nick = Inr nn" "res = 0" "r = None"
        "w' = upd_client a (\<lambda>c. c\<lparr>nickname := nn, receivedNick := True\<rparr>)
           (upd_server (\<lambda>s. s\<lparr>nicks := g_insert nick (clientId c) (nicks s)\<rparr>) w)"
        by (auto simp: Client_TryChangeNick_def get_client_def Let_def run_simps)
      with c f no show ?thesis by (intro changed [of c nn]) (auto simp: upd_server_def)
    qed
  qed
qed

lemma Client_TryChangeNick_inv:
  assumes "Client_TryChangeNick a nick w = Inr (w', r, res)" and "world_ok w" and "NUL \<notin> set nick"
  shows "world_ok w'"
  using assms(1)
proof (cases rule: Client_TryChangeNick_cases)
  case in_use
  then show ?thesis using assms(2) by simp
next
  case (changed c nn ns)
  let ?f = "\<lambda>c. c\<lparr>nickname := nn, receivedNick := True\<rparr>"
  let ?id = "clientId c"
  have v: "view w a = Some (core c)" by (rule view_SomeI [OF changed(4)])
  have view': "view w' = (view w)(a := map_option ?f (view w a))"
    unfolding changed(7) by (subst view_upd_client) simp_all
  have ok: "client_ok (core c)" by (rule inv_client(1) [OF assms(2) v])
  then have an: "array_ok (IRC_NICK_SIZE + 1) nn"
    using array_ok_strcpy [OF changed(5)] by (simp add: client_ok_def)
  have nn: "cstring nn = nick" using strcpy_cstr [OF changed(5) assms(3)] by (rule cstr_cstring)
  have s: "same_server_ids w w'" "same_counters w w'"
    by (simp_all add: changed(7) same_server_ids_def same_counters_def)
  have sc: "same_clients w w'"
    using assms(2) ok an v unfolding same_clients_def view'
    by (auto simp: world_ok_def clients_inv_def client_ok_def)
  have reg: "registered d = registered b" if "view w x = Some b" "view w' x = Some d" for x b d
    using that view' by (cases "x = a") auto
  have cl: "clients (server w') = clients (server w)" by (simp add: changed(7))
  have own: "nick_owner w' = (nick_owner w)(?id := Some nick)"
  proof (rule ext)
    fix i
    show "nick_owner w' i = ((nick_owner w)(?id := Some nick)) i"
    proof (cases "i = ?id")
      case True
      then show ?thesis using inv_client(4) [OF assms(2) v] v nn
        by (simp add: nick_owner_def view' cl)
    next
      case False
      then have "g_lookup (clients (server w)) i \<noteq> Some a"
        using inv_table [OF assms(2) _ v] by auto
      then show ?thesis using False
        by (auto simp: nick_owner_def view' cl split: option.split)
    qed
  qed
  have o: "gh.owns (nicks (server w)) (nick_owner w)" using assms(2) by (simp add: world_ok_def nicks_inv_def)
  have "gh.owns (g_insert nick ?id ns) ((nick_owner w)(?id := Some nick))"
  proof (cases "receivedNick c")
    case True
    then have "nick_owner w ?id = Some (cstring (nickname c))"
      using inv_nick_owner [OF assms(2) v] by simp
    from gh.owns_rename [OF o this changed(3)] show ?thesis using True changed(6) by simp
  next
    case False
    then have "nick_owner w ?id = None" using inv_nick_owner [OF assms(2) v] by simp
    from gh.owns_register [OF o this changed(3)] show ?thesis using False changed(6) by simp
  qed
  moreover have "nicks (server w') = g_insert nick ?id ns" by (simp add: changed(7))
  ultimately have "nicks_inv w'" by (simp add: nicks_inv_def own)
  then show ?thesis
    using assms(2) clients_inv_same [OF _ s(1) sc] channels_inv_same [OF _ s(1) sc]
      interest_inv_same [OF _ s(1) sc] counters_inv_same [OF _ s sc reg] hostname_inv_same [OF _ s(1)]
    by (simp add: world_ok_def)
qed

lemma Client_TryChangeNick_frame:
  assumes "Client_TryChangeNick a nick w = Inr (w', r, res)"
  shows "handler_frame a w w'" and "complete_but X w \<Longrightarrow> complete_but (insert a X) w'"
proof -
  show "handler_frame a w w'" using assms
  proof (cases rule: Client_TryChangeNick_cases)
    case (changed c nn ns)
    then show ?thesis
      by (auto intro!: handler_frame_trans [OF handler_frame_other(2) handler_frame_upd_client])
  qed simp
  assume X: "complete_but X w"
  from assms show "complete_but (insert a X) w'"
  proof (cases rule: Client_TryChangeNick_cases)
    case (changed c nn ns)
    then show ?thesis using X by (simp add: complete_but_upd_client)
  next
    case in_use
    with X show ?thesis by (auto intro: complete_but_mono)
  qed
qed

subsection \<open>Registration\<close>

lemma finite_open: "finite {a. is_open w a}"
proof -
  have "{a. is_open w a} \<subseteq> (\<lambda>en. case handler_inst (snd en) of Client_instance a \<Rightarrow> a | _ \<Rightarrow> 0) ` set (interest w)"
    by (force simp: is_open_def client_handler_def image_iff)
  then show ?thesis by (rule finite_subset) simp
qed

lemma finite_open_clients [simp]: "finite (open_clients w b)"
  by (rule finite_subset [OF _ finite_open [of w]]) (auto simp: open_clients_def)

lemma finite_leaked: "clients_inv w \<Longrightarrow> finite (leaked w)"
proof -
  assume "clients_inv w"
  have "leaked w \<subseteq> fst ` set (clients (server w))"
    by (force simp: leaked_def g_lookup_def dest!: map_of_SomeD)
  then show ?thesis by (rule finite_subset) simp
qed

lemma Client_TryRegister_cases:
  assumes "Client_TryRegister a w = Inr (w', r)"
  obtains (no) c where "w' = w" "r = None" "client_mem w a = Some c"
      "registered c \<or> \<not> receivedUser c \<or> \<not> receivedNick c"
  | (yes) c where "client_mem w a = Some c" "\<not> registered c" "receivedUser c" "receivedNick c"
      "\<exists>x. Reply_RplWelcome (c\<lparr>registered := True\<rparr>) = Inr x \<and> r = Some x"
      "w' = upd_client a (\<lambda>c. c\<lparr>registered := True\<rparr>)
              (upd_server (\<lambda>s. s\<lparr>clients := g_insert (clientId c) a (clients s),
                 nUnknown := nUnknown s - 1, nUsers := nUsers s + 1\<rparr>) w)"
proof -
  from assms obtain c where c: "client_mem w a = Some c"
    by (auto simp: Client_TryRegister_def get_client_eq elim!: rbind_InrE)
  show ?thesis
  proof (cases "\<not> registered c \<and> receivedUser c \<and> receivedNick c")
    case True
    from assms c True show ?thesis
      by (intro yes [of c])
        (auto simp: Client_TryRegister_def get_client_def run_simps Let_def upd_server_def upd_client_def)
  next
    case False
    with assms c show ?thesis
      by (intro no [of c]) (auto simp: Client_TryRegister_def get_client_def run_simps)
  qed
qed

lemma g_insert_same: "g_lookup h k = Some v \<Longrightarrow> g_insert k v h = h"
  unfolding g_lookup_def g_insert_def by (induction h) (auto split: if_splits)

lemma Client_TryRegister_inv:
  assumes "Client_TryRegister a w = Inr (w', r)" and "world_ok w" and "is_open w a"
  shows "world_ok w'"
  using assms(1)
proof (cases rule: Client_TryRegister_cases)
  case no
  with assms(2) show ?thesis by simp
next
  case (yes c)
  let ?f = "\<lambda>c. c\<lparr>registered := True\<rparr>"
  have v: "view w a = Some (core c)" by (rule view_SomeI [OF yes(1)])
  have id: "g_insert (clientId c) a (clients (server w)) = clients (server w)"
    using inv_client(4) [OF assms(2) v] by (simp add: g_insert_same)
  have view': "view w' = (view w)(a := map_option ?f (view w a))"
    unfolding yes(6) by (subst view_upd_client) simp_all
  have ok: "client_ok (?f (core c))"
    using inv_client(1) [OF assms(2) v] yes(3,4) by (simp add: client_ok_def)
  have same: "view w' b = (if b = a then Some (?f (core c)) else view w b)" for b
    using v by (simp add: view')
  have s: "same_server_ids w w'" by (simp add: same_server_ids_def yes(6) id)
  have sc: "same_clients w w'"
    using assms(2) ok v unfolding same_clients_def same by (auto simp: world_ok_def clients_inv_def)
  have other: "nicks (server w') = nicks (server w)" "clients (server w') = clients (server w)"
    "nOperators (server w') = nOperators (server w)" "nChannels (server w') = nChannels (server w)"
    "nServices (server w') = nServices (server w)" "nServers (server w') = nServers (server w)"
    "nUsers (server w') = nUsers (server w) + 1" "nUnknown (server w') = nUnknown (server w) - 1"
    by (simp_all add: yes(6) id)
  have nick: "receivedNick d = receivedNick b \<and> nickname d = nickname b"
    if "view w x = Some b" "view w' x = Some d" for x b d
    using that v by (cases "x = a") (auto simp: same)
  have "nick_owner w' = nick_owner w"
    by (rule nick_owner_same [OF other(2) sc]) (rule nick)
  then have 2: "nicks_inv w'" using assms(2) by (simp add: world_ok_def nicks_inv_def other)
  have op: "is_open w' b = is_open w b" for b by (rule is_open_same [OF s])
  have "open_clients w' True = insert a (open_clients w True)"
    using assms(3) by (auto simp: open_clients_def op same)
  moreover have "a \<notin> open_clients w True" using v yes(2) by (simp add: open_clients_def)
  ultimately have u: "card (open_clients w' True) = Suc (card (open_clients w True))" by simp
  have "open_clients w False = insert a (open_clients w' False)"
    using assms(3) v yes(2) by (auto simp: open_clients_def op same split: if_splits)
  moreover have "a \<notin> open_clients w' False" by (simp add: open_clients_def same)
  ultimately have k: "card (open_clients w False) = Suc (card (open_clients w' False))" by simp
  have "leaked w' = leaked w" by (rule leaked_same [OF s sc])
  then have 5: "counters_inv w'"
    using assms(2) u k by (simp add: world_ok_def counters_inv_def other)
  from 2 5 show ?thesis
    using assms(2) clients_inv_same [OF _ s sc] channels_inv_same [OF _ s sc]
      interest_inv_same [OF _ s sc] hostname_inv_same [OF _ s] by (simp add: world_ok_def)
qed

lemma Client_TryRegister_frame:
  assumes "Client_TryRegister a w = Inr (w', r)"
  shows "handler_frame a w w'" and "complete_but (insert a X) w \<Longrightarrow> a \<notin> X \<Longrightarrow> complete_but X w'"
proof -
  show "handler_frame a w w'" using assms
  proof (cases rule: Client_TryRegister_cases)
    case (yes c)
    then show ?thesis
      by (auto intro!: handler_frame_trans [OF handler_frame_other(2) handler_frame_upd_client])
  qed simp
  assume X: "complete_but (insert a X) w" "a \<notin> X"
  from assms show "complete_but X w'"
  proof (cases rule: Client_TryRegister_cases)
    case (yes c)
    have "view w' = (view w)(a := map_option (\<lambda>c. c\<lparr>registered := True\<rparr>) (view w a))"
      unfolding yes(6) by (subst view_upd_client) simp_all
    then show ?thesis using X by (auto simp: complete_but_def)
  next
    case (no c)
    have "view w a = Some (core c)" by (rule view_SomeI [OF no(3)])
    moreover have "registered c \<or> \<not> receivedUser c \<or> \<not> receivedNick c" by (rule no(4))
    ultimately have "\<forall>d. view w a = Some d \<longrightarrow> receivedNick d \<longrightarrow> receivedUser d \<longrightarrow> registered d"
      by auto
    with X show ?thesis unfolding no(1) complete_but_def by (metis insert_iff)
  qed
qed

subsection \<open>Channels\<close>

lemma inv_channels_change:
  assumes "world_ok w" and "view w' = view w" and "interest w' = interest w" and "next_addr w \<le> next_addr w'"
    and "server w' = (server w)\<lparr>channels := cs\<rparr>" and "channels_inv w'"
  shows "world_ok w'"
proof -
  have "nick_owner w' = nick_owner w"
    by (rule ext) (simp add: nick_owner_def assms(2,5) split: option.split)
  then have "nicks_inv w'" using assms(1) by (simp add: world_ok_def nicks_inv_def assms(5))
  moreover have "clients_inv w'"
    using assms(1,4) unfolding world_ok_def clients_inv_def assms(2,5) by fastforce
  moreover have "interest_inv w'" "counters_inv w'" "hostname_inv w'"
    using assms(1) by (simp_all add: world_ok_def interest_inv_def entry_ok_def counters_inv_def open_clients_def
        is_open_def leaked_def hostname_inv_def assms(2,3,5))
  ultimately show ?thesis using assms(6) by (simp add: world_ok_def)
qed

lemma inv_channel:
  assumes "world_ok w" and "channel_mem w ch = Some k"
  shows "channel_ok k" "ch < next_addr w"
    "g_lookup (members k) i = Some a \<Longrightarrow> \<exists>c. view w a = Some c \<and> clientId c = i"
  using assms by (auto simp: world_ok_def channels_inv_def)

lemma inv_upd_channel:
  assumes "world_ok w" and "channel_mem w ch = Some k" and "channel_ok (g k)"
    and "\<And>i a. g_lookup (members (g k)) i = Some a \<Longrightarrow> \<exists>c. view w a = Some c \<and> clientId c = i"
  shows "world_ok (upd_channel ch g w)"
proof (rule inv_channels_change [OF assms(1), where cs = "channels (server w)"])
  show "channels_inv (upd_channel ch g w)"
    using assms by (auto simp: world_ok_def channels_inv_def)
qed simp_all

lemma inv_channel_table:
  assumes "world_ok w" and "g_wf cs"
  shows "world_ok (upd_server (\<lambda>s. s\<lparr>channels := cs\<rparr>) w)"
proof (rule inv_channels_change [OF assms(1), where cs = cs])
  show "channels_inv (upd_server (\<lambda>s. s\<lparr>channels := cs\<rparr>) w)"
    using assms by (auto simp: world_ok_def channels_inv_def)
qed simp_all

lemma inv_free_channel:
  assumes "world_ok w"
  shows "world_ok (w\<lparr>channel_mem := (channel_mem w)(ch := None)\<rparr>)"
proof (rule inv_channels_change [OF assms, where cs = "channels (server w)"])
  show "channels_inv (w\<lparr>channel_mem := (channel_mem w)(ch := None)\<rparr>)"
    using assms by (auto simp: world_ok_def channels_inv_def)
qed simp_all

lemma channel_ok_members: "channel_ok k \<Longrightarrow> g_wf m \<Longrightarrow> channel_ok (k\<lparr>members := m\<rparr>)"
  by (simp add: channel_ok_def)

lemma server_generic_update:
  "upd_server (\<lambda>s. s\<lparr>channels := f (channels s)\<rparr>) w =
     upd_server (\<lambda>s. s\<lparr>channels := f (channels (server w))\<rparr>) w"
  by (simp add: upd_server_def)

lemma channel_new_inv:
  assumes "channel_new name a w = Inr (w', ch)" and "world_ok w"
  shows "world_ok w'" and "handler_frame b w w'" and "complete_but X w' = complete_but X w"
    and "server w' = server w" and "view w' = view w"
proof -
  from assms(1) obtain nm c where nm: "strncpy (replicate (CHANNEL_NAME_MAX + 1) NUL) name CHANNEL_NAME_MAX = Inr nm"
    and c: "client_mem w a = Some c" and ch: "ch = next_addr w"
    and w': "w' = w\<lparr>channel_mem := (channel_mem w)(ch \<mapsto>
          \<lparr>chan_name = nm, chan_topic = replicate (CHANNEL_TOPIC_MAX + 1) NUL,
           members = g_insert (clientId c) a g_empty, member_modes = g_empty,
           chan_private = False, secret = False, invite_only = False,
           no_outside_messages = False, moderated = False\<rparr>), next_addr := ch + 1\<rparr>"
    by (auto simp: channel_new_def get_client_eq Let_def elim!: rbind_InrE)
  have nm_ok: "array_ok (CHANNEL_NAME_MAX + 1) nm"
    using nm by (auto simp: strncpy_def array_ok_def pad_def split: if_splits)
  have "view w a = Some (core c)" by (rule view_SomeI [OF c])
  then have "channels_inv w'"
    using assms(2) nm_ok array_ok_replicate [of "CHANNEL_TOPIC_MAX + 1"]
    by (auto simp: world_ok_def channels_inv_def w' ch channel_ok_def split: if_splits
        intro: less_SucI)
  then show "world_ok w'"
    by (intro inv_channels_change [OF assms(2), where cs = "channels (server w)"]) (simp_all add: w' ch)
  show "handler_frame b w w'" "complete_but X w' = complete_but X w" "server w' = server w" "view w' = view w"
    by (simp_all add: w')
qed

lemma server_create_channel_inv:
  assumes "server_create_channel name a w = Inr (w', ch)" and "world_ok w"
  shows "world_ok w'" and "handler_frame b w w'" and "complete_but X w' = complete_but X w"
proof -
  from assms(1) obtain v where v: "channel_new (lowercase name) a w = Inr (v, ch)"
    and w': "w' = upd_server (\<lambda>s. s\<lparr>channels := g_insert (lowercase name) ch (channels s)\<rparr>) v"
    by (auto simp: server_create_channel_def elim!: rbind_InrE)
  note n = channel_new_inv [OF v assms(2)]
  have "g_wf (channels (server v))" using n(1) by (simp add: world_ok_def channels_inv_def)
  then show "world_ok w'"
    unfolding w' server_generic_update [of "g_insert (lowercase name) ch"]
    by (intro inv_channel_table [OF n(1)]) simp
  show "handler_frame b w w'" unfolding w' by (rule handler_frame_trans [OF n(2) handler_frame_other(2)])
  show "complete_but X w' = complete_but X w" using n(3) by (simp add: w')
qed

lemma server_remove_channel_inv:
  assumes "server_remove_channel ch w = Inr w'" and "world_ok w"
  shows "world_ok w'" and "handler_frame b w w'" and "complete_but X w' = complete_but X w"
proof -
  from assms(1) obtain name v where v: "v = upd_server (\<lambda>s. s\<lparr>channels := g_remove name (channels s)\<rparr>) w"
    and w': "w' = v\<lparr>channel_mem := (channel_mem v)(ch := None)\<rparr>"
    by (auto simp: server_remove_channel_def Let_def elim!: rbind_InrE)
  have "g_wf (channels (server w))" using assms(2) by (simp add: world_ok_def channels_inv_def)
  then have "world_ok v"
    unfolding v server_generic_update [of "g_remove name"]
    by (intro inv_channel_table [OF assms(2)]) simp
  then show "world_ok w'" unfolding w' by (rule inv_free_channel)
  show "handler_frame b w w'"
    unfolding w' v by (rule handler_frame_trans [OF handler_frame_other(2) handler_frame_other(3)])
  show "complete_but X w' = complete_but X w" by (simp add: w' v)
qed

lemma channel_remove_member_inv:
  assumes "channel_remove_member ch a w = Inr w'" and "world_ok w"
  shows "world_ok w'" and "handler_frame b w w'" and "complete_but X w' = complete_but X w"
proof -
  from assms(1) obtain k c where k: "channel_mem w ch = Some k" and c: "client_mem w a = Some c"
    by (auto simp: channel_remove_member_def get_channel_eq get_client_eq elim!: rbind_InrE)
  with assms(1) have w': "w' = upd_channel ch (\<lambda>k. k\<lparr>members := g_remove (clientId c) (members k),
                      member_modes := g_remove (clientId c) (member_modes k)\<rparr>) w"
    by (simp add: channel_remove_member_def get_channel_def get_client_def)
  show "world_ok w'" unfolding w'
    using inv_channel [OF assms(2) k]
    by (intro inv_upd_channel [OF assms(2) k]) (auto simp: channel_ok_def split: if_splits)
  show "handler_frame b w w'" "complete_but X w' = complete_but X w" by (simp_all add: w')
qed

lemma channel_join_inv:
  assumes "channel_join e ch a w = Inr (w', r)" and "world_ok w"
  shows "world_ok w'" and "handler_frame b w w'" and "complete_but X w' = complete_but X w"
proof -
  from assms(1) obtain k c where k: "channel_mem w ch = Some k" and c: "client_mem w a = Some c"
    by (auto simp: channel_join_def get_channel_eq get_client_eq elim!: rbind_InrE)
  let ?v = "upd_channel ch (\<lambda>k. k\<lparr>members := g_insert (clientId c) a (members k)\<rparr>) w"
  have va: "view w a = Some (core c)" by (rule view_SomeI [OF c])
  have v: "world_ok ?v"
    using inv_channel [OF assms(2) k] va
    by (intro inv_upd_channel [OF assms(2) k]) (auto simp: channel_ok_def split: if_splits)
  consider "w' = w" | "channel_sendall_join e ch a ?v = Inr w'"
    using assms(1) k c
    by (auto simp: channel_join_def get_channel_def get_client_def run_simps split: if_splits)
  then have "world_ok w' \<and> handler_frame b w w' \<and> complete_but X w' = complete_but X w"
  proof cases
    case 2
    then have q: "calm b ?v w'" by (rule channel_sendall_calm)
    have "handler_frame b w w'"
      by (rule handler_frame_trans [OF handler_frame_other(1) handler_frame_calm [OF q]])
    with v inv_quiet [OF calm_quiet [OF q]] complete_quiet [OF calm_quiet [OF q], of X]
    show ?thesis by simp
  qed (use assms(2) in auto)
  then show "world_ok w'" "handler_frame b w w'" "complete_but X w' = complete_but X w" by blast+
qed

lemma channel_set_topic_inv:
  assumes "channel_set_topic ch topic w = Inr w'" and "world_ok w"
  shows "world_ok w'" and "handler_frame b w w'" and "complete_but X w' = complete_but X w"
proof -
  from assms(1) obtain k t where k: "channel_mem w ch = Some k"
    and t: "strncpy (chan_topic k) topic CHANNEL_TOPIC_MAX = Inr t"
    and w': "w' = upd_channel ch (\<lambda>k. k\<lparr>chan_topic := t[CHANNEL_TOPIC_MAX := NUL]\<rparr>) w"
    by (auto simp: channel_set_topic_def get_channel_eq elim!: rbind_InrE split: if_splits)
  have "length t = CHANNEL_TOPIC_MAX + 1"
    using strncpy_length [OF t] inv_channel(1) [OF assms(2) k] by (simp add: channel_ok_def array_ok_def)
  then have "array_ok (CHANNEL_TOPIC_MAX + 1) (t[CHANNEL_TOPIC_MAX := NUL])"
    by (simp add: array_ok_def set_update_memI)
  then show "world_ok w'" unfolding w'
    using inv_channel [OF assms(2) k]
    by (intro inv_upd_channel [OF assms(2) k]) (auto simp: channel_ok_def)
  show "handler_frame b w w'" "complete_but X w' = complete_but X w" by (simp_all add: w')
qed

subsection \<open>Away\<close>

lemma client_set_away_inv:
  assumes "client_set_away a msg w = Inr w'" and "world_ok w" and "length msg < IRC_MSG_SIZE"
  shows "world_ok w'" and "handler_frame a w w'" and "complete_but X w \<Longrightarrow> complete_but X w'"
proof -
  from assms(1) obtain c am where c: "client_mem w a = Some c"
    and am: "strncpy (away_message c) msg IRC_MSG_SIZE = Inr am"
    and w': "w' = upd_client a (\<lambda>c. c\<lparr>away := True, away_message := am\<rparr>) w"
    by (auto simp: client_set_away_def get_client_eq elim!: rbind_InrE)
  have v: "view w a = Some (core c)" by (rule view_SomeI [OF c])
  have "array_ok (IRC_MSG_SIZE + 1) am"
    using array_ok_strncpy [OF am assms(3)] inv_client(1) [OF assms(2) v] by (simp add: client_ok_def)
  with inv_client(1) [OF assms(2)] show "world_ok w'" unfolding w'
    by (intro inv_upd_client [OF assms(2)]) (auto simp: client_ok_def)
  show "handler_frame a w w'" unfolding w' by (rule handler_frame_upd_client) simp_all
  show "complete_but X w'" if "complete_but X w"
    using that view_upd_client [of "\<lambda>c. c\<lparr>away := True, away_message := am\<rparr>" a w]
    by (auto simp: complete_but_def w')
qed

lemma client_unset_away_inv:
  assumes "client_unset_away a w = Inr w'" and "world_ok w"
  shows "world_ok w'" and "handler_frame a w w'" and "complete_but X w \<Longrightarrow> complete_but X w'"
proof -
  from assms(1) have w': "w' = upd_client a (\<lambda>c. c\<lparr>away := False\<rparr>) w"
    by (auto simp: client_unset_away_def elim!: rbind_InrE)
  from inv_client(1) [OF assms(2)] show "world_ok w'" unfolding w'
    by (intro inv_upd_client [OF assms(2)]) (auto simp: client_ok_def)
  show "handler_frame a w w'" unfolding w' by (rule handler_frame_upd_client) simp_all
  show "complete_but X w'" if "complete_but X w"
    using that view_upd_client [of "\<lambda>c. c\<lparr>away := False\<rparr>" a w]
    by (auto simp: complete_but_def w')
qed

end
