(* ===== verification/HandlerFrames.thy ===== *)
theory HandlerFrames
  imports Preserve
begin

text \<open>
  Every handler of \<open>src/handlers.c\<close> keeps the invariant and touches only what a handler may touch.
  Handlers that only reply are \<open>calm\<close>; for the others the proof puts the steps of theory
  \<open>Preserve\<close> in a row.
\<close>

subsection \<open>Good steps\<close>

definition good_step :: "caddr \<Rightarrow> world \<Rightarrow> world \<Rightarrow> bool" where
  "good_step a w w' \<longleftrightarrow> (world_ok w \<longrightarrow> is_open w a \<longrightarrow>
     world_ok w' \<and> handler_frame a w w' \<and> (complete_but {} w \<longrightarrow> complete_but {} w'))"

lemma good_step_refl [simp]: "good_step a w w"
  by (simp add: good_step_def)

lemma handler_frame_open: "handler_frame a w w' \<Longrightarrow> is_open w' b = is_open w b"
  by (simp add: handler_frame_def is_open_def)

lemma good_step_trans [trans]: "good_step a u v \<Longrightarrow> good_step a v w \<Longrightarrow> good_step a u w"
  by (auto simp: good_step_def handler_frame_open intro: handler_frame_trans)

lemma good_step_calm: "calm a w w' \<Longrightarrow> good_step a w w'"
  by (auto simp: good_step_def handler_frame_calm inv_quiet complete_quiet dest: calm_quiet)

lemma good_stepI:
  assumes "world_ok w \<Longrightarrow> world_ok w'" and "world_ok w \<Longrightarrow> handler_frame a w w'"
    and "world_ok w \<Longrightarrow> complete_but {} w \<Longrightarrow> complete_but {} w'"
  shows "good_step a w w'"
  using assms by (simp add: good_step_def)

lemma good_step_rfold:
  assumes "rfold f xs w = Inr w'" and "\<And>x u v. x \<in> set xs \<Longrightarrow> f x u = Inr v \<Longrightarrow> good_step a u v"
  shows "good_step a w w'"
  using assms(1)
  by (rule rfold_invariant [where P = "good_step a w"]) (auto intro: good_step_trans dest: assms(2))

lemma rfold_calm2:
  assumes "rfold f xs (w, p) = Inr (w', p')"
    and "\<And>x u q v r. x \<in> set xs \<Longrightarrow> f x (u, q) = Inr (v, r) \<Longrightarrow> calm a u v"
  shows "calm a w w'"
proof -
  have "calm a w (fst (w', p'))"
  proof (rule rfold_invariant [OF assms(1), where P = "\<lambda>s. calm a w (fst s)"])
    fix x s t
    assume "x \<in> set xs" and "calm a w (fst s)" and "f x s = Inr t"
    then show "calm a w (fst t)"
      using assms(2) [of x "fst s" "snd s" "fst t" "snd t"] by (auto intro: calm_trans)
  qed simp
  then show ?thesis by simp
qed

lemma push_optional_calm: "calm a w (push_optional a r w)"
  by (simp add: push_optional_def push_tail_calm split: option.split)

lemma store_str_calm:
  assumes "msg_str a p w = Inr s" and "length t = length s"
  shows "calm a w (store_str a p t w)"
proof -
  from assms(1) obtain q c where q: "p = Some q" and c: "client_mem w a = Some c"
    and s: "cstr (drop q (conn_message (conn c))) = Inr s"
    by (auto simp: msg_str_def msg_ptr_def get_client_eq elim!: rbind_InrE)
  let ?buf = "conn_message (conn c)"
  have len: "length (write_at q t ?buf) = length ?buf"
    using cstr_length [OF s] assms(2) by (simp add: write_at_def)
  have core: "core (set_message (write_at q t ?buf) c) = core c"
    using len by (simp add: core_def set_message_def)
  have "store_str a p t w = upd_client a (set_message (write_at q t ?buf)) w"
    using c by (simp add: store_str_def q upd_client_def)
  moreover have "quiet w (upd_client a (set_message (write_at q t ?buf)) w)"
    using c core by (auto simp: quiet_def view_def fun_eq_iff)
  ultimately show ?thesis by (simp add: calm_def idle_upd_other)
qed

subsection \<open>Handlers that only reply\<close>

lemma reply_calm:
  "rbind (push_reply a r w) (\<lambda>w. Inr (w, n)) = Inr (w', n') \<Longrightarrow> calm a w w'"
  by (auto elim!: rbind_InrE intro: push_reply_calm)

lemma Handler_Unknown_calm: "Handler_Unknown a m w = Inr (w', r) \<Longrightarrow> calm a w w'"
  by (auto simp: Handler_Unknown_def elim!: rbind_InrE intro: push_reply_calm)

lemma Handler_Ping_calm: "Handler_Ping a m w = Inr (w', r) \<Longrightarrow> calm a w w'"
  by (auto simp: Handler_Ping_def elim!: rbind_InrE intro: push_reply_calm)

lemma Handler_Privmsg_calm: "Handler_Privmsg e a m w = Inr (w', r) \<Longrightarrow> calm a w w'"
  by (auto simp: Handler_Privmsg_def Let_def elim!: rbind_InrE split: if_splits option.splits
      dest!: push_reply_calm channel_sendall_calm(3) [where a = a] Client_Send_calm [where a = a];
      meson calm_trans)

lemma optional_reply_calm:
  "(if b then push_reply a r w else Inr w) = Inr w' \<Longrightarrow> calm a w w'"
  by (auto split: if_splits intro: push_reply_calm)

lemma Handler_LUsers_calm: "Handler_LUsers a m w = Inr (w', r) \<Longrightarrow> calm a w w'"
  unfolding Handler_LUsers_def Let_def
  by (elim rbind_InrE) (auto dest!: optional_reply_calm push_reply_calm; meson calm_trans)

lemma Handler_WhoIs_calm: "Handler_WhoIs a m w = Inr (w', r) \<Longrightarrow> calm a w w'"
  by (auto simp: Handler_WhoIs_def Let_def elim!: rbind_InrE split: if_splits
      dest!: push_reply_calm; meson calm_trans)

lemma motd_step_calm: "motd_step a mt len n j (w, p) = Inr (w', p') \<Longrightarrow> calm a w w'"
  by (auto simp: motd_step_def Let_def elim!: rbind_InrE intro: push_reply_calm)

lemma motd_loop_calm:
  "rfold (motd_step a mt len n) js (w, p) = Inr (w', p') \<Longrightarrow> calm a w w'"
  by (erule rfold_calm2, erule motd_step_calm)

lemma Handler_Motd_calm:
  assumes "Handler_Motd a m w = Inr (w', r)"
  shows "calm a w w'"
proof (cases "motd (server w)")
  case None
  with assms show ?thesis by (auto simp: Handler_Motd_def elim!: rbind_InrE intro: push_reply_calm)
next
  case (Some mt)
  with assms obtain l n js q x u p v y where "push_reply a x w = Inr u"
    "rfold (motd_step a mt l n) js (u, q) = Inr (v, p)"
    "push_reply a y v = Inr w'"
    by (auto simp: Handler_Motd_def Let_def elim!: rbind_InrE)
  then show ?thesis by (meson push_reply_calm motd_loop_calm calm_trans)
qed

lemma list_one_calm: "list_one a ch w = Inr w' \<Longrightarrow> calm a w w'"
  by (auto simp: list_one_def elim!: rbind_InrE intro: push_reply_calm)

lemma list_named_calm: "list_named a n w = Inr w' \<Longrightarrow> calm a w w'"
  by (auto simp: list_named_def split: prod.splits option.splits intro: list_one_calm)

lemma list_loops_calm:
  "rfold (\<lambda>en. list_one a (snd en)) xs w = Inr w' \<Longrightarrow> calm a w w'"
  "rfold (list_named a) ts w = Inr w' \<Longrightarrow> calm a w w'"
  by (erule rfold_calm, erule list_one_calm) (erule rfold_calm, erule list_named_calm)

lemma handler_list_calm: "handler_list e a m w = Inr (w', r) \<Longrightarrow> calm a w w'"
  by (auto simp: handler_list_def elim!: rbind_InrE split: if_splits
      dest!: push_reply_calm list_loops_calm; meson calm_trans)

lemma names_one_calm: "names_one e a tk w = Inr w' \<Longrightarrow> calm a w w'"
  by (auto simp: names_one_def elim!: rbind_InrE split: prod.splits option.splits
      dest!: push_reply_calm intro: calm_trans)

lemma handler_names_calm: "handler_names e a m w = Inr (w', r) \<Longrightarrow> calm a w w'"
  by (auto simp: handler_names_def elim!: rbind_InrE split: if_splits
      dest!: rfold_calm [OF _ names_one_calm])

lemmas calm_handlers = Handler_Unknown_calm Handler_Ping_calm Handler_Privmsg_calm Handler_LUsers_calm
  Handler_WhoIs_calm Handler_Motd_calm handler_list_calm handler_names_calm

subsection \<open>The others\<close>

lemma msg_str_bound:
  assumes "msg_str a p w = Inr s" and "world_ok w"
  shows "length s < IRC_MSG_SIZE" and "NUL \<notin> set s"
proof -
  from assms(1) obtain q c where c: "client_mem w a = Some c"
    and s: "cstr (drop q (conn_message (conn c))) = Inr s"
    by (auto simp: msg_str_def msg_ptr_def get_client_eq elim!: rbind_InrE)
  have "client_ok (core c)" by (rule inv_client(1) [OF assms(2) view_SomeI [OF c]])
  then have "length (conn_message (conn c)) = IRC_MSG_SIZE" by (simp add: client_ok_def conn_wf_def)
  with cstr_length [OF s] show "length s < IRC_MSG_SIZE" by simp
  show "NUL \<notin> set s" using cstr_no_NUL [OF s] .
qed

lemma TryRegister_push:
  assumes "rbind (Client_TryRegister a w) (\<lambda>(w, r). Inr (push_optional a r w, 0)) = Inr (w', n)"
    and "world_ok w" and "is_open w a" and "complete_but {} u \<Longrightarrow> complete_but {a} w"
  shows "world_ok w'" and "handler_frame a w w'" and "complete_but {} u \<Longrightarrow> complete_but {} w'"
proof -
  from assms(1) obtain v r where v: "Client_TryRegister a w = Inr (v, r)" and w': "w' = push_optional a r v"
    by (auto elim!: rbind_InrE)
  have q: "calm a v w'" unfolding w' by (rule push_optional_calm)
  show "world_ok w'"
    using Client_TryRegister_inv [OF v assms(2,3)] inv_quiet [OF calm_quiet [OF q]] by simp
  show "handler_frame a w w'"
    by (rule handler_frame_trans [OF Client_TryRegister_frame(1) [OF v] handler_frame_calm [OF q]])
  show "complete_but {} w'" if "complete_but {} u"
    using Client_TryRegister_frame(2) [OF v, of "{}"] assms(4) [OF that]
      complete_quiet [OF calm_quiet [OF q], of "{}"] by simp
qed

lemma TryRegister_push_frame:
  assumes "rbind (Client_TryRegister a w) (\<lambda>(w, r). Inr (push_optional a r w, 0)) = Inr (w', n)"
  shows "handler_frame a w w'"
  using assms by (auto elim!: rbind_InrE
      intro: handler_frame_trans [OF Client_TryRegister_frame(1) handler_frame_calm [OF push_optional_calm]])

lemma Handler_Nick_good:
  assumes "Handler_Nick a m w = Inr (w', r)"
  shows "good_step a w w'"
proof -
  from assms consider
      (reply) c where "rbind (push_reply a (Reply_ErrNoNicknameGiven c) w) (\<lambda>w. Inr (w, -1)) = Inr (w', r)"
    | (nick) nick v q res where "msg_str a (nick_nick m) w = Inr nick"
        "Client_TryChangeNick a nick w = Inr (v, q, res)"
        "(if res = -1 then Inr (push_optional a q v, -1)
          else rbind (Client_TryRegister a v) (\<lambda>(w, r). Inr (push_optional a r w, 0))) = Inr (w', r)"
    unfolding Handler_Nick_def by (auto elim!: rbind_InrE split: if_splits)
  then show ?thesis
  proof cases
    case reply
    then show ?thesis by (auto intro: good_step_calm dest: reply_calm)
  next
    case nick
    note fr = Client_TryChangeNick_frame [OF nick(2)]
    show ?thesis
    proof (cases "res = -1")
      case True
      then have "v = w" using nick(2) by (auto elim: Client_TryChangeNick_cases)
      moreover have "w' = push_optional a q v" using nick(3) True by simp
      ultimately show ?thesis by (simp add: good_step_calm push_optional_calm)
    next
      case False
      then have reg: "rbind (Client_TryRegister a v) (\<lambda>(w, r). Inr (push_optional a r w, 0)) = Inr (w', r)"
        using nick(3) by simp
      have f: "handler_frame a w w'"
        by (rule handler_frame_trans [OF fr(1) TryRegister_push_frame [OF reg]])
      show ?thesis unfolding good_step_def
      proof (intro impI conjI f)
        assume i: "world_ok w" "is_open w a"
        have v: "world_ok v" using Client_TryChangeNick_inv [OF nick(2) i(1) msg_str_bound(2) [OF nick(1) i(1)]] .
        have o: "is_open v a" using i(2) handler_frame_open [OF fr(1)] by simp
        show "world_ok w'" by (rule TryRegister_push(1) [OF reg v o, of w]) (use fr(2) in blast)
        show "complete_but {} w'" if "complete_but {} w"
          by (rule TryRegister_push(3) [OF reg v o _ that]) (use fr(2) in blast)
      qed
    qed
  qed
qed

lemma Handler_User_good:
  assumes "Handler_User a m w = Inr (w', r)"
  shows "good_step a w w'"
proof -
  from assms consider
      (reply) x n where "rbind (push_reply a x w) (\<lambda>w. Inr (w, n)) = Inr (w', r)"
    | (user) c s1 s2 un fn where "client_mem w a = Some c" "\<not> registered c"
        "msg_str a (user_username m) w = Inr s1" "strncpy (username c) s1 IRC_MSG_SIZE = Inr un"
        "msg_str a (user_fullname m) w = Inr s2" "strncpy (fullname c) s2 IRC_MSG_SIZE = Inr fn"
        "rbind (Client_TryRegister a
            (upd_client a (\<lambda>c. c\<lparr>username := un, fullname := fn, receivedUser := True\<rparr>) w))
           (\<lambda>(w, r). Inr (push_optional a r w, 0)) = Inr (w', r)"
    unfolding Handler_User_def Let_def by (auto simp: get_client_eq elim!: rbind_InrE split: if_splits)
  then show ?thesis
  proof cases
    case reply
    then show ?thesis by (auto intro: good_step_calm dest: reply_calm)
  next
    case user
    let ?f = "\<lambda>c. c\<lparr>username := un, fullname := fn, receivedUser := True\<rparr>"
    let ?v = "upd_client a ?f w"
    have fr: "handler_frame a w ?v" by (rule handler_frame_upd_client) simp_all
    have co: "complete_but {} w \<Longrightarrow> complete_but {a} ?v"
      using complete_but_upd_client [of "{}" w ?f a] by simp
    have f: "handler_frame a w w'"
      by (rule handler_frame_trans [OF fr TryRegister_push_frame [OF user(7)]])
    show ?thesis unfolding good_step_def
    proof (intro impI conjI f)
      assume i: "world_ok w" "is_open w a"
      have ok: "client_ok (core c)" by (rule inv_client(1) [OF i(1) view_SomeI [OF user(1)]])
      have "array_ok IRC_MSG_SIZE un" "array_ok IRC_MSG_SIZE fn"
        using array_ok_strncpy [OF user(4)] array_ok_strncpy [OF user(6)] ok
          msg_str_bound(1) [OF user(3) i(1)] msg_str_bound(1) [OF user(5) i(1)]
        by (auto simp: client_ok_def)
      then have v: "world_ok ?v"
        using inv_client(1) [OF i(1)] by (intro inv_upd_client [OF i(1)]) (auto simp: client_ok_def)
      have o: "is_open ?v a" using i(2) handler_frame_open [OF fr] by simp
      show "world_ok w'" by (rule TryRegister_push(1) [OF user(7) v o co])
      show "complete_but {} w'" if "complete_but {} w"
        by (rule TryRegister_push(3) [OF user(7) v o co that])
    qed
  qed
qed

text \<open>\<open>JOIN\<close>, \<open>PART\<close>, \<open>TOPIC\<close>, \<open>AWAY\<close>.\<close>

lemma join_one_good: "join_one e a n w = Inr w' \<Longrightarrow> good_step a w w'"
proof -
  assume "join_one e a n w = Inr w'"
  then obtain v ch where v: "(case server_get_channel (server w) n of
              (_, Some ch) \<Rightarrow> rbind (channel_join e ch a w) (\<lambda>(w, _). Inr (w, ch))
            | (name, None) \<Rightarrow> server_create_channel name a w) = Inr (v, ch)"
    and rest: "calm a v w'"
    unfolding join_one_def
    by (auto elim!: rbind_InrE dest!: push_reply_calm optional_reply_calm; meson calm_trans)
  have "good_step a w v"
  proof (cases "snd (server_get_channel (server w) n)")
    case None
    then obtain name where "server_create_channel name a w = Inr (v, ch)"
      using v by (auto split: prod.splits)
    note c = server_create_channel_inv [OF this]
    show ?thesis by (rule good_stepI) (simp_all add: c)
  next
    case (Some c)
    then obtain x where "channel_join e c a w = Inr (v, x)"
      using v by (auto split: prod.splits elim!: rbind_InrE)
    note c = channel_join_inv [OF this]
    show ?thesis by (rule good_stepI) (simp_all add: c)
  qed
  also have "good_step a v w'" using rest by (rule good_step_calm)
  finally show ?thesis .
qed

lemma handler_join_good:
  assumes "handler_join e a m w = Inr (w', r)"
  shows "good_step a w w'"
proof -
  from assms consider x where "calm a w w'" | ts where "rfold (join_one e a) ts w = Inr w'"
    unfolding handler_join_def by (auto elim!: rbind_InrE split: if_splits dest!: push_reply_calm)
  then show ?thesis
    by cases (auto intro: good_step_calm good_step_rfold join_one_good)
qed

lemma handler_part_good:
  assumes "handler_part e a m w = Inr (w', r)"
  shows "good_step a w w'"
proof -
  let ?g = "\<lambda>given. store_str a (part_channels m) (lowercase given) w"
  from assms obtain given where given: "msg_str a (part_channels m) w = Inr given"
    unfolding handler_part_def by (auto elim!: rbind_InrE)
  have g: "good_step a w (?g given)"
    by (rule good_step_calm [OF store_str_calm [OF given]]) simp
  from assms given consider
      (reply) "calm a (?g given) w'"
    | (leave) ch u v k where "calm a (?g given) u" "channel_remove_member ch a u = Inr v"
        "channel_mem v ch = Some k"
        "(if channel_size k = 0 then rbind (server_remove_channel ch v) (\<lambda>w. Inr (w, 0)) else Inr (v, 0))
           = Inr (w', r)"
    unfolding handler_part_def Let_def
    by (auto simp: get_channel_eq elim!: rbind_InrE split: prod.splits option.splits if_splits
        dest!: push_reply_calm channel_sendall_calm(2) [where a = a])
  then show ?thesis
  proof cases
    case reply
    then show ?thesis by (rule good_step_trans [OF g good_step_calm])
  next
    case leave
    have uv: "good_step a u v"
      using channel_remove_member_inv [OF leave(2)] by (auto intro: good_stepI)
    have "good_step a v w'"
    proof (cases "channel_size k = 0")
      case True
      then have "server_remove_channel ch v = Inr w'" using leave(4) by (auto elim!: rbind_InrE)
      from server_remove_channel_inv [OF this] show ?thesis by (auto intro: good_stepI)
    qed (use leave(4) in auto)
    with g good_step_calm [OF leave(1)] uv show ?thesis by (blast intro: good_step_trans)
  qed
qed

lemma handler_topic_good:
  assumes "handler_topic a m w = Inr (w', r)"
  shows "good_step a w w'"
proof -
  let ?g = "\<lambda>given. store_str a (topic_channel m) (lowercase given) w"
  have g: "good_step a w (?g given)" if "msg_str a (topic_channel m) w = Inr given" for given
    by (rule good_step_calm [OF store_str_calm [OF that]]) simp
  from assms consider
      (early) "calm a w w'"
    | (reply) given where "msg_str a (topic_channel m) w = Inr given" "calm a (?g given) w'"
    | (set) given ch topic where "msg_str a (topic_channel m) w = Inr given"
        "channel_set_topic ch topic (?g given) = Inr w'"
    unfolding handler_topic_def Let_def server_get_channel_def
    by (auto elim!: rbind_InrE split: prod.splits option.splits if_splits dest!: push_reply_calm)
  then show ?thesis
  proof cases
    case early
    then show ?thesis by (rule good_step_calm)
  next
    case reply
    then show ?thesis by (blast intro: good_step_trans [OF g good_step_calm])
  next
    case set
    have "good_step a (?g given) w'"
      using channel_set_topic_inv [OF set(2)] by (auto intro: good_stepI)
    with g [OF set(1)] show ?thesis by (rule good_step_trans)
  qed
qed

lemma handler_away_good:
  assumes "handler_away a m w = Inr (w', r)"
  shows "good_step a w w'"
proof -
  from assms consider
      (set) s v where "msg_str a (away_text m) w = Inr s" "client_set_away a s w = Inr v" "calm a v w'"
    | (unset) v where "client_unset_away a w = Inr v" "calm a v w'"
    unfolding handler_away_def
    by (auto elim!: rbind_InrE split: if_splits dest!: push_reply_calm)
  then show ?thesis
  proof cases
    case set
    have "good_step a w v"
      using client_set_away_inv [OF set(2)] msg_str_bound(1) [OF set(1)] by (auto intro: good_stepI)
    then show ?thesis using good_step_calm [OF set(3)] by (rule good_step_trans)
  next
    case unset
    have "good_step a w v"
      using client_unset_away_inv [OF unset(1)] by (auto intro: good_stepI)
    then show ?thesis using good_step_calm [OF unset(2)] by (rule good_step_trans)
  qed
qed

subsection \<open>Dispatch\<close>

lemma Handler_HandleMessage_good:
  assumes "Handler_HandleMessage e a m w = Inr (w', r)"
  shows "good_step a w w'"
proof -
  from assms obtain h where h: "handlers2 e (msg_type m) = Some h" and run: "h a m w = Inr (w', r)"
    by (auto simp: Handler_HandleMessage_def split: if_splits option.splits)
  show ?thesis
  proof (cases "msg_type m")
    case PONG
    with h run show ?thesis by (auto simp: handlers2_def Handler_Pong_def)
  qed (use h run in \<open>auto simp: handlers2_def intro: Handler_Nick_good Handler_User_good
      handler_join_good handler_part_good handler_topic_good handler_away_good
      good_step_calm calm_handlers\<close>)
qed

end
