(* ===== verification/ChannelProps.thy ===== *)
theory ChannelProps
  imports ReplyTexts Handlers
begin

text \<open>
  Properties of channels: who receives a message, who is a member, names and topics, and what
  happens to the channel table when channels come and go.
\<close>

subsection \<open>A small world\<close>

text \<open>
  Arrays of the witnesses are only as long as the operations at hand need them; every array holds
  its terminator.
\<close>

definition mini_client :: "int \<Rightarrow> string \<Rightarrow> string \<Rightarrow> client_s" where
  "mini_client i nick line =
     \<lparr>registered = True, receivedNick = True, receivedUser = True, clientId = i,
      conn = \<lparr>conn_fd = 10 + i, discardNext = False, eagain = 0, totalRead = 0, conn_responses = [],
              conn_message = line @ [NUL], store = []\<rparr>,
      nickname = pad 10 nick, username = lit ''u'', client_hostname = lit ''h'', fullname = lit ''r'',
      away = False, away_message = lit ''''\<rparr>"

definition mini_channel :: "string \<Rightarrow> string \<Rightarrow> (int \<times> caddr) list \<Rightarrow> channel_s" where
  "mini_channel name topic ms =
     \<lparr>chan_name = pad 51 name, chan_topic = pad 256 topic, members = ms, member_modes = [],
      chan_private = False, secret = False, invite_only = False, no_outside_messages = False,
      moderated = False\<rparr>"

definition mini_server :: server_s where
  "mini_server =
     \<lparr>server_fd = 3, idCounter = 4, nicks = [(''ann'', 1), (''bob'', 2), (''cy'', 3)],
      clients = [(1, 0), (2, 1), (3, 2)], channels = [(''#c'', 7)], server_hostname = lit ''s'',
      motd = None, nUsers = 3, nServices = 0, nUnknown = 0, nOperators = 0, nChannels = 0, nServers = 0\<rparr>"

text \<open>Three clients, of which the first has sent \<open>line\<close>; \<open>ann\<close> and \<open>bob\<close> are in the channel.\<close>

definition mini_world :: "string \<Rightarrow> world" where
  "mini_world line =
     \<lparr>server = mini_server,
      client_mem = (\<lambda>_. None)(0 \<mapsto> mini_client 1 ''ann'' line, 1 \<mapsto> mini_client 2 ''bob'' [],
                              2 \<mapsto> mini_client 3 ''cy'' []),
      channel_mem = (\<lambda>_. None)(7 \<mapsto> mini_channel ''#c'' ''t'' [(1, 0), (2, 1)]),
      next_addr = 8, interest = [], wire = []\<rparr>"

definition plain_env :: env where
  "plain_env = \<lparr>iter_members = (\<lambda>h. h), iter_channels = (\<lambda>h. h)\<rparr>"

lemma plain_env_ok: "env_ok plain_env"
  by (simp add: plain_env_def env_ok_def iteration_ok_def)

subsection \<open>Broadcast\<close>

text \<open>
  C9: a channel message goes to every member but the source, once each, whatever the order in which
  GLib iterates.  If the queues of those members are empty (they are in every reachable state), the
  call writes the bytes of the message once to each of their descriptors and changes nothing else.
\<close>

theorem channel_broadcast_exactly_once:
  assumes "env_ok e" and "channel_mem w ch = Some channel" and "resp_bytes r = Inr bs"
    and "\<forall>(i, a)\<in>set (members channel). i \<noteq> source \<longrightarrow> ready w a"
  shows "\<exists>order. channel_send_message e ch r source w =
             Inr (w\<lparr>wire := wire w @ map (\<lambda>a. (fd_of w a, bs)) order\<rparr>) \<and>
           mset order = image_mset snd (filter_mset (\<lambda>(i, a). i \<noteq> source) (mset (members channel)))"
proof -
  have "\<forall>a\<in>set (recipients e channel source). ready w a"
    using assms(4) by (auto simp: recipients_set [OF assms(1)])
  from channel_send_message_delivers [OF assms(2,3) this] show ?thesis
    using recipients_mset [OF assms(1)] by (auto simp: case_prod_unfold)
qed

theorem channel_broadcast_exactly_once_witness:
  "\<exists>order. channel_send_message plain_env 7 (text_response ''x'') 1 (mini_world []) =
       Inr ((mini_world [])\<lparr>wire := wire (mini_world []) @ map (\<lambda>a. (fd_of (mini_world []) a, ''x'')) order\<rparr>) \<and>
     mset order = image_mset snd (filter_mset (\<lambda>(i, a). i \<noteq> 1)
       (mset (members (mini_channel ''#c'' ''t'' [(1, 0), (2, 1)]))))"
proof -
  have k: "channel_mem (mini_world []) 7 = Some (mini_channel ''#c'' ''t'' [(1, 0), (2, 1)])"
    by (simp add: mini_world_def)
  have b: "resp_bytes (text_response ''x'') = Inr ''x''" by (rule resp_bytes_text) simp
  have r: "\<forall>(i, a)\<in>set (members (mini_channel ''#c'' ''t'' [(1, 0), (2, 1)])). i \<noteq> 1 \<longrightarrow> ready (mini_world []) a"
    by (simp add: mini_channel_def ready_def idle_def mini_world_def mini_client_def)
  show ?thesis by (rule channel_broadcast_exactly_once [OF plain_env_ok k b r])
qed

subsection \<open>Names\<close>

text \<open>
  \<open>channel_verify_name\<close> accepts exactly the names of at most 50 characters that start with one
  of the four prefixes and hold no BEL, CR, LF or comma; every other name, the empty one included,
  gets \<open>-1\<close>.
\<close>

theorem channel_verify_name_spec:
  "channel_verify_name name =
     (if length name \<le> 50 \<and> (\<exists>c rest. name = c # rest \<and> c \<in> set ''&#+!'') \<and>
         set name \<inter> {CHR 0x07, CR, LF, CHR '',''} = {} then 0 else -1)"
  using strcspn_eq_length [of name INVALID_CHARSET]
  by (cases name) (auto simp: channel_verify_name_def INVALID_CHARSET_def)

subsection \<open>Membership\<close>

lemma channel_sendall_join_keeps:
  "channel_sendall_join e ch a w = Inr w' \<Longrightarrow> channel_mem w' = channel_mem w \<and> server w' = server w"
  using calm_quiet [OF channel_sendall_calm(1) [of e ch a w w' a]] by (simp add: quiet_def)

text \<open>
  Joining makes a member, and is idempotent.  After \<open>channel_join\<close> the client's id is in the
  member table with the client's address, every other entry is as before, and a client that was a
  member already causes no change and no message.
\<close>

theorem channel_join_adds_member:
  assumes "channel_join e ch a w = Inr (w', r)" and "channel_mem w ch = Some k" and "client_mem w a = Some c"
  shows "r = 0 \<and>
     (\<exists>k'. channel_mem w' ch = Some k' \<and>
        g_lookup (members k') = (if channel_is_member k c then g_lookup (members k)
                                 else (g_lookup (members k))(clientId c \<mapsto> a))) \<and>
     (channel_is_member k c \<longrightarrow> w' = w)"
proof (cases "channel_is_member k c")
  case True
  then show ?thesis using assms
    by (auto simp: channel_join_def channel_is_member_def get_channel_def get_client_def)
next
  case False
  let ?v = "upd_channel ch (\<lambda>k. k\<lparr>members := g_insert (clientId c) a (members k)\<rparr>) w"
  have "channel_sendall_join e ch a ?v = Inr w'" and r: "r = 0"
    using False assms
    by (auto simp: channel_join_def channel_is_member_def get_channel_def get_client_def elim!: rbind_InrE)
  then have "channel_mem w' = channel_mem ?v" using channel_sendall_join_keeps by blast
  then show ?thesis using False r assms(2) by simp
qed

theorem channel_join_adds_member_witness:
  "\<exists>w'. channel_join plain_env 7 1 (mini_world []) = Inr (w', 0) \<and> w' = mini_world []"
proof -
  have j: "channel_join plain_env 7 1 (mini_world []) = Inr (mini_world [], 0)"
    by (simp add: channel_join_def get_channel_def get_client_def mini_world_def mini_channel_def
        mini_client_def g_lookup_def)
  have k: "channel_mem (mini_world []) 7 = Some (mini_channel ''#c'' ''t'' [(1, 0), (2, 1)])"
    "client_mem (mini_world []) 1 = Some (mini_client 2 ''bob'' [])" by (simp_all add: mini_world_def)
  have "channel_is_member (mini_channel ''#c'' ''t'' [(1, 0), (2, 1)]) (mini_client 2 ''bob'' [])"
    by (simp add: channel_is_member_def mini_channel_def mini_client_def g_lookup_def)
  with channel_join_adds_member [OF j k] j show ?thesis by blast
qed

subsection \<open>Topics\<close>

text \<open>
  Setting a topic.  On a channel whose topic array has its declared size, \<open>channel_set_topic\<close>
  never overruns the array, leaves every other channel alone, and the topic read back is the given
  text cut at 255 characters.
\<close>

theorem channel_topic_roundtrip:
  assumes "channel_mem w ch = Some k" and "length (chan_topic k) = CHANNEL_TOPIC_MAX + 1"
    and "NUL \<notin> set topic"
  shows "\<exists>w' k'. channel_set_topic ch topic w = Inr w' \<and> channel_mem w' = (channel_mem w)(ch \<mapsto> k') \<and>
           cstr (chan_topic k') = Inr (take 255 topic) \<and> members k' = members k \<and> chan_name k' = chan_name k"
proof -
  let ?t = "pad 255 (take 255 topic) @ drop 255 (chan_topic k)"
  let ?k = "k\<lparr>chan_topic := ?t[255 := NUL]\<rparr>"
  have len: "length (pad 255 (take 255 topic)) = 255" by (rule length_pad) simp
  have d: "drop 255 (chan_topic k) = [chan_topic k ! 255]"
    using assms(2) by (simp add: Cons_nth_drop_Suc [symmetric])
  have t: "?t[255 := NUL] = take 255 topic @ NUL # replicate (255 - length (take 255 topic)) NUL"
    using len unfolding d by (simp add: list_update_append pad_def replicate_append_same [symmetric])
  have nn: "NUL \<notin> set (take 255 topic)" using assms(3) by (auto dest: in_set_takeD)
  have "cstr (?t[255 := NUL]) = Inr (take 255 topic)" unfolding t by (rule cstr_terminated [OF nn])
  moreover have "channel_set_topic ch topic w = Inr (upd_channel ch (\<lambda>k. k\<lparr>chan_topic := ?t[255 := NUL]\<rparr>) w)"
    using assms(1,2) len by (simp add: channel_set_topic_def get_channel_def strncpy_def)
  moreover have "channel_mem (upd_channel ch (\<lambda>k. k\<lparr>chan_topic := ?t[255 := NUL]\<rparr>) w) = (channel_mem w)(ch \<mapsto> ?k)"
    using assms(1) by (simp add: fun_eq_iff)
  ultimately show ?thesis by fastforce
qed

theorem channel_topic_roundtrip_witness:
  "\<exists>w' k'. channel_set_topic 7 ''new'' (mini_world []) = Inr w' \<and>
     channel_mem w' = (channel_mem (mini_world []))(7 \<mapsto> k') \<and> cstr (chan_topic k') = Inr ''new''"
  using channel_topic_roundtrip [of "mini_world []" 7 "mini_channel ''#c'' ''t'' [(1, 0), (2, 1)]" "''new''"]
  by (fastforce simp: mini_world_def mini_channel_def length_pad)

subsection \<open>The channel table\<close>

lemma create_remove:
  assumes "server_create_channel name a w = Inr (w1, ch)" and "server_remove_channel ch w1 = Inr w2"
    and "NUL \<notin> set name"
  shows "channel_mem w2 ch = None \<and>
     g_lookup (channels (server w2)) =
       ((g_lookup (channels (server w)))(lowercase name \<mapsto> ch))(take 50 (lowercase name) := None)"
proof -
  let ?n = "lowercase name"
  from assms(1) obtain nm c where nm: "strncpy (replicate (CHANNEL_NAME_MAX + 1) NUL) ?n CHANNEL_NAME_MAX = Inr nm"
    and chans: "channels (server w1) = g_insert ?n ch (channels (server w))"
    and k: "\<exists>k. channel_mem w1 ch = Some k \<and> chan_name k = nm"
    by (auto simp: server_create_channel_def channel_new_def Let_def elim!: rbind_InrE)
  have "nm = pad 50 (take 50 ?n) @ [NUL]" using nm by (auto simp: strncpy_def split: if_splits)
  then have nm': "nm = take 50 ?n @ replicate (50 - length (take 50 ?n)) NUL @ [NUL]" by (simp add: pad_def)
  have "NUL \<notin> set (take 50 ?n)" using assms(3) lowercase_no_NUL by (auto dest: in_set_takeD)
  moreover have "nm = take 50 ?n @ NUL # replicate (50 - length (take 50 ?n)) NUL"
    unfolding nm' by (simp add: replicate_append_same [symmetric])
  ultimately have "cstr nm = Inr (take 50 ?n)" by simp
  with assms(2) k show ?thesis
    by (auto simp: server_remove_channel_def get_channel_def chans Let_def elim!: rbind_InrE)
qed

text \<open>
  Creating and removing a channel.  For a name of at most 50 characters, removing the channel
  that was just created takes its key out of the table again and frees the object: nothing in the
  table points to freed memory because of it.
\<close>

theorem channel_create_remove_exact:
  assumes "server_create_channel name a w = Inr (w1, ch)" and "server_remove_channel ch w1 = Inr w2"
    and "NUL \<notin> set name" and "length name \<le> CHANNEL_NAME_MAX"
  shows "channel_mem w2 ch = None \<and>
     g_lookup (channels (server w2)) = (g_lookup (channels (server w)))(lowercase name := None)"
  using create_remove [OF assms(1-3)] assms(4) by simp

lemma mini_create_remove:
  assumes "NUL \<notin> set name"
  shows "\<exists>w1 ch w2. server_create_channel name 0 (mini_world []) = Inr (w1, ch) \<and> server_remove_channel ch w1 = Inr w2"
proof -
  let ?n = "lowercase name"
  have s: "strncpy (replicate (CHANNEL_NAME_MAX + 1) NUL) ?n CHANNEL_NAME_MAX =
      Inr (pad 50 (take 50 ?n) @ [NUL])"
    by (simp add: strncpy_def)
  then obtain w1 ch k where w1: "server_create_channel name 0 (mini_world []) = Inr (w1, ch)"
    and k: "channel_mem w1 ch = Some k" "chan_name k = pad 50 (take 50 ?n) @ [NUL]"
    by (auto simp: server_create_channel_def channel_new_def Let_def get_client_def mini_world_def)
  have "cstr (chan_name k) \<noteq> Inl OutOfBounds" by (simp add: k(2) cstr_def)
  then obtain s where "cstr (chan_name k) = Inr s" by (auto simp: cstr_def split: if_splits)
  with k w1 show ?thesis by (auto simp: server_remove_channel_def get_channel_def Let_def)
qed

theorem channel_create_remove_exact_witness:
  "\<exists>w1 ch w2. server_create_channel ''#New'' 0 (mini_world []) = Inr (w1, ch) \<and>
     server_remove_channel ch w1 = Inr w2 \<and> channel_mem w2 ch = None \<and>
     g_lookup (channels (server w2)) = (g_lookup (channels (server (mini_world []))))(''#new'' := None)"
proof -
  obtain w1 ch w2 where w: "server_create_channel ''#New'' 0 (mini_world []) = Inr (w1, ch)"
    "server_remove_channel ch w1 = Inr w2" using mini_create_remove [of "''#New''"] by auto
  have "lowercase ''#New'' = ''#new''" by code_simp
  with channel_create_remove_exact [OF w] w show ?thesis by auto
qed

text \<open>
  C26: a longer name leaves a dangling entry.  The table is keyed by the whole name, the channel
  keeps its first 50 characters, and removal looks up the latter: after the last member has left,
  the key still maps to the freed channel, so the next lookup of that name follows a dangling
  pointer.
\<close>

theorem long_channel_name_dangles:
  assumes "server_create_channel name a w = Inr (w1, ch)" and "server_remove_channel ch w1 = Inr w2"
    and "NUL \<notin> set name" and "length name > CHANNEL_NAME_MAX"
  shows "g_lookup (channels (server w2)) (lowercase name) = Some ch \<and> get_channel w2 ch = Inl UseAfterFree"
proof -
  have "length (take 50 (lowercase name)) \<noteq> length (lowercase name)" using assms(4) by simp
  then have "lowercase name \<noteq> take 50 (lowercase name)" by metis
  then show ?thesis using create_remove [OF assms(1-3)] by (simp add: get_channel_def)
qed

theorem long_channel_name_dangles_witness:
  "\<exists>w1 ch w2. server_create_channel (CHR ''#'' # replicate 50 (CHR ''x'')) 0 (mini_world []) = Inr (w1, ch) \<and>
     server_remove_channel ch w1 = Inr w2 \<and>
     g_lookup (channels (server w2)) (lowercase (CHR ''#'' # replicate 50 (CHR ''x''))) = Some ch \<and>
     get_channel w2 ch = Inl UseAfterFree"
proof -
  let ?n = "CHR ''#'' # replicate 50 (CHR ''x'')"
  obtain w1 ch w2 where w: "server_create_channel ?n 0 (mini_world []) = Inr (w1, ch)"
    "server_remove_channel ch w1 = Inr w2" using mini_create_remove [of ?n] by auto
  with long_channel_name_dangles [OF w] show ?thesis by auto
qed

end
