(* ===== verification/HandlerProps.thy ===== *)
theory HandlerProps
  imports ChannelProps
begin

text \<open>
  What \<open>Handler_Privmsg\<close> does: delivery to a nickname and to a channel.
\<close>

subsection \<open>Queues\<close>

definition queue :: "world \<Rightarrow> caddr \<Rightarrow> response_s list" where
  "queue w a = (case client_mem w a of None \<Rightarrow> [] | Some c \<Rightarrow> conn_responses (conn c))"

lemma queue_push [simp]:
  "client_mem w a \<noteq> None \<Longrightarrow> queue (push_tail a r w) b = (if b = a then queue w a @ [r] else queue w b)"
  by (auto simp: queue_def)

lemma queue_other [simp]:
  "queue (upd_server h w) = queue w" "queue (upd_channel ch g w) = queue w" "queue (w\<lparr>wire := x\<rparr>) = queue w"
  by (simp_all add: queue_def fun_eq_iff)

lemma push_reply_fits:
  "r = fits s \<Longrightarrow> length s \<le> IRC_MSG_SIZE \<Longrightarrow> push_reply a r w = Inr (push_tail a (text_response s) w)"
  by (simp add: push_reply_def fits_def)

lemma push_reply_clipped:
  "r = clipped s \<Longrightarrow> length s \<le> IRC_MSG_SIZE \<Longrightarrow> push_reply a r w = Inr (push_tail a (text_response s) w)"
  by (simp add: push_reply_def clipped_short)

subsection \<open>PRIVMSG\<close>

text \<open>The text of a PRIVMSG as the target receives it.\<close>

definition privmsg_text :: "string \<Rightarrow> string \<Rightarrow> string \<Rightarrow> string \<Rightarrow> string \<Rightarrow> string" where
  "privmsg_text n u h t m = n @ ''!'' @ u @ ''@'' @ h @ '' PRIVMSG '' @ t @ '' :'' @ m @ CRLF"

definition away_text_of :: "string \<Rightarrow> string \<Rightarrow> string \<Rightarrow> string \<Rightarrow> string" where
  "away_text_of sh n t m = '':'' @ sh @ '' 301 '' @ n @ '' '' @ t @ '' :'' @ m @ CRLF"

definition named :: "client_s \<Rightarrow> string \<Rightarrow> string \<Rightarrow> string \<Rightarrow> bool" where
  "named c n u h \<longleftrightarrow> cstr (nickname c) = Inr n \<and> cstr (username c) = Inr u \<and> cstr (client_hostname c) = Inr h"

text \<open>
  C14: a private message is delivered once, to the client the nickname table names.  If the target's
  queue is empty and the texts fit, the handler writes exactly the formatted text to the target's
  descriptor; the sender gets a reply, the target's away message, if and only if the target is
  away.
\<close>

theorem privmsg_delivers_to_user:
  assumes "client_mem w a = Some c" and "named c n u h"
    and "parse_err m = 0" and "msg_str a (privmsg_msgtarget m) w = Inr target"
    and "take 1 target \<notin> {''#'', ''+'', ''!'', ''&''}"
    and "msg_str a (privmsg_contents m) w = Inr contents"
    and "g_lookup (nicks (server w)) target = Some i" and "i \<noteq> 0"
    and "g_lookup (clients (server w)) i = Some t" and "client_mem w t = Some tc" and "queue w t = []"
    and "cstr (nickname tc) = Inr tn" and "cstr (away_message tc) = Inr am"
    and "cstr (server_hostname (server w)) = Inr sh"
    and "length (privmsg_text n u h target contents) \<le> IRC_MSG_SIZE"
    and "length (away_text_of sh n tn am) \<le> IRC_MSG_SIZE"
  shows "\<exists>w'. Handler_Privmsg e a m w = Inr (w', 0) \<and>
     wire w' = wire w @ [(conn_fd (conn tc), privmsg_text n u h target contents)] \<and>
     queue w' a = queue w a @ (if away tc then [text_response (away_text_of sh n tn am)] else [])"
proof -
  obtain ct where ct: "msg_ptr a (privmsg_contents m) w = Inr ct" "cstr ct = Inr contents"
    using assms(6) by (auto simp: msg_str_def elim!: rbind_InrE)
  have nn: "NUL \<notin> set target"
    using assms(4) by (auto simp: msg_str_def elim!: rbind_InrE dest: cstr_no_NUL)
  let ?s = "privmsg_text n u h target contents"
  let ?v = "w\<lparr>wire := wire w @ [(conn_fd (conn tc), ?s)]\<rparr>"
  have f: "Message_Privmsg c (lit target) ct = Inr (text_response ?s)"
    using Message_Privmsg_text [of c n u h "lit target" target ct contents] assms(2,15) ct(2) nn
    by (simp add: fits_def privmsg_text_def named_def)
  have snd: "Client_Send t (text_response ?s) w = Inr ?v"
    using assms(10,11,15) by (intro Client_Send_writes) (auto simp: queue_def resp_bytes_text)
  have aw: "format_rpl_away c (server w) (nickname tc) (away_message tc) = clipped (away_text_of sh n tn am)"
    using format_rpl_away_text [of "server w" sh c n "nickname tc" tn "away_message tc" am] assms
    by (simp add: away_text_of_def named_def)
  have run: "Handler_Privmsg e a m w =
      (if away tc then Inr (push_tail a (text_response (away_text_of sh n tn am)) ?v, 0) else Inr (?v, 0))"
    using assms(1,3-5,7-10) ct(1) f snd push_reply_clipped [OF aw assms(16)]
    by (simp add: Handler_Privmsg_def get_client_def)
  show ?thesis unfolding run using assms(1) by simp
qed

definition privmsg_example :: irc_message where
  "privmsg_example = zero_message\<lparr>msg_type := PRIVMSG, slot0 := Some 0, slot1 := Some 4\<rparr>"

lemma mini_simps:
  "client_mem (mini_world l) 0 = Some (mini_client 1 ''ann'' l)"
  "client_mem (mini_world l) 1 = Some (mini_client 2 ''bob'' [])"
  "server (mini_world l) = mini_server" "wire (mini_world l) = []"
  "channel_mem (mini_world l) 7 = Some (mini_channel ''#c'' ''t'' [(1, 0), (2, 1)])"
  by (simp_all add: mini_world_def)

lemma mini_client_strings:
  "cstr (username (mini_client i nk l)) = Inr ''u''" "cstr (client_hostname (mini_client i nk l)) = Inr ''h''"
  "cstr (away_message (mini_client i nk l)) = Inr ''''" "conn_message (conn (mini_client i nk l)) = l @ [NUL]"
  "conn_responses (conn (mini_client i nk l)) = []" "away (mini_client i nk l) = False"
  "clientId (mini_client i nk l) = i" "receivedNick (mini_client i nk l)"
  "nickname (mini_client i nk l) = pad 10 nk" "conn_fd (conn (mini_client i nk l)) = 10 + i"
  by (simp_all add: mini_client_def)

lemma mini_queues: "queue (mini_world l) 0 = []" "queue (mini_world l) 1 = []"
  by (simp_all add: queue_def mini_world_def mini_client_def)

lemma mini_named: "named (mini_client i ''ann'' l) ''ann'' ''u'' ''h''"
  by (simp add: named_def mini_client_strings cstr_pad)

theorem privmsg_delivers_to_user_witness:
  "\<exists>w'. Handler_Privmsg plain_env 0 privmsg_example (mini_world (''bob'' @ [NUL] @ ''hi'')) = Inr (w', 0) \<and>
     wire w' = [(12, ''ann!u@h PRIVMSG bob :hi'' @ CRLF)] \<and> queue w' 0 = []"
proof -
  let ?w = "mini_world (''bob'' @ [NUL] @ ''hi'')"
  have t: "msg_str 0 (privmsg_msgtarget privmsg_example) ?w = Inr ''bob''"
    and c: "msg_str 0 (privmsg_contents privmsg_example) ?w = Inr ''hi''"
    by (simp_all add: msg_str_def msg_ptr_def privmsg_example_def zero_message_def get_client_def mini_simps
        mini_client_strings cstr_def)
  have s: "cstr (server_hostname (server ?w)) = Inr ''s''" by (simp add: mini_simps mini_server_def)
  have l: "g_lookup (nicks (server ?w)) ''bob'' = Some 2" "g_lookup (clients (server ?w)) 2 = Some 1"
    by (simp_all add: mini_simps mini_server_def g_lookup_def)
  have b: "cstr (nickname (mini_client 2 ''bob'' [])) = Inr ''bob''"
    by (simp add: mini_client_strings cstr_pad)
  show ?thesis
    using privmsg_delivers_to_user [OF mini_simps(1) mini_named _ t _ c l(1) _ l(2) mini_simps(2) mini_queues(2) b
        mini_client_strings(3) s, of plain_env]
    by (simp add: privmsg_text_def away_text_of_def privmsg_example_def zero_message_def mini_queues mini_simps
        mini_client_strings CRLF_def)
qed

text \<open>
  A private message to a channel reaches every member but the sender, once each.  If the target
  is in the channel table (the name is looked up as written) and the text fits, the handler writes
  the formatted text, with the channel's own name, once to each other member's descriptor and sends
  no reply.
\<close>

theorem privmsg_delivers_to_channel:
  assumes "env_ok e" and "client_mem w a = Some c" and "named c n u h"
    and "parse_err m = 0" and "msg_str a (privmsg_msgtarget m) w = Inr target"
    and "take 1 target \<in> {''#'', ''+'', ''!'', ''&''}"
    and "msg_str a (privmsg_contents m) w = Inr contents"
    and "g_lookup (channels (server w)) target = Some ch" and "channel_mem w ch = Some k"
    and "cstr (chan_name k) = Inr kn"
    and "\<forall>(i, b)\<in>set (members k). i \<noteq> clientId c \<longrightarrow> ready w b"
    and "length (privmsg_text n u h kn contents) \<le> IRC_MSG_SIZE"
  shows "\<exists>order. Handler_Privmsg e a m w =
       Inr (w\<lparr>wire := wire w @ map (\<lambda>b. (fd_of w b, privmsg_text n u h kn contents)) order\<rparr>, 0) \<and>
     mset order = image_mset snd (filter_mset (\<lambda>(i, b). i \<noteq> clientId c) (mset (members k)))"
proof -
  obtain ct where ct: "msg_ptr a (privmsg_contents m) w = Inr ct" "cstr ct = Inr contents"
    using assms(7) by (auto simp: msg_str_def elim!: rbind_InrE)
  let ?s = "privmsg_text n u h kn contents"
  have f: "Message_Privmsg c (chan_name k) ct = Inr (text_response ?s)"
    using Message_Privmsg_text [of c n u h "chan_name k" kn ct contents] assms(3,10,12) ct(2)
    by (simp add: fits_def privmsg_text_def named_def)
  have "\<forall>b\<in>set (recipients e k (clientId c)). ready w b"
    using assms(11) by (auto simp: recipients_set [OF assms(1)])
  from channel_send_message_delivers [OF assms(9) resp_bytes_text [OF assms(12)] this]
  have "Handler_Privmsg e a m w =
      Inr (w\<lparr>wire := wire w @ map (\<lambda>b. (fd_of w b, ?s)) (recipients e k (clientId c))\<rparr>, 0)"
    using assms(2,4-6,8,9) ct(1) f
    by (simp add: Handler_Privmsg_def get_client_def get_channel_def channel_sendall_privmsg_def)
  then show ?thesis using recipients_mset [OF assms(1)] by (auto simp: case_prod_unfold)
qed

definition chanmsg_example :: irc_message where
  "chanmsg_example = zero_message\<lparr>msg_type := PRIVMSG, slot0 := Some 0, slot1 := Some 3\<rparr>"

theorem privmsg_delivers_to_channel_witness:
  "\<exists>order. Handler_Privmsg plain_env 0 chanmsg_example (mini_world (''#c'' @ [NUL] @ ''hi'')) =
       Inr ((mini_world (''#c'' @ [NUL] @ ''hi''))\<lparr>wire :=
         map (\<lambda>b. (fd_of (mini_world (''#c'' @ [NUL] @ ''hi'')) b, ''ann!u@h PRIVMSG #c :hi'' @ CRLF)) order\<rparr>, 0) \<and>
     mset order = {#1#}"
proof -
  let ?w = "mini_world (''#c'' @ [NUL] @ ''hi'')"
  let ?k = "mini_channel ''#c'' ''t'' [(1, 0), (2, 1)]"
  have t: "msg_str 0 (privmsg_msgtarget chanmsg_example) ?w = Inr ''#c''"
    and c: "msg_str 0 (privmsg_contents chanmsg_example) ?w = Inr ''hi''"
    by (simp_all add: msg_str_def msg_ptr_def chanmsg_example_def zero_message_def get_client_def mini_simps
        mini_client_strings cstr_def)
  have l: "g_lookup (channels (server ?w)) ''#c'' = Some 7"
    by (simp add: mini_simps mini_server_def g_lookup_def)
  have kn: "cstr (chan_name ?k) = Inr ''#c''" by (simp add: mini_channel_def cstr_pad)
  have r: "\<forall>(i, b)\<in>set (members ?k). i \<noteq> clientId (mini_client 1 ''ann'' (''#c'' @ [NUL] @ ''hi'')) \<longrightarrow> ready ?w b"
    by (simp add: mini_channel_def ready_def idle_def mini_world_def mini_client_def)
  show ?thesis
    using privmsg_delivers_to_channel [OF plain_env_ok mini_simps(1) mini_named _ t _ c l mini_simps(5) kn r]
    by (simp add: privmsg_text_def chanmsg_example_def zero_message_def mini_simps
        mini_client_strings CRLF_def) (simp add: mini_channel_def)
qed

text \<open>
  C27: when a relayed message overruns the response buffer.  \<open>Message_Privmsg\<close> formats with
  \<open>sprintf\<close> and no bound: with terminated arguments it returns exactly when prefix, target and
  contents take at most 512 bytes in all, and writes past the buffer otherwise.
\<close>

theorem privmsg_overruns_iff_too_long:
  assumes "named c n u h" and "cstr tg = Inr t" and "cstr ct = Inr m"
  shows "Message_Privmsg c tg ct =
    (if length n + length u + length h + length t + length m + 15 \<le> 512
     then Inr (text_response (privmsg_text n u h t m)) else Inl BufferOverflow)"
  using Message_Privmsg_text [of c n u h tg t ct m] assms
  by (auto simp: named_def fits_def privmsg_text_def CRLF_def)

text \<open>A line of 512 bytes is enough: its relayed form is longer by the sender's prefix.\<close>

theorem privmsg_overruns_iff_too_long_witness:
  "Message_Privmsg (mini_client 1 ''ann'' []) (lit ''b'') (lit (replicate 499 (CHR ''x''))) = Inl BufferOverflow \<and>
   length (''PRIVMSG b :'' @ replicate 499 (CHR ''x'') @ CRLF) = 512"
  using privmsg_overruns_iff_too_long [OF mini_named, of "lit ''b''" "''b''" "lit (replicate 499 (CHR ''x''))"
      "replicate 499 (CHR ''x'')" 1 "[]"]
  by (simp add: CRLF_def)

end
