(* ===== verification/SessionProps.thy ===== *)
theory SessionProps
  imports HandlerProps HandlerFrames
begin

text \<open>
  A client's session: nickname, registration, leaving a channel, the message of the day.
\<close>

subsection \<open>NICK\<close>

definition take_nick :: "caddr \<Rightarrow> client_s \<Rightarrow> string \<Rightarrow> string \<Rightarrow> world \<Rightarrow> world" where
  "take_nick a c old nick w =
     upd_client a (\<lambda>c. c\<lparr>nickname := nick @ NUL # drop (length nick + 1) (nickname c), receivedNick := True\<rparr>)
       (upd_server (\<lambda>s. s\<lparr>nicks := g_insert nick (clientId c)
          (if receivedNick c then g_remove old (nicks s) else nicks s)\<rparr>) w)"

lemma try_change_nick_free:
  assumes "client_mem w a = Some c" and "g_lookup (nicks (server w)) nick = None"
    and "length nick < length (nickname c)" and "cstr (nickname c) = Inr old"
  shows "Client_TryChangeNick a nick w = Inr (take_nick a c old nick w, None, 0)"
proof -
  have "strcpy (nickname c) nick = Inr (nick @ NUL # drop (length nick + 1) (nickname c))"
    using assms(3) by (simp add: strcpy_def)
  then show ?thesis using assms(1,2,4)
    by (cases w) (auto simp: Client_TryChangeNick_def get_client_def g_contains_lookup Let_def upd_server_def
        take_nick_def upd_client_def)
qed

lemma take_nick_simps:
  "client_mem (take_nick a c old nick w) b =
     (if b = a then map_option (\<lambda>c. c\<lparr>nickname := nick @ NUL # drop (length nick + 1) (nickname c),
        receivedNick := True\<rparr>) (client_mem w a) else client_mem w b)"
  "server (take_nick a c old nick w) = (server w)\<lparr>nicks := g_insert nick (clientId c)
          (if receivedNick c then g_remove old (nicks (server w)) else nicks (server w))\<rparr>"
  "channel_mem (take_nick a c old nick w) = channel_mem w" "interest (take_nick a c old nick w) = interest w"
  "wire (take_nick a c old nick w) = wire w"
  by (simp_all add: take_nick_def upd_server_def)

text \<open>
  Changing the nickname.  If the new nickname is free and fits its array, the old one (if the
  client had any) is released, the new one maps to the client's id, and the client object holds it;
  no reply is produced and no other entry changes.
\<close>

theorem nick_change_succeeds:
  assumes "client_mem w a = Some c" and "g_lookup (nicks (server w)) nick = None"
    and "NUL \<notin> set nick" and "length nick < length (nickname c)"
    and "cstr (nickname c) = Inr old"
  shows "\<exists>w' c'. Client_TryChangeNick a nick w = Inr (w', None, 0) \<and>
     client_mem w' = (client_mem w)(a \<mapsto> c') \<and> cstr (nickname c') = Inr nick \<and> receivedNick c' \<and>
     g_lookup (nicks (server w')) =
       (if receivedNick c then (g_lookup (nicks (server w)))(old := None, nick \<mapsto> clientId c)
        else (g_lookup (nicks (server w)))(nick \<mapsto> clientId c))"
proof -
  let ?nn = "nick @ NUL # drop (length nick + 1) (nickname c)"
  have "client_mem (take_nick a c old nick w) = (client_mem w)(a \<mapsto> c\<lparr>nickname := ?nn, receivedNick := True\<rparr>)"
    using assms(1) by (simp add: fun_eq_iff take_nick_simps)
  moreover have "cstr ?nn = Inr nick" by (rule cstr_terminated [OF assms(3)])
  ultimately show ?thesis using try_change_nick_free [OF assms(1,2,4,5)]
    by (intro exI conjI) (assumption, assumption, simp_all add: take_nick_simps)
qed

theorem nick_change_succeeds_witness:
  "\<exists>w' c'. Client_TryChangeNick 0 ''zoe'' (mini_world []) = Inr (w', None, 0) \<and>
     cstr (nickname c') = Inr ''zoe'' \<and> client_mem w' 0 = Some c' \<and>
     g_lookup (nicks (server w')) ''ann'' = None \<and> g_lookup (nicks (server w')) ''zoe'' = Some 1 \<and>
     g_lookup (nicks (server w')) ''bob'' = Some 2"
proof -
  have f: "g_lookup (nicks (server (mini_world []))) ''zoe'' = None"
    by (simp add: mini_simps mini_server_def g_lookup_def)
  have o: "cstr (nickname (mini_client 1 ''ann'' [])) = Inr ''ann''" by (simp add: mini_client_strings cstr_pad)
  have l: "length ''zoe'' < length (nickname (mini_client 1 ''ann'' []))"
    by (simp add: mini_client_strings length_pad)
  from nick_change_succeeds [OF mini_simps(1) f _ l o] obtain w' c' where
    w': "Client_TryChangeNick 0 ''zoe'' (mini_world []) = Inr (w', None, 0)"
    "client_mem w' = (client_mem (mini_world []))(0 \<mapsto> c')" "cstr (nickname c') = Inr ''zoe''"
    "g_lookup (nicks (server w')) = (g_lookup (nicks (server (mini_world []))))(''ann'' := None, ''zoe'' \<mapsto> 1)"
    by (auto simp: mini_client_strings)
  show ?thesis
    by (rule exI [of _ w'], rule exI [of _ c'])
      (simp add: w' mini_simps, simp add: mini_server_def g_lookup_def)
qed

text \<open>
  A nickname in use is refused.  The world is unchanged, the result is \<open>-1\<close> and the reply is
  ERR_NICKNAMEINUSE with the wanted nickname.
\<close>

theorem nick_in_use_refused:
  assumes "client_mem w a = Some c" and "cstr (nickname c) = Inr n"
    and "g_lookup (nicks (server w)) nick = Some i" and "NUL \<notin> set nick" and "length nick \<le> 400"
    and "length n \<le> 9"
  shows "Client_TryChangeNick a nick w =
     Inr (w, Some (text_response (''433 '' @ star_nick c n @ '' '' @ nick @ '' :Nickname is already in use'' @ CRLF)), -1)"
  using assms Reply_ErrNicknameInUse_text [of c n "lit nick" nick]
  by (auto simp: Client_TryChangeNick_def get_client_def g_contains_lookup fits_def star_nick_def CRLF_def)

theorem nick_in_use_refused_witness:
  "Client_TryChangeNick 0 ''bob'' (mini_world []) =
     Inr (mini_world [], Some (text_response (''433 ann bob :Nickname is already in use'' @ CRLF)), -1)"
proof -
  have f: "g_lookup (nicks (server (mini_world []))) ''bob'' = Some 2"
    by (simp add: mini_simps mini_server_def g_lookup_def)
  have o: "cstr (nickname (mini_client 1 ''ann'' [])) = Inr ''ann''" by (simp add: mini_client_strings cstr_pad)
  show ?thesis
    using nick_in_use_refused [OF mini_simps(1) o f] by (simp add: star_nick_def mini_client_strings)
qed

subsection \<open>Registration\<close>

definition welcome_text :: "string \<Rightarrow> string \<Rightarrow> string \<Rightarrow> string" where
  "welcome_text n u h =
     ''001 '' @ n @ '' :Welcome to the Internet Relay Network '' @ n @ ''!'' @ u @ ''@'' @ h @ CRLF"

definition enrol :: "caddr \<Rightarrow> client_s \<Rightarrow> world \<Rightarrow> world" where
  "enrol a c w = upd_client a (\<lambda>c. c\<lparr>registered := True\<rparr>)
     (upd_server (\<lambda>s. s\<lparr>clients := g_insert (clientId c) a (clients s), nUnknown := nUnknown s - 1,
                        nUsers := nUsers s + 1\<rparr>) w)"

lemma enrol_simps:
  "client_mem (enrol a c w) b =
     (if b = a then map_option (\<lambda>c. c\<lparr>registered := True\<rparr>) (client_mem w a) else client_mem w b)"
  "server (enrol a c w) = (server w)\<lparr>clients := g_insert (clientId c) a (clients (server w)),
     nUnknown := nUnknown (server w) - 1, nUsers := nUsers (server w) + 1\<rparr>"
  "channel_mem (enrol a c w) = channel_mem w" "interest (enrol a c w) = interest w"
  "wire (enrol a c w) = wire w"
  by (simp_all add: enrol_def upd_server_def)

lemma try_register_ready:
  assumes "client_mem w a = Some c" and "named c n u h"
    and "\<not> registered c" and "receivedUser c" and "receivedNick c"
    and "2 * length n + length u + length h \<le> 450"
  shows "Client_TryRegister a w = Inr (enrol a c w, Some (text_response (welcome_text n u h)))"
proof -
  have nm: "cstr (nickname (c\<lparr>registered := True\<rparr>)) = Inr n" "cstr (username (c\<lparr>registered := True\<rparr>)) = Inr u"
    "cstr (client_hostname (c\<lparr>registered := True\<rparr>)) = Inr h" using assms(2) by (simp_all add: named_def)
  have "Client_TryRegister a w =
      rbind (Reply_RplWelcome (c\<lparr>registered := True\<rparr>)) (\<lambda>r. Inr (enrol a c w, Some r))"
    using assms(1,3-5)
    by (cases w) (simp add: Client_TryRegister_def get_client_def Let_def upd_server_def upd_client_def enrol_def)
  also have "\<dots> = Inr (enrol a c w, Some (text_response (welcome_text n u h)))"
    using Reply_RplWelcome_text [OF nm] assms(6) by (simp add: fits_def CRLF_def welcome_text_def)
  finally show ?thesis .
qed

text \<open>
  Registering.  A client that has sent NICK and USER and is not registered yet becomes
  registered: it moves from the unknown to the users counter, the client table maps its id to it,
  and it gets RPL_WELCOME with its nickname, user name and host.  Nothing else changes.
\<close>

theorem registration_completes:
  assumes "client_mem w a = Some c" and "named c n u h"
    and "\<not> registered c" and "receivedUser c" and "receivedNick c"
    and "2 * length n + length u + length h \<le> 450"
  shows "\<exists>w'. Client_TryRegister a w = Inr (w', Some (text_response (welcome_text n u h))) \<and>
     client_mem w' = (client_mem w)(a \<mapsto> c\<lparr>registered := True\<rparr>) \<and>
     server w' = (server w)\<lparr>clients := g_insert (clientId c) a (clients (server w)),
                            nUnknown := nUnknown (server w) - 1, nUsers := nUsers (server w) + 1\<rparr>"
  using try_register_ready [OF assms] assms(1)
  by (intro exI [of _ "enrol a c w"]) (simp add: fun_eq_iff enrol_simps)

theorem registration_completes_witness:
  "\<exists>w'. Client_TryRegister 0 (upd_client 0 (\<lambda>c. c\<lparr>registered := False\<rparr>) (mini_world [])) =
       Inr (w', Some (text_response (''001 ann :Welcome to the Internet Relay Network ann!u@h'' @ CRLF))) \<and>
     nUsers (server w') = 4 \<and> nUnknown (server w') = -1"
proof -
  let ?w = "upd_client 0 (\<lambda>c. c\<lparr>registered := False\<rparr>) (mini_world [])"
  let ?c = "(mini_client 1 ''ann'' [])\<lparr>registered := False\<rparr>"
  have c: "client_mem ?w 0 = Some ?c" by (simp add: mini_simps)
  have nm: "named ?c ''ann'' ''u'' ''h''" using mini_named [of 1 "[]"] by (simp add: named_def)
  have f: "receivedUser ?c" "receivedNick ?c" by (simp_all add: mini_client_def)
  from registration_completes [OF c nm _ f] obtain w' where
    "Client_TryRegister 0 ?w = Inr (w', Some (text_response (welcome_text ''ann'' ''u'' ''h'')))"
    "server w' = (server ?w)\<lparr>clients := g_insert (clientId ?c) 0 (clients (server ?w)),
        nUnknown := nUnknown (server ?w) - 1, nUsers := nUsers (server ?w) + 1\<rparr>"
    by auto
  then show ?thesis by (auto simp: mini_simps mini_server_def welcome_text_def)
qed

subsection \<open>PART\<close>

lemma last_member_left:
  assumes "g_lookup (members k') = (g_lookup (members k))(i := None)" and "i \<in> dom (g_lookup (members k))"
  shows "channel_size k' = 0 \<longleftrightarrow> dom (g_lookup (members k)) = {i}"
proof -
  have "channel_size k' = 0 \<longleftrightarrow> (\<forall>j. j \<noteq> i \<longrightarrow> g_lookup (members k) j = None)"
    by (auto simp: channel_size_def g_size_zero_iff assms(1))
  also have "\<dots> \<longleftrightarrow> dom (g_lookup (members k)) = {i}" using assms(2) by (auto simp: dom_def)
  finally show ?thesis .
qed

text \<open>
  C25: leaving a channel.  Whenever PART of a channel the client is in runs to the end, the client is
  no longer a member; a channel that still has members stays in the table with the others in it,
  and one that has none left is freed.
\<close>

theorem part_removes_member:
  assumes "handler_part e a m w = Inr (w', r)" and "client_mem w a = Some c"
    and "msg_str a (part_channels m) w = Inr given"
    and "g_lookup (channels (server w)) (lowercase given) = Some ch" and "channel_mem w ch = Some k"
    and "channel_is_member k c"
  shows "r = 0 \<and>
     (if dom (g_lookup (members k)) = {clientId c} then channel_mem w' ch = None
      else server w' = server w \<and>
           (\<exists>k'. channel_mem w' ch = Some k' \<and>
              g_lookup (members k') = (g_lookup (members k))(clientId c := None)))"
proof -
  let ?v = "store_str a (part_channels m) (lowercase given) w"
  have sv: "server ?v = server w" "channel_mem ?v = channel_mem w"
    by (auto simp: store_str_def split: option.split)
  from assms obtain pm u v k' where u: "channel_sendall_part e ch a pm ?v = Inr u"
    and v: "channel_remove_member ch a u = Inr v" and k': "channel_mem v ch = Some k'"
    and rest: "(if channel_size k' = 0 then rbind (server_remove_channel ch v) (\<lambda>w. Inr (w, 0)) else Inr (v, 0)) = Inr (w', r)"
    by (auto simp: handler_part_def Let_def get_client_def get_channel_def sv server_get_channel_def
        elim!: rbind_InrE split: option.splits if_splits)
  have q: "quiet w u"
    using calm_quiet [OF store_str_calm [OF assms(3)]] calm_quiet [OF channel_sendall_calm(2) [OF u, of a]]
    by (simp add: quiet_def)
  then obtain d where d: "client_mem u a = Some d" "clientId d = clientId c"
    using quiet_client_mem [OF q assms(2)] core_eqD(4) by blast
  have ku: "channel_mem u ch = Some k" using q assms(5) by (simp add: quiet_def)
  have v': "v = upd_channel ch (\<lambda>k. k\<lparr>members := g_remove (clientId c) (members k),
              member_modes := g_remove (clientId c) (member_modes k)\<rparr>) u"
    using v ku d by (simp add: channel_remove_member_def get_channel_def get_client_def)
  have mem: "g_lookup (members k') = (g_lookup (members k))(clientId c := None)"
    using k' ku by (auto simp: v')
  have size: "channel_size k' = 0 \<longleftrightarrow> dom (g_lookup (members k)) = {clientId c}"
    using last_member_left [OF mem] assms(6) by (auto simp: channel_is_member_def)
  show ?thesis
  proof (cases "channel_size k' = 0")
    case True
    then obtain x where "server_remove_channel ch v = Inr x" "w' = x" "r = 0"
      using rest by (auto elim!: rbind_InrE)
    then have "channel_mem w' ch = None" "r = 0"
      by (auto simp: server_remove_channel_def Let_def elim!: rbind_InrE)
    then show ?thesis using True size by simp
  next
    case False
    then have "w' = v" "r = 0" using rest by simp_all
    moreover have "server v = server w" using q by (simp add: v' quiet_def)
    ultimately show ?thesis using False size mem k' by auto
  qed
qed

definition part_example :: irc_message where
  "part_example = zero_message\<lparr>msg_type := PART, slot0 := Some 0\<rparr>"

theorem part_removes_member_witness:
  "\<exists>w' k'. handler_part plain_env 0 part_example (mini_world ''#C'') = Inr (w', 0) \<and>
     server w' = mini_server \<and> channel_mem w' 7 = Some k' \<and> g_lookup (members k') = [2 \<mapsto> 1]"
proof -
  let ?w = "mini_world ''#C''" and ?k = "mini_channel ''#c'' ''t'' [(1, 0), (2, 1)]" and ?c = "mini_client 1 ''ann'' ''#C''"
  have g: "msg_str 0 (part_channels part_example) ?w = Inr ''#C''"
    by (simp add: msg_str_def msg_ptr_def part_example_def zero_message_def get_client_def mini_simps
        mini_client_strings cstr_def)
  have lc: "lowercase ''#C'' = ''#c''" by code_simp
  have l: "g_lookup (channels (server ?w)) (lowercase ''#C'') = Some 7"
    by (simp add: lc mini_simps mini_server_def g_lookup_def)
  have m: "channel_is_member ?k ?c"
    by (simp add: channel_is_member_def mini_channel_def mini_client_def g_lookup_def)
  have "case handler_part plain_env 0 part_example ?w of Inl _ \<Rightarrow> False | Inr _ \<Rightarrow> True"
    by code_simp
  then obtain w' r where run: "handler_part plain_env 0 part_example ?w = Inr (w', r)"
    by (auto split: sum.splits)
  have "2 \<in> dom (g_lookup (members ?k))" "clientId ?c \<noteq> 2"
    by (simp_all add: mini_channel_def mini_client_def g_lookup_def)
  then have ne: "dom (g_lookup (members ?k)) \<noteq> {clientId ?c}" by (metis singletonD)
  have one: "(g_lookup (members ?k))(clientId ?c := None) = [2 \<mapsto> 1]"
    by (auto simp: mini_channel_def mini_client_def g_lookup_def fun_eq_iff)
  have srv: "server ?w = mini_server" by (simp add: mini_simps)
  show ?thesis
    using part_removes_member [OF run mini_simps(1) g l mini_simps(5) m, unfolded if_not_P [OF ne] one srv] run
    by blast
qed

subsection \<open>MOTD\<close>

text \<open>The fragments the loop cuts: the last one is cut at the remainder of the length.\<close>

definition motd_fragment :: "string \<Rightarrow> nat \<Rightarrow> string" where
  "motd_fragment s j =
     (let n = length s div 80 + (if length s mod 80 \<noteq> 0 then 1 else 0) in
      take (if j < n - 1 then 80 else length s mod 80) (drop (80 * j) s))"

definition motd_fragments :: "string \<Rightarrow> string list" where
  "motd_fragments s = map (motd_fragment s) [0..<length s div 80 + (if length s mod 80 \<noteq> 0 then 1 else 0)]"

definition motd_line :: "client_s \<Rightarrow> string \<Rightarrow> string \<Rightarrow> string" where
  "motd_line c n p = ''372 '' @ star_nick c n @ '' :- '' @ p @ CRLF"

lemma set_queue_fields [simp]:
  "nickname (set_queue rs c) = nickname c" "receivedNick (set_queue rs c) = receivedNick c"
  by (simp_all add: set_queue_def)

lemma cstr_drop: "cstr p = Inr s \<Longrightarrow> k \<le> length s \<Longrightarrow> cstr (drop k p) = Inr (drop k s)"
proof -
  assume "cstr p = Inr s" and k: "k \<le> length s"
  then obtain r where p: "p = s @ NUL # r" and n: "NUL \<notin> set s" using cstr_InrD cstr_no_NUL by blast
  have "NUL \<notin> set (drop k s)" using n in_set_dropD by fast
  then show ?thesis using k by (simp add: p)
qed

lemma cstr_cut:
  assumes "NUL \<notin> set s" and "k \<le> length s" and "k < length p" and "take k p = take k s"
  shows "cstr (p[k := NUL]) = Inr (take k s)"
proof -
  have "p[k := NUL] = take k s @ NUL # drop (k + 1) p"
    using assms(3,4) by (simp add: upd_conv_take_nth_drop)
  moreover have "NUL \<notin> set (take k s)" using assms(1) in_set_takeD by fast
  ultimately show ?thesis by simp
qed

lemma motd_round:
  assumes c: "client_mem w a = Some c" "cstr (nickname c) = Inr n" "length n \<le> 9"
    and mt: "cstr mt = Inr s" and part: "length part = 81"
    and N: "N = length s div 80 + (if length s mod 80 \<noteq> 0 then 1 else 0)" and j: "j < N"
  shows "\<exists>part'. length part' = 81 \<and> motd_step a mt (length s) N j (w, part) =
     Inr (push_tail a (text_response (motd_line c n (motd_fragment s j))) w, part')"
proof -
  let ?d = "drop (80 * j) s" and ?k = "if j < N - 1 then 80 else length s mod 80"
  have nn: "NUL \<notin> set s" using cstr_no_NUL [OF mt] .
  have dm: "length s = 80 * (length s div 80) + length s mod 80" by simp
  have jl: "80 * j \<le> length s" and kl: "?k \<le> length ?d"
  proof -
    have "j \<le> length s div 80" using j N by (auto split: if_splits)
    then show "80 * j \<le> length s" using dm by linarith
    show "?k \<le> length ?d"
    proof (cases "j < N - 1")
      case True
      then have "j + 1 \<le> length s div 80" using N by (auto split: if_splits)
      then show ?thesis using True dm by auto
    next
      case False
      have "j \<le> length s div 80" using j N by (auto split: if_splits)
      then have "80 * j + length s mod 80 \<le> length s" using dm by linarith
      then show ?thesis using False by simp
    qed
  qed
  have sd: "cstr (drop (80 * j) mt) = Inr ?d" by (rule cstr_drop [OF mt jl])
  let ?p = "pad 80 (take 80 ?d) @ drop 80 part"
  have lp: "length ?p = 81" using part by (simp add: length_pad)
  have cp: "strncpy part ?d 80 = Inr ?p" using part by (simp add: strncpy_def)
  have k80: "?k \<le> 80" by simp
  have tk: "take ?k ?p = take ?k ?d" using kl k80 by (simp add: length_pad take_pad)
  have nd: "NUL \<notin> set ?d" using nn in_set_dropD by fast
  have mf: "motd_fragment s j = take ?k ?d" unfolding motd_fragment_def Let_def N ..
  have "?k < length ?p" using lp k80 by linarith
  from cstr_cut [OF nd kl this tk] have frag: "cstr (?p[?k := NUL]) = Inr (motd_fragment s j)"
    by (simp only: mf)
  have len: "length (motd_fragment s j) \<le> 80" unfolding mf using k80 by (metis length_take min.cobounded2 le_trans)
  have "Reply_RplMotd c (?p[?k := NUL]) = fits (motd_line c n (motd_fragment s j))"
    unfolding motd_line_def by (rule Reply_RplMotd_text [OF c(2) frag])
  moreover have "length (motd_line c n (motd_fragment s j)) \<le> IRC_MSG_SIZE"
    using len c(3) by (simp add: motd_line_def star_nick_def CRLF_def)
  ultimately have pr: "push_reply a (Reply_RplMotd c (?p[?k := NUL])) w =
      Inr (push_tail a (text_response (motd_line c n (motd_fragment s j))) w)"
    by (rule push_reply_fits)
  have "motd_step a mt (length s) N j (w, part) =
      Inr (push_tail a (text_response (motd_line c n (motd_fragment s j))) w, ?p[?k := NUL])"
    using sd cp c(1) pr by (simp add: motd_step_def get_client_def Let_def if_distrib [of "\<lambda>k. ?p[k := NUL]"])
  then show ?thesis using lp by (intro exI [of _ "?p[?k := NUL]"]) simp
qed

lemma motd_loop:
  assumes "client_mem w a = Some c" "cstr (nickname c) = Inr n" "length n \<le> 9"
    and "cstr mt = Inr s" and "length part = 81"
    and "N = length s div 80 + (if length s mod 80 \<noteq> 0 then 1 else 0)" and "\<forall>j\<in>set js. j < N"
  shows "\<exists>w' part' c'. rfold (motd_step a mt (length s) N) js (w, part) = Inr (w', part') \<and>
     wire w' = wire w \<and> client_mem w' a = Some c' \<and> nickname c' = nickname c \<and> receivedNick c' = receivedNick c \<and>
     queue w' a = queue w a @ map (\<lambda>j. text_response (motd_line c n (motd_fragment s j))) js"
  using assms(1,2,5,7)
proof (induction js arbitrary: w c part)
  case (Cons j js)
  from motd_round [OF Cons.prems(1,2) assms(3,4) Cons.prems(3) assms(6)] Cons.prems(4) obtain part1
    where p: "length part1 = 81" and st: "motd_step a mt (length s) N j (w, part) =
      Inr (push_tail a (text_response (motd_line c n (motd_fragment s j))) w, part1)"
    by auto
  let ?w = "push_tail a (text_response (motd_line c n (motd_fragment s j))) w"
  let ?c = "set_queue (conn_responses (conn c) @ [text_response (motd_line c n (motd_fragment s j))]) c"
  have c: "client_mem ?w a = Some ?c" "cstr (nickname ?c) = Inr n" using Cons.prems(1,2) by simp_all
  have same: "motd_line ?c n p = motd_line c n p" for p by (simp add: motd_line_def star_nick_def)
  from Cons.IH [OF c p] Cons.prems(4) obtain w' part' c' where
    "rfold (motd_step a mt (length s) N) js (?w, part1) = Inr (w', part')" "wire w' = wire ?w"
    "client_mem w' a = Some c'" "nickname c' = nickname c" "receivedNick c' = receivedNick c"
    "queue w' a = queue ?w a @ map (\<lambda>j. text_response (motd_line c n (motd_fragment s j))) js"
    by (auto simp: same)
  then show ?case using st Cons.prems(1) by auto
qed auto

text \<open>
  The message of the day.  With a MOTD loaded, the handler queues RPL_MOTDSTART, one RPL_MOTD
  per fragment of at most 80 characters in order, and RPL_ENDOFMOTD.
\<close>

lemma motd_reply_sequence:
  assumes "client_mem w a = Some c" and "cstr (nickname c) = Inr n" and "length n \<le> 9"
    and "motd (server w) = Some mt" and "cstr mt = Inr s"
    and "cstr (server_hostname (server w)) = Inr sh" and "length sh \<le> 255"
  shows "\<exists>w'. Handler_Motd a m w = Inr (w', 0) \<and> wire w' = wire w \<and>
     queue w' a = queue w a @
       [text_response (''375 '' @ star_nick c n @ '' :- '' @ sh @ '' Message of the day - '' @ CRLF)] @
       map (\<lambda>p. text_response (motd_line c n p)) (motd_fragments s) @
       [text_response (''376 '' @ star_nick c n @ '' :End of MOTD command'' @ CRLF)]"
proof -
  let ?N = "length s div 80 + (if length s mod 80 \<noteq> 0 then 1 else 0)"
  let ?start = "''375 '' @ star_nick c n @ '' :- '' @ sh @ '' Message of the day - '' @ CRLF"
  let ?fin = "''376 '' @ star_nick c n @ '' :End of MOTD command'' @ CRLF"
  let ?u = "push_tail a (text_response ?start) w"
  have st: "push_reply a (Reply_RplMotdStart c (server_hostname (server w))) w = Inr ?u"
    by (rule push_reply_fits [OF Reply_RplMotdStart_text [OF assms(2,6)]])
      (use assms(3,7) in \<open>simp add: star_nick_def CRLF_def\<close>)
  have fin: "push_reply a (Reply_RplEndOfMotd c) v = Inr (push_tail a (text_response ?fin) v)" for v
    by (rule push_reply_fits [OF Reply_RplEndOfMotd_text [OF assms(2)]])
      (use assms(3) in \<open>simp add: star_nick_def CRLF_def\<close>)
  let ?c = "set_queue (conn_responses (conn c) @ [text_response ?start]) c"
  have c: "client_mem ?u a = Some ?c" "cstr (nickname ?c) = Inr n" using assms(1,2) by simp_all
  have same: "motd_line ?c n p = motd_line c n p" for p by (simp add: motd_line_def star_nick_def)
  have "length (replicate 81 NUL) = 81" "\<forall>j\<in>set [0..<?N]. j < ?N" by simp_all
  from motd_loop [OF c assms(3,5) this(1) refl this(2)] obtain v part c' where
    v: "rfold (motd_step a mt (length s) ?N) [0..<?N] (?u, replicate 81 NUL) = Inr (v, part)"
    "wire v = wire ?u" "client_mem v a = Some c'"
    "queue v a = queue ?u a @ map (\<lambda>j. text_response (motd_line c n (motd_fragment s j))) [0..<?N]"
    unfolding same by blast
  have "Handler_Motd a m w = Inr (push_tail a (text_response ?fin) v, 0)"
    using assms(1,4,5) st v(1) fin by (simp add: Handler_Motd_def get_client_def Let_def)
  then show ?thesis using v(2-4) assms(1) by (simp add: motd_fragments_def comp_def)
qed

theorem motd_reply_sequence_witness:
  "\<exists>w'. Handler_Motd 0 zero_message (upd_server (\<lambda>s. s\<lparr>motd := Some (''hi'' @ [NUL])\<rparr>) (mini_world [])) = Inr (w', 0) \<and>
     queue w' 0 = [text_response (''375 ann :- s Message of the day - '' @ CRLF),
                   text_response (''372 ann :- hi'' @ CRLF),
                   text_response (''376 ann :End of MOTD command'' @ CRLF)]"
proof -
  let ?w = "upd_server (\<lambda>s. s\<lparr>motd := Some (''hi'' @ [NUL])\<rparr>) (mini_world [])"
  let ?c = "mini_client 1 ''ann'' []"
  have c: "client_mem ?w 0 = Some ?c" by (simp add: mini_simps)
  have n: "cstr (nickname ?c) = Inr ''ann''" by (simp add: mini_client_strings cstr_pad)
  have mt: "motd (server ?w) = Some (''hi'' @ [NUL])" by (simp add: upd_server_def)
  have s: "cstr (''hi'' @ [NUL]) = Inr ''hi''" by code_simp
  have h: "cstr (server_hostname (server ?w)) = Inr ''s''" by code_simp
  have q: "queue (mini_world []) 0 = []" by code_simp
  have f: "motd_fragments ''hi'' = [''hi'']" by code_simp
  have l: "motd_line ?c ''ann'' ''hi'' = ''372 ann :- hi'' @ CRLF"
    by (simp add: motd_line_def star_nick_def mini_client_strings)
  have sn: "star_nick ?c ''ann'' = ''ann''" by (simp add: star_nick_def mini_client_strings)
  show ?thesis
    using motd_reply_sequence [OF c n _ mt s h, of zero_message] by (auto simp: q f l sn)
qed

lemma fragments_join: "concat (map (\<lambda>j. take 80 (drop (80 * j) s)) [0..<k]) = take (80 * k) s"
proof (induction k)
  case (Suc k)
  have "take (80 * Suc k) s = take (80 * k) s @ take 80 (drop (80 * k) s)"
    using take_add [of "80 * k" 80 s] by (simp add: add.commute)
  then show ?case using Suc by simp
qed simp

text \<open>
  What the fragments are of the message.  Joined together they are the whole message when its
  length is not a multiple of 80; when it is, the last fragment is empty and the last 80
  characters are never sent.
\<close>

lemma motd_fragments_cover:
  "concat (motd_fragments s) = (if length s mod 80 \<noteq> 0 then s else take (length s - 80) s)"
proof (cases "length s mod 80 = 0")
  case True
  then obtain q where q: "length s = 80 * q" by (metis mod_0_imp_dvd dvd_def)
  show ?thesis
  proof (cases q)
    case 0
    then show ?thesis using q by (simp add: motd_fragments_def)
  next
    case (Suc k)
    have "motd_fragments s = map (\<lambda>j. take 80 (drop (80 * j) s)) [0..<k] @ [[]]"
      using q Suc by (simp add: motd_fragments_def motd_fragment_def)
    then show ?thesis using True q Suc fragments_join [of s k] by simp
  qed
next
  case False
  let ?k = "length s div 80"
  have "motd_fragments s = map (\<lambda>j. take 80 (drop (80 * j) s)) [0..<?k] @ [take (length s mod 80) (drop (80 * ?k) s)]"
    using False by (simp add: motd_fragments_def motd_fragment_def)
  moreover have "take (length s mod 80) (drop (80 * ?k) s) = drop (80 * ?k) s"
    by (simp add: minus_mult_div_eq_mod)
  ultimately show ?thesis using False fragments_join [of s ?k] by simp
qed

end
