(* ===== verification/ServerSafety.thy ===== *)
theory ServerSafety
  imports HandlerFrames
begin

text \<open>
  The event loop keeps the invariant: one message, all messages of a read, one event, one call of
  \<open>reactor_handle_events\<close>.  Between iterations every response queue is empty and every store has
  room.  The locale \<open>transition_system\<close> carries this to all reachable states.
\<close>

subsection \<open>Lengths of parsed buffers\<close>

lemma msgtok_r_length: "msgtok_r buf s sv = Inr R \<Longrightarrow> length (tok_buf R) = length buf"
  unfolding msgtok_r_def msgtok_scan_def
  by (auto elim!: rbind_InrE split: option.splits if_splits)

lemma parse_message_length:
  assumes "parse_message buf m = Inr (buf', m', r)"
  shows "length buf' = length buf"
  using assms
  unfolding parse_message_def parse_message_nick_def parse_message_user_def parse_message_ping_def
    parse_message_pong_def parse_message_motd_def parse_message_privmsg_def parse_message_lusers_def
    parse_message_whois_def parse_message_join_def parse_message_part_def parse_message_list_def
    parse_message_topic_def parse_message_names_def parse_message_away_def Let_def
  by (auto elim!: rbind_InrE split: if_splits dest!: msgtok_r_length)

subsection \<open>Replacing the connection of a client\<close>

lemma inv_set_client:
  assumes "world_ok w" and c: "view w a = Some c" and v: "view w' = (view w)(a := Some d)"
    and s: "server w' = server w" "channel_mem w' = channel_mem w" "next_addr w' = next_addr w"
      "interest w' = interest w"
    and d: "client_ok d" "clientId d = clientId c" "conn_fd (conn d) = conn_fd (conn c)"
      "receivedNick d = receivedNick c" "nickname d = nickname c" "registered d = registered c"
  shows "world_ok w'"
proof -
  have ids: "same_server_ids w w'" "same_counters w w'"
    by (simp_all add: same_server_ids_def same_counters_def s)
  have cl: "same_clients w w'"
    using assms(1) c d unfolding same_clients_def v by (auto simp: world_ok_def clients_inv_def)
  have nick: "receivedNick y = receivedNick x \<and> nickname y = nickname x"
    and reg: "registered y = registered x"
    if "view w b = Some x" "view w' b = Some y" for b x y
    using that c d by (auto simp: v split: if_splits)
  have "nick_owner w' = nick_owner w" by (rule nick_owner_same [OF _ cl nick]) (simp add: s)
  then have "nicks_inv w'" using assms(1) by (simp add: world_ok_def nicks_inv_def s)
  then show ?thesis
    using assms(1) clients_inv_same [OF _ ids(1) cl] channels_inv_same [OF _ ids(1) cl]
      interest_inv_same [OF _ ids(1) cl] counters_inv_same [OF _ ids cl reg] hostname_inv_same [OF _ ids(1)]
    by (simp add: world_ok_def)
qed

lemma set_conn_ok:
  assumes "world_ok w" and c: "client_mem w a = Some c"
    and cn: "conn_wf cn" "\<not> discardNext cn" "conn_fd cn = conn_fd (conn c)"
  shows "world_ok (set_conn a cn w)"
    and "complete_but {} w \<Longrightarrow> complete_but {} (set_conn a cn w)"
proof -
  let ?d = "core (c\<lparr>conn := cn\<rparr>)"
  have va: "view w a = Some (core c)" by (rule view_SomeI [OF c])
  have v: "view (set_conn a cn w) = (view w)(a := Some ?d)"
    using c by (simp add: set_conn_def view_def fun_eq_iff)
  have f: "clientId ?d = clientId c" "receivedNick ?d = receivedNick c" "receivedUser ?d = receivedUser c"
    "nickname ?d = nickname c" "registered ?d = registered c" "username ?d = username c"
    "client_hostname ?d = client_hostname c" "fullname ?d = fullname c" "away_message ?d = away_message c"
    "conn_fd (conn ?d) = conn_fd cn" by simp_all
  have "conn_wf (conn ?d)" "\<not> discardNext (conn ?d)"
    using cn by (simp_all add: conn_wf_def core_def)
  then have ok: "client_ok ?d"
    using inv_client(1) [OF assms(1) va] unfolding client_ok_def f by (simp add: core_simps)
  show "world_ok (set_conn a cn w)"
    by (rule inv_set_client [OF assms(1) va v _ _ _ _ ok])
      (simp_all add: f cn set_conn_def)
  show "complete_but {} (set_conn a cn w)" if "complete_but {} w"
  proof -
    have "receivedNick c \<longrightarrow> receivedUser c \<longrightarrow> registered c"
      using that va unfolding complete_but_def by fastforce
    then show ?thesis using that unfolding complete_but_def v by auto
  qed
qed

subsection \<open>Reading messages\<close>

lemma next_message_False:
  "next_message False bs = (case frame bs of None \<Rightarrow> (None, False, bs) | Some (m, r) \<Rightarrow> (Some m, False, r))"
  by (cases "frame bs") (auto simp: next_message_def)

lemma conn_read_message_step:
  assumes "conn_wf cn" and "\<not> discardNext cn" and "conn_read_message cn = Inr (cn', found)"
  shows "conn_wf cn'" "\<not> discardNext cn'" "conn_fd cn' = conn_fd cn"
    "conn_responses cn' = conn_responses cn"
    "found \<Longrightarrow> totalRead cn' < totalRead cn" "\<not> found \<Longrightarrow> totalRead cn' \<le> IRC_MSG_SIZE - 2"
proof -
  have r: "reads cn found cn' (next_message False (pending cn))"
    using conn_read_message_refines [OF assms(1)] assms(2,3) by auto
  from r show wf: "conn_wf cn'" and "conn_fd cn' = conn_fd cn" "conn_responses cn' = conn_responses cn"
    by (auto simp: reads_def conn_frame_def)
  show "\<not> discardNext cn'"
    using r by (auto simp: reads_def next_message_False split: option.splits)
  have len: "length (pending cn') = totalRead cn'" "length (pending cn) = totalRead cn"
    using wf assms(1) by (auto simp: length_pending)
  show "totalRead cn' < totalRead cn" if found
    using r that frame_shorter [of "pending cn"] len
    by (auto simp: reads_def next_message_False split: option.splits)
  show "totalRead cn' \<le> IRC_MSG_SIZE - 2" if "\<not> found"
    using r that len by (auto simp: reads_def next_message_False find_crlf_frame_None split: option.splits)
qed

text \<open>The state in which a message of client \<open>a\<close> is handled.\<close>

definition room :: "world \<Rightarrow> caddr \<Rightarrow> bool" where
  "room w a \<longleftrightarrow> (\<forall>cn. conns w a = Some cn \<longrightarrow> totalRead cn \<le> IRC_MSG_SIZE - 2)"

definition steady_but :: "caddr \<Rightarrow> world \<Rightarrow> bool" where
  "steady_but a w \<longleftrightarrow> world_ok w \<and> complete_but {} w \<and> (\<forall>b. idle w b) \<and> (\<forall>b. b \<noteq> a \<longrightarrow> room w b)"

lemma room_conns: "conns w' = conns w \<Longrightarrow> room w' = room w"
  by (simp add: room_def fun_eq_iff)

lemma set_message_calm:
  assumes "client_mem w a = Some c" and "length buf = length (conn_message (conn c))"
  shows "calm a w (upd_client a (set_message buf) w)" and "idle (upd_client a (set_message buf) w) = idle w"
proof -
  have "core (set_message buf c) = core c" using assms(2) by (simp add: core_def set_message_def)
  then have "view (upd_client a (set_message buf) w) = view w"
    using assms(1) by (simp add: view_def fun_eq_iff)
  then show "calm a w (upd_client a (set_message buf) w)"
    by (simp add: calm_def quiet_def idle_upd_other)
  show "idle (upd_client a (set_message buf) w) = idle w"
    by (rule idle_upd_client) (simp add: set_message_def)
qed

lemma handle_one_ok:
  assumes "handle_one e a m w = Inr (w', m')" and "steady_but a w" and "is_open w a"
  shows "steady_but a w' \<and> conns w' = conns w \<and> interest w' = interest w \<and>
     (\<forall>b. b \<noteq> a \<longrightarrow> view w' b = view w b)"
proof -
  from assms(1) obtain c buf r u where c: "client_mem w a = Some c"
    and p: "parse_message (conn_message (conn c)) m = Inr (buf, m', r)"
    and h: "(if r \<noteq> -1 then rbind (Handler_HandleMessage e a m' (upd_client a (set_message buf) w)) (\<lambda>(w, _). Inr w)
             else Inr (upd_client a (set_message buf) w)) = Inr u"
    and fl: "Client_TryEmptyBuffer a u = Inr w'"
    unfolding handle_one_def Let_def by (auto simp: get_client_eq elim!: rbind_InrE)
  let ?v = "upd_client a (set_message buf) w"
  note sm = set_message_calm [OF c parse_message_length [OF p]]
  have "good_step a ?v u"
    using h by (auto elim!: rbind_InrE split: if_splits intro: Handler_HandleMessage_good)
  then have "good_step a w u" by (rule good_step_trans [OF good_step_calm [OF sm(1)]])
  then have u: "world_ok u" "handler_frame a w u" "complete_but {} u"
    using assms(2,3) by (auto simp: good_step_def steady_but_def)
  note q = Client_TryEmptyBuffer_quiet [OF fl]
  have k: "calm a u w'" by (rule Client_TryEmptyBuffer_calm [OF fl])
  have f: "handler_frame a w w'" by (rule handler_frame_trans [OF u(2) handler_frame_calm [OF k]])
  have "world_ok w'" "complete_but {} w'"
    using u q inv_quiet complete_quiet by auto
  moreover have "idle w' b" for b
    using f assms(2) q by (cases "b = a") (auto simp: handler_frame_def steady_but_def)
  moreover have "room w' = room w" using f by (intro room_conns) (simp add: handler_frame_def)
  ultimately show ?thesis using f assms(2) by (auto simp: steady_but_def handler_frame_def)
qed

lemma set_conn_steady:
  assumes "steady_but a w" and c: "client_mem w a = Some c"
    and "conn_wf cn" "\<not> discardNext cn" "conn_fd cn = conn_fd (conn c)"
      "conn_responses cn = conn_responses (conn c)"
  shows "steady_but a (set_conn a cn w)" "interest (set_conn a cn w) = interest w"
    "client_mem (set_conn a cn w) a = Some (c\<lparr>conn := cn\<rparr>)"
    "conns (set_conn a cn w) = (conns w)(a := Some (conn (core (c\<lparr>conn := cn\<rparr>))))"
proof -
  show m: "client_mem (set_conn a cn w) a = Some (c\<lparr>conn := cn\<rparr>)"
    using c by (simp add: set_conn_def)
  show cs: "conns (set_conn a cn w) = (conns w)(a := Some (conn (core (c\<lparr>conn := cn\<rparr>))))"
    using c by (simp add: conns_def set_conn_def view_def fun_eq_iff)
  have "idle (set_conn a cn w) b" for b
    using assms(1,6) c by (auto simp: idle_def set_conn_def steady_but_def)
  moreover have "room (set_conn a cn w) b = room w b" if "b \<noteq> a" for b
    using that by (simp add: room_def cs)
  ultimately show "steady_but a (set_conn a cn w)"
    using assms(1) set_conn_ok [OF _ c assms(3-5)] by (auto simp: steady_but_def)
  show "interest (set_conn a cn w) = interest w" by (simp add: set_conn_def)
qed

lemma steady_client:
  assumes "steady_but a w" and "client_mem w a = Some c"
  shows "conn_wf (conn c)" "\<not> discardNext (conn c)"
proof -
  have "client_ok (core c)"
    using assms inv_client(1) [OF _ view_SomeI [OF assms(2)]] by (simp add: steady_but_def)
  then show "conn_wf (conn c)" "\<not> discardNext (conn c)"
    by (simp_all add: client_ok_def conn_wf_def)
qed

lemma view_set_conn: "b \<noteq> a \<Longrightarrow> view (set_conn a cn w) b = view w b"
  by (simp add: set_conn_def view_def)

lemma handle_messages_ok:
  assumes "handle_messages n e a m w = Some (Inr w')" and "steady_but a w" and "is_open w a"
  shows "steady_but a w' \<and> room w' a \<and> interest w' = interest w \<and>
     map_option conn_fd (conns w' a) = map_option conn_fd (conns w a) \<and>
     (\<forall>b. b \<noteq> a \<longrightarrow> view w' b = view w b)"
  using assms
proof (induction n arbitrary: m w)
  case (Suc n)
  from Suc.prems(1) obtain v0 found where nr: "next_round a w = Inr (v0, found)"
    by (cases "next_round a w") auto
  then obtain c cn where c: "client_mem w a = Some c"
    and r: "conn_read_message (conn c) = Inr (cn, found)" and v0: "v0 = set_conn a cn w"
    by (auto simp: next_round_def get_client_eq elim!: rbind_InrE)
  note st = conn_read_message_step [OF steady_client [OF Suc.prems(2) c] r]
  note sc = set_conn_steady [OF Suc.prems(2) c st(1,2,3,4)]
  have o: "is_open (set_conn a cn w) a" using Suc.prems(3) by (simp add: is_open_def sc(2))
  have fd: "map_option conn_fd (conns (set_conn a cn w) a) = map_option conn_fd (conns w a)"
    using c st(3) by (simp add: sc(4) conns_def view_def)
  show ?case
  proof (cases found)
    case True
    with Suc.prems(1) nr v0 obtain v m' where v: "handle_one e a m (set_conn a cn w) = Inr (v, m')"
      "handle_messages n e a m' v = Some (Inr w')" by (auto split: sum.splits)
    have h: "steady_but a v" "conns v = conns (set_conn a cn w)" "interest v = interest (set_conn a cn w)"
      "\<And>b. b \<noteq> a \<Longrightarrow> view v b = view (set_conn a cn w) b"
      using handle_one_ok [OF v(1) sc(1) o] by auto
    have "is_open v a" using o by (simp add: is_open_def h(3))
    from Suc.IH [OF v(2) h(1) this] show ?thesis using h(2,3,4) sc(2) fd by (simp add: view_set_conn)
  next
    case False
    then have "w' = set_conn a cn w" using Suc.prems(1) nr v0 by simp
    moreover have "room (set_conn a cn w) a" using st(6) False by (simp add: room_def sc(4))
    ultimately show ?thesis using sc fd by (simp add: view_set_conn)
  qed
qed simp

text \<open>Enough rounds: they are bounded by the bytes in the store.\<close>

lemma handle_messages_enough:
  assumes "steady_but a w" and "is_open w a"
    and "\<And>cn. conns w a = Some cn \<Longrightarrow> totalRead cn < n" and "0 < n"
  shows "handle_messages n e a m w \<noteq> None"
  using assms
proof (induction n arbitrary: m w)
  case (Suc n)
  show ?case
  proof (cases "next_round a w")
    case (Inr p)
    obtain v0 found where p: "p = (v0, found)" by (cases p)
    from Inr p obtain c cn where c: "client_mem w a = Some c"
      and r: "conn_read_message (conn c) = Inr (cn, found)" and v0: "v0 = set_conn a cn w"
      by (auto simp: next_round_def get_client_eq elim!: rbind_InrE)
    note st = conn_read_message_step [OF steady_client [OF Suc.prems(1) c] r]
    note sc = set_conn_steady [OF Suc.prems(1) c st(1,2,3,4)]
    have o: "is_open v0 a" using Suc.prems(2) by (simp add: is_open_def sc(2) v0)
    show ?thesis
    proof (cases found)
      case True
      show ?thesis
      proof (cases "handle_one e a m v0")
        case (Inr q)
        obtain v m' where q: "q = (v, m')" by (cases q)
        have h: "steady_but a v" "conns v = conns v0" "interest v = interest v0"
          using handle_one_ok [of e a m v0 v m'] Inr q sc(1) o v0 by auto
        have "totalRead (conn c) \<le> n"
          using Suc.prems(3) view_SomeI [OF c] by (auto simp: conns_def)
        then have less: "totalRead cn < n" using st(5) True by simp
        then have "\<And>k. conns v a = Some k \<Longrightarrow> totalRead k < n" "0 < n"
          by (auto simp: h(2) v0 sc(4))
        moreover have "is_open v a" using o by (simp add: is_open_def h(3))
        ultimately have "handle_messages n e a m' v \<noteq> None" using Suc.IH h(1) by blast
        then show ?thesis using \<open>next_round a w = Inr p\<close> p True Inr q by simp
      qed (use Inr p True in simp)
    qed (use Inr p in simp)
  qed simp
qed simp

subsection \<open>Events\<close>

definition steady :: "world \<Rightarrow> bool" where
  "steady w \<longleftrightarrow> world_ok w \<and> complete_but {} w \<and> (\<forall>b. idle w b) \<and> (\<forall>b. room w b)"

lemma steady_steady_but: "steady w \<Longrightarrow> steady_but a w"
  by (simp add: steady_def steady_but_def)

lemma steady_but_room: "steady_but a w \<Longrightarrow> room w a \<Longrightarrow> steady w"
  unfolding steady_def steady_but_def by metis

lemma Conn_ReadStoreBuffer_ok:
  assumes "Conn_ReadStoreBuffer cn rr = Inr (cn', n)" and "conn_wf cn"
  shows "conn_wf cn'" "discardNext cn' = discardNext cn" "conn_fd cn' = conn_fd cn"
    "conn_responses cn' = conn_responses cn" "n = -1 \<Longrightarrow> cn' = cn"
  using assms
  by (auto simp: Conn_ReadStoreBuffer_def conn_wf_def memcpy_def Let_def
      split: read_result.splits if_splits)

lemma handle_store_ok:
  assumes "handle_store e a w = Inr w'" and "steady_but a w" and "is_open w a"
  shows "steady w' \<and> interest w' = interest w \<and> map_option conn_fd (conns w' a) = map_option conn_fd (conns w a) \<and>
     (\<forall>b. b \<noteq> a \<longrightarrow> view w' b = view w b)"
  using assms handle_messages_ok [of "IRC_MSG_SIZE + 1" e a zero_message w w']
  by (auto simp: handle_store_def split: option.splits intro: steady_but_room)

text \<open>Closing a connection.\<close>

lemma distinct_fst_unique: "distinct (map fst xs) \<Longrightarrow> (k, v) \<in> set xs \<Longrightarrow> (k, v') \<in> set xs \<Longrightarrow> v = v'"
  by (metis eq_key_imp_eq_value)

lemma set_delete: "set (AList.delete k xs) = {p \<in> set xs. fst p \<noteq> k}"
  by (auto simp: AList.delete_eq)

lemma is_open_close:
  assumes "interest_inv w" and "(fd, client_handler fd a) \<in> set (interest w)"
  shows "is_open (close_fd fd w) x \<longleftrightarrow> is_open w x \<and> x \<noteq> a"
proof -
  have uniq: "f = fd" if "(f, client_handler f a) \<in> set (interest w)" for f
  proof -
    obtain c where "view w a = Some c" "conn_fd (conn c) = fd"
      using assms by (fastforce simp: interest_inv_def entry_ok_def client_handler_def server_handler_def)
    moreover have "entry_ok w (f, client_handler f a)" using assms(1) that by (auto simp: interest_inv_def)
    ultimately show ?thesis by (auto simp: entry_ok_def client_handler_def server_handler_def)
  qed
  have same: "x = a" if "(fd, client_handler fd x) \<in> set (interest w)" for x
  proof -
    have "client_handler fd x = client_handler fd a"
      using distinct_fst_unique [OF _ that assms(2)] assms(1) by (simp add: interest_inv_def)
    then show ?thesis by (simp add: client_handler_def)
  qed
  have "is_open (close_fd fd w) x \<longleftrightarrow> (\<exists>f. (f, client_handler f x) \<in> set (interest w) \<and> f \<noteq> fd)"
    by (simp add: is_open_def close_fd_def set_delete)
  also have "\<dots> \<longleftrightarrow> is_open w x \<and> x \<noteq> a"
    unfolding is_open_def using uniq same by metis
  finally show ?thesis .
qed

lemma close_world_ok:
  assumes "world_ok w" and c: "client_mem w a = Some c" and "is_open w a"
    and w': "w' = (if registered c then upd_server (\<lambda>s. s\<lparr>nUsers := nUsers s - 1\<rparr>) (close_fd (conn_fd (conn c)) w)
                   else upd_server (\<lambda>s. s\<lparr>nUnknown := nUnknown s - 1\<rparr>) (close_fd (conn_fd (conn c)) w))"
  shows "world_ok w'" "view w' = view w" "interest w' = AList.delete (conn_fd (conn c)) (interest w)"
proof -
  let ?fd = "conn_fd (conn c)"
  show v: "view w' = view w" and i: "interest w' = AList.delete ?fd (interest w)"
    by (simp_all add: w' close_fd_def)
  have va: "view w a = Some (core c)" by (rule view_SomeI [OF c])
  have ii: "interest_inv w" using assms(1) by (simp add: world_ok_def)
  have en: "(?fd, client_handler ?fd a) \<in> set (interest w)" using is_open_fd [OF ii assms(3) va] by simp
  have op: "is_open w' x \<longleftrightarrow> is_open w x \<and> x \<noteq> a" for x
    using is_open_close [OF ii en, of x] by (simp add: is_open_def w' close_fd_def)
  have s: "idCounter (server w') = idCounter (server w)" "clients (server w') = clients (server w)"
    "nicks (server w') = nicks (server w)" "channels (server w') = channels (server w)"
    "server_fd (server w') = server_fd (server w)" "server_hostname (server w') = server_hostname (server w)"
    "nOperators (server w') = nOperators (server w)" "nChannels (server w') = nChannels (server w)"
    "nServices (server w') = nServices (server w)" "nServers (server w') = nServers (server w)"
    "channel_mem w' = channel_mem w" "next_addr w' = next_addr w"
    "nUsers (server w') = (if registered c then nUsers (server w) - 1 else nUsers (server w))"
    "nUnknown (server w') = (if registered c then nUnknown (server w) else nUnknown (server w) - 1)"
    by (simp_all add: w' close_fd_def)
  have "nick_owner w' = nick_owner w"
    by (rule ext) (simp add: nick_owner_def v s split: option.split)
  then have "nicks_inv w'" using assms(1) by (simp add: world_ok_def nicks_inv_def s)
  moreover have "clients_inv w'" "channels_inv w'" "hostname_inv w'"
    using assms(1) by (simp_all add: world_ok_def clients_inv_def channels_inv_def hostname_inv_def v s)
  moreover have "interest_inv w'"
    using ii unfolding interest_inv_def entry_ok_def v s i by (auto simp: distinct_delete set_delete)
  moreover have "counters_inv w'"
  proof -
    have gone: "open_clients w' b = open_clients w b - {a}" for b
      by (auto simp: open_clients_def op v)
    have mem: "a \<in> open_clients w b \<longleftrightarrow> registered c = b" for b
      using assms(3) va by (simp add: open_clients_def)
    have card: "card (open_clients w b) = (if registered c = b then Suc (card (open_clients w' b))
        else card (open_clients w' b))" for b
      using card.remove [of "open_clients w b" a] mem [of b] by (auto simp: gone)
    have "leaked w' = leaked w" by (simp add: leaked_def v s)
    then show ?thesis
      using assms(1) card [of True] card [of False]
      by (auto simp: world_ok_def counters_inv_def s split: if_splits)
  qed
  ultimately show "world_ok w'" by (simp add: world_ok_def)
qed

lemma Client_HandleRead_ok:
  assumes "Client_HandleRead e rr a w = Inr (w', r)" and "steady w" and "is_open w a"
    and c: "client_mem w a = Some c"
  shows "steady w' \<and> (interest w' = interest w \<or> interest w' = AList.delete (conn_fd (conn c)) (interest w)) \<and>
     (\<forall>b. b \<noteq> a \<longrightarrow> view w' b = view w b)"
proof -
  from assms(1) c obtain cn n where rd: "Conn_ReadStoreBuffer (conn c) rr = Inr (cn, n)"
    by (auto simp: Client_HandleRead_def get_client_def elim!: rbind_InrE)
  have sb: "steady_but a w" using assms(2) by (rule steady_steady_but)
  note cw = steady_client [OF sb c]
  note rb = Conn_ReadStoreBuffer_ok [OF rd cw(1)]
  have nd: "\<not> discardNext cn" using rb(2) cw(2) by simp
  note sc = set_conn_steady [OF sb c rb(1) nd rb(3,4)]
  let ?v = "set_conn a cn w"
  show ?thesis
  proof (cases "n = -1")
    case True
    then have "w' = ?v" using assms(1) c rd by (simp add: Client_HandleRead_def get_client_def Let_def)
    moreover
    have "conn (core (c\<lparr>conn := cn\<rparr>)) = conn (core c)" unfolding rb(5) [OF True] by simp
    then have "conns ?v = conns w" unfolding sc(4) by (simp add: fun_eq_iff conns_def view_def c)
    from room_conns [OF this] have "room ?v a" using assms(2) by (simp add: steady_def)
    ultimately show ?thesis using steady_but_room [OF sc(1)] sc(2) by (simp add: view_set_conn)
  next
    case False
    have "Client_HandleRead e rr a w =
        rbind (handle_store e a ?v) (\<lambda>w. if n = 0 then close_client a w else Inr (w, 0))"
      using False by (simp add: Client_HandleRead_def get_client_def c rd)
    with assms(1) have "rbind (handle_store e a ?v)
        (\<lambda>w. if n = 0 then close_client a w else Inr (w, 0)) = Inr (w', r)" by simp
    then obtain u where u: "handle_store e a ?v = Inr u"
      and rest: "(if n = 0 then close_client a u else Inr (u, 0)) = Inr (w', r)"
      by (rule rbind_InrE)
    have o: "is_open ?v a" using assms(3) by (simp add: is_open_def sc(2))
    have st: "steady u" "interest u = interest w"
      "map_option conn_fd (conns u a) = map_option conn_fd (conns ?v a)"
      and others: "\<And>b. b \<noteq> a \<Longrightarrow> view u b = view w b"
      using handle_store_ok [OF u sc(1) o] sc(2) by (auto simp: view_set_conn)
    show ?thesis
    proof (cases "n = 0")
      case True
      with rest obtain d where d: "client_mem u a = Some d"
        and w': "w' = (if registered d then upd_server (\<lambda>s. s\<lparr>nUsers := nUsers s - 1\<rparr>) (close_fd (conn_fd (conn d)) u)
                   else upd_server (\<lambda>s. s\<lparr>nUnknown := nUnknown s - 1\<rparr>) (close_fd (conn_fd (conn d)) u))"
        by (auto simp: close_client_def Let_def get_client_eq elim!: rbind_InrE)
      have ou: "is_open u a" using assms(3) st(2) by (simp add: is_open_def)
      have ok: "world_ok u" using st(1) by (simp add: steady_def)
      note cl = close_world_ok [OF ok d ou w']
      have "conn_fd (conn d) = conn_fd (conn c)"
      proof -
        have "map_option conn_fd (conns u a) = Some (conn_fd (conn d))"
          using view_SomeI [OF d] by (simp add: conns_def)
        moreover have "map_option conn_fd (conns ?v a) = Some (conn_fd cn)" by (simp add: sc(4))
        ultimately show ?thesis using st(3) rb(3) by simp
      qed
      moreover have "idle w' = idle u" by (simp add: w' close_fd_def)
      moreover have "room w' = room u" by (rule room_conns) (simp add: conns_def cl(2) fun_eq_iff)
      moreover have "complete_but {} w' = complete_but {} u" by (simp add: complete_but_def cl(2))
      ultimately show ?thesis using cl st(1,2) others by (auto simp: steady_def)
    qed (use rest st others in auto)
  qed
qed

text \<open>Accepting a connection.\<close>

lemma zero_client_ok: "client_ok (core (zero_client\<lparr>clientId := i, conn := zero_conn\<lparr>conn_fd := fd\<rparr>,
    client_hostname := getnameinfo_hostname host\<rparr>))"
proof -
  have "array_ok (IRC_HOSTNAME_MAX + 1) (getnameinfo_hostname host)"
    unfolding getnameinfo_hostname_def by (rule array_ok_pad) (auto split: if_splits)
  then show ?thesis
    by (simp add: client_ok_def zero_client_def zero_conn_def conn_wf_def core_def array_ok_def cstring_def)
qed

lemma fresh_client:
  assumes "world_ok w"
  shows "view w (next_addr w) = None" "g_lookup (clients (server w)) (idCounter (server w)) = None"
    "g_lookup (clients (server w)) i \<noteq> Some (next_addr w)"
  using assms unfolding world_ok_def clients_inv_def
  by (metis less_irrefl option.exhaust, metis less_irrefl option.exhaust, metis less_irrefl)

lemma Server_HandleReadEvent_cases:
  assumes "Server_HandleReadEvent ar ok w = Inr w'"
  obtains (failed) "ar = Accept_error" "w' = w\<lparr>next_addr := next_addr w + 1\<rparr>"
  | (accepted) fd host a id c s where "ar = Accepted fd host" "a = next_addr w" "id = idCounter (server w)"
      "id + 1 < 2 ^ 31"
      "c = zero_client\<lparr>clientId := id, conn := zero_conn\<lparr>conn_fd := fd\<rparr>,
             client_hostname := getnameinfo_hostname host\<rparr>"
      "s = (server w)\<lparr>idCounter := id + 1, clients := g_insert id a (clients (server w)),
             nUnknown := nUnknown (server w) + 1\<rparr>"
      "w' = (if ok \<and> fd \<notin> fst ` set (interest w)
             then w\<lparr>server := s, next_addr := a + 1, client_mem := (client_mem w)(a \<mapsto> c),
                    interest := interest w @ [(fd, client_handler fd a)]\<rparr>
             else w\<lparr>server := s, next_addr := a + 1, client_mem := (client_mem w)(a := None)\<rparr>)"
proof (cases ar)
  case Accept_error
  with assms show ?thesis by (intro failed) (auto simp: Server_HandleReadEvent_def Let_def)
next
  case (Accepted fd host)
  have lt: "idCounter (server w) + 1 < 2 ^ 31"
    using assms Accepted
    by (auto simp: Server_HandleReadEvent_def server_generate_id_def Let_def split: if_splits)
  show ?thesis
  proof (rule accepted [OF Accepted refl refl lt refl refl])
    show "w' = (if ok \<and> fd \<notin> fst ` set (interest w)
             then w\<lparr>server := (server w)\<lparr>idCounter := idCounter (server w) + 1,
                       clients := g_insert (idCounter (server w)) (next_addr w) (clients (server w)),
                       nUnknown := nUnknown (server w) + 1\<rparr>, next_addr := next_addr w + 1,
                    client_mem := (client_mem w)(next_addr w \<mapsto>
                      zero_client\<lparr>clientId := idCounter (server w), conn := zero_conn\<lparr>conn_fd := fd\<rparr>,
                        client_hostname := getnameinfo_hostname host\<rparr>),
                    interest := interest w @ [(fd, client_handler fd (next_addr w))]\<rparr>
             else w\<lparr>server := (server w)\<lparr>idCounter := idCounter (server w) + 1,
                       clients := g_insert (idCounter (server w)) (next_addr w) (clients (server w)),
                       nUnknown := nUnknown (server w) + 1\<rparr>, next_addr := next_addr w + 1,
                    client_mem := (client_mem w)(next_addr w := None)\<rparr>)"
      using assms Accepted lt
      by (auto simp: Server_HandleReadEvent_def server_generate_id_def Let_def reactor_register_handler_def
          client_handler_def upd_server_def split: if_splits)
  qed
qed

lemma world_ok_bump: "world_ok w \<Longrightarrow> world_ok (w\<lparr>next_addr := next_addr w + 1\<rparr>)"
proof -
  assume w: "world_ok w"
  let ?w = "w\<lparr>next_addr := next_addr w + 1\<rparr>"
  have v: "view ?w = view w" by (simp add: view_def fun_eq_iff)
  have "channels_inv ?w"
    using w unfolding world_ok_def channels_inv_def v by (auto intro: less_SucI)
  then show ?thesis by (intro inv_channels_change [OF w v, where cs = "channels (server w)"]) simp_all
qed

lemma accepted_world_ok:
  fixes id :: int
  assumes "world_ok w" and id: "id = idCounter (server w)" "id + 1 < 2 ^ 31" and a: "a = next_addr w"
    and c: "client_ok (core c)" "clientId c = id" "conn_fd (conn c) = fd" "\<not> registered c" "\<not> receivedNick c"
    and fd: "fd \<notin> fst ` set (interest w)"
    and w': "w' = w\<lparr>server := (server w)\<lparr>idCounter := id + 1, clients := g_insert id a (clients (server w)),
               nUnknown := nUnknown (server w) + 1\<rparr>, next_addr := a + 1,
               client_mem := (client_mem w)(a \<mapsto> c), interest := interest w @ [(fd, client_handler fd a)]\<rparr>"
  shows "world_ok w'"
proof -
  note fresh = fresh_client [OF assms(1)]
  have v: "view w' = (view w)(a \<mapsto> core c)" by (simp add: view_def w' fun_eq_iff)
  have va: "view w a = None" using fresh(1) a by simp
  have s: "idCounter (server w') = id + 1" "g_lookup (clients (server w')) = (g_lookup (clients (server w)))(id \<mapsto> a)"
    "nicks (server w') = nicks (server w)" "channels (server w') = channels (server w)"
    "server_fd (server w') = server_fd (server w)" "server_hostname (server w') = server_hostname (server w)"
    "nOperators (server w') = nOperators (server w)" "nChannels (server w') = nChannels (server w)"
    "nServices (server w') = nServices (server w)" "nServers (server w') = nServers (server w)"
    "channel_mem w' = channel_mem w" "next_addr w' = a + 1"
    "nUsers (server w') = nUsers (server w)" "nUnknown (server w') = nUnknown (server w) + 1"
    "interest w' = interest w @ [(fd, client_handler fd a)]" by (simp_all add: w')
  have wf: "g_wf (clients (server w'))" using assms(1) by (simp add: w' world_ok_def clients_inv_def)
  have ci: "clients_inv w" using assms(1) by (simp add: world_ok_def)
  have no_id: "clientId d \<noteq> id" if "view w b = Some d" for b d
    using ci that id unfolding clients_inv_def by (metis less_irrefl)
  have ids: "client_ok d \<and> b < a + 1 \<and> 1 \<le> clientId d \<and> ((g_lookup (clients (server w)))(id \<mapsto> a)) (clientId d) = Some b"
    if "view w' b = Some d" for b d
  proof (cases "b = a")
    case True
    then have d: "d = core c" using that by (simp add: v)
    have "clientId d = id" using c(2) by (simp add: d)
    then show ?thesis using c(1) ci id True by (simp add: d clients_inv_def)
  next
    case False
    then have b: "view w b = Some d" using that by (simp add: v)
    show ?thesis using ci b no_id [OF b] a by (auto simp: clients_inv_def intro: less_SucI)
  qed
  have tab: "i < id + 1 \<and> b < a + 1 \<and> (\<forall>d. view w' b = Some d \<longrightarrow> clientId d = i)"
    if "((g_lookup (clients (server w)))(id \<mapsto> a)) i = Some b" for i b
  proof (cases "i = id")
    case True
    then show ?thesis using that c(2) by (simp add: v)
  next
    case False
    then have l: "g_lookup (clients (server w)) i = Some b" using that by simp
    then have "b \<noteq> a" using fresh(3) a by auto
    then show ?thesis using ci l id(1) a by (fastforce simp: clients_inv_def v)
  qed
  have "clients_inv w'"
    using ci id wf ids tab unfolding clients_inv_def s by auto
  moreover have "nick_owner w' = nick_owner w"
  proof (rule ext)
    fix i
    show "nick_owner w' i = nick_owner w i"
    proof (cases "i = id")
      case True
      then show ?thesis using fresh(2) id(1) c(5) by (simp add: nick_owner_def s v)
    next
      case False
      then show ?thesis using fresh(3) [of i] a
        by (auto simp: nick_owner_def s v split: option.split)
    qed
  qed
  then have "nicks_inv w'" using assms(1) by (simp add: world_ok_def nicks_inv_def s)
  moreover have "channels_inv w'"
  proof -
    have k: "channel_ok k" "ch < next_addr w"
        "\<And>i b. g_lookup (members k) i = Some b \<Longrightarrow> \<exists>d. view w b = Some d \<and> clientId d = i"
      if "channel_mem w ch = Some k" for ch k
      using inv_channel [OF assms(1) that] by auto
    have mono: "\<exists>d. view w b = Some d \<and> clientId d = i \<Longrightarrow> \<exists>d. view w' b = Some d \<and> clientId d = i" for b i
      using va by (auto simp: v)
    have wfc: "g_wf (channels (server w))" using assms(1) by (simp add: world_ok_def channels_inv_def)
    show ?thesis unfolding channels_inv_def s
    proof (intro conjI allI impI wfc)
      fix ch k assume ck: "channel_mem w ch = Some k"
      show "channel_ok k" by (rule k(1) [OF ck])
      show "ch < a + 1" using k(2) [OF ck] a by simp
      fix i b assume "g_lookup (members k) i = Some b"
      then show "\<exists>d. view w' b = Some d \<and> clientId d = i" by (rule mono [OF k(3) [OF ck]])
    qed
  qed
  moreover have "interest_inv w'"
  proof -
    have ii: "interest_inv w" using assms(1) by (simp add: world_ok_def)
    have "entry_ok w' en" if "entry_ok w en" for en
      using that va unfolding entry_ok_def s v by (auto simp: fun_upd_def)
    moreover have "entry_ok w' (fd, client_handler fd a)"
      using c(3) by (auto simp: entry_ok_def v)
    ultimately show ?thesis using ii fd unfolding interest_inv_def s by auto
  qed
  moreover have "counters_inv w'"
  proof -
    have not_open: "\<not> is_open w a"
    proof
      assume "is_open w a"
      then obtain f where "(f, client_handler f a) \<in> set (interest w)" by (auto simp: is_open_def)
      then have "entry_ok w (f, client_handler f a)"
        using assms(1) by (auto simp: world_ok_def interest_inv_def)
      then show False using va by (auto simp: entry_ok_def client_handler_def server_handler_def)
    qed
    have op: "is_open w' b \<longleftrightarrow> is_open w b \<or> b = a" for b
      by (auto simp: is_open_def s client_handler_def)
    have "open_clients w' True = open_clients w True"
      using c(4) va by (auto simp: open_clients_def op v)
    moreover have "open_clients w' False = insert a (open_clients w False)"
      using c(4) va by (auto simp: open_clients_def op v)
    moreover have "a \<notin> open_clients w False" using not_open by (simp add: open_clients_def)
    moreover have "leaked w' = leaked w"
    proof -
      have "b \<noteq> a" if "g_lookup (clients (server w)) i = Some b" for i b
        using that fresh(3) a by auto
      then show ?thesis using fresh(2) id(1) unfolding leaked_def s v
        by (intro Collect_cong) (metis fun_upd_apply option.distinct(1) option.inject)
    qed
    ultimately show ?thesis
      using assms(1) by (simp add: world_ok_def counters_inv_def s)
  qed
  moreover have "hostname_inv w'" using assms(1) by (simp add: world_ok_def hostname_inv_def s)
  ultimately show ?thesis by (simp add: world_ok_def)
qed

lemma refused_world_ok:
  fixes id :: int
  assumes "world_ok w" and id: "id = idCounter (server w)" "id + 1 < 2 ^ 31" and a: "a = next_addr w"
    and w': "w' = w\<lparr>server := (server w)\<lparr>idCounter := id + 1, clients := g_insert id a (clients (server w)),
               nUnknown := nUnknown (server w) + 1\<rparr>, next_addr := a + 1,
               client_mem := (client_mem w)(a := None)\<rparr>"
  shows "world_ok w'" "view w' = view w" "interest w' = interest w"
proof -
  note fresh = fresh_client [OF assms(1)]
  have va: "view w a = None" using fresh(1) a by simp
  then have "client_mem w a = None" by (simp add: view_None)
  then show v: "view w' = view w" by (simp add: view_def w' fun_eq_iff)
  show i: "interest w' = interest w" by (simp add: w')
  have s: "idCounter (server w') = id + 1" "g_lookup (clients (server w')) = (g_lookup (clients (server w)))(id \<mapsto> a)"
    "nicks (server w') = nicks (server w)" "channels (server w') = channels (server w)"
    "server_fd (server w') = server_fd (server w)" "server_hostname (server w') = server_hostname (server w)"
    "nOperators (server w') = nOperators (server w)" "nChannels (server w') = nChannels (server w)"
    "nServices (server w') = nServices (server w)" "nServers (server w') = nServers (server w)"
    "channel_mem w' = channel_mem w" "next_addr w' = a + 1"
    "nUsers (server w') = nUsers (server w)" "nUnknown (server w') = nUnknown (server w) + 1"
    by (simp_all add: w')
  have wf: "g_wf (clients (server w'))" using assms(1) by (simp add: w' world_ok_def clients_inv_def)
  have ci: "clients_inv w" using assms(1) by (simp add: world_ok_def)
  have no_id: "clientId d \<noteq> id" if "view w b = Some d" for b d
    using ci that id unfolding clients_inv_def by (metis less_irrefl)
  have "clients_inv w'"
    unfolding clients_inv_def s v
  proof (intro conjI allI impI wf)
    show "1 \<le> id + 1" "id + 1 < 2 ^ 31" using ci id by (auto simp: clients_inv_def)
    fix b d assume b: "view w b = Some d"
    show "client_ok d" "b < a + 1" "1 \<le> clientId d"
      using ci b a by (auto simp: clients_inv_def intro: less_SucI)
    show "((g_lookup (clients (server w)))(id \<mapsto> a)) (clientId d) = Some b"
      using ci b no_id [OF b] by (simp add: clients_inv_def)
  next
    fix i b assume l: "((g_lookup (clients (server w)))(id \<mapsto> a)) i = Some b"
    have "i < id \<and> b < a" if "i \<noteq> id" using that l ci id(1) a by (auto simp: clients_inv_def)
    moreover have "b = a" if "i = id" using that l by simp
    ultimately show "i < id + 1" "b < a + 1" by (cases "i = id"; simp)+
    fix d assume "view w b = Some d"
    then show "clientId d = i" using ci l va by (auto simp: clients_inv_def split: if_splits)
  qed
  moreover have "nick_owner w' = nick_owner w"
    by (rule ext) (use va fresh(2) id in \<open>auto simp: nick_owner_def s v split: option.split\<close>)
  then have "nicks_inv w'" using assms(1) by (simp add: world_ok_def nicks_inv_def s)
  moreover have "channels_inv w'"
    using assms(1) a unfolding world_ok_def channels_inv_def s v by (auto intro: less_SucI)
  moreover have "interest_inv w'" "hostname_inv w'"
    using assms(1) by (simp_all add: world_ok_def interest_inv_def entry_ok_def hostname_inv_def s v i)
  moreover have "counters_inv w'"
  proof -
    have "open_clients w' b = open_clients w b" for b by (simp add: open_clients_def is_open_def v i)
    moreover have "leaked w' = insert id (leaked w)" using va by (auto simp: leaked_def s v)
    moreover have "id \<notin> leaked w" using fresh(2) id(1) by (simp add: leaked_def)
    moreover have "finite (leaked w)" by (rule finite_leaked [OF ci])
    ultimately show ?thesis
      using assms(1) by (simp add: world_ok_def counters_inv_def s)
  qed
  ultimately show "world_ok w'" by (simp add: world_ok_def)
qed

lemma Server_HandleReadEvent_ok:
  assumes "Server_HandleReadEvent ar ok w = Inr w'" and "steady w"
  shows "steady w' \<and> set (interest w) \<subseteq> set (interest w')"
  using assms(1)
proof (cases rule: Server_HandleReadEvent_cases)
  case failed
  have v: "view w' = view w" by (simp add: failed(2) view_def fun_eq_iff)
  have "world_ok w'" unfolding failed(2) using assms(2) by (intro world_ok_bump) (simp add: steady_def)
  moreover have "room w' = room w" by (rule room_conns) (simp add: conns_def v fun_eq_iff)
  moreover have "idle w' = idle w" by (simp add: failed(2) idle_def fun_eq_iff)
  moreover have "complete_but {} w'" using assms(2) by (simp add: steady_def complete_but_def v)
  ultimately show ?thesis using assms(2) by (simp add: steady_def failed(2))
next
  case (accepted fd host a cid c s)
  have wok: "world_ok w" using assms(2) by (simp add: steady_def)
  have va: "view w a = None" using fresh_client(1) [OF wok] accepted(2) by simp
  show ?thesis
  proof (cases "ok \<and> fd \<notin> fst ` set (interest w)")
    case True
    then have w': "w' = w\<lparr>server := (server w)\<lparr>idCounter := cid + 1, clients := g_insert cid a (clients (server w)),
               nUnknown := nUnknown (server w) + 1\<rparr>, next_addr := a + 1,
               client_mem := (client_mem w)(a \<mapsto> c), interest := interest w @ [(fd, client_handler fd a)]\<rparr>"
      using accepted(6,7) by simp
    have c: "client_ok (core c)" "clientId c = cid" "conn_fd (conn c) = fd" "\<not> registered c" "\<not> receivedNick c"
      "conn_responses (conn c) = []" "totalRead (conn c) = 0"
      unfolding accepted(5) by (rule zero_client_ok) (simp_all add: zero_client_def zero_conn_def)
    have "world_ok w'"
      using accepted_world_ok [OF wok accepted(3,4,2) c(1-5) _ w'] True by simp
    moreover have v: "view w' = (view w)(a \<mapsto> core c)" by (simp add: view_def w' fun_eq_iff)
    have "complete_but {} w'" using assms(2) c(5) by (auto simp: steady_def complete_but_def v)
    moreover have "idle w' b" for b
      using assms(2) c(6) by (auto simp: steady_def idle_def w')
    moreover have "room w' b" for b
      using assms(2) c(7) by (auto simp: steady_def room_def conns_def v)
    ultimately show ?thesis by (auto simp: steady_def w')
  next
    case False
    then have w': "w' = w\<lparr>server := (server w)\<lparr>idCounter := cid + 1, clients := g_insert cid a (clients (server w)),
               nUnknown := nUnknown (server w) + 1\<rparr>, next_addr := a + 1, client_mem := (client_mem w)(a := None)\<rparr>"
      using accepted(6,7) by auto
    note r = refused_world_ok [OF wok accepted(3,4,2) w']
    have "room w' = room w" by (rule room_conns) (simp add: conns_def r(2) fun_eq_iff)
    moreover have "idle w' b" for b using assms(2) by (auto simp: steady_def idle_def w')
    ultimately show ?thesis using assms(2) r by (simp add: steady_def complete_but_def)
  qed
qed

lemma no_write_bits:
  assumes "bits AND NOT (EPOLLIN OR EPOLLERR OR EPOLLERR OR EPOLLHUP) = (0 :: 32 word)"
  shows "bits AND EPOLLOUT = 0"
proof -
  have "(4 :: 32 word) = NOT (1 OR 8 OR 8 OR 16) AND 4" by simp
  then have "bits AND 4 = (bits AND NOT (1 OR 8 OR 8 OR 16)) AND 4" by (metis and.assoc)
  then show ?thesis using assms by simp
qed

text \<open>One event of the array, for an entry that is (still) in the interest list.\<close>

lemma handle_event_cases:
  assumes "handle_event e ev w = Inr w'" and "interest_inv w"
    and en: "(fd, ev_handler ev) \<in> set (interest w)"
    and bits: "ev_bits ev AND NOT (reactor_configure_events 0 (ev_handler ev) OR EPOLLERR OR EPOLLHUP) = 0"
  obtains (nothing) "w' = w"
  | (accept) "Server_HandleReadEvent (ev_accept ev) (ev_registered ev) w = Inr w'"
  | (read) a d r where "Client_HandleRead e (ev_read ev) a w = Inr (w', r)" "is_open w a"
      "client_mem w a = Some d" "conn_fd (conn d) = fd"
proof -
  have eo: "entry_ok w (fd, ev_handler ev)" using assms(2) en by (auto simp: interest_inv_def)
  then have rw: "handle_read (ev_handler ev) \<noteq> None" "handle_write (ev_handler ev) = None"
    by (auto simp: entry_ok_def server_handler_def client_handler_def)
  then have "reactor_configure_events 0 (ev_handler ev) = EPOLLIN OR EPOLLERR"
    by (simp add: reactor_configure_events_def Let_def)
  then have "ev_bits ev AND EPOLLOUT = 0" using bits no_write_bits [of "ev_bits ev"] by simp
  then consider "w' = w" | "call_read e ev w = Inr w'"
    using assms(1) by (auto simp: handle_event_def elim!: rbind_InrE split: if_splits)
  then show thesis
  proof cases
    case 2
    from eo show thesis unfolding entry_ok_def
    proof (elim disjE conjE exE)
      assume "snd (fd, ev_handler ev) = server_handler (fst (fd, ev_handler ev))"
      then have "Server_HandleReadEvent (ev_accept ev) (ev_registered ev) w = Inr w'"
        using 2 by (simp add: call_read_def server_handler_def)
      then show thesis by (rule accept)
    next
      fix a c
      assume h: "snd (fd, ev_handler ev) = client_handler (fst (fd, ev_handler ev)) a"
        and c: "view w a = Some c" "conn_fd (conn c) = fst (fd, ev_handler ev)"
      then obtain r where r: "Client_HandleRead e (ev_read ev) a w = Inr (w', r)"
        using 2 by (auto simp: call_read_def client_handler_def Client_HandleReadEvent_def elim!: rbind_InrE)
      obtain d where d: "client_mem w a = Some d" "c = core d" using view_SomeD [OF c(1)] by blast
      have "is_open w a" using en h by (auto simp: is_open_def)
      then show thesis by (rule read [OF r _ d(1)]) (use c(2) d(2) in simp)
    qed
  qed (rule nothing)
qed

lemma handle_event_ok:
  assumes "handle_event e ev w = Inr w'" and "steady w"
    and en: "(fd, ev_handler ev) \<in> set (interest w)"
    and bits: "ev_bits ev AND NOT (reactor_configure_events 0 (ev_handler ev) OR EPOLLERR OR EPOLLHUP) = 0"
  shows "steady w' \<and> (\<forall>p\<in>set (interest w). fst p \<noteq> fd \<longrightarrow> p \<in> set (interest w'))"
proof -
  have ii: "interest_inv w" using assms(2) by (simp add: steady_def world_ok_def)
  from assms(1) ii en bits show ?thesis
  proof (cases rule: handle_event_cases)
    case accept
    from Server_HandleReadEvent_ok [OF accept assms(2)] show ?thesis by auto
  next
    case (read a d r)
    from Client_HandleRead_ok [OF read(1) assms(2) read(2,3)] read(4) show ?thesis by (auto simp: set_delete)
  qed (use assms(2) in simp)
qed

lemma reactor_handle_events_keep:
  assumes "reactor_handle_events e evs w = Inr w'" and "steady w" and "reported w evs" and "P w"
    and step: "\<And>u v ev. steady u \<Longrightarrow> P u \<Longrightarrow> handle_event e ev u = Inr v \<Longrightarrow>
      (handler_fd (ev_handler ev), ev_handler ev) \<in> set (interest u) \<Longrightarrow>
      ev_bits ev AND NOT (reactor_configure_events 0 (ev_handler ev) OR EPOLLERR OR EPOLLHUP) = 0 \<Longrightarrow> P v"
  shows "steady w' \<and> P w'"
proof -
  have "steady w' \<and> P w'"
    if "rfold (handle_event e) es u = Inr w'" and "steady u" and "P u"
      and "distinct (map (\<lambda>ev. handler_fd (ev_handler ev)) es)"
      and "\<forall>ev\<in>set es. (handler_fd (ev_handler ev), ev_handler ev) \<in> set (interest u) \<and>
         ev_bits ev AND NOT (reactor_configure_events 0 (ev_handler ev) OR EPOLLERR OR EPOLLHUP) = 0"
    for es u
    using that
  proof (induction es arbitrary: u)
    case (Cons ev es)
    from Cons.prems(1) obtain v where v: "handle_event e ev u = Inr v" "rfold (handle_event e) es v = Inr w'"
      by (auto elim!: rbind_InrE)
    have ok: "steady v \<and> (\<forall>p\<in>set (interest u). fst p \<noteq> handler_fd (ev_handler ev) \<longrightarrow> p \<in> set (interest v))"
      by (rule handle_event_ok [OF v(1) Cons.prems(2)]) (use Cons.prems(5) in auto)
    have "P v" by (rule step [OF Cons.prems(2,3) v(1)]) (use Cons.prems(5) in auto)
    show ?case
    proof (rule Cons.IH [OF v(2) _ \<open>P v\<close>])
      show "\<forall>ev\<in>set es. (handler_fd (ev_handler ev), ev_handler ev) \<in> set (interest v) \<and>
         ev_bits ev AND NOT (reactor_configure_events 0 (ev_handler ev) OR EPOLLERR OR EPOLLHUP) = 0"
      proof
        fix x assume x: "x \<in> set es"
        then have "handler_fd (ev_handler x) \<noteq> handler_fd (ev_handler ev)"
          using Cons.prems(4) by (auto simp: image_iff)
        with x Cons.prems(5) ok show "(handler_fd (ev_handler x), ev_handler x) \<in> set (interest v) \<and>
            ev_bits x AND NOT (reactor_configure_events 0 (ev_handler x) OR EPOLLERR OR EPOLLHUP) = 0"
          by auto
      qed
    qed (use ok Cons.prems(4) in auto)
  qed simp
  then show ?thesis using assms(1-4) by (simp add: reactor_handle_events_def reported_def)
qed

lemma reactor_handle_events_ok:
  "reactor_handle_events e evs w = Inr w' \<Longrightarrow> steady w \<Longrightarrow> reported w evs \<Longrightarrow> steady w'"
  using reactor_handle_events_keep [of e evs w w' "\<lambda>_. True"] by simp

lemma start_server_ok:
  assumes "start_server host mt lfd efd ok = Some w"
  shows "steady w"
proof -
  let ?h = "take IRC_HOSTNAME_MAX (takeWhile (\<lambda>c. c \<noteq> NUL) host)"
  have "NUL \<notin> set ?h" by (auto dest!: in_set_takeD set_takeWhileD)
  then have host: "array_ok HOSTNAME_MAX (pad HOSTNAME_MAX ?h)" by (intro array_ok_pad) auto
  have s: "server w = start_server_state host mt lfd" "view w = (\<lambda>_. None)" "client_mem w = (\<lambda>_. None)"
    "channel_mem w = (\<lambda>_. None)" "interest w = (if ok then [(lfd, server_handler lfd)] else [])"
    using assms by (auto simp: start_server_def reactor_register_handler_def server_handler_def view_def
        split: if_splits)
  have "nick_owner w = (\<lambda>_. None)" by (rule ext) (simp add: nick_owner_def s start_server_state_def)
  then have "nicks_inv w" using gh.owns_empty by (simp add: nicks_inv_def s start_server_state_def)
  then have "world_ok w"
    using host
    by (simp add: world_ok_def clients_inv_def channels_inv_def interest_inv_def counters_inv_def
        hostname_inv_def s start_server_state_def open_clients_def leaked_def entry_ok_def)
  then show ?thesis by (simp add: steady_def complete_but_def idle_def room_def conns_def s)
qed

subsection \<open>Transition systems\<close>

text \<open>
  The contract of a state invariant, and what it gives: everything reachable satisfies it, and so
  does every state of a finite execution.
\<close>

locale transition_system =
  fixes init :: "'s \<Rightarrow> bool"
    and step :: "'s \<Rightarrow> 's \<Rightarrow> bool"
    and good :: "'s \<Rightarrow> bool"
  assumes good_init: "init s \<Longrightarrow> good s"
    and good_step: "good s \<Longrightarrow> step s t \<Longrightarrow> good t"
begin

lemma good_reachable:
  assumes "init s" and "step\<^sup>*\<^sup>* s t"
  shows "good t"
  using assms(2,1) by (induction rule: rtranclp_induct) (auto intro: good_init good_step)

lemma good_consequence:
  assumes "\<And>s. good s \<Longrightarrow> P s" and "init s" and "step\<^sup>*\<^sup>* s t"
  shows "P t"
  using assms good_reachable by blast

lemma good_path:
  assumes "good s" and "successively step (s # ss)" and "t \<in> set (s # ss)"
  shows "good t"
  using assms
proof (induction ss arbitrary: s)
  case (Cons u ss)
  then show ?case using good_step [of s u] by auto
qed simp

end

definition server_started :: "world \<Rightarrow> bool" where
  "server_started w \<longleftrightarrow> (\<exists>host mt lfd efd ok. start_server host mt lfd efd ok = Some w)"

interpretation srv: transition_system server_started "loop_step e" steady for e
  by unfold_locales
    (auto simp: server_started_def loop_step_def intro: start_server_ok reactor_handle_events_ok)

lemma reachable_path: "reachable e w \<Longrightarrow> \<exists>s. server_started s \<and> (loop_step e)\<^sup>*\<^sup>* s w"
proof (induction rule: reachable.induct)
  case (started host mt lfd efd ok w)
  then show ?case unfolding server_started_def by blast
next
  case (stepped w w')
  then show ?case by (meson rtranclp.rtrancl_into_rtrancl)
qed

lemma reachable_is_steady: "reachable e w \<Longrightarrow> steady w"
  using reachable_path srv.good_reachable by blast

subsection \<open>Running the server\<close>

text \<open>Several iterations of the loop, each checked to be one that epoll may report.\<close>

fun run_loop :: "env \<Rightarrow> io_event list list \<Rightarrow> world \<Rightarrow> world option" where
  "run_loop e [] w = Some w"
| "run_loop e (evs # rest) w =
     (if reported w evs then
        (case reactor_handle_events e evs w of Inl _ \<Rightarrow> None | Inr w' \<Rightarrow> run_loop e rest w')
      else None)"

lemma run_loop_reachable: "reachable e w \<Longrightarrow> run_loop e bs w = Some w' \<Longrightarrow> reachable e w'"
proof (induction bs arbitrary: w)
  case (Cons evs rest)
  then obtain v where v: "reported w evs" "reactor_handle_events e evs w = Inr v" "run_loop e rest v = Some w'"
    by (auto split: if_splits sum.splits)
  then have "loop_step e w v" by (auto simp: loop_step_def)
  with Cons v(3) show ?case by (blast intro: reachable.stepped)
qed simp

end
