(* ===== verification/ServerProps.thy ===== *)
theory ServerProps
  imports ServerSafety
begin

text \<open>
  What the invariant says about the server in every state the event loop reaches, stated on the
  server's own data.  The witnesses run a session of two accepted clients.
\<close>

subsection \<open>A session\<close>

definition demo_env :: env where
  "demo_env = \<lparr>iter_members = (\<lambda>h. h), iter_channels = (\<lambda>h. h)\<rparr>"

definition ev_connect :: "int \<Rightarrow> bool \<Rightarrow> io_event" where
  "ev_connect fd ok = \<lparr>ev_handler = server_handler 3, ev_bits = 1, ev_read = Read_error,
     ev_accept = Accepted fd ''host'', ev_registered = ok\<rparr>"

definition demo_run :: "io_event list list \<Rightarrow> world option" where
  "demo_run bs = Option.bind (start_server ''irc.example'' None 3 4 True) (run_loop demo_env bs)"

definition demo_world :: world where
  "demo_world = the (demo_run [[ev_connect 5 True], [ev_connect 6 False]])"

lemma demo_run_reachable: "demo_run bs = Some w \<Longrightarrow> reachable demo_env w"
  by (auto simp: demo_run_def bind_eq_Some_conv intro: run_loop_reachable reachable.started)

lemma demo_run_Some: "demo_run [[ev_connect 5 True], [ev_connect 6 False]] \<noteq> None"
  by code_simp

lemma demo_reachable: "reachable demo_env demo_world"
  using demo_run_Some demo_run_reachable by (auto simp: demo_world_def)

lemma demo_env_ok: "env_ok demo_env"
  by (simp add: demo_env_def env_ok_def iteration_ok_def)

subsection \<open>Shared facts\<close>

lemma view_iff: "(\<exists>c. view w a = Some c \<and> P c) \<longleftrightarrow> (\<exists>c. client_mem w a = Some c \<and> P (core c))"
  by (auto simp: view_def)

lemma client_nickname: "world_ok w \<Longrightarrow> client_mem w a = Some c \<Longrightarrow> cstr (nickname c) = Inr (cstring (nickname c))"
  using inv_client(1) [OF _ view_SomeI] by (fastforce simp: client_ok_def intro: array_ok_cstr)

lemma reachable_world_ok: "reachable e w \<Longrightarrow> world_ok w"
  using reachable_is_steady by (simp add: steady_def)

subsection \<open>Properties\<close>

text \<open>
  C5: the invariant of the event loop.  One iteration, with any array of events epoll may report
  and any results of the system calls in the handlers, takes a state that satisfies the invariant
  \<open>steady\<close> (tables, objects, counters and interest list agree; registration complete; response
  queues empty; room in every store) to one that satisfies it again.
\<close>

theorem loop_keeps_invariant: "steady w \<Longrightarrow> loop_step e w w' \<Longrightarrow> steady w'"
  by (auto simp: loop_step_def intro: reactor_handle_events_ok)

theorem loop_keeps_invariant_witness: "\<exists>w w'. steady w \<and> loop_step demo_env w w' \<and> steady w'"
proof -
  have "case start_server ''irc.example'' None 3 4 True of None \<Rightarrow> False
        | Some w \<Rightarrow> reported w [ev_connect 5 True] \<and>
            (case reactor_handle_events demo_env [ev_connect 5 True] w of Inl _ \<Rightarrow> False | Inr _ \<Rightarrow> True)"
    by code_simp
  then obtain w w' where w: "start_server ''irc.example'' None 3 4 True = Some w"
    "reported w [ev_connect 5 True]" "reactor_handle_events demo_env [ev_connect 5 True] w = Inr w'"
    by (auto split: option.splits sum.splits)
  then have "steady w" "loop_step demo_env w w'"
    by (auto simp: loop_step_def intro: start_server_ok)
  with loop_keeps_invariant [OF this] show ?thesis by blast
qed

text \<open>
  C7: the nickname table is exact.  In every reachable state a nickname is in the table with an id
  if and only if the client object with that id has given exactly that nickname; so no two clients
  hold the same nickname, whatever sequence of NICK commands, registrations and disconnections
  led there.
\<close>

theorem nick_table_exact:
  assumes "reachable e w"
  shows "(g_lookup (nicks (server w)) n = Some i) =
           (\<exists>a c. client_mem w a = Some c \<and> clientId c = i \<and> receivedNick c \<and> cstr (nickname c) = Inr n)"
    (is "?l = ?r")
proof -
  have w: "world_ok w" by (rule reachable_world_ok [OF assms])
  show ?thesis
  proof
    assume ?l
    from inv_nick_lookup [OF w this] obtain a c where "view w a = Some c" "clientId c = i"
      "receivedNick c" "cstring (nickname c) = n" by blast
    then show ?r using client_nickname [OF w] view_SomeD by (metis core_simps(2,4,5))
  next
    assume ?r
    then obtain a c where c: "client_mem w a = Some c" "clientId c = i" "receivedNick c" "cstr (nickname c) = Inr n"
      by blast
    then have "nick_owner w i = Some n"
      using inv_nick_owner [OF w view_SomeI [OF c(1)]] by (simp add: cstr_cstring)
    then show ?l using w by (simp add: world_ok_def nicks_inv_def gh.owns_def)
  qed
qed

text \<open>
  C24: ids are unique and looked up exactly.  In every reachable state each client object has a
  positive id below the counter, the client table finds it under that id, and two client objects
  never share an id.  (Id 0 would be read as "no such nickname".)
\<close>

theorem client_ids_unique:
  assumes "reachable e w" and "client_mem w a = Some c"
  shows "1 \<le> clientId c \<and> clientId c < idCounter (server w) \<and>
         g_lookup (clients (server w)) (clientId c) = Some a \<and>
         {b. \<exists>d. client_mem w b = Some d \<and> clientId d = clientId c} = {a}"
proof -
  have w: "world_ok w" by (rule reachable_world_ok [OF assms(1)])
  have l: "g_lookup (clients (server w)) (clientId d) = Some b" "1 \<le> clientId d"
    if "client_mem w b = Some d" for b d
    using inv_client(3,4) [OF w view_SomeI [OF that]] by simp_all
  have "clientId c < idCounter (server w)"
    using w l(1) [OF assms(2)] unfolding world_ok_def clients_inv_def by blast
  moreover have "b = a" if "client_mem w b = Some d" "clientId d = clientId c" for b d
    using l(1) [OF that(1)] l(1) [OF assms(2)] that(2) by simp
  then have "{b. \<exists>d. client_mem w b = Some d \<and> clientId d = clientId c} = {a}"
    using assms(2) by blast
  ultimately show ?thesis using l [OF assms(2)] by simp
qed

theorem client_ids_unique_witness:
  "\<exists>c. client_mem demo_world 0 = Some c \<and> 1 \<le> clientId c \<and> clientId c < idCounter (server demo_world) \<and>
     g_lookup (clients (server demo_world)) (clientId c) = Some 0 \<and>
     {b. \<exists>d. client_mem demo_world b = Some d \<and> clientId d = clientId c} = {0}"
proof -
  have "client_mem demo_world 0 \<noteq> None" by code_simp
  then obtain c where "client_mem demo_world 0 = Some c" by blast
  with client_ids_unique [OF demo_reachable this] show ?thesis by blast
qed

text \<open>
  C19: registration.  In every reachable state a client is registered exactly when both its NICK and
  its USER command have been accepted, in whichever order they came.
\<close>

theorem registered_iff_nick_and_user:
  assumes "reachable e w" and "client_mem w a = Some c"
  shows "registered c \<longleftrightarrow> receivedNick c \<and> receivedUser c"
proof -
  have s: "steady w" by (rule reachable_is_steady [OF assms(1)])
  have v: "view w a = Some (core c)" by (rule view_SomeI [OF assms(2)])
  from s have "world_ok w" "complete_but {} w" by (simp_all add: steady_def)
  with inv_client(1) [OF _ v] v show ?thesis
    by (fastforce simp: client_ok_def complete_but_def)
qed

text \<open>
  C18: the counters.  In every reachable state \<open>nUsers\<close> is the number of registered clients whose
  connection is open, and \<open>nUnknown\<close> the number of open unregistered ones plus the number of
  entries of the client table whose client has been freed: a client whose registration with epoll
  failed is counted for ever.  (Both are \<open>uint32_t\<close>, hence modulo \<open>2 ^ 32\<close>.)
\<close>

theorem user_counters:
  assumes "reachable e w"
  shows "nUsers (server w) =
           of_nat (card {a. is_open w a \<and> (\<exists>c. client_mem w a = Some c \<and> registered c)}) \<and>
         nUnknown (server w) =
           of_nat (card {a. is_open w a \<and> (\<exists>c. client_mem w a = Some c \<and> \<not> registered c)} +
                   card {i. \<exists>a. g_lookup (clients (server w)) i = Some a \<and> client_mem w a = None})"
  using reachable_world_ok [OF assms]
  by (simp add: world_ok_def counters_inv_def open_clients_def leaked_def view_iff view_None)

theorem user_counters_witness:
  "nUsers (server demo_world) =
     of_nat (card {a. is_open demo_world a \<and> (\<exists>c. client_mem demo_world a = Some c \<and> registered c)}) \<and>
   nUnknown (server demo_world) =
     of_nat (card {a. is_open demo_world a \<and> (\<exists>c. client_mem demo_world a = Some c \<and> \<not> registered c)} +
             card {i. \<exists>a. g_lookup (clients (server demo_world)) i = Some a \<and> client_mem demo_world a = None})"
  by (rule user_counters [OF demo_reachable])

text \<open>
  C22: channel members are live clients.  In every reachable state every entry of a channel's member
  table is a client object that has not been freed, listed under its own id, and its response queue
  is empty: a broadcast never follows a dangling pointer and never flushes old responses.
\<close>

theorem channel_members_live:
  assumes "reachable e w"
  shows "{(i, a). \<exists>ch k. channel_mem w ch = Some k \<and> (i, a) \<in> set (members k)} \<subseteq>
         {(i, a). \<exists>c. client_mem w a = Some c \<and> clientId c = i \<and> conn_responses (conn c) = []}"
proof (clarify)
  fix i a ch k
  assume k: "channel_mem w ch = Some k" and m: "(i, a) \<in> set (members k)"
  have w: "world_ok w" by (rule reachable_world_ok [OF assms])
  have "g_lookup (members k) i = Some a"
    using m inv_channel(1) [OF w k] by (simp add: channel_ok_def g_lookup_in_set)
  with inv_channel(3) [OF w k] obtain c where "view w a = Some c" "clientId c = i" by blast
  then obtain d where "client_mem w a = Some d" "clientId d = i"
    by (auto dest!: view_SomeD)
  moreover have "idle w a" using reachable_is_steady [OF assms] by (simp add: steady_def)
  ultimately show "\<exists>c. client_mem w a = Some c \<and> clientId c = i \<and> conn_responses (conn c) = []"
    by (auto simp: idle_def)
qed

text \<open>
  C17: reading from a client terminates.  In every reachable state, whatever \<open>read\<close> returns for an
  open client, the loop of \<open>Client_HandleRead\<close> over the messages in the store ends within
  \<open>IRC_MSG_SIZE + 1\<close> rounds.
\<close>

theorem client_read_terminates:
  assumes "reachable e w" and "(fd, client_handler fd a) \<in> set (interest w)"
    and "client_mem w a = Some c" and "Conn_ReadStoreBuffer (conn c) rr = Inr (cn, n)"
  shows "handle_messages (IRC_MSG_SIZE + 1) e a zero_message (set_conn a cn w) \<noteq> None"
proof -
  have s: "steady_but a w" by (rule steady_steady_but [OF reachable_is_steady [OF assms(1)]])
  note cw = steady_client [OF s assms(3)]
  note rb = Conn_ReadStoreBuffer_ok [OF assms(4) cw(1)]
  have nd: "\<not> discardNext cn" using rb(2) cw(2) by simp
  note sc = set_conn_steady [OF s assms(3) rb(1) nd rb(3,4)]
  have "totalRead cn < IRC_MSG_SIZE + 1" using rb(1) by (simp add: conn_wf_def)
  moreover have "is_open (set_conn a cn w) a" using assms(2) by (auto simp: is_open_def sc(2))
  ultimately show ?thesis
    by (intro handle_messages_enough [OF sc(1)]) (auto simp: sc(4))
qed

text \<open>Two lines and the beginning of a third arrive in one read.\<close>

theorem client_read_terminates_witness:
  "\<exists>c cn. client_mem demo_world 0 = Some c \<and>
     Conn_ReadStoreBuffer (conn c) (Read_bytes (''NICK ann'' @ CRLF @ ''NICK bob'' @ CRLF @ ''USER'')) = Inr (cn, 24) \<and>
     totalRead cn = 24 \<and>
     handle_messages (IRC_MSG_SIZE + 1) demo_env 0 zero_message (set_conn 0 cn demo_world) \<noteq> None"
proof -
  let ?rr = "Read_bytes (''NICK ann'' @ CRLF @ ''NICK bob'' @ CRLF @ ''USER'')"
  have "case client_mem demo_world 0 of None \<Rightarrow> False | Some c \<Rightarrow>
     (case Conn_ReadStoreBuffer (conn c) ?rr of Inl _ \<Rightarrow> False | Inr (cn, n) \<Rightarrow> n = 24 \<and> totalRead cn = 24)"
    by code_simp
  then obtain c cn where c: "client_mem demo_world 0 = Some c" and r: "Conn_ReadStoreBuffer (conn c) ?rr = Inr (cn, 24)"
      and t: "totalRead cn = 24"
    by (auto split: option.splits sum.splits)
  have i: "(5, client_handler 5 0) \<in> set (interest demo_world)" by code_simp
  from client_read_terminates [OF demo_reachable i c r] c r t show ?thesis by blast
qed

text \<open>
  C23: the arrays keep their types.  In every reachable state each array of each client object, of
  each channel object and of the server has the length it is declared with, and every array that
  the code reads as a string has a terminating NUL in it; no connection has more bytes pending than its
  store holds.
\<close>

theorem arrays_keep_their_types:
  assumes "reachable e w"
  shows "(\<forall>a c. client_mem w a = Some c \<longrightarrow>
       map length [nickname c, username c, client_hostname c, fullname c, away_message c] =
         [IRC_NICK_SIZE + 1, IRC_MSG_SIZE, IRC_HOSTNAME_MAX + 1, IRC_MSG_SIZE, IRC_MSG_SIZE + 1] \<and>
       (\<forall>s\<in>{nickname c, username c, client_hostname c, fullname c, away_message c}. NUL \<in> set s) \<and>
       length (conn_message (conn c)) = IRC_MSG_SIZE \<and> length (store (conn c)) = IRC_MSG_SIZE \<and>
       totalRead (conn c) \<le> IRC_MSG_SIZE) \<and>
     (\<forall>ch k. channel_mem w ch = Some k \<longrightarrow>
       map length [chan_name k, chan_topic k] = [CHANNEL_NAME_MAX + 1, CHANNEL_TOPIC_MAX + 1] \<and>
       NUL \<in> set (chan_name k) \<and> NUL \<in> set (chan_topic k)) \<and>
     length (server_hostname (server w)) = HOSTNAME_MAX \<and> NUL \<in> set (server_hostname (server w))"
    (is "(\<forall>a c. _ \<longrightarrow> ?C c) \<and> (\<forall>ch k. _ \<longrightarrow> ?K k) \<and> ?S")
proof -
  have w: "world_ok w" by (rule reachable_world_ok [OF assms])
  have "?C c" if "client_mem w a = Some c" for a c
  proof -
    have "client_ok (core c)" by (rule inv_client(1) [OF w view_SomeI [OF that]])
    then show ?thesis by (simp add: client_ok_def array_ok_def conn_wf_def)
  qed
  moreover have "?K k" if "channel_mem w ch = Some k" for ch k
    using w that by (auto simp: world_ok_def channels_inv_def channel_ok_def array_ok_def)
  moreover have "?S" using w by (simp add: world_ok_def hostname_inv_def array_ok_def)
  ultimately show ?thesis by blast
qed

theorem arrays_keep_their_types_witness:
  "\<exists>c. client_mem demo_world 0 = Some c \<and> length (nickname c) = 10 \<and> NUL \<in> set (nickname c) \<and>
     length (away_message c) = 513 \<and> length (server_hostname (server demo_world)) = 255"
proof -
  have "client_mem demo_world 0 \<noteq> None" by code_simp
  then obtain c where "client_mem demo_world 0 = Some c" by blast
  with arrays_keep_their_types [OF demo_reachable] show ?thesis by simp
qed

end
