(* ===== verification/EndToEnd.thy ===== *)
theory EndToEnd
  imports SessionProps ServerProps
begin

text \<open>
  From bytes on a socket to the server's state: one line that arrives in one read goes through the
  store, the framing, the parser and its handler, and the responses to the wire.
\<close>

subsection \<open>One line in one read\<close>

lemma set_conn_twice [simp]: "set_conn a x (set_conn a y w) = set_conn a x w"
  by (simp add: set_conn_def upd_client_twice comp_def)

lemma set_conn_simps [simp]:
  "server (set_conn a cn w) = server w" "channel_mem (set_conn a cn w) = channel_mem w"
  "wire (set_conn a cn w) = wire w" "interest (set_conn a cn w) = interest w"
  "client_mem (set_conn a cn w) b =
     (if b = a then map_option (\<lambda>c. c\<lparr>conn := cn\<rparr>) (client_mem w a) else client_mem w b)"
  by (simp_all add: set_conn_def)

text \<open>A connection with nothing pending: what its client has before and after each line.\<close>

definition drained :: "conn_s \<Rightarrow> bool" where
  "drained cn \<longleftrightarrow> conn_wf cn \<and> \<not> discardNext cn \<and> totalRead cn = 0"

lemma store_line:
  assumes "drained cn" and "length l \<le> 510"
  shows "\<exists>cn1. Conn_ReadStoreBuffer cn (Read_bytes (l @ CRLF)) = Inr (cn1, int (length l + 2)) \<and>
     conn_wf cn1 \<and> \<not> discardNext cn1 \<and> pending cn1 = l @ CRLF \<and> conn_frame cn cn1"
proof -
  let ?bs = "l @ CRLF"
  have b: "length ?bs = length l + 2" by (simp add: CRLF_def)
  have s: "length (store cn) = 512" "totalRead cn = 0" using assms(1) by (simp_all add: drained_def conn_wf_def)
  let ?cn = "cn\<lparr>store := ?bs @ drop (length ?bs) (store cn), totalRead := totalRead cn + length ?bs\<rparr>"
  have "Conn_ReadStoreBuffer cn (Read_bytes ?bs) = Inr (?cn, int (length l + 2))"
    using s b assms(2) by (simp add: Conn_ReadStoreBuffer_def memcpy_def)
  moreover have "conn_wf ?cn" using assms s b by (simp add: drained_def conn_wf_def)
  moreover have "pending ?cn = ?bs" using s by (simp add: pending_def)
  ultimately show ?thesis using assms(1) by (intro exI [of _ ?cn]) (simp add: drained_def conn_frame_def)
qed

lemma take_line:
  assumes "conn_wf cn" and "\<not> discardNext cn" and "pending cn = l @ CRLF" and "find_crlf l = None"
  shows "\<exists>cn1. conn_read_message cn = Inr (cn1, True) \<and> drained cn1 \<and> conn_frame cn cn1 \<and>
     conn_message cn1 = pad IRC_MSG_SIZE (l @ CRLF)"
proof -
  have f: "next_message False (l @ CRLF) = (Some (l @ CRLF), False, [])"
    using frame_line [OF assms(4), of "[]"] by (simp add: next_message_def)
  from conn_read_message_refines [OF assms(1)] assms(2,3) obtain cn1 b
    where r: "conn_read_message cn = Inr (cn1, b)" "reads cn b cn1 (Some (l @ CRLF), False, [])"
    by (auto simp: f)
  then have "totalRead cn1 = 0" using length_pending [of cn1] by (simp add: reads_def)
  with r show ?thesis by (auto simp: reads_def drained_def)
qed

lemma take_nothing:
  assumes "drained cn"
  shows "\<exists>cn1. conn_read_message cn = Inr (cn1, False) \<and> drained cn1 \<and> conn_frame cn cn1"
proof -
  have f: "next_message False [] = (None, False, [])" by (simp add: next_message_def frame_def)
  have p: "pending cn = []" using assms by (simp add: drained_def pending_def)
  from conn_read_message_refines [of cn] assms obtain cn1 b
    where r: "conn_read_message cn = Inr (cn1, b)" "reads cn b cn1 (None, False, [])"
    by (auto simp: f p drained_def)
  then have "totalRead cn1 = 0" using length_pending [of cn1] by (simp add: reads_def)
  with r show ?thesis by (auto simp: reads_def drained_def)
qed

text \<open>
  The whole read: if the message buffer holding the line leads \<open>handle_one\<close> to \<open>w'\<close>, the read event
  leads to \<open>w'\<close> up to the connection's buffers.
\<close>

lemma single_line_read:
  assumes c: "client_mem w a = Some c" "drained (conn c)" and l: "find_crlf l = None" "length l \<le> 510"
  obtains cn where "drained cn" "conn_frame (conn c) cn" "conn_message cn = pad IRC_MSG_SIZE (l @ CRLF)"
    "\<And>w' m d. handle_one e a zero_message (set_conn a cn w) = Inr (w', m) \<Longrightarrow> client_mem w' a = Some d \<Longrightarrow>
       drained (conn d) \<Longrightarrow>
       \<exists>cn'. drained cn' \<and> conn_frame (conn d) cn' \<and>
         Client_HandleRead e (Read_bytes (l @ CRLF)) a w = Inr (set_conn a cn' w', 0)"
proof -
  obtain cn1 where cn1: "Conn_ReadStoreBuffer (conn c) (Read_bytes (l @ CRLF)) = Inr (cn1, int (length l + 2))"
    "conn_wf cn1" "\<not> discardNext cn1" "pending cn1 = l @ CRLF" "conn_frame (conn c) cn1"
    using store_line [OF c(2) l(2)] by blast
  obtain cn where cn: "conn_read_message cn1 = Inr (cn, True)" "drained cn" "conn_frame cn1 cn"
    "conn_message cn = pad IRC_MSG_SIZE (l @ CRLF)"
    using take_line [OF cn1(2-4) l(1)] by blast
  have "\<exists>cn'. drained cn' \<and> conn_frame (conn d) cn' \<and>
      Client_HandleRead e (Read_bytes (l @ CRLF)) a w = Inr (set_conn a cn' w', 0)"
    if h: "handle_one e a zero_message (set_conn a cn w) = Inr (w', m)"
      and d: "client_mem w' a = Some d" "drained (conn d)" for w' m d
  proof -
    obtain cn' where cn': "conn_read_message (conn d) = Inr (cn', False)" "drained cn'" "conn_frame (conn d) cn'"
      using take_nothing [OF d(2)] by blast
    have n1: "next_round a (set_conn a cn1 w) = Inr (set_conn a cn w, True)"
      using c(1) cn(1) by (simp add: next_round_def get_client_def)
    have n2: "next_round a w' = Inr (set_conn a cn' w', False)"
      using d(1) cn'(1) by (simp add: next_round_def get_client_def)
    have "(IRC_MSG_SIZE :: nat) + 1 = Suc (Suc 511)" by simp
    then have "handle_messages (IRC_MSG_SIZE + 1) e a zero_message (set_conn a cn1 w) = Some (Inr (set_conn a cn' w'))"
      by (simp only: handle_messages.simps n1 n2 h sum.case prod.case bool.case)
    then have "handle_store e a (set_conn a cn1 w) = Inr (set_conn a cn' w')"
      unfolding handle_store_def by (simp only: option.case)
    then show ?thesis using c(1) cn1(1) cn'(2,3)
      by (intro exI [of _ cn']) (simp add: Client_HandleRead_def get_client_def)
  qed
  with cn cn1(5) show thesis by (intro that [of cn]) (auto intro: conn_frame_trans)
qed

subsection \<open>Signing in\<close>

lemma parse_line:
  assumes "conn_message (conn c) = pad IRC_MSG_SIZE (l @ CRLF)" and "is_line l" and "length l \<le> 510"
  obtains buf m ret where "parse_message (conn_message (conn c)) zero_message = Inr (buf, m, ret)"
    "length buf = IRC_MSG_SIZE" "denotes zero_message buf m ret (parse_spec (tokens (dropWhile (\<lambda>c. c = SP) l)))"
proof -
  have "line_at (conn_message (conn c)) 0 l" using assms(2) by (simp add: line_at_def assms(1) pad_def)
  from parse_message_line [OF this, of zero_message] show thesis
    using assms(3) by (auto simp: parses_def assms(1) length_pad CRLF_def intro: that)
qed

lemma Client_TryEmptyBuffer_idle:
  "client_mem w a = Some c \<Longrightarrow> conn_responses (conn c) = [] \<Longrightarrow> Client_TryEmptyBuffer a w = Inr w"
  by (subst Client_TryEmptyBuffer.simps) (simp add: get_client_def)

lemma set_message_simps [simp]:
  "conn_message (conn (set_message buf c)) = buf" "conn_responses (conn (set_message buf c)) = conn_responses (conn c)"
  "conn_fd (conn (set_message buf c)) = conn_fd (conn c)" "nickname (set_message buf c) = nickname c"
  "receivedNick (set_message buf c) = receivedNick c" "receivedUser (set_message buf c) = receivedUser c"
  "registered (set_message buf c) = registered c" "clientId (set_message buf c) = clientId c"
  "username (set_message buf c) = username c" "fullname (set_message buf c) = fullname c"
  "client_hostname (set_message buf c) = client_hostname c"
  by (simp_all add: set_message_def)

lemma drained_buf: "drained cn \<Longrightarrow> length buf = IRC_MSG_SIZE \<Longrightarrow> drained (cn\<lparr>conn_message := buf\<rparr>)"
  by (simp add: drained_def conn_wf_def)

lemma msg_str_points:
  "client_mem w a = Some c \<Longrightarrow> points (conn_message (conn c)) p s \<Longrightarrow> msg_str a p w = Inr s"
  by (auto simp: msg_str_def msg_ptr_def points_def get_client_def)

lemma is_line_append: "CR \<notin> set p \<Longrightarrow> NUL \<notin> set p \<Longrightarrow> is_line q \<Longrightarrow> is_line (p @ q)"
  by (induction p) (auto simp: is_line_def find_crlf_Cons)

lemma is_line_render:
  "\<forall>w\<in>set ws. word_ok w \<Longrightarrow> (case t of None \<Rightarrow> True | Some x \<Rightarrow> is_line x) \<Longrightarrow> is_line (render ws t)"
proof (induction ws)
  case Nil
  then show ?case by (auto simp: is_line_def find_crlf_Cons split: option.splits)
next
  case (Cons w ws)
  have w: "CR \<notin> set w" "NUL \<notin> set w" using Cons.prems(1) by (auto simp: word_ok_def)
  have "is_line (SP # render ws t)"
    using Cons by (simp add: is_line_append [of "[SP]", simplified])
  with w show ?case by (simp add: is_line_append)
qed

lemma word_is_line: "word_ok n \<Longrightarrow> is_line n"
  using find_crlf_has_CR [of n] by (cases "find_crlf n") (auto simp: is_line_def word_ok_def)

lemma set_message_set_conn: "upd_client a (set_message buf) (set_conn a cn w) = set_conn a (cn\<lparr>conn_message := buf\<rparr>) w"
  by (simp add: set_conn_def upd_client_twice comp_def set_message_def)

text \<open>
  The contract of a read that brings one line: the handler is called on the command the line's
  tokens denote, in a world that differs only in the connection's buffers.
\<close>

lemma line_read:
  assumes c: "client_mem w a = Some c" "drained (conn c)" and l: "is_line l" "length l \<le> 510"
  obtains cn m ret where "drained cn" "conn_frame (conn c) cn"
    "denotes zero_message (conn_message cn) m ret (parse_spec (tokens (dropWhile (\<lambda>c. c = SP) l)))"
    "\<And>u r v d. ret \<noteq> -1 \<Longrightarrow> Handler_HandleMessage e a m (set_conn a cn w) = Inr (u, r) \<Longrightarrow>
       Client_TryEmptyBuffer a u = Inr v \<Longrightarrow> client_mem v a = Some d \<Longrightarrow> drained (conn d) \<Longrightarrow>
       \<exists>cn'. drained cn' \<and> conn_frame (conn d) cn' \<and>
         Client_HandleRead e (Read_bytes (l @ CRLF)) a w = Inr (set_conn a cn' v, 0)"
proof -
  have "find_crlf l = None" using l(1) by (simp add: is_line_def)
  from single_line_read [OF c this l(2), of e] obtain cn where cn: "drained cn" "conn_frame (conn c) cn"
    "conn_message cn = pad IRC_MSG_SIZE (l @ CRLF)"
    and rest: "\<And>w' m d. handle_one e a zero_message (set_conn a cn w) = Inr (w', m) \<Longrightarrow> client_mem w' a = Some d \<Longrightarrow>
       drained (conn d) \<Longrightarrow> \<exists>cn'. drained cn' \<and> conn_frame (conn d) cn' \<and>
         Client_HandleRead e (Read_bytes (l @ CRLF)) a w = Inr (set_conn a cn' w', 0)"
    by blast
  obtain buf m ret where p: "parse_message (conn_message cn) zero_message = Inr (buf, m, ret)"
    "length buf = IRC_MSG_SIZE" "denotes zero_message buf m ret (parse_spec (tokens (dropWhile (\<lambda>c. c = SP) l)))"
    using parse_line [of "c\<lparr>conn := cn\<rparr>" l] l cn(3) by auto
  let ?cn = "cn\<lparr>conn_message := buf\<rparr>"
  show thesis
  proof (rule that [of ?cn m ret])
    show "drained ?cn" by (rule drained_buf [OF cn(1) p(2)])
    show "conn_frame (conn c) ?cn" using cn(2) by (simp add: conn_frame_def)
    fix u r v d
    assume h: "ret \<noteq> -1" "Handler_HandleMessage e a m (set_conn a ?cn w) = Inr (u, r)"
      "Client_TryEmptyBuffer a u = Inr v" and d: "client_mem v a = Some d" "drained (conn d)"
    have "get_client (set_conn a cn w) a = Inr (c\<lparr>conn := cn\<rparr>)" using c(1) by (simp add: get_client_def)
    then have "handle_one e a zero_message (set_conn a cn w) = Inr (v, m)"
      using p(1) h by (simp add: handle_one_def set_message_set_conn)
    then show "\<exists>cn'. drained cn' \<and> conn_frame (conn d) cn' \<and>
        Client_HandleRead e (Read_bytes (l @ CRLF)) a w = Inr (set_conn a cn' v, 0)"
      by (rule rest [OF _ d])
  qed (use p(3) in simp)
qed

lemma take_nick_set_conn: "take_nick a (c\<lparr>conn := cn\<rparr>) old n (set_conn a cn w) = set_conn a cn (take_nick a c old n w)"
  by (cases w, cases "client_mem w a")
    (auto simp: set_conn_def take_nick_def upd_client_def upd_server_def fun_eq_iff)

lemma get_client_mem: "client_mem w a = Some c \<Longrightarrow> get_client w a = Inr c"
  by (simp add: get_client_def)

lemma nick_line:
  assumes c: "client_mem w a = Some c" "drained (conn c)" "conn_responses (conn c) = []" "\<not> receivedUser c"
    and old: "length (nickname c) = IRC_NICK_SIZE + 1" "cstr (nickname c) = Inr old"
    and n: "word_ok n" "length n \<le> 9" and free: "g_lookup (nicks (server w)) n = None"
  shows "\<exists>cn. drained cn \<and> conn_frame (conn c) cn \<and>
     Client_HandleRead e (Read_bytes (''NICK '' @ n @ CRLF)) a w = Inr (set_conn a cn (take_nick a c old n w), 0)"
proof -
  let ?l = "''NICK '' @ n"
  have line: "is_line ?l" using word_is_line [OF n(1)] n(1) by (auto simp: is_line_def find_crlf_Cons word_ok_def)
  have len: "length ?l \<le> 510" using n(2) by simp
  have w: "word_ok ''NICK''" by (simp add: word_ok_def)
  have "tokens ?l = [''NICK'', n]" using tokens_render [of "[''NICK'', n]" None] w n(1) by simp
  then have spec: "parse_spec (tokens (dropWhile (\<lambda>c. c = SP) ?l)) = Cmd_nick n"
    using n by (auto simp: parse_spec_def nonempty_arg_def word_ok_def)
  from line_read [OF c(1,2) line len, of e] obtain cn m ret where cn: "drained cn" "conn_frame (conn c) cn"
    and p: "denotes zero_message (conn_message cn) m ret (Cmd_nick n)"
    and rest: "\<And>u r v d. ret \<noteq> -1 \<Longrightarrow> Handler_HandleMessage e a m (set_conn a cn w) = Inr (u, r) \<Longrightarrow>
       Client_TryEmptyBuffer a u = Inr v \<Longrightarrow> client_mem v a = Some d \<Longrightarrow> drained (conn d) \<Longrightarrow>
       \<exists>cn'. drained cn' \<and> conn_frame (conn d) cn' \<and>
         Client_HandleRead e (Read_bytes (?l @ CRLF)) a w = Inr (set_conn a cn' v, 0)"
    unfolding spec by blast
  let ?v = "set_conn a cn w" and ?u = "set_conn a cn (take_nick a c old n w)"
  have cv: "client_mem ?v a = Some (c\<lparr>conn := cn\<rparr>)" using c(1) by simp
  have nick: "Client_TryChangeNick a n ?v = Inr (?u, None, 0)"
    using try_change_nick_free [OF cv, of n old] free old n(2) by (simp add: take_nick_set_conn)
  have ms: "msg_str a (nick_nick m) ?v = Inr n" by (rule msg_str_points [OF cv]) (use p in simp)
  obtain d where d: "client_mem ?u a = Some d" "conn d = cn" "\<not> receivedUser d"
    using c by (auto simp: take_nick_simps)
  have hd: "Handler_HandleMessage e a m ?v = Inr (?u, 0)"
    using p ms nick d(3)
    by (simp add: Handler_HandleMessage_def handlers2_def Handler_Nick_def get_client_mem [OF cv]
        get_client_mem [OF d(1)] push_optional_def Client_TryRegister_def)
  have "conn_responses (conn d) = []" using cn(2) c(3) d(2) by (simp add: conn_frame_def)
  then have fl: "Client_TryEmptyBuffer a ?u = Inr ?u" by (rule Client_TryEmptyBuffer_idle [OF d(1)])
  have "ret \<noteq> -1" "drained (conn d)" using p cn(1) d(2) by simp_all
  with rest [OF _ hd fl d(1)] d(2) obtain cn' where "drained cn'" "conn_frame cn cn'"
    "Client_HandleRead e (Read_bytes (?l @ CRLF)) a w = Inr (set_conn a cn' ?u, 0)" by auto
  with cn(2) show ?thesis by (auto intro: conn_frame_trans)
qed

definition take_user :: "caddr \<Rightarrow> string \<Rightarrow> string \<Rightarrow> world \<Rightarrow> world" where
  "take_user a u r w =
     upd_client a (\<lambda>c. c\<lparr>username := pad IRC_MSG_SIZE u, fullname := pad IRC_MSG_SIZE r, receivedUser := True\<rparr>) w"

lemma take_user_simps [simp]:
  "client_mem (take_user a u r w) b =
     (if b = a then map_option (\<lambda>c. c\<lparr>username := pad IRC_MSG_SIZE u, fullname := pad IRC_MSG_SIZE r,
        receivedUser := True\<rparr>) (client_mem w a) else client_mem w b)"
  "server (take_user a u r w) = server w" "channel_mem (take_user a u r w) = channel_mem w"
  "interest (take_user a u r w) = interest w" "wire (take_user a u r w) = wire w"
  by (simp_all add: take_user_def)

lemma strncpy_whole: "length d = n \<Longrightarrow> length s \<le> n \<Longrightarrow> strncpy d s n = Inr (pad n s)"
  by (simp add: strncpy_def)

lemma handler_user_registers:
  assumes c: "client_mem w a = Some c" "\<not> registered c" "receivedNick c" "conn_responses (conn c) = []"
    and arrays: "length (username c) = IRC_MSG_SIZE" "length (fullname c) = IRC_MSG_SIZE"
    and m: "parse_err m = 0" "msg_str a (user_username m) w = Inr u" "msg_str a (user_fullname m) w = Inr r"
    and n: "cstr (nickname c) = Inr n" "cstr (client_hostname c) = Inr h"
    and len: "length u < IRC_MSG_SIZE" "length r < IRC_MSG_SIZE" "NUL \<notin> set u"
      "2 * length n + length u + length h \<le> 450"
  shows "\<exists>x v. Handler_User a m w = Inr (x, 0) \<and> Client_TryEmptyBuffer a x = Inr v \<and>
     v = (enrol a c (take_user a u r w))\<lparr>wire := wire w @ [(conn_fd (conn c), welcome_text n u h)]\<rparr>"
proof -
  let ?d = "c\<lparr>username := pad IRC_MSG_SIZE u, fullname := pad IRC_MSG_SIZE r, receivedUser := True\<rparr>"
  let ?y = "enrol a c (take_user a u r w)" and ?t = "text_response (welcome_text n u h)"
  have d: "client_mem (take_user a u r w) a = Some ?d" using c(1) by simp
  have nm: "named ?d n u h" using n len by (simp add: named_def cstr_pad)
  have en: "enrol a ?d (take_user a u r w) = ?y" by (simp add: enrol_def)
  have "Client_TryRegister a (take_user a u r w) = Inr (?y, Some ?t)"
    using try_register_ready [OF d nm] c len(4) unfolding en by simp
  then have hd: "Handler_User a m w = Inr (push_tail a ?t ?y, 0)"
    using c(2) m arrays len
    by (simp add: Handler_User_def get_client_mem [OF c(1)] strncpy_whole take_user_def push_optional_def)
  have y: "client_mem ?y a = Some (?d\<lparr>registered := True\<rparr>)" using c(1) by (simp add: enrol_simps)
  have "length (welcome_text n u h) \<le> IRC_MSG_SIZE" using len(4) by (simp add: welcome_text_def CRLF_def)
  then have "resp_bytes ?t = Inr (welcome_text n u h)" by (rule resp_bytes_text)
  from Client_Send_writes [OF y _ this] c(4)
  have "Client_TryEmptyBuffer a (push_tail a ?t ?y) =
      Inr (?y\<lparr>wire := wire w @ [(conn_fd (conn c), welcome_text n u h)]\<rparr>)"
    by (simp add: Client_Send_def get_client_mem [OF y] enrol_simps)
  with hd show ?thesis by blast
qed

lemma user_line:
  assumes c: "client_mem w a = Some c" "drained (conn c)" "conn_responses (conn c) = []"
      "\<not> registered c" "receivedNick c"
    and arrays: "length (username c) = IRC_MSG_SIZE" "length (fullname c) = IRC_MSG_SIZE"
    and n: "cstr (nickname c) = Inr n" "cstr (client_hostname c) = Inr h"
    and words: "word_ok u" "word_ok x" "word_ok y" and r: "is_line r"
    and len: "length (render [''USER'', u, x, y] (Some r)) \<le> 510" "2 * length n + length u + length h \<le> 450"
  shows "\<exists>w' c'. Client_HandleRead e (Read_bytes (render [''USER'', u, x, y] (Some r) @ CRLF)) a w = Inr (w', 0) \<and>
     client_mem w' a = Some c' \<and> registered c' \<and> named c' n u h \<and> drained (conn c') \<and>
     wire w' = wire w @ [(conn_fd (conn c), welcome_text n u h)] \<and> interest w' = interest w \<and>
     server w' = (server w)\<lparr>clients := g_insert (clientId c) a (clients (server w)),
       nUnknown := nUnknown (server w) - 1, nUsers := nUsers (server w) + 1\<rparr>"
proof -
  let ?l = "render [''USER'', u, x, y] (Some r)"
  have ws: "\<forall>w\<in>set [''USER'', u, x, y]. word_ok w" using words by (simp add: word_ok_def)
  have line: "is_line ?l" by (rule is_line_render [OF ws]) (simp add: r)
  have "tokens ?l = [''USER'', u, x, y, r]" using tokens_render [OF ws, of "Some r"] by simp
  moreover have "u \<noteq> []" using words by (simp add: word_ok_def)
  ultimately have spec: "parse_spec (tokens (dropWhile (\<lambda>c. c = SP) ?l)) = Cmd_user u r"
    by (simp add: parse_spec_def)
  from line_read [OF c(1,2) line len(1), of e] obtain cn m ret where cn: "drained cn" "conn_frame (conn c) cn"
    and p: "denotes zero_message (conn_message cn) m ret (Cmd_user u r)"
    and rest: "\<And>u r v d. ret \<noteq> -1 \<Longrightarrow> Handler_HandleMessage e a m (set_conn a cn w) = Inr (u, r) \<Longrightarrow>
       Client_TryEmptyBuffer a u = Inr v \<Longrightarrow> client_mem v a = Some d \<Longrightarrow> drained (conn d) \<Longrightarrow>
       \<exists>cn'. drained cn' \<and> conn_frame (conn d) cn' \<and>
         Client_HandleRead e (Read_bytes (?l @ CRLF)) a w = Inr (set_conn a cn' v, 0)"
    unfolding spec by blast
  let ?w = "set_conn a cn w" and ?c = "c\<lparr>conn := cn\<rparr>"
  have c1: "client_mem ?w a = Some ?c" using c(1) by simp
  have ms: "msg_str a (user_username m) ?w = Inr u" "msg_str a (user_fullname m) ?w = Inr r"
    by (rule msg_str_points [OF c1], use p in simp)+
  have nn: "NUL \<notin> set u" using words(1) by (simp add: word_ok_def)
  have ul: "length u < IRC_MSG_SIZE" "length r < IRC_MSG_SIZE" using len(1) by simp_all
  have fr: "conn_responses cn = []" "conn_fd cn = conn_fd (conn c)"
    using cn(2) c(3) by (simp_all add: conn_frame_def)
  obtain z v where hd: "Handler_User a m ?w = Inr (z, 0)" "Client_TryEmptyBuffer a z = Inr v"
    and v: "v = (enrol a ?c (take_user a u r ?w))\<lparr>wire := wire ?w @ [(conn_fd (conn ?c), welcome_text n u h)]\<rparr>"
    using handler_user_registers [OF c1 _ _ _ _ _ _ ms, of n h] c(4,5) arrays n len(2) p ul nn fr by auto
  let ?d = "?c\<lparr>username := pad IRC_MSG_SIZE u, fullname := pad IRC_MSG_SIZE r, receivedUser := True, registered := True\<rparr>"
  have d: "client_mem v a = Some ?d" using c(1) by (simp add: v enrol_simps)
  have "Handler_HandleMessage e a m ?w = Inr (z, 0)"
    using p hd(1) by (simp add: Handler_HandleMessage_def handlers2_def)
  from rest [OF _ this hd(2) d] p cn(1) obtain cn' where cn': "drained cn'" "conn_frame cn cn'"
    "Client_HandleRead e (Read_bytes (?l @ CRLF)) a w = Inr (set_conn a cn' v, 0)" by auto
  have nm: "named (?d\<lparr>conn := cn'\<rparr>) n u h" using n ul nn by (simp add: named_def cstr_pad)
  have d': "client_mem (set_conn a cn' v) a = Some (?d\<lparr>conn := cn'\<rparr>)"
    by (simp only: set_conn_simps d if_True option.map refl)
  show ?thesis
    by (rule exI [of _ "set_conn a cn' v"], rule exI [of _ "?d\<lparr>conn := cn'\<rparr>"], intro conjI)
      (rule cn'(3), rule d', simp, rule nm, simp add: cn'(1), simp_all add: v enrol_simps fr)
qed

text \<open>
  C8: signing in, from bytes to bytes.  In every reachable state, a fresh client that sends
  \<open>NICK <n>\<close> with a free nickname of at most nine characters and then
  \<open>USER <u> <x> <y> :<real name>\<close>, each in one read, is registered: it is counted as a user, the
  nickname table maps \<open>n\<close> to its id, its object holds nickname, user name and host, and exactly one
  thing has been written, RPL_WELCOME to its descriptor.
\<close>

theorem login_end_to_end:
  assumes "reachable e w" and "client_mem w a = Some c" and "totalRead (conn c) = 0"
    and "\<not> receivedNick c" and "\<not> receivedUser c"
    and "word_ok n" and "length n \<le> 9" and "g_lookup (nicks (server w)) n = None"
    and "word_ok u" and "word_ok x" and "word_ok y" and "is_line r"
    and "length (render [''USER'', u, x, y] (Some r)) \<le> 510"
    and "cstr (client_hostname c) = Inr h" and "2 * length n + length u + length h \<le> 450"
  shows "\<exists>w1 w2 c2. Client_HandleRead e (Read_bytes (''NICK '' @ n @ CRLF)) a w = Inr (w1, 0) \<and>
     Client_HandleRead e (Read_bytes (render [''USER'', u, x, y] (Some r) @ CRLF)) a w1 = Inr (w2, 0) \<and>
     wire w2 = wire w @ [(conn_fd (conn c), welcome_text n u h)] \<and>
     g_lookup (nicks (server w2)) n = Some (clientId c) \<and>
     client_mem w2 a = Some c2 \<and> registered c2 \<and> named c2 n u h \<and>
     nUsers (server w2) = nUsers (server w) + 1 \<and> nUnknown (server w2) = nUnknown (server w) - 1"
proof -
  have st: "steady w" by (rule reachable_is_steady [OF assms(1)])
  have "client_ok (core c)"
    using inv_client(1) [OF reachable_world_ok [OF assms(1)] view_SomeI [OF assms(2)]] .
  then have ok: "array_ok (IRC_NICK_SIZE + 1) (nickname c)" "length (username c) = IRC_MSG_SIZE"
    "length (fullname c) = IRC_MSG_SIZE" "drained (conn c)" "\<not> registered c"
    using steady_client [OF steady_steady_but [OF st] assms(2)] assms(3,4)
    by (auto simp: client_ok_def array_ok_def drained_def)
  have q: "conn_responses (conn c) = []"
    using st assms(2) by (auto simp: steady_def idle_def)
  have nk: "length (nickname c) = IRC_NICK_SIZE + 1" "cstr (nickname c) = Inr (cstring (nickname c))"
    using ok(1) array_ok_cstr by (auto simp: array_ok_def)
  obtain cn where cn: "drained cn" "conn_frame (conn c) cn"
    "Client_HandleRead e (Read_bytes (''NICK '' @ n @ CRLF)) a w =
       Inr (set_conn a cn (take_nick a c (cstring (nickname c)) n w), 0)"
    using nick_line [OF assms(2) ok(4) q assms(5) nk assms(6-8)] by blast
  let ?w1 = "set_conn a cn (take_nick a c (cstring (nickname c)) n w)"
  let ?c1 = "c\<lparr>nickname := n @ NUL # drop (length n + 1) (nickname c), receivedNick := True, conn := cn\<rparr>"
  have c1: "client_mem ?w1 a = Some ?c1" using assms(2) by (simp add: take_nick_simps)
  have nn: "NUL \<notin> set n" using assms(6) by (simp add: word_ok_def)
  then have n1: "cstr (nickname ?c1) = Inr n" "cstr (client_hostname ?c1) = Inr h"
    using assms(14) by (simp_all add: cstr_terminated)
  obtain w2 c2 where w2: "Client_HandleRead e (Read_bytes (render [''USER'', u, x, y] (Some r) @ CRLF)) a ?w1 = Inr (w2, 0)"
    "client_mem w2 a = Some c2" "registered c2" "named c2 n u h"
    "wire w2 = wire ?w1 @ [(conn_fd (conn ?c1), welcome_text n u h)]"
    "server w2 = (server ?w1)\<lparr>clients := g_insert (clientId ?c1) a (clients (server ?w1)),
       nUnknown := nUnknown (server ?w1) - 1, nUsers := nUsers (server ?w1) + 1\<rparr>"
    using user_line [OF c1 _ _ _ _ _ _ n1 assms(9-13,15), of e] cn(1,2) q ok(2,3,5)
    by (auto simp: conn_frame_def)
  then have "wire w2 = wire w @ [(conn_fd (conn c), welcome_text n u h)]"
    "g_lookup (nicks (server w2)) n = Some (clientId c)"
    "nUsers (server w2) = nUsers (server w) + 1" "nUnknown (server w2) = nUnknown (server w) - 1"
    using cn(2) by (simp_all add: take_nick_simps conn_frame_def)
  with cn(3) w2(1-4) show ?thesis by blast
qed

lemma demo_client:
  "\<exists>c. client_mem demo_world 0 = Some c \<and> totalRead (conn c) = 0 \<and> \<not> receivedNick c \<and> \<not> receivedUser c \<and>
     cstr (client_hostname c) = Inr ''host'' \<and> clientId c = 1 \<and> conn_fd (conn c) = 5"
proof -
  have "case client_mem demo_world 0 of None \<Rightarrow> False | Some c \<Rightarrow> totalRead (conn c) = 0 \<and> \<not> receivedNick c \<and>
     \<not> receivedUser c \<and> cstr (client_hostname c) = Inr ''host'' \<and> clientId c = 1 \<and> conn_fd (conn c) = 5"
    by code_simp
  then show ?thesis by (simp split: option.splits)
qed

theorem login_end_to_end_witness:
  "\<exists>w1 w2. Client_HandleRead demo_env (Read_bytes (''NICK ann'' @ CRLF)) 0 demo_world = Inr (w1, 0) \<and>
     Client_HandleRead demo_env (Read_bytes (''USER a 0 * :Ann A'' @ CRLF)) 0 w1 = Inr (w2, 0) \<and>
     wire w2 = [(5, ''001 ann :Welcome to the Internet Relay Network ann!a@host'' @ CRLF)] \<and>
     g_lookup (nicks (server w2)) ''ann'' = Some 1 \<and> (\<exists>c. client_mem w2 0 = Some c \<and> registered c)"
proof -
  obtain c where c: "client_mem demo_world 0 = Some c" "totalRead (conn c) = 0" "\<not> receivedNick c"
    "\<not> receivedUser c" "cstr (client_hostname c) = Inr ''host''" "clientId c = 1" "conn_fd (conn c) = 5"
    using demo_client by blast
  have f: "g_lookup (nicks (server demo_world)) ''ann'' = None" and w: "wire demo_world = []" by code_simp+
  have words: "word_ok ''ann''" "word_ok ''a''" "word_ok ''0''" "word_ok ''*''" by (simp_all add: word_ok_def)
  have l: "is_line ''Ann A''" by (simp add: is_line_def)
  show ?thesis
    using login_end_to_end [OF demo_reachable c(1-4) words(1) _ f words(2-4) l _ c(5)]
    by (auto simp: c w welcome_text_def)
qed

end
