(* ===== verification/Progress.thy ===== *)
theory Progress
  imports ReplyBounds HandlerFrames EndToEnd
begin

text \<open>
  Progress of the handlers: under what conditions a handler is defined.  \<open>able a w\<close> says that the
  invariant holds, that strings, members and the channel table keep within the bounds every reply
  can be sent with (\<open>sane\<close>), and that everything queued can be written.  Each operation that keeps
  within its own limit is then defined and leads to such a state again, in the form
  \<open>ok run (\<lambda>result. able \<dots>)\<close>, so that the proof of a handler puts its operations in a row.
\<close>

subsection \<open>The condition\<close>

definition table_ok :: "world \<Rightarrow> bool" where
  "table_ok w \<longleftrightarrow> (\<forall>key ch. g_lookup (channels (server w)) key = Some ch \<longrightarrow>
     (\<exists>k. channel_mem w ch = Some k \<and> cstring (chan_name k) = key))"

definition sane :: "world \<Rightarrow> bool" where
  "sane w \<longleftrightarrow> modest_server (server w) \<and>
     (case motd (server w) of None \<Rightarrow> True | Some mt \<Rightarrow> NUL \<in> set mt) \<and>
     (\<forall>a c. view w a = Some c \<longrightarrow> modest c) \<and>
     (\<forall>ch k. channel_mem w ch = Some k \<longrightarrow> length (members k) \<le> MEMBERS_MAX) \<and> table_ok w"

definition writable :: "response_s \<Rightarrow> bool" where
  "writable r \<longleftrightarrow> ok (resp_bytes r) (\<lambda>_. True)"

definition sendq_ok :: "world \<Rightarrow> bool" where
  "sendq_ok w \<longleftrightarrow> (\<forall>a. \<forall>r\<in>set (queue w a). writable r)"

definition able :: "caddr \<Rightarrow> world \<Rightarrow> bool" where
  "able a w \<longleftrightarrow> world_ok w \<and> sane w \<and> sendq_ok w \<and> is_open w a"

text \<open>The message buffer of the client whose message is handled.\<close>

definition msg_buf :: "world \<Rightarrow> caddr \<Rightarrow> char list option" where
  "msg_buf w a = map_option (\<lambda>c. conn_message (conn c)) (client_mem w a)"

text \<open>A step that only sends, and leaves the message buffer alone.\<close>

definition hushed :: "caddr \<Rightarrow> world \<Rightarrow> world \<Rightarrow> bool" where
  "hushed a w w' \<longleftrightarrow> quiet w w' \<and> msg_buf w' a = msg_buf w a"

lemma hushed_refl [simp]: "hushed a w w"
  by (simp add: hushed_def)

lemma hushed_trans [trans]: "hushed a u v \<Longrightarrow> hushed a v w \<Longrightarrow> hushed a u w"
  by (auto simp: hushed_def intro: quiet_trans)

lemma hushed_eqs:
  assumes "hushed a w w'"
  shows "view w' = view w" "server w' = server w" "channel_mem w' = channel_mem w"
  using assms by (simp_all add: hushed_def quiet_def)

lemma sane_quiet: "quiet w w' \<Longrightarrow> sane w' = sane w"
  by (simp add: sane_def table_ok_def quiet_eqs)

lemma client_ok_core [simp]: "client_ok (core c) = client_ok c"
  by (simp add: client_ok_def conn_wf_def)

lemma modest_core [simp]: "modest (core c) = modest c"
  by (simp add: modest_def)

lemma sane_client: "sane w \<Longrightarrow> client_mem w b = Some c \<Longrightarrow> modest c"
  unfolding sane_def using view_SomeI [of w b c] by fastforce

lemma able_client:
  assumes "able a w"
  obtains c where "client_mem w a = Some c" "client_ok c" "modest c"
proof -
  have i: "interest_inv w" "world_ok w" "sane w" using assms by (simp_all add: able_def world_ok_def)
  from assms obtain fd where "(fd, client_handler fd a) \<in> set (interest w)"
    by (auto simp: able_def is_open_def)
  with i(1) obtain v where "view w a = Some v"
    by (auto simp: interest_inv_def entry_ok_def client_handler_def server_handler_def)
  then obtain c where c: "client_mem w a = Some c" using view_SomeD by blast
  show thesis using that [OF c] inv_client(1) [OF i(2) view_SomeI [OF c]] sane_client [OF i(3) c] by simp
qed

lemma able_get:
  assumes "able a w" and "client_mem w a = Some c"
  shows "client_ok c" "modest c"
  using able_client [OF assms(1)] assms(2) by auto

lemma able_server:
  assumes "able a w"
  shows "modest_server (server w)" "world_ok w" "is_open w a" "sane w"
  using assms by (simp_all add: able_def sane_def)

lemma able_channel:
  assumes "able a w" and "channel_mem w ch = Some k"
  shows "channel_ok k" "length (members k) \<le> MEMBERS_MAX"
    "(i, b) \<in> set (members k) \<Longrightarrow> \<exists>d. client_mem w b = Some d \<and> client_ok d"
proof -
  show "channel_ok k" using inv_channel(1) [OF able_server(2) [OF assms(1)] assms(2)] .
  then have wf: "g_wf (members k)" by (simp add: channel_ok_def)
  show "length (members k) \<le> MEMBERS_MAX" using assms by (simp add: able_def sane_def)
  assume "(i, b) \<in> set (members k)"
  then have "g_lookup (members k) i = Some b" using wf by (simp add: g_lookup_in_set)
  from inv_channel(3) [OF able_server(2) [OF assms(1)] assms(2) this] obtain v where v: "view w b = Some v" by blast
  then obtain d where "client_mem w b = Some d" "v = core d" using view_SomeD by blast
  then show "\<exists>d. client_mem w b = Some d \<and> client_ok d"
    using inv_client(1) [OF able_server(2) [OF assms(1)] v] by auto
qed

lemma able_table:
  assumes "able a w" and "g_lookup (channels (server w)) key = Some ch"
  obtains k where "channel_mem w ch = Some k" "cstring (chan_name k) = key"
  using assms unfolding able_def sane_def table_ok_def by blast

subsection \<open>Sending\<close>

lemma is_open_same_interest: "interest w' = interest w \<Longrightarrow> is_open w' a = is_open w a"
  by (simp add: is_open_def)

lemma able_quiet: "able a w \<Longrightarrow> quiet w w' \<Longrightarrow> sendq_ok w' \<Longrightarrow> able a w'"
  by (simp add: able_def inv_quiet sane_quiet is_open_quiet)

lemma push_tail_able:
  assumes "able a w" and "writable r"
  shows "able a (push_tail b r w)" "hushed a w (push_tail b r w)"
proof -
  have q: "quiet w (push_tail b r w)" by (rule calm_quiet [OF push_tail_calm])
  have "queue (push_tail b r w) x = (if x = b \<and> client_mem w b \<noteq> None then queue w b @ [r] else queue w x)" for x
    by (auto simp: queue_def split: option.split)
  then have "sendq_ok (push_tail b r w)" using assms by (auto simp: sendq_ok_def able_def split: if_splits)
  with able_quiet [OF assms(1) q] show "able a (push_tail b r w)" .
  have "conn_message (conn (set_queue rs c)) = conn_message (conn c)" for rs c by (simp add: set_queue_def)
  then show "hushed a w (push_tail b r w)"
    using q by (auto simp: hushed_def msg_buf_def option.map_comp comp_def)
qed

lemma push_reply_ok:
  assumes "able a w" and "sendable reply"
  shows "ok (push_reply a reply w) (\<lambda>w'. able a w' \<and> hushed a w w')"
proof -
  from assms(2) obtain r where "reply = Inr r" "writable r" by (auto simp: sendable_def ok_def writable_def)
  then show ?thesis using push_tail_able [OF assms(1)] by (simp add: push_reply_def)
qed

lemma push_then:
  assumes "able a w" and "sendable reply"
    and "\<And>w'. able a w' \<Longrightarrow> hushed a w w' \<Longrightarrow> ok (k w') Q"
  shows "ok (rbind (push_reply a reply w) k) Q"
  by (rule ok_bind [OF push_reply_ok [OF assms(1,2)]]) (use assms(3) in blast)

lemma push_if_then:
  assumes "able a w" and "b \<Longrightarrow> sendable reply"
    and "\<And>w'. able a w' \<Longrightarrow> hushed a w w' \<Longrightarrow> ok (k w') Q"
  shows "ok (rbind (if b then push_reply a reply w else Inr w) k) Q"
  using assms push_then [of a w reply k Q] by (cases b) auto

lemma all_bytes_ok: "\<forall>r\<in>set rs. writable r \<Longrightarrow> \<exists>bss. all_bytes rs = Inr bss"
  by (induction rs) (auto simp: writable_def ok_def)

lemma queue_eq: "client_mem w t = Some c \<Longrightarrow> queue w t = conn_responses (conn c)"
  by (simp add: queue_def)

lemma Client_TryEmptyBuffer_ok:
  assumes "able a w" and "client_mem w t \<noteq> None"
  shows "ok (Client_TryEmptyBuffer t w) (\<lambda>w'. able a w' \<and> hushed a w w')"
proof -
  from assms(2) obtain c where c: "client_mem w t = Some c" by blast
  then have "\<forall>r\<in>set (conn_responses (conn c)). writable r"
    using assms(1) queue_eq [OF c] by (metis able_def sendq_ok_def)
  then obtain bss where b: "all_bytes (conn_responses (conn c)) = Inr bss" using all_bytes_ok by blast
  let ?w = "flushed t (conn_fd (conn c)) bss w"
  have q: "quiet w ?w"
    unfolding flushed_def using quiet_trans [OF quiet_upd_client quiet_wire] by (metis set_queue_simps(3))
  have "queue ?w x = (if x = t then [] else queue w x)" for x
    using c by (auto simp: flushed_def queue_def)
  then have "sendq_ok ?w" using assms(1) by (simp add: sendq_ok_def able_def)
  with able_quiet [OF assms(1) q] have "able a ?w" .
  moreover have "hushed a w ?w"
    using q c by (auto simp: hushed_def msg_buf_def flushed_def set_queue_def)
  ultimately show ?thesis using Client_TryEmptyBuffer_writes [OF c b] by simp
qed

lemma Client_Send_ok:
  assumes "able a w" and "client_mem w t \<noteq> None" and "writable r"
  shows "ok (Client_Send t r w) (\<lambda>w'. able a w' \<and> hushed a w w')"
proof -
  note p = push_tail_able [OF assms(1,3), of t]
  have "client_mem (push_tail t r w) t \<noteq> None" using assms(2) by simp
  from Client_TryEmptyBuffer_ok [OF p(1) this] have
    "ok (Client_TryEmptyBuffer t (push_tail t r w)) (\<lambda>w'. able a w' \<and> hushed a w w')"
    by (rule ok_mono) (use p(2) hushed_trans in blast)
  then show ?thesis using assms(2) by (auto simp: Client_Send_def get_client_def)
qed

lemma hushed_client_mem: "hushed a w w' \<Longrightarrow> client_mem w' b = None \<longleftrightarrow> client_mem w b = None"
  using view_None [of w b] view_None [of w' b] by (simp add: hushed_eqs)

lemma channel_send_message_ok:
  assumes "able a w" and "env_ok e" and k: "channel_mem w ch = Some k" and "writable r"
  shows "ok (channel_send_message e ch r source w) (\<lambda>w'. able a w' \<and> hushed a w w')"
proof -
  have m: "set (iter_members e (members k)) = set (members k)"
    using assms(2) by (simp add: env_ok_def iteration_set)
  have "ok (rfold (forward_step r source) (iter_members e (members k)) w) (\<lambda>w'. able a w' \<and> hushed a w w')"
  proof (rule ok_rfold)
    fix x u assume x: "x \<in> set (iter_members e (members k))" and u: "able a u \<and> hushed a w u"
    have "client_mem w (snd x) \<noteq> None"
      using able_channel(3) [OF assms(1) k, of "fst x" "snd x"] x m by auto
    then have "client_mem u (snd x) \<noteq> None" using hushed_client_mem [of a w u] u by auto
    then have "ok (forward_step r source x u) (\<lambda>w'. able a w' \<and> hushed a u w')"
      using Client_Send_ok [OF _ _ assms(4)] u by (simp add: forward_step_def)
    then show "ok (forward_step r source x u) (\<lambda>w'. able a w' \<and> hushed a w w')"
      by (rule ok_mono) (use u hushed_trans in blast)
  qed (use assms(1) in simp)
  then show ?thesis using k by (simp add: channel_send_message_def get_channel_def)
qed

end
