(* ===== verification/HandlersDefined.thy ===== *)
theory HandlersDefined
  imports Progress
begin

text \<open>
  Every handler of \<open>src/handlers.c\<close> is defined in an \<open>able\<close> state, on the messages of a line of at most
  200 characters that asks for nothing the code cannot do.
\<close>

subsection \<open>The strings of the message\<close>

definition says :: "world \<Rightarrow> caddr \<Rightarrow> nat option \<Rightarrow> string \<Rightarrow> bool" where
  "says w a p s \<longleftrightarrow> (\<exists>buf. msg_buf w a = Some buf \<and> points buf p s)"

lemma says_str: "says w a p s \<Longrightarrow> msg_str a p w = Inr s"
  by (auto simp: says_def msg_buf_def intro: msg_str_points)

lemma says_ptr:
  assumes "says w a p s"
  obtains q where "msg_ptr a p w = Inr q" "cstr q = Inr s"
  using assms by (auto simp: says_def msg_buf_def points_def msg_ptr_def get_client_def)

lemma says_not_null [simp]: "says w a p s \<Longrightarrow> p \<noteq> None"
  by (auto simp: says_def points_def)

lemma says_no_NUL: "says w a p s \<Longrightarrow> NUL \<notin> set s"
  by (auto simp: says_def points_def dest: cstr_no_NUL)

lemma says_hushed: "hushed a w w' \<Longrightarrow> says w' a p s = says w a p s"
  by (simp add: says_def hushed_def)

lemma fits_lit: "says w a p s \<Longrightarrow> length s \<le> n \<Longrightarrow> fits_in (S (lit s)) n"
  using says_no_NUL by (intro lit_fits) auto

abbreviation (input) returns_able :: "caddr \<Rightarrow> (world \<times> int) run \<Rightarrow> bool" where
  "returns_able a r \<equiv> ok r (\<lambda>(v, n). able a v)"

lemma push_last: "able a w \<Longrightarrow> sendable r \<Longrightarrow> returns_able a (rbind (push_reply a r w) (\<lambda>w. Inr (w, n)))"
  by (rule push_then) simp_all

lemma push_hushed:
  assumes "able a v" and "hushed a w v" and "sendable r"
  shows "ok (push_reply a r v) (\<lambda>u. able a u \<and> hushed a w u)"
  by (rule ok_mono [OF push_reply_ok [OF assms(1,3)]]) (use assms(2) in \<open>blast intro: hushed_trans\<close>)

subsection \<open>Handlers that only reply\<close>

lemma Handler_Unknown_ok:
  assumes "able a w" and "says w a (msg_command m) s" and "length s \<le> 200"
  shows "returns_able a (Handler_Unknown a m w)"
proof -
  obtain c where c: "client_mem w a = Some c" "client_ok c" using able_client [OF assms(1)] .
  obtain q where q: "msg_ptr a (msg_command m) w = Inr q" "cstr q = Inr s" using says_ptr [OF assms(2)] .
  have "sendable (Reply_ErrUnknownCommand c q)"
    by (rule sendable) (use c q assms(3) in simp_all)
  then show ?thesis
    using c q by (simp add: Handler_Unknown_def get_client_mem) (rule push_last [OF assms(1)])
qed

lemma Handler_Ping_ok: "able a w \<Longrightarrow> returns_able a (Handler_Ping a m w)"
  unfolding Handler_Ping_def
  by (rule push_then) (auto intro: sendable simp: able_server)

lemma Handler_Pong_ok: "able a w \<Longrightarrow> returns_able a (Handler_Pong a m w)"
  by (simp add: Handler_Pong_def)

lemma Handler_LUsers_ok:
  assumes "able a w"
  shows "returns_able a (Handler_LUsers a m w)"
proof -
  obtain c where c: "client_mem w a = Some c" "client_ok c" using able_client [OF assms] .
  show ?thesis
    unfolding Handler_LUsers_def Let_def get_client_mem [OF c(1)] rbind.simps
    by (rule push_then [OF assms], rule sendable, rule c(2), rule push_if_then, assumption, rule sendable,
      rule c(2), rule push_if_then, assumption, rule sendable, rule c(2), rule push_if_then, assumption,
      rule sendable, rule c(2), rule push_then, assumption, rule sendable, rule c(2)) simp
qed

lemma nick_owner_live:
  assumes "able a w" and "g_lookup (nicks (server w)) n = Some i"
  obtains b d where "g_lookup (clients (server w)) i = Some b" "client_mem w b = Some d" "client_ok d"
    "modest d" "clientId d = i" "i \<noteq> 0"
proof -
  note ws = able_server(2,4) [OF assms(1)]
  from inv_nick_lookup [OF ws(1) assms(2)] obtain b v where
    b: "g_lookup (clients (server w)) i = Some b" "view w b = Some v" "clientId v = i" by blast
  then obtain d where d: "client_mem w b = Some d" "v = core d" using view_SomeD by blast
  show thesis
    by (rule that [OF b(1) d(1)])
      (use inv_client(1,3) [OF ws(1) b(2)] sane_client [OF ws(2) d(1)] b(3) d(2) in auto)
qed

lemma Handler_WhoIs_ok:
  assumes "able a w" and "case whois_mask m of None \<Rightarrow> True | Some _ \<Rightarrow> \<exists>s. says w a (whois_mask m) s \<and> length s \<le> 200"
  shows "returns_able a (Handler_WhoIs a m w)"
proof (cases "whois_mask m")
  case None
  then show ?thesis using assms(1) by (simp add: Handler_WhoIs_def)
next
  case (Some p)
  then obtain s where s: "says w a (whois_mask m) s" "length s \<le> 200" using assms(2) by auto
  obtain c where c: "client_mem w a = Some c" "client_ok c" using able_client [OF assms(1)] .
  note g = get_client_mem [OF c(1)]
  show ?thesis
  proof (cases "g_lookup (nicks (server w)) s")
    case None
    have "sendable (Reply_ErrNoSuchNick c (lit s))"
      by (rule Reply_ErrNoSuchNick_sendable [OF c(2) fits_lit [OF s]])
    then show ?thesis using Some None says_str [OF s(1)] g
      by (simp add: Handler_WhoIs_def) (rule push_last [OF assms(1)])
  next
    case lk: (Some i)
    obtain b d where d: "g_lookup (clients (server w)) i = Some b" "client_mem w b = Some d" "client_ok d"
      "modest d" "i \<noteq> 0" using nick_owner_live [OF assms(1) lk] by metis
    have e: "Handler_WhoIs a m w = rbind (push_reply a (Reply_RplWhoIsUser c d) w) (\<lambda>w.
            rbind (push_reply a (Reply_RplWhoIsServer c d (server w)) w) (\<lambda>w.
            rbind (push_reply a (Reply_RplEndOfWhoIs c d) w) (\<lambda>w. Inr (w, 0))))"
      using Some lk says_str [OF s(1)] g d get_client_mem [OF d(2)] by (simp add: Handler_WhoIs_def)
    have "sendable (Reply_RplWhoIsUser c d)" "sendable (Reply_RplEndOfWhoIs c d)"
      by (rule sendable, (rule c(2) d(3,4))+)+
    moreover have "sendable (Reply_RplWhoIsServer c d (server v))" if "able a v" for v
      by (rule Reply_RplWhoIsServer_sendable [OF c(2) d(3) able_server(1) [OF that]])
    ultimately show ?thesis unfolding e
      by (intro push_then [OF assms(1)] push_then) auto
  qed
qed

lemma Handler_Motd_ok:
  assumes "able a w"
  shows "returns_able a (Handler_Motd a m w)"
proof -
  obtain c where c: "client_mem w a = Some c" "client_ok c" using able_client [OF assms] .
  note g = get_client_mem [OF c(1)]
  show ?thesis
  proof (cases "motd (server w)")
    case None
    have "sendable (Reply_ErrNoMotd c)" by (rule Reply_ErrNoMotd_sendable [OF c(2)])
    then show ?thesis by (simp add: Handler_Motd_def g None) (rule push_last [OF assms])
  next
    case (Some mt)
    then have "NUL \<in> set mt" using able_server(4) [OF assms] by (simp add: sane_def)
    then obtain s where s: "cstr mt = Inr s" using cstr_defined by blast
    define N where "N = length s div 80 + (if length s mod 80 \<noteq> 0 then 1 else 0)"
    have step: "ok (motd_step a mt (length s) N j st) (\<lambda>st. able a (fst st) \<and> length (snd st) = 81)"
      if j: "j \<in> set [0..<N]" and st: "able a (fst st) \<and> length (snd st) = 81" for j st
    proof -
      obtain u part where u: "st = (u, part)" "able a u" "length part = 81" using st by (cases st) simp
      obtain d where d: "client_mem u a = Some d" "client_ok d" using able_client [OF u(2)] .
      then obtain n where n: "cstr (nickname d) = Inr n" "length n \<le> 9"
        using client_fits(1) [OF d(2)] by (auto simp: ok_def)
      have "j < N" using j by simp
      from motd_round [OF d(1) n s u(3) N_def this] obtain part' where p: "length part' = 81"
        "motd_step a mt (length s) N j (u, part) =
           Inr (push_tail a (text_response (motd_line d n (motd_fragment s j))) u, part')" by blast
      have "length (motd_fragment s j) \<le> 80"
        by (simp add: motd_fragment_def Let_def min.coboundedI2)
      then have "writable (text_response (motd_line d n (motd_fragment s j)))"
        using n(2) by (auto simp: writable_def resp_bytes_text motd_line_def star_nick_def CRLF_def)
      from push_tail_able(1) [OF u(2) this] show ?thesis by (simp add: u(1) p)
    qed
    have e: "Handler_Motd a m w =
        rbind (push_reply a (Reply_RplMotdStart c (server_hostname (server w))) w) (\<lambda>w.
        rbind (rfold (motd_step a mt (length s) N) [0..<N] (w, replicate 81 NUL)) (\<lambda>(w, _).
        rbind (push_reply a (Reply_RplEndOfMotd c) w) (\<lambda>w. Inr (w, 0))))"
      by (simp add: Handler_Motd_def g Some s N_def Let_def)
    show ?thesis unfolding e
    proof (rule push_then [OF assms])
      show "sendable (Reply_RplMotdStart c (server_hostname (server w)))"
        by (rule Reply_RplMotdStart_sendable [OF c(2) able_server(1) [OF assms]])
      fix v assume v: "able a v"
      have "ok (rfold (motd_step a mt (length s) N) [0..<N] (v, replicate 81 NUL)) (\<lambda>st. able a (fst st) \<and> length (snd st) = 81)"
        by (rule ok_rfold) (use v step in auto)
      then show "ok (rbind (rfold (motd_step a mt (length s) N) [0..<N] (v, replicate 81 NUL)) (\<lambda>(w, _).
          rbind (push_reply a (Reply_RplEndOfMotd c) w) (\<lambda>w. Inr (w, 0 :: int)))) (\<lambda>(v, n). able a v)"
      proof (rule ok_bind)
        fix st assume st: "able a (fst st) \<and> length (snd st) = 81"
        have "sendable (Reply_RplEndOfMotd c)" by (rule Reply_RplEndOfMotd_sendable [OF c(2)])
        with st show "ok (case st of (w, _) \<Rightarrow> rbind (push_reply a (Reply_RplEndOfMotd c) w) (\<lambda>w. Inr (w, 0 :: int))) (\<lambda>(v, n). able a v)"
          by (cases st) (simp, rule push_last, simp_all)
      qed
    qed
  qed
qed

lemma list_one_ok:
  assumes "able a w" and "channel_mem w ch \<noteq> None"
  shows "ok (list_one a ch w) (\<lambda>w'. able a w' \<and> hushed a w w')"
proof -
  obtain c where c: "client_mem w a = Some c" "client_ok c" using able_client [OF assms(1)] .
  from assms(2) obtain k where k: "channel_mem w ch = Some k" by blast
  have "sendable (Reply_RplList c (server w) k)"
    by (rule Reply_RplList_sendable [OF c(2) able_server(1) [OF assms(1)] able_channel(1) [OF assms(1) k]])
  from push_reply_ok [OF assms(1) this] show ?thesis
    by (simp add: list_one_def get_channel_def k get_client_mem [OF c(1)])
qed

lemma table_live: "able a w \<Longrightarrow> g_lookup (channels (server w)) key = Some ch \<Longrightarrow> channel_mem w ch \<noteq> None"
  by (erule able_table) auto

lemma list_named_ok: "able a w \<Longrightarrow> ok (list_named a n w) (\<lambda>w'. able a w' \<and> hushed a w w')"
  using table_live [of a w "lowercase n"]
  by (cases "g_lookup (channels (server w)) (lowercase n)")
    (simp_all add: list_named_def server_get_channel_def list_one_ok)

lemma names_one_ok:
  assumes "able a w" and "env_ok e"
  shows "ok (names_one e a n w) (\<lambda>w'. able a w' \<and> hushed a w w')"
proof (cases "g_lookup (channels (server w)) (lowercase n)")
  case None
  then show ?thesis using assms by (simp add: names_one_def server_get_channel_def)
next
  case (Some ch)
  obtain k where k: "channel_mem w ch = Some k" using able_table [OF assms(1) Some] .
  obtain c where c: "client_mem w a = Some c" "client_ok c" using able_client [OF assms(1)] .
  note ck = able_channel [OF assms(1) k]
  have "sendable (Reply_RplNamReply e w c (server w) k)"
    by (rule Reply_RplNamReply_sendable [OF c(2) able_server(1) [OF assms(1)] ck(1) assms(2) ck(2)]) (use ck(3) in auto)
  moreover have "sendable (Reply_RplEndOfNames c (server v) k)" if "able a v" for v
    by (rule Reply_RplEndOfNames_sendable [OF c(2) able_server(1) [OF that] ck(1)])
  ultimately have "ok (rbind (push_reply a (Reply_RplNamReply e w c (server w) k) w)
      (\<lambda>v. push_reply a (Reply_RplEndOfNames c (server v) k) v)) (\<lambda>w'. able a w' \<and> hushed a w w')"
    by (intro push_then [OF assms(1)] push_hushed) assumption+
  then show ?thesis
    by (simp add: names_one_def server_get_channel_def Some get_channel_def k get_client_mem [OF c(1)])
qed

text \<open>A loop of steps that only send.\<close>

lemma rfold_hushed:
  assumes "able a w" and "\<And>x u. x \<in> set xs \<Longrightarrow> able a u \<Longrightarrow> hushed a w u \<Longrightarrow> ok (f x u) (\<lambda>v. able a v \<and> hushed a u v)"
  shows "ok (rfold f xs w) (\<lambda>w'. able a w' \<and> hushed a w w')"
proof (rule ok_rfold)
  show "able a w \<and> hushed a w w" using assms(1) by simp
  fix x u assume x: "x \<in> set xs" and u: "able a u \<and> hushed a w u"
  then have "ok (f x u) (\<lambda>v. able a v \<and> hushed a u v)" using assms(2) by blast
  then show "ok (f x u) (\<lambda>v. able a v \<and> hushed a w v)"
    by (rule ok_mono) (use u in \<open>blast intro: hushed_trans\<close>)
qed

lemma handler_names_ok:
  assumes "able a w" and "env_ok e"
    and "case names_channels m of None \<Rightarrow> True | Some _ \<Rightarrow> \<exists>s. says w a (names_channels m) s"
  shows "returns_able a (handler_names e a m w)"
proof (cases "names_channels m")
  case None
  then show ?thesis using assms(1) by (simp add: handler_names_def)
next
  case (Some p)
  then obtain s where s: "msg_str a (names_channels m) w = Inr s" using assms(3) says_str by auto
  have "ok (rfold (names_one e a) (strtok_all s (CHR '','')) w) (\<lambda>w'. able a w' \<and> hushed a w w')"
    by (rule rfold_hushed [OF assms(1)]) (rule names_one_ok [OF _ assms(2)])
  then show ?thesis using Some s by (auto simp: handler_names_def ok_def)
qed

lemma handler_list_ok:
  assumes "able a w" and "env_ok e"
    and "case list_channels m of None \<Rightarrow> True | Some _ \<Rightarrow> \<exists>s. says w a (list_channels m) s"
  shows "returns_able a (handler_list e a m w)"
proof -
  obtain c where c: "client_mem w a = Some c" "client_ok c" using able_client [OF assms(1)] .
  let ?body = "\<lambda>w. if list_channels m = None then
              rfold (\<lambda>entry. list_one a (snd entry)) (iter_channels e (channels (server w))) w
            else rbind (msg_str a (list_channels m) w) (\<lambda>chans.
                rfold (list_named a) (strtok_all chans (CHR '','')) w)"
  have body: "ok (?body v) (\<lambda>w'. able a w' \<and> hushed a v w')" if v: "able a v" "hushed a w v" for v
  proof (cases "list_channels m")
    case None
    have s: "set (iter_channels e (channels (server v))) = set (channels (server v))"
      using assms(2) by (simp add: env_ok_def iteration_set)
    have wf: "g_wf (channels (server v))" using able_server(2) [OF v(1)] by (simp add: world_ok_def channels_inv_def)
    have "ok (rfold (\<lambda>en. list_one a (snd en)) (iter_channels e (channels (server v))) v) (\<lambda>w'. able a w' \<and> hushed a v w')"
    proof (rule rfold_hushed [OF v(1)])
      fix x u assume x: "x \<in> set (iter_channels e (channels (server v)))" and u: "able a u" "hushed a v u"
      have "(fst x, snd x) \<in> set (channels (server v))" using x s by simp
      then have "g_lookup (channels (server v)) (fst x) = Some (snd x)" by (simp only: g_lookup_in_set [OF wf])
      then have "channel_mem v (snd x) \<noteq> None" by (rule table_live [OF v(1)])
      then show "ok (list_one a (snd x) u) (\<lambda>v. able a v \<and> hushed a u v)"
        by (intro list_one_ok [OF u(1)]) (simp add: hushed_eqs [OF u(2)])
    qed
    then show ?thesis using None by simp
  next
    case (Some p)
    then obtain s where "says w a (list_channels m) s" using assms(3) by auto
    then have "msg_str a (list_channels m) v = Inr s" using says_hushed [OF v(2)] by (blast intro: says_str)
    moreover have "ok (rfold (list_named a) (strtok_all s (CHR '','')) v) (\<lambda>w'. able a w' \<and> hushed a v w')"
      by (rule rfold_hushed [OF v(1)]) (rule list_named_ok)
    ultimately show ?thesis using Some by simp
  qed
  show ?thesis unfolding handler_list_def get_client_mem [OF c(1)] rbind.simps
  proof (rule push_then [OF assms(1)])
    show "sendable (Reply_RplListStart c (server w))" by (rule Reply_RplListStart_sendable [OF c(2) able_server(1) [OF assms(1)]])
    fix v assume v: "able a v" "hushed a w v"
    show "ok (rbind (?body v) (\<lambda>w. rbind (push_reply a (Reply_RplListEnd c (server w)) w) (\<lambda>w. Inr (w, 0 :: int)))) (\<lambda>(v, n). able a v)"
    proof (rule ok_bind [OF body [OF v]])
      fix u assume u: "able a u \<and> hushed a v u"
      then have "sendable (Reply_RplListEnd c (server u))" by (intro Reply_RplListEnd_sendable [OF c(2)] able_server(1) [of a]) simp
      then show "ok (rbind (push_reply a (Reply_RplListEnd c (server u)) u) (\<lambda>w. Inr (w, 0 :: int))) (\<lambda>(v, n). able a v)"
        using u by (intro push_last) auto
    qed
  qed
qed

end
