(* ===== verification/ChangesDefined.thy ===== *)
theory ChangesDefined
  imports HandlersDefined
begin

text \<open>
  The handlers that change clients and channels, and PRIVMSG: each is defined in an \<open>able\<close> state and
  leads to one.
\<close>

subsection \<open>Steps that change a client\<close>

lemma sane_change:
  assumes "sane w" and "server_hostname (server w') = server_hostname (server w)"
    and "motd (server w') = motd (server w)" and "channels (server w') = channels (server w)"
    and "channel_mem w' = channel_mem w" and "\<And>b c. view w' b = Some c \<Longrightarrow> modest c"
  shows "sane w'"
  using assms by (simp add: sane_def table_ok_def modest_server_def)

lemma able_step:
  assumes "able a w" and "world_ok w'" and "handler_frame a w w'" and "sane w'" and "queue w' = queue w"
  shows "able a w'"
  using assms handler_frame_open [OF assms(3), of a] by (simp add: able_def sendq_ok_def)

lemma queue_upd_client: "(\<And>c. conn (f c) = conn c) \<Longrightarrow> queue (upd_client a f w) = queue w"
  by (rule ext) (simp add: queue_def split: option.split)

lemma modest_views:
  assumes "sane w" and "\<And>c. core (f c) = f (core c)"
    and "\<And>c. client_mem w a = Some c \<Longrightarrow> modest (f c)" and "view (upd_client a f w) b = Some c"
  shows "modest c"
proof -
  obtain d where d: "client_mem (upd_client a f w) b = Some d" "c = core d" using view_SomeD [OF assms(4)] by blast
  then show ?thesis
    using sane_client [OF assms(1), of b] assms(3) by (auto split: if_splits)
qed

lemma Client_TryChangeNick_ok:
  assumes "able a w" and "NUL \<notin> set nick" and "length nick \<le> 9"
  shows "ok (Client_TryChangeNick a nick w) (\<lambda>(v, r, res). able a v \<and> (\<forall>x. r = Some x \<longrightarrow> writable x))"
proof -
  note ws = able_server(2,4) [OF assms(1)]
  obtain c where c: "client_mem w a = Some c" "client_ok c" using able_client [OF assms(1)] .
  then have n: "length (nickname c) = 10" "cstr (nickname c) = Inr (cstring (nickname c))"
    by (auto simp: client_ok_def array_ok_def array_ok_cstr)
  have "sendable (Reply_ErrNicknameInUse c (lit nick))"
    by (rule Reply_ErrNicknameInUse_sendable [OF c(2)]) (use assms(2,3) in simp)
  then have "\<exists>v r res. Client_TryChangeNick a nick w = Inr (v, r, res) \<and> (\<forall>x. r = Some x \<longrightarrow> writable x)"
    using n assms(3) by (auto simp: Client_TryChangeNick_def get_client_mem [OF c(1)] sendable_def ok_def
        writable_def strcpy_def Let_def)
  then obtain v r res where v: "Client_TryChangeNick a nick w = Inr (v, r, res)" "\<forall>x. r = Some x \<longrightarrow> writable x"
    by blast
  have "able a v" using v(1)
  proof (cases rule: Client_TryChangeNick_cases)
    case (changed d nn ns)
    let ?f = "\<lambda>c. c\<lparr>nickname := nn, receivedNick := True\<rparr>"
    let ?u = "upd_server (\<lambda>s. s\<lparr>nicks := g_insert nick (clientId d) ns\<rparr>) w"
    have "sane ?u" using ws(2) by (simp add: sane_def table_ok_def modest_server_def)
    have "modest (?f x)" if "client_mem ?u a = Some x" for x
      using sane_client [OF \<open>sane ?u\<close> that] by (simp add: modest_def)
    then have "modest e" if "view v b = Some e" for b e
      using modest_views [OF \<open>sane ?u\<close>, of ?f a b e] that by (simp add: changed(7))
    then have "sane v" by (intro sane_change [OF \<open>sane ?u\<close>]) (simp_all add: changed(7))
    then show ?thesis
      by (intro able_step [OF assms(1) Client_TryChangeNick_inv [OF v(1) ws(1) assms(2)] Client_TryChangeNick_frame(1) [OF v(1)]])
        (simp_all add: changed(7) queue_upd_client)
  qed (use assms(1) in simp)
  then show ?thesis using v by simp
qed

lemma push_optional_able: "able a w \<Longrightarrow> \<forall>x. r = Some x \<longrightarrow> writable x \<Longrightarrow> able a (push_optional a r w)"
  by (cases r) (auto simp: push_optional_def push_tail_able)

lemma TryRegister_ok:
  assumes "able a w"
  shows "returns_able a (rbind (Client_TryRegister a w) (\<lambda>(w, r). Inr (push_optional a r w, 0)))"
proof -
  note ws = able_server(2-4) [OF assms]
  obtain c where c: "client_mem w a = Some c" "client_ok c" "modest c" using able_client [OF assms] .
  have "client_ok (c\<lparr>registered := True\<rparr>) \<or> \<not> receivedUser c \<or> \<not> receivedNick c"
    using c(2) by (auto simp: client_ok_def)
  then have "sendable (Reply_RplWelcome (c\<lparr>registered := True\<rparr>)) \<or> \<not> receivedUser c \<or> \<not> receivedNick c"
    using Reply_RplWelcome_sendable c(3) by (auto simp: modest_def)
  then have "\<exists>v r. Client_TryRegister a w = Inr (v, r) \<and> (\<forall>x. r = Some x \<longrightarrow> writable x)"
    by (auto simp: Client_TryRegister_def get_client_def c(1) Let_def sendable_def ok_def writable_def)
  then obtain v r where v: "Client_TryRegister a w = Inr (v, r)" "\<forall>x. r = Some x \<longrightarrow> writable x" by blast
  have "able a v" using v(1)
  proof (cases rule: Client_TryRegister_cases)
    case (yes d)
    let ?f = "\<lambda>c. c\<lparr>registered := True\<rparr>"
    let ?u = "upd_server (\<lambda>s. s\<lparr>clients := g_insert (clientId d) a (clients s),
                 nUnknown := nUnknown s - 1, nUsers := nUsers s + 1\<rparr>) w"
    have "sane ?u" using ws(3) by (simp add: sane_def table_ok_def modest_server_def)
    have "modest (?f x)" if "client_mem ?u a = Some x" for x
      using sane_client [OF \<open>sane ?u\<close> that] by (simp add: modest_def)
    then have "modest e" if "view v b = Some e" for b e
      using modest_views [OF \<open>sane ?u\<close>, of ?f a b e] that by (simp add: yes(6))
    then have "sane v" by (intro sane_change [OF \<open>sane ?u\<close>]) (simp_all add: yes(6))
    then show ?thesis
      by (intro able_step [OF assms Client_TryRegister_inv [OF v(1) ws(1,2)] Client_TryRegister_frame(1) [OF v(1)]])
        (simp_all add: yes(6) queue_upd_client)
  qed (use assms in simp)
  then show ?thesis using v push_optional_able by simp
qed

lemma Handler_Nick_ok:
  assumes "able a w"
    and "parse_err m = 431 \<or> (\<exists>n. parse_err m = 0 \<and> says w a (nick_nick m) n \<and> length n \<le> 9)"
  shows "returns_able a (Handler_Nick a m w)"
proof -
  obtain c where c: "client_mem w a = Some c" "client_ok c" using able_client [OF assms(1)] .
  note g = get_client_mem [OF c(1)]
  from assms(2) show ?thesis
  proof (elim disjE exE conjE)
    assume "parse_err m = 431"
    then show ?thesis
      by (simp add: Handler_Nick_def g) (rule push_last [OF assms(1) Reply_ErrNoNicknameGiven_sendable [OF c(2)]])
  next
    fix n assume n: "parse_err m = 0" "says w a (nick_nick m) n" "length n \<le> 9"
    have e: "Handler_Nick a m w = rbind (Client_TryChangeNick a n w) (\<lambda>(w, r, result).
           if result = -1 then Inr (push_optional a r w, -1)
           else rbind (Client_TryRegister a w) (\<lambda>(w, r). Inr (push_optional a r w, 0)))"
      using n(1) says_str [OF n(2)] by (simp add: Handler_Nick_def g)
    show ?thesis unfolding e
      by (rule ok_bind [OF Client_TryChangeNick_ok [OF assms(1) says_no_NUL [OF n(2)] n(3)]])
        (auto intro: push_optional_able TryRegister_ok)
  qed
qed

lemma strncpy_pad:
  assumes "NUL \<notin> set s" and "length s < n" and "length d = n"
  shows "strncpy d s n = Inr (pad n s)"
  using assms by (simp add: strncpy_def)

lemma cstring_pad: "NUL \<notin> set s \<Longrightarrow> length s < n \<Longrightarrow> cstring (pad n s) = s"
  using cstr_cstring [OF cstr_pad] .

lemma Handler_User_ok:
  assumes "able a w"
    and "parse_err m = 461 \<or> (\<exists>u r. parse_err m = 0 \<and> says w a (user_username m) u \<and>
       says w a (user_fullname m) r \<and> length u + length r \<le> 200)"
  shows "returns_able a (Handler_User a m w)"
proof -
  obtain c where c: "client_mem w a = Some c" "client_ok c" "modest c" using able_client [OF assms(1)] .
  note g = get_client_mem [OF c(1)] and ws = able_server(2,4) [OF assms(1)]
  have few: "sendable (Reply_ErrNeedMoreParams c (lit ''USER''))"
    by (rule Reply_ErrNeedMoreParams_sendable [OF c(2)]) simp
  from assms(2) show ?thesis
  proof (elim disjE exE conjE)
    assume "parse_err m = 461"
    then show ?thesis by (simp add: Handler_User_def g) (rule push_last [OF assms(1) few])
  next
    fix u r assume m: "parse_err m = 0" "says w a (user_username m) u" "says w a (user_fullname m) r"
      "length u + length r \<le> 200"
    show ?thesis
    proof (cases "registered c")
      case True
      then show ?thesis using m(1)
        by (simp add: Handler_User_def g) (rule push_last [OF assms(1) Reply_ErrAlreadyRegistered_sendable [OF c(2)]])
    next
      case False
      let ?f = "\<lambda>c. c\<lparr>username := pad IRC_MSG_SIZE u, fullname := pad IRC_MSG_SIZE r, receivedUser := True\<rparr>"
      let ?v = "upd_client a ?f w"
      have nul: "NUL \<notin> set u" "NUL \<notin> set r" using m(2,3) says_no_NUL by blast+
      have len: "length (username c) = IRC_MSG_SIZE" "length (fullname c) = IRC_MSG_SIZE"
        using c(2) by (simp_all add: client_ok_def array_ok_def)
      have e: "Handler_User a m w = rbind (Client_TryRegister a ?v) (\<lambda>(w, r). Inr (push_optional a r w, 0))"
        using m False nul len says_str [OF m(2)] says_str [OF m(3)]
        by (simp add: Handler_User_def g strncpy_pad)
      have a: "array_ok IRC_MSG_SIZE (pad IRC_MSG_SIZE u)" "array_ok IRC_MSG_SIZE (pad IRC_MSG_SIZE r)"
        by (rule array_ok_pad; use nul m(4) in simp)+
      have "world_ok ?v"
        using inv_client(1) [OF ws(1)] a by (intro inv_upd_client [OF ws(1)]) (auto simp: client_ok_def)
      moreover have "handler_frame a w ?v" by (rule handler_frame_upd_client) simp_all
      moreover have "modest (?f d)" if "client_mem w a = Some d" for d
        using sane_client [OF ws(2) that] m(4) nul by (simp add: modest_def cstring_pad)
      then have "sane ?v" by (intro sane_change [OF ws(2)]) (use modest_views [OF ws(2), of ?f a] in simp_all)
      ultimately have "able a ?v" by (rule able_step [OF assms(1)]) (simp add: queue_upd_client)
      then show ?thesis unfolding e by (rule TryRegister_ok)
    qed
  qed
qed

lemma client_set_away_ok:
  assumes "able a w" and "NUL \<notin> set t" and "length t \<le> 200"
  shows "ok (client_set_away a t w) (able a)"
proof -
  note ws = able_server(2,4) [OF assms(1)]
  obtain c where c: "client_mem w a = Some c" "client_ok c" using able_client [OF assms(1)] .
  define am where "am d = pad IRC_MSG_SIZE t @ drop IRC_MSG_SIZE (away_message d)" for d :: client_s
  have am: "strncpy (away_message d) t IRC_MSG_SIZE = Inr (am d)" if "client_ok d" for d
    using that assms(3) by (simp add: strncpy_def am_def client_ok_def array_ok_def)
  have am_text: "cstring (am d) = t" if "client_ok d" for d
    using strncpy_cstr [OF am [OF that] assms(2)] assms(3) by (intro cstr_cstring) simp
  let ?f = "\<lambda>d. d\<lparr>away := True, away_message := am c\<rparr>" and ?v = "upd_client a (\<lambda>d. d\<lparr>away := True, away_message := am c\<rparr>) w"
  have v: "client_set_away a t w = Inr ?v"
    using am [OF c(2)] by (simp add: client_set_away_def get_client_mem [OF c(1)])
  have "length t < IRC_MSG_SIZE" using assms(3) by simp
  note inv = client_set_away_inv(1,2) [OF v ws(1) this]
  have "modest (?f d)" if "client_mem w a = Some d" for d
    using sane_client [OF ws(2) that] assms(3) am_text [OF c(2)] by (simp add: modest_def)
  then have "sane ?v" by (intro sane_change [OF ws(2)]) (use modest_views [OF ws(2), of ?f a] in simp_all)
  then have "able a ?v" by (rule able_step [OF assms(1) inv]) (simp add: queue_upd_client)
  then show ?thesis by (simp add: v)
qed

lemma client_unset_away_ok:
  assumes "able a w"
  shows "ok (client_unset_away a w) (able a)"
proof -
  note ws = able_server(2,4) [OF assms(1)]
  obtain c where c: "client_mem w a = Some c" "client_ok c" using able_client [OF assms(1)] .
  let ?f = "\<lambda>d. d\<lparr>away := False\<rparr>" and ?v = "upd_client a (\<lambda>d. d\<lparr>away := False\<rparr>) w"
  have v: "client_unset_away a w = Inr ?v" by (simp add: client_unset_away_def get_client_mem [OF c(1)])
  note inv = client_unset_away_inv(1,2) [OF v ws(1)]
  have "modest (?f d)" if "client_mem w a = Some d" for d
    using sane_client [OF ws(2) that] by (simp add: modest_def)
  then have "sane ?v" by (intro sane_change [OF ws(2)]) (use modest_views [OF ws(2), of ?f a] in simp_all)
  then have "able a ?v" by (rule able_step [OF assms(1) inv]) (simp add: queue_upd_client)
  then show ?thesis by (simp add: v)
qed

lemma handler_away_ok:
  assumes "able a w"
    and "case away_text m of None \<Rightarrow> True | Some _ \<Rightarrow> \<exists>s. says w a (away_text m) s \<and> length s \<le> 200"
  shows "returns_able a (handler_away a m w)"
proof -
  obtain c where c: "client_mem w a = Some c" "client_ok c" using able_client [OF assms(1)] .
  have r: "sendable (format_rpl_nowaway c (server v))" "sendable (format_rpl_unaway c (server v))" if "able a v" for v
    by (rule sendable, rule c(2), rule able_server(1) [OF that])+
  show ?thesis
  proof (cases "away_text m")
    case None
    have "returns_able a (rbind (client_unset_away a w) (\<lambda>w.
        rbind (push_reply a (format_rpl_unaway c (server w)) w) (\<lambda>w. Inr (w, 0))))"
      by (rule ok_bind [OF client_unset_away_ok [OF assms(1)]]) (rule push_last, assumption, rule r)
    then show ?thesis using None by (simp add: handler_away_def get_client_mem [OF c(1)])
  next
    case (Some p)
    then obtain s where s: "says w a (away_text m) s" "length s \<le> 200" using assms(2) by auto
    have "returns_able a (rbind (client_set_away a s w) (\<lambda>w.
        rbind (push_reply a (format_rpl_nowaway c (server w)) w) (\<lambda>w. Inr (w, 0))))"
      by (rule ok_bind [OF client_set_away_ok [OF assms(1) says_no_NUL [OF s(1)] s(2)]])
        (rule push_last, assumption, rule r)
    then show ?thesis using Some says_str [OF s(1)] by (simp add: handler_away_def get_client_mem [OF c(1)])
  qed
qed

subsection \<open>PRIVMSG\<close>

lemma channel_sendall_privmsg_ok:
  assumes "able a w" and "env_ok e" and k: "channel_mem w ch = Some k"
    and "cstr q = Inr x" and "length (cstring (chan_name k)) + length x \<le> 200"
  shows "ok (channel_sendall_privmsg e ch a q w) (\<lambda>w'. able a w' \<and> hushed a w w')"
proof -
  obtain c where c: "client_mem w a = Some c" "client_ok c" "modest c" using able_client [OF assms(1)] .
  have "array_ok 51 (chan_name k)" using able_channel(1) [OF assms(1) k] by (simp add: channel_ok_def)
  then have "sendable (Message_Privmsg c (chan_name k) q)"
    by (intro Message_Privmsg_sendable [OF c(2,3) _ _ assms(5)]) (simp_all add: assms(4) array_ok_cstr)
  then obtain r where "Message_Privmsg c (chan_name k) q = Inr r" "writable r"
    by (auto simp: sendable_def ok_def writable_def)
  then show ?thesis using channel_send_message_ok [OF assms(1-3)]
    by (simp add: channel_sendall_privmsg_def get_channel_def k get_client_mem [OF c(1)])
qed

lemma Handler_Privmsg_ok:
  assumes "able a w" and "env_ok e"
    and "parse_err m = 411 \<or> parse_err m = 412 \<or> (\<exists>t x. parse_err m = 0 \<and> says w a (privmsg_msgtarget m) t \<and>
       says w a (privmsg_contents m) x \<and> length t + length x \<le> 200)"
  shows "returns_able a (Handler_Privmsg e a m w)"
proof -
  obtain c where c: "client_mem w a = Some c" "client_ok c" "modest c" using able_client [OF assms(1)] .
  note g = get_client_mem [OF c(1)]
  from assms(3) show ?thesis
  proof (elim disjE exE conjE)
    have s: "sendable (Reply_ErrNoRecipient c (lit ''PRIVMSG''))" by (rule Reply_ErrNoRecipient_sendable [OF c(2)]) simp
    assume "parse_err m = 411"
    then show ?thesis by (simp add: Handler_Privmsg_def g) (rule push_last [OF assms(1) s])
  next
    assume "parse_err m = 412"
    then show ?thesis
      by (simp add: Handler_Privmsg_def g) (rule push_last [OF assms(1) Reply_ErrNoTextToSend_sendable [OF c(2)]])
  next
    fix t x assume m: "parse_err m = 0" "says w a (privmsg_msgtarget m) t" "says w a (privmsg_contents m) x"
      "length t + length x \<le> 200"
    obtain q where q: "msg_ptr a (privmsg_contents m) w = Inr q" "cstr q = Inr x" using says_ptr [OF m(3)] .
    have lt: "fits_in (S (lit t)) (length t)" by (rule fits_lit [OF m(2)]) simp
    show ?thesis
    proof (cases "take 1 t \<in> {''#'', ''+'', ''!'', ''&''}")
      case True
      show ?thesis
      proof (cases "g_lookup (channels (server w)) t")
        case None
        then show ?thesis using True m(1) says_str [OF m(2)] assms(1) by (simp add: Handler_Privmsg_def g)
      next
        case (Some ch)
        obtain k where k: "channel_mem w ch = Some k" "cstring (chan_name k) = t" using able_table [OF assms(1) Some] .
        have e: "Handler_Privmsg e a m w = rbind (channel_sendall_privmsg e ch a q w) (\<lambda>w. Inr (w, 0))"
          using Some True m(1) says_str [OF m(2)] q by (simp add: Handler_Privmsg_def g)
        show ?thesis unfolding e
          by (rule ok_bind [OF channel_sendall_privmsg_ok [OF assms(1,2) k(1) q(2)]]) (use k(2) m(4) in simp_all)
      qed
    next
      case False
      show ?thesis
      proof (cases "g_lookup (nicks (server w)) t")
        case None
        have "sendable (Reply_ErrNoSuchNick c (lit t))"
          by (rule Reply_ErrNoSuchNick_sendable [OF c(2) fits_lit [OF m(2)]]) (use m(4) in simp)
        then show ?thesis using None False m(1) says_str [OF m(2)]
          by (simp add: Handler_Privmsg_def g) (rule push_last [OF assms(1)])
      next
        case (Some i)
        obtain b d where d: "g_lookup (clients (server w)) i = Some b" "client_mem w b = Some d" "client_ok d" "i \<noteq> 0"
          using nick_owner_live [OF assms(1) Some] by metis
        have "sendable (Message_Privmsg c (lit t) q)"
          by (rule Message_Privmsg_sendable [OF c(2,3) lt _ m(4)]) (use q(2) in simp)
        then obtain r where r: "Message_Privmsg c (lit t) q = Inr r" "writable r"
          by (auto simp: sendable_def ok_def writable_def)
        have e: "Handler_Privmsg e a m w = rbind (Client_Send b r w) (\<lambda>w.
                rbind (get_client w b) (\<lambda>tc.
                  if away tc then rbind (get_client w a) (\<lambda>c.
                    rbind (push_reply a (format_rpl_away c (server w) (nickname tc) (away_message tc)) w) (\<lambda>w.
                      Inr (w, 0)))
                  else Inr (w, 0)))"
          using Some False m(1) says_str [OF m(2)] q d r by (simp add: Handler_Privmsg_def g)
        show ?thesis unfolding e
        proof (rule ok_bind [OF Client_Send_ok [OF assms(1) _ r(2)]])
          fix v assume v: "able a v \<and> hushed a w v"
          obtain tc where tc: "client_mem v b = Some tc" using hushed_client_mem [of a w v b] v d(2) by auto
          obtain sc where sc: "client_mem v a = Some sc" "client_ok sc" using able_client v by blast
          have vs: "world_ok v" "sane v" "modest_server (server v)" using able_server v by blast+
          have ok: "client_ok tc" "modest tc"
            using inv_client(1) [OF vs(1) view_SomeI [OF tc]] sane_client [OF vs(2) tc] by simp_all
          have "fits_in (S (away_message tc)) 200"
            using client_strings_fit(3) [OF ok(1)] ok(2) by (auto simp: modest_def ok_def)
          then have s: "sendable (format_rpl_away sc (server v) (nickname tc) (away_message tc))"
            by (intro format_rpl_away_sendable [OF sc(2) vs(3) client_fits(1) [OF ok(1)]])
          show "returns_able a (rbind (get_client v b) (\<lambda>tc.
                  if away tc then rbind (get_client v a) (\<lambda>c.
                    rbind (push_reply a (format_rpl_away c (server v) (nickname tc) (away_message tc)) v) (\<lambda>w.
                      Inr (w, 0)))
                  else Inr (v, 0)))"
            using v by (simp add: get_client_mem [OF tc] get_client_mem [OF sc(1)] push_last [OF _ s])
        qed (use d(2) in simp)
      qed
    qed
  qed
qed

end
