(* ===== verification/ChannelsDefined.thy ===== *)
theory ChannelsDefined
  imports ChangesDefined
begin

text \<open>
  The handlers that change channels, TOPIC, PART and JOIN, in an \<open>able\<close> state; and the dispatcher: a
  command the code can carry out (\<open>tame\<close>) is handled without undefined behaviour.
\<close>

subsection \<open>Lowercasing in place\<close>

lemma cstr_pattern:
  assumes "map (\<lambda>c. c = NUL) x = map (\<lambda>c. c = NUL) y" and "cstr y = Inr t"
  shows "\<exists>t'. cstr x = Inr t' \<and> length t' = length t"
proof -
  have l: "length (takeWhile (\<lambda>c. c \<noteq> NUL) z) = length (takeWhile Not (map (\<lambda>c. c = NUL) z))" for z
    by (simp add: takeWhile_map comp_def)
  have m: "NUL \<in> set z \<longleftrightarrow> True \<in> set (map (\<lambda>c. c = NUL) z)" for z by auto
  have "NUL \<in> set y" "t = takeWhile (\<lambda>c. c \<noteq> NUL) y" using assms(2) by (auto simp: cstr_def split: if_splits)
  moreover from this have "NUL \<in> set x" by (simp only: m assms(1))
  ultimately show ?thesis by (simp only: cstr_def if_True) (simp add: l assms(1))
qed

lemma write_lowercase_pattern:
  assumes "cstr (drop q buf) = Inr s"
  shows "map (\<lambda>c. c = NUL) (write_at q (lowercase s) buf) = map (\<lambda>c. c = NUL) buf"
proof -
  let ?f = "map (\<lambda>c. c = NUL)"
  obtain r where r: "drop q buf = s @ NUL # r" using cstr_InrD [OF assms] by blast
  have "drop (q + length s) buf = drop (length s) (drop q buf)" by (simp add: add.commute)
  then have d: "drop (q + length s) buf = NUL # r" by (simp add: r)
  have "?f (lowercase s) = ?f s" by (simp add: lowercase_def comp_def)
  then have "?f (write_at q (lowercase s) buf) = ?f (take q buf) @ ?f (drop q buf)"
    by (simp add: write_at_def d r)
  also have "\<dots> = ?f buf" by (simp only: map_append [symmetric] append_take_drop_id)
  finally show ?thesis .
qed

lemma store_says:
  assumes "says w a p s" and "says w a q t"
  shows "\<exists>t'. says (store_str a p (lowercase s) w) a q t' \<and> length t' = length t"
proof -
  from assms obtain c i j where c: "client_mem w a = Some c" and i: "p = Some i" "cstr (drop i (conn_message (conn c))) = Inr s"
    and j: "q = Some j" "cstr (drop j (conn_message (conn c))) = Inr t"
    by (auto simp: says_def msg_buf_def points_def)
  let ?b = "write_at i (lowercase s) (conn_message (conn c))"
  have "map (\<lambda>c. c = NUL) (drop j ?b) = map (\<lambda>c. c = NUL) (drop j (conn_message (conn c)))"
    by (simp only: drop_map [symmetric] write_lowercase_pattern [OF i(2)])
  from cstr_pattern [OF this j(2)] obtain t' where "cstr (drop j ?b) = Inr t'" "length t' = length t" by blast
  then show ?thesis using c i(1) j(1) by (auto simp: says_def msg_buf_def points_def store_str_def)
qed

lemma store_able:
  assumes "able a w" and "says w a p s"
  shows "able a (store_str a p (lowercase s) w)" "server (store_str a p (lowercase s) w) = server w"
    "channel_mem (store_str a p (lowercase s) w) = channel_mem w" "view (store_str a p (lowercase s) w) = view w"
proof -
  have "calm a w (store_str a p (lowercase s) w)" by (rule store_str_calm [OF says_str [OF assms(2)]]) simp
  then have q: "quiet w (store_str a p (lowercase s) w)" by (rule calm_quiet)
  have "queue (store_str a p (lowercase s) w) = queue w"
    by (rule ext) (auto simp: store_str_def queue_def set_message_def split: option.split)
  then have "sendq_ok (store_str a p (lowercase s) w)" using assms(1) by (simp add: able_def sendq_ok_def)
  with able_quiet [OF assms(1) q] show "able a (store_str a p (lowercase s) w)" .
  show "server (store_str a p (lowercase s) w) = server w"
    "channel_mem (store_str a p (lowercase s) w) = channel_mem w" "view (store_str a p (lowercase s) w) = view w"
    using quiet_eqs [OF q] by simp_all
qed

subsection \<open>TOPIC\<close>

lemma sane_upd_channel:
  assumes "sane w" and "\<And>k. channel_mem w ch = Some k \<Longrightarrow> length (members (g k)) \<le> MEMBERS_MAX \<and> chan_name (g k) = chan_name k"
  shows "sane (upd_channel ch g w)"
  using assms unfolding sane_def table_ok_def by (auto split: if_splits) metis+

lemma queue_others [simp]: "queue (w\<lparr>channel_mem := cm\<rparr>) = queue w" "queue (w\<lparr>channel_mem := cm, next_addr := n\<rparr>) = queue w"
  by (simp_all add: queue_def fun_eq_iff)

lemma channel_set_topic_ok:
  assumes "able a w" and k: "channel_mem w ch = Some k"
  shows "ok (channel_set_topic ch t w) (able a)"
proof -
  have "length (chan_topic k) = 256" using able_channel(1) [OF assms] by (simp add: channel_ok_def array_ok_def)
  then have "\<exists>v. channel_set_topic ch t w = Inr v"
    by (auto simp: channel_set_topic_def get_channel_def k strncpy_def length_pad)
  then obtain v where v: "channel_set_topic ch t w = Inr v" by blast
  then obtain tp where e: "v = upd_channel ch (\<lambda>k. k\<lparr>chan_topic := tp\<rparr>) w"
    by (auto simp: channel_set_topic_def elim!: rbind_InrE split: if_splits)
  note inv = channel_set_topic_inv(1,2) [OF v able_server(2) [OF assms(1)]]
  have "sane v" unfolding e
    by (rule sane_upd_channel [OF able_server(4) [OF assms(1)]]) (use able_channel(2) [OF assms(1)] in simp)
  then have "able a v" by (rule able_step [OF assms(1) inv]) (simp add: e)
  with v show ?thesis by simp
qed

lemma handler_topic_ok:
  assumes "able a w"
    and "parse_err m = 461 \<or> (\<exists>n. parse_err m = 0 \<and> says w a (topic_channel m) n \<and> length n \<le> 200 \<and>
       (topic_topic m \<noteq> None \<longrightarrow> (\<exists>t. says w a (topic_topic m) t) \<and> g_lookup (channels (server w)) (lowercase n) \<noteq> None))"
  shows "returns_able a (handler_topic a m w)"
proof -
  obtain c where c: "client_mem w a = Some c" "client_ok c" using able_client [OF assms(1)] .
  note g = get_client_mem [OF c(1)]
  from assms(2) show ?thesis
  proof (elim disjE exE conjE)
    have s: "sendable (Reply_ErrNeedMoreParams c (lit ''TOPIC''))" by (rule Reply_ErrNeedMoreParams_sendable [OF c(2)]) simp
    assume "parse_err m = 461"
    then show ?thesis by (simp add: handler_topic_def g) (rule push_last [OF assms(1) s])
  next
    fix n assume n: "parse_err m = 0" "says w a (topic_channel m) n" "length n \<le> 200"
      and set: "topic_topic m \<noteq> None \<longrightarrow> (\<exists>t. says w a (topic_topic m) t) \<and> g_lookup (channels (server w)) (lowercase n) \<noteq> None"
    let ?v = "store_str a (topic_channel m) (lowercase n) w"
    note v = store_able [OF assms(1) n(2)]
    note e = handler_topic_def g says_str [OF n(2)] n(1) server_get_channel_def Let_def
    show ?thesis
    proof (cases "topic_topic m")
      case (Some p)
      then obtain t ch where t: "says w a (topic_topic m) t" and ch: "g_lookup (channels (server w)) (lowercase n) = Some ch"
        using set by auto
      obtain t' where t': "says ?v a (topic_topic m) t'" using store_says [OF n(2) t] by blast
      obtain k where "channel_mem w ch = Some k" using able_table [OF assms(1) ch] .
      then have "ok (channel_set_topic ch t' ?v) (able a)" by (intro channel_set_topic_ok [OF v(1)]) (simp add: v)
      then show ?thesis using Some ch says_str [OF t'] by (auto simp: e ok_def)
    next
      case None
      show ?thesis
      proof (cases "g_lookup (channels (server w)) (lowercase n)")
        case no: None
        have "NUL \<notin> set (lowercase n)" using says_no_NUL [OF n(2)] by (simp add: lowercase_no_NUL)
        then have "sendable (Reply_ErrNoSuchChannel c (server ?v) (lit (lowercase n)))"
          by (intro Reply_ErrNoSuchChannel_sendable [OF c(2) able_server(1) [OF v(1)]]) (use n(3) in simp)
        from push_last [OF v(1) this] show ?thesis using None no by (simp add: e)
      next
        case (Some ch)
        obtain k where k: "channel_mem w ch = Some k" using able_table [OF assms(1) Some] .
        have k': "channel_mem ?v ch = Some k" using k by (simp add: v)
        have "sendable (Reply_RplTopic c (server ?v) k)" "sendable (Reply_RplNoTopic c (server ?v) k)"
          by (rule sendable, rule c(2), rule able_server(1) [OF v(1)], rule able_channel(1) [OF v(1) k'])+
        then show ?thesis using None Some k' v(1) by (simp add: e get_channel_def push_last)
      qed
    qed
  qed
qed

subsection \<open>PART\<close>

lemma channel_sendall_part_ok:
  assumes "able a w" and "env_ok e" and k: "channel_mem w ch = Some k" and c: "client_mem w a = Some c"
    and "fits_in (S (case p of Some m \<Rightarrow> m | None \<Rightarrow> nickname c)) j" and "length (cstring (chan_name k)) + j \<le> 200"
  shows "ok (channel_sendall_part e ch a p w) (\<lambda>w'. able a w' \<and> hushed a w w')"
proof -
  have "array_ok 51 (chan_name k)" using able_channel(1) [OF assms(1) k] by (simp add: channel_ok_def)
  then have "sendable (Format_MessagePart c (chan_name k) p)"
    by (intro Format_MessagePart_sendable [OF able_get [OF assms(1) c] _ assms(5,6)]) (simp add: array_ok_cstr)
  then obtain r where "Format_MessagePart c (chan_name k) p = Inr r" "writable r"
    by (auto simp: sendable_def ok_def writable_def)
  then show ?thesis using channel_send_message_ok [OF assms(1-3)]
    by (simp add: channel_sendall_part_def get_channel_def k get_client_mem [OF c])
qed

lemma channel_remove_member_ok:
  assumes "able a w" and k: "channel_mem w ch = Some k"
  shows "ok (channel_remove_member ch a w) (\<lambda>v. able a v \<and> channel_mem v ch \<noteq> None)"
proof -
  obtain c where c: "client_mem w a = Some c" using able_client [OF assms(1)] .
  let ?g = "\<lambda>k. k\<lparr>members := g_remove (clientId c) (members k), member_modes := g_remove (clientId c) (member_modes k)\<rparr>"
  have v: "channel_remove_member ch a w = Inr (upd_channel ch ?g w)"
    by (simp add: channel_remove_member_def get_channel_def k get_client_mem [OF c])
  note inv = channel_remove_member_inv(1,2) [OF v able_server(2) [OF assms(1)]]
  have "length (g_remove i (members k)) \<le> length (members k)" for i by (simp add: g_remove_def length_delete_le)
  then have "sane (upd_channel ch ?g w)"
    using able_channel(2) [OF assms] k by (intro sane_upd_channel [OF able_server(4) [OF assms(1)]]) (auto intro: order_trans)
  then have "able a (upd_channel ch ?g w)" by (rule able_step [OF assms(1) inv]) simp
  with v k show ?thesis by simp
qed

lemma server_remove_channel_ok:
  assumes "able a w" and k: "channel_mem w ch = Some k"
  shows "ok (server_remove_channel ch w) (able a)"
proof -
  have n: "cstr (chan_name k) = Inr (cstring (chan_name k))"
    using able_channel(1) [OF assms] by (auto simp: channel_ok_def intro: array_ok_cstr)
  let ?u = "upd_server (\<lambda>s. s\<lparr>channels := g_remove (cstring (chan_name k)) (channels s)\<rparr>) w"
  let ?v = "?u\<lparr>channel_mem := (channel_mem ?u)(ch := None)\<rparr>"
  have v: "server_remove_channel ch w = Inr ?v"
    by (simp add: server_remove_channel_def get_channel_def k n Let_def)
  note inv = server_remove_channel_inv(1,2) [OF v able_server(2) [OF assms(1)]]
  have t: "table_ok w" "sane w" using able_server(4) [OF assms(1)] by (simp_all add: sane_def)
  have "table_ok ?v"
    unfolding table_ok_def
  proof (intro allI impI)
    fix key x assume "g_lookup (channels (server ?v)) key = Some x"
    then have x: "key \<noteq> cstring (chan_name k)" "g_lookup (channels (server w)) key = Some x" by (auto split: if_splits)
    from t(1) x(2) obtain l where l: "channel_mem w x = Some l" "cstring (chan_name l) = key" by (auto simp: table_ok_def)
    then have "x \<noteq> ch" using x(1) k by auto
    with l show "\<exists>k. channel_mem ?v x = Some k \<and> cstring (chan_name k) = key" by simp
  qed
  then have "sane ?v" using t(2) by (auto simp: sane_def modest_server_def)
  then have "able a ?v" by (rule able_step [OF assms(1) inv]) simp
  with v show ?thesis by simp
qed

lemma handler_part_ok:
  assumes "able a w" and "env_ok e" and n: "says w a (part_channels m) n" "length n \<le> 200"
    and x: "part_message m = None \<or> (\<exists>t. says w a (part_message m) t \<and> length n + length t \<le> 200)"
  shows "returns_able a (handler_part e a m w)"
proof -
  let ?v = "store_str a (part_channels m) (lowercase n) w"
  note v = store_able [OF assms(1) n(1)]
  obtain c where c: "client_mem w a = Some c" "client_ok c" using able_client [OF assms(1)] .
  obtain c' where c': "client_mem ?v a = Some c'" "client_ok c'" using able_client [OF v(1)] .
  have "core c' = core c" using view_SomeI [OF c(1)] view_SomeI [OF c'(1)] by (simp add: v(4))
  then have nick: "nickname c' = nickname c" by (rule core_eqD)
  note e = handler_part_def get_client_mem [OF c(1)] says_str [OF n(1)] server_get_channel_def Let_def
  show ?thesis
  proof (cases "g_lookup (channels (server w)) (lowercase n)")
    case None
    have "NUL \<notin> set (lowercase n)" using says_no_NUL [OF n(1)] by (simp add: lowercase_no_NUL)
    then have "sendable (Reply_ErrNoSuchChannel c (server ?v) (lit (lowercase n)))"
      by (intro Reply_ErrNoSuchChannel_sendable [OF c(2) able_server(1) [OF v(1)]]) (use n(2) in simp)
    from push_last [OF v(1) this] show ?thesis using None by (simp add: e v)
  next
    case (Some ch)
    obtain k where k: "channel_mem w ch = Some k" "cstring (chan_name k) = lowercase n" using able_table [OF assms(1) Some] .
    have k': "channel_mem ?v ch = Some k" using k by (simp add: v)
    note ck = able_channel(1) [OF v(1) k']
    have "length (cstring (chan_name k)) \<le> 50" using channel_fits(1) [OF ck] by (auto simp: ok_def dest: cstr_cstring)
    then have n50: "length n \<le> 50" by (simp add: k(2))
    show ?thesis
    proof (cases "channel_is_member k c")
      case False
      have "sendable (Reply_ErrNotOnChannel c (server ?v) k)"
        by (rule Reply_ErrNotOnChannel_sendable [OF c(2) able_server(1) [OF v(1)] ck])
      from push_last [OF v(1) this] show ?thesis using Some False k' by (simp add: e v get_channel_def)
    next
      case True
      have "\<exists>pm j. (if part_message m = None then Inr None
            else rbind (msg_ptr a (part_message m) ?v) (\<lambda>p. Inr (Some p))) = Inr pm \<and>
          fits_in (S (case pm of Some m \<Rightarrow> m | None \<Rightarrow> nickname c')) j \<and> length (cstring (chan_name k)) + j \<le> 200"
        using x
      proof (elim disjE exE conjE)
        assume "part_message m = None"
        then show ?thesis using client_fits(1) [OF c'(2)] n50 by (intro exI [of _ None] exI [of _ 9]) (simp add: k(2))
      next
        fix t assume t: "says w a (part_message m) t" "length n + length t \<le> 200"
        obtain t' where t': "says ?v a (part_message m) t'" "length t' = length t" using store_says [OF n(1) t(1)] by blast
        obtain q where "msg_ptr a (part_message m) ?v = Inr q" "cstr q = Inr t'" using says_ptr [OF t'(1)] .
        then show ?thesis using t t'(2) says_not_null [OF t(1)]
          by (intro exI [of _ "Some q"] exI [of _ "length t"]) (simp add: k(2))
      qed
      then obtain pm j where pm: "(if part_message m = None then Inr None
            else rbind (msg_ptr a (part_message m) ?v) (\<lambda>p. Inr (Some p))) = Inr pm"
        "fits_in (S (case pm of Some m \<Rightarrow> m | None \<Rightarrow> nickname c')) j" "length (cstring (chan_name k)) + j \<le> 200" by blast
      let ?rest = "\<lambda>w. rbind (channel_remove_member ch a w) (\<lambda>w. rbind (get_channel w ch) (\<lambda>channel.
                 if channel_size channel = 0 then rbind (server_remove_channel ch w) (\<lambda>w. Inr (w, 0)) else Inr (w, 0)))"
      have h: "handler_part e a m w = rbind (channel_sendall_part e ch a pm ?v) ?rest"
        using Some True k' pm(1) by (simp add: e v get_channel_def)
      show ?thesis unfolding h
      proof (rule ok_bind [OF channel_sendall_part_ok [OF v(1) assms(2) k' c'(1) pm(2,3)]])
        fix u assume u: "able a u \<and> hushed a ?v u"
        have ku: "channel_mem u ch = Some k" using hushed_eqs(3) [of a ?v u] u k' by simp
        show "returns_able a (?rest u)"
        proof (rule ok_bind [OF channel_remove_member_ok [OF _ ku]])
          fix z assume z: "able a z \<and> channel_mem z ch \<noteq> None"
          then obtain l where l: "channel_mem z ch = Some l" by blast
          have "ok (server_remove_channel ch z) (able a)" using server_remove_channel_ok [OF _ l] z by blast
          then show "returns_able a (rbind (get_channel z ch) (\<lambda>channel.
                 if channel_size channel = 0 then rbind (server_remove_channel ch z) (\<lambda>w. Inr (w, 0)) else Inr (z, 0)))"
            using z l by (auto simp: get_channel_def ok_def)
        qed (use u in simp)
      qed
    qed
  qed
qed

subsection \<open>JOIN\<close>

text \<open>
  A channel name the server can take: it is not cut when it is stored, and the channel has room for
  one more name in RPL_NAMREPLY, or the client is in it already.
\<close>

definition joinable :: "world \<Rightarrow> caddr \<Rightarrow> string \<Rightarrow> bool" where
  "joinable w a n \<longleftrightarrow> length n \<le> CHANNEL_NAME_MAX \<and>
     (case g_lookup (channels (server w)) (lowercase n) of None \<Rightarrow> True
      | Some ch \<Rightarrow> (case (channel_mem w ch, view w a) of
          (Some k, Some c) \<Rightarrow> length (members k) < MEMBERS_MAX \<or> g_lookup (members k) (clientId c) \<noteq> None
        | _ \<Rightarrow> True))"

lemma joinable_hushed: "hushed a w w' \<Longrightarrow> joinable w' a n = joinable w a n"
  unfolding joinable_def by (simp only: hushed_eqs)

lemma g_size_insert: "g_lookup h k = None \<Longrightarrow> length (g_insert k v h) = length h + 1"
  by (simp add: g_insert_def g_lookup_def update_fresh_append map_of_eq_None_iff)

lemma channel_sendall_join_ok:
  assumes "able a w" and "env_ok e" and k: "channel_mem w ch = Some k"
  shows "ok (channel_sendall_join e ch a w) (\<lambda>w'. able a w' \<and> hushed a w w')"
proof -
  obtain c where c: "client_mem w a = Some c" "client_ok c" "modest c" using able_client [OF assms(1)] .
  have "sendable (Format_MessageJoin c (chan_name k))"
    by (rule Format_MessageJoin_sendable [OF c(2,3) able_channel(1) [OF assms(1) k]])
  then obtain r where "Format_MessageJoin c (chan_name k) = Inr r" "writable r"
    by (auto simp: sendable_def ok_def writable_def)
  then show ?thesis using channel_send_message_ok [OF assms]
    by (simp add: channel_sendall_join_def get_channel_def k get_client_mem [OF c(1)])
qed

lemma channel_join_ok:
  assumes "able a w" and "env_ok e" and k: "channel_mem w ch = Some k" and c: "client_mem w a = Some c"
    and room: "length (members k) < MEMBERS_MAX \<or> g_lookup (members k) (clientId c) \<noteq> None"
  shows "ok (channel_join e ch a w) (\<lambda>(v, n). able a v \<and> view v = view w \<and> server v = server w \<and>
     (\<exists>l. channel_mem v = (channel_mem w)(ch \<mapsto> l) \<and> g_lookup (members l) (clientId c) \<noteq> None))"
proof (cases "g_lookup (members k) (clientId c) = None")
  case False
  then show ?thesis using assms(1)
    by (auto simp: channel_join_def get_channel_def k get_client_mem [OF c] intro!: exI [of _ k])
next
  case True
  let ?g = "\<lambda>k. k\<lparr>members := g_insert (clientId c) a (members k)\<rparr>" and ?v = "upd_channel ch (\<lambda>k. k\<lparr>members := g_insert (clientId c) a (members k)\<rparr>) w"
  have e: "channel_join e ch a w = rbind (channel_sendall_join e ch a ?v) (\<lambda>w. Inr (w, 0))"
    using True by (simp add: channel_join_def get_channel_def k get_client_mem [OF c])
  have "world_ok ?v"
    using inv_channel [OF able_server(2) [OF assms(1)] k] view_SomeI [OF c]
    by (intro inv_upd_channel [OF able_server(2) [OF assms(1)] k]) (auto simp: channel_ok_def split: if_splits)
  moreover have "sane ?v"
    by (rule sane_upd_channel [OF able_server(4) [OF assms(1)]]) (use k room True in \<open>simp add: g_size_insert\<close>)
  ultimately have v: "able a ?v" by (intro able_step [OF assms(1)]) simp_all
  have "ok (channel_sendall_join e ch a ?v) (\<lambda>w'. able a w' \<and> hushed a ?v w')"
    by (rule channel_sendall_join_ok [OF v assms(2)]) (use k in simp)
  then obtain u where u: "channel_sendall_join e ch a ?v = Inr u" "able a u" "hushed a ?v u" by (auto simp: ok_def)
  have "channel_mem ?v = (channel_mem w)(ch \<mapsto> ?g k)" using k by (auto simp: fun_eq_iff)
  then have "channel_mem u = (channel_mem w)(ch \<mapsto> ?g k)" by (simp add: hushed_eqs [OF u(3)])
  then show ?thesis using u by (auto simp: e hushed_eqs [OF u(3)] intro!: exI [of _ "?g k"])
qed

lemma table_ok_create:
  assumes "table_ok w" and "\<And>x k. channel_mem w x = Some k \<Longrightarrow> x \<noteq> ch" and "cstring (chan_name l) = n"
    and "channels (server v) = g_insert n ch (channels (server w))" and "channel_mem v = (channel_mem w)(ch \<mapsto> l)"
  shows "table_ok v"
  using assms unfolding table_ok_def by (auto split: if_splits)

lemma server_create_channel_ok:
  assumes "able a w" and "NUL \<notin> set n" and "length n \<le> CHANNEL_NAME_MAX" and c: "client_mem w a = Some c"
  shows "ok (server_create_channel n a w) (\<lambda>(v, ch). able a v \<and> view v = view w \<and>
     (\<exists>l. channel_mem v = (channel_mem w)(ch \<mapsto> l) \<and> g_lookup (members l) (clientId c) \<noteq> None) \<and>
     channels (server v) = g_insert (lowercase n) ch (channels (server w)))"
proof -
  note ws = able_server(2,4) [OF assms(1)]
  let ?n = "lowercase n" and ?ch = "next_addr w"
  define nm where "nm = pad CHANNEL_NAME_MAX (take CHANNEL_NAME_MAX ?n) @ drop CHANNEL_NAME_MAX (replicate (CHANNEL_NAME_MAX + 1) NUL)"
  have cp: "strncpy (replicate (CHANNEL_NAME_MAX + 1) NUL) ?n CHANNEL_NAME_MAX = Inr nm" by (simp add: strncpy_def nm_def)
  have "NUL \<notin> set ?n" using assms(2) by (simp add: lowercase_no_NUL)
  moreover have "nm = ?n @ NUL # replicate (50 - length n) NUL"
    using assms(3) by (simp add: nm_def pad_def replicate_append_same)
  ultimately have name: "cstring nm = ?n" using cstr_terminated [of ?n] by (intro cstr_cstring) simp
  define l where "l = \<lparr>chan_name = nm, chan_topic = replicate (CHANNEL_TOPIC_MAX + 1) NUL,
                      members = g_insert (clientId c) a g_empty, member_modes = g_empty,
                      chan_private = False, secret = False, invite_only = False,
                      no_outside_messages = False, moderated = False\<rparr>"
  let ?u = "w\<lparr>channel_mem := (channel_mem w)(?ch \<mapsto> l), next_addr := ?ch + 1\<rparr>"
  let ?v = "upd_server (\<lambda>s. s\<lparr>channels := g_insert ?n ?ch (channels s)\<rparr>) ?u"
  have v: "server_create_channel n a w = Inr (?v, ?ch)"
    using cp by (simp add: server_create_channel_def channel_new_def get_client_mem [OF c] l_def Let_def)
  note inv = server_create_channel_inv(1,2) [OF v ws(1)]
  have fresh: "x \<noteq> ?ch" if "channel_mem w x = Some k" for x k using inv_channel(2) [OF ws(1) that] by simp
  have "table_ok ?v"
  proof (rule table_ok_create)
    show "table_ok w" using ws(2) by (simp add: sane_def)
    show "cstring (chan_name l) = ?n" by (simp add: l_def name)
  qed (use fresh in simp_all)
  then have "sane ?v" using ws(2) by (auto simp: sane_def modest_server_def l_def g_insert_def g_empty_def)
  then have "able a ?v" by (rule able_step [OF assms(1) inv]) simp
  then show ?thesis by (simp add: v) (intro exI [of _ l], simp add: l_def)
qed

lemma joinable_after:
  assumes "joinable w a n" and "view v = view w" and "view w a = Some c"
    and "channels (server v) = channels (server w) \<or> (channels (server v) = g_insert m ch (channels (server w)))"
    and "channel_mem v = (channel_mem w)(ch \<mapsto> l)" and "g_lookup (members l) (clientId c) \<noteq> None"
  shows "joinable v a n"
  using assms by (auto simp: joinable_def split: option.splits if_splits)

lemma join_one_ok:
  assumes "able a w" and "env_ok e" and n: "joinable w a n" "NUL \<notin> set n"
  shows "ok (join_one e a n w) (\<lambda>v. able a v \<and> (\<forall>m. joinable w a m \<longrightarrow> joinable v a m))"
proof -
  obtain c where c: "client_mem w a = Some c" "client_ok c" "modest c" using able_client [OF assms(1)] .
  note vc = view_SomeI [OF c(1)]
  let ?get = "case server_get_channel (server w) n of
              (_, Some ch) \<Rightarrow> rbind (channel_join e ch a w) (\<lambda>(w, _). Inr (w, ch))
            | (name, None) \<Rightarrow> server_create_channel name a w"
  let ?P = "\<lambda>(v, ch). able a v \<and> view v = view w \<and> channel_mem v ch \<noteq> None \<and> (\<forall>m. joinable w a m \<longrightarrow> joinable v a m)"
  have get: "ok ?get ?P"
  proof (cases "g_lookup (channels (server w)) (lowercase n)")
    case None
    have nm: "NUL \<notin> set (lowercase n)" "length (lowercase n) \<le> CHANNEL_NAME_MAX"
      using n by (simp_all add: joinable_def lowercase_no_NUL)
    from server_create_channel_ok [OF assms(1) nm c(1)] obtain v ch l where
      v: "server_create_channel (lowercase n) a w = Inr (v, ch)" "able a v" "view v = view w"
      "channel_mem v = (channel_mem w)(ch \<mapsto> l)" "g_lookup (members l) (clientId c) \<noteq> None"
      "channels (server v) = g_insert (lowercase n) ch (channels (server w))" by (auto simp: ok_def)
    have "joinable v a m" if "joinable w a m" for m
      by (rule joinable_after [OF that v(3) vc disjI2 [OF v(6)] v(4)]) (use v(5) in simp)
    then have "ok (server_create_channel (lowercase n) a w) ?P" using v by simp
    then show ?thesis by (simp add: server_get_channel_def None)
  next
    case (Some ch)
    obtain k where k: "channel_mem w ch = Some k" using able_table [OF assms(1) Some] .
    have "length (members k) < MEMBERS_MAX \<or> g_lookup (members k) (clientId c) \<noteq> None"
      using n(1) Some k vc by (simp add: joinable_def)
    from channel_join_ok [OF assms(1,2) k c(1) this] obtain v r l where v: "channel_join e ch a w = Inr (v, r)"
      "able a v" "view v = view w" "server v = server w" "channel_mem v = (channel_mem w)(ch \<mapsto> l)"
      "g_lookup (members l) (clientId c) \<noteq> None" by (auto simp: ok_def)
    have "joinable v a m" if "joinable w a m" for m
      by (rule joinable_after [OF that v(3) vc _ v(5)]) (use v(4,6) in simp_all)
    then have "ok (rbind (channel_join e ch a w) (\<lambda>(w, _). Inr (w, ch))) ?P" using v by simp
    then show ?thesis by (simp add: server_get_channel_def Some)
  qed
  let ?rest = "\<lambda>(w, ch). rbind (get_channel w ch) (\<lambda>channel.
     rbind (get_client w a) (\<lambda>c.
     rbind (push_reply a (Format_MessageJoin c (chan_name channel)) w) (\<lambda>w.
     rbind (cstr (chan_topic channel)) (\<lambda>topic.
     rbind (if length topic \<noteq> 0 then push_reply a (Reply_RplTopic c (server w) channel) w else Inr w) (\<lambda>w.
     rbind (push_reply a (Reply_RplNamReply e w c (server w) channel) w) (\<lambda>w.
       push_reply a (Reply_RplEndOfNames c (server w) channel) w))))))"
  have "join_one e a n w = rbind ?get ?rest" unfolding join_one_def ..
  also have "ok \<dots> (\<lambda>v. able a v \<and> (\<forall>m. joinable w a m \<longrightarrow> joinable v a m))"
  proof (rule ok_bind [OF get])
    fix p assume "?P p"
    then obtain v ch k where p: "p = (v, ch)" "able a v" "channel_mem v ch = Some k" "\<forall>m. joinable w a m \<longrightarrow> joinable v a m"
      by (cases p) auto
    obtain d where d: "client_mem v a = Some d" "client_ok d" "modest d" using able_client [OF p(2)] .
    note ck = able_channel(1) [OF p(2,3)]
    have "array_ok 256 (chan_topic k)" using ck by (simp add: channel_ok_def)
    then obtain topic where t: "cstr (chan_topic k) = Inr topic" by (auto dest: array_ok_cstr)
    have replies: "sendable (Format_MessageJoin d (chan_name k))" by (rule Format_MessageJoin_sendable [OF d(2,3) ck])
    have later: "sendable (Reply_RplTopic d (server u) k)" "sendable (Reply_RplEndOfNames d (server u) k)" if "able a u" for u
      by (rule sendable, rule d(2), rule able_server(1) [OF that], rule ck)+
    have names: "sendable (Reply_RplNamReply e u d (server u) k)" if u: "able a u" "hushed a v u" for u
    proof -
      have "channel_mem u ch = Some k" using p(3) by (simp add: hushed_eqs [OF u(2)])
      note uk = able_channel [OF u(1) this]
      show ?thesis
        by (rule Reply_RplNamReply_sendable [OF d(2) able_server(1) [OF u(1)] ck assms(2) uk(2)]) (use uk(3) in auto)
    qed
    have "ok (rbind (push_reply a (Format_MessageJoin d (chan_name k)) v) (\<lambda>w.
       rbind (if length topic \<noteq> 0 then push_reply a (Reply_RplTopic d (server w) k) w else Inr w) (\<lambda>w.
       rbind (push_reply a (Reply_RplNamReply e w d (server w) k) w) (\<lambda>w.
         push_reply a (Reply_RplEndOfNames d (server w) k) w)))) (\<lambda>u. able a u \<and> hushed a v u)"
    proof (rule push_then [OF p(2) replies], rule push_if_then)
      fix u x assume u: "able a u" "hushed a v u" and x: "able a x" "hushed a u x"
      have h: "hushed a v x" using u(2) x(2) by (rule hushed_trans)
      show "ok (rbind (push_reply a (Reply_RplNamReply e x d (server x) k) x) (\<lambda>w.
          push_reply a (Reply_RplEndOfNames d (server w) k) w)) (\<lambda>u. able a u \<and> hushed a v u)"
        by (rule push_then [OF x(1) names [OF x(1) h]]) (blast intro: push_hushed later hushed_trans [OF h])
    qed (auto intro: later)
    then show "ok (?rest p) (\<lambda>v. able a v \<and> (\<forall>m. joinable w a m \<longrightarrow> joinable v a m))"
      using p(3,4) by (auto simp: p(1) get_channel_def get_client_mem [OF d(1)] t ok_def joinable_hushed)
  qed
  finally show ?thesis .
qed

lemma strtok_r_set: "strtok_r s d = Some (t, r) \<Longrightarrow> set t \<subseteq> set s \<and> set r \<subseteq> set s"
  by (auto simp: strtok_r_def Let_def split: if_splits
      dest!: set_takeWhileD set_dropWhileD in_set_dropD)

lemma strtok_all_set: "t \<in> set (strtok_all s d) \<Longrightarrow> set t \<subseteq> set s"
proof (induction s d rule: strtok_all.induct)
  case (1 s d)
  show ?case
  proof (cases "strtok_r s d")
    case None
    then show ?thesis using "1.prems" by (simp add: strtok_all.simps [of s d])
  next
    case (Some p)
    obtain u r where r: "strtok_r s d = Some (u, r)" using Some by (cases p) simp
    then have "t = u \<or> t \<in> set (strtok_all r d)" using "1.prems" by (simp add: strtok_all.simps [of s d])
    with strtok_r_set [OF r] "1.IH" [OF r refl] show ?thesis by blast
  qed
qed

lemma handler_join_ok:
  assumes "able a w" and "env_ok e"
    and "parse_err m = 461 \<or> (\<exists>s. parse_err m = 0 \<and> says w a (join_channels m) s \<and>
       (\<forall>n\<in>set (strtok_all s (CHR '','')). joinable w a n))"
  shows "returns_able a (handler_join e a m w)"
proof -
  obtain c where c: "client_mem w a = Some c" "client_ok c" using able_client [OF assms(1)] .
  note g = get_client_mem [OF c(1)]
  from assms(3) show ?thesis
  proof (elim disjE exE conjE)
    have s: "sendable (Reply_ErrNeedMoreParams c (lit ''JOIN''))" by (rule Reply_ErrNeedMoreParams_sendable [OF c(2)]) simp
    assume "parse_err m = 461"
    then show ?thesis by (simp add: handler_join_def g) (rule push_last [OF assms(1) s])
  next
    fix s assume m: "parse_err m = 0" "says w a (join_channels m) s"
      and j: "\<forall>n\<in>set (strtok_all s (CHR '','')). joinable w a n"
    have "ok (rfold (join_one e a) (strtok_all s (CHR '','')) w)
        (\<lambda>v. able a v \<and> (\<forall>n\<in>set (strtok_all s (CHR '','')). joinable v a n))"
    proof (rule ok_rfold)
      fix n u assume n: "n \<in> set (strtok_all s (CHR '',''))"
        and u: "able a u \<and> (\<forall>n\<in>set (strtok_all s (CHR '','')). joinable u a n)"
      have "NUL \<notin> set n" using strtok_all_set [OF n] says_no_NUL [OF m(2)] by blast
      then have "ok (join_one e a n u) (\<lambda>v. able a v \<and> (\<forall>m. joinable u a m \<longrightarrow> joinable v a m))"
        using join_one_ok [OF _ assms(2)] n u by blast
      then show "ok (join_one e a n u) (\<lambda>v. able a v \<and> (\<forall>n\<in>set (strtok_all s (CHR '','')). joinable v a n))"
        by (rule ok_mono) (use u in blast)
    qed (use assms(1) j in blast)
    then show ?thesis using m(1) says_str [OF m(2)] says_not_null [OF m(2)]
      by (auto simp: handler_join_def g ok_def)
  qed
qed

end
