(* ===== verification/Departed.thy ===== *)
theory Departed
  imports EndToEnd
begin

text \<open>
  After a client has gone: what \<open>Client_HandleRead\<close> does when \<open>read\<close> returns 0, and what every later
  iteration of the event loop leaves of the client.
\<close>

subsection \<open>Reads as steps of the event loop\<close>

definition read_event :: "int \<Rightarrow> caddr \<Rightarrow> read_result \<Rightarrow> io_event" where
  "read_event fd a rr = \<lparr>ev_handler = client_handler fd a, ev_bits = 1, ev_read = rr,
     ev_accept = Accept_error, ev_registered = True\<rparr>"

lemma read_bits: "(1 :: 32 word) AND NOT ((1 OR 8) OR 8 OR 16) = 0" "(1 :: 32 word) AND (1 OR 8) \<noteq> 0"
    "(1 :: 32 word) AND 4 = 0"
  by simp_all

lemma loop_step_read:
  assumes "(fd, client_handler fd a) \<in> set (interest w)" and "Client_HandleRead e rr a w = Inr (w', r)"
  shows "loop_step e w w'"
proof -
  let ?ev = "read_event fd a rr"
  have "reactor_configure_events 0 (client_handler fd a) = 1 OR 8"
    by (simp add: reactor_configure_events_def client_handler_def)
  then have "reported w [?ev]"
    using assms(1) read_bits(1) by (simp add: reported_def read_event_def client_handler_def)
  moreover have "handle_event e ?ev w = Inr w'"
    using assms(2) read_bits(2,3)
    by (simp add: handle_event_def read_event_def call_read_def client_handler_def Client_HandleReadEvent_def)
  ultimately show ?thesis by (auto simp: loop_step_def reactor_handle_events_def)
qed

lemma eof_read:
  assumes "client_mem w a = Some c" and "drained (conn c)"
  shows "\<exists>cn. drained cn \<and> conn_frame (conn c) cn \<and>
     Client_HandleRead e (Read_bytes []) a w = close_client a (set_conn a cn w)"
proof -
  obtain cn where cn: "conn_read_message (conn c) = Inr (cn, False)" "drained cn" "conn_frame (conn c) cn"
    using take_nothing [OF assms(2)] by blast
  have same: "set_conn a (conn c) w = w"
    using assms(1) by (cases w) (auto simp: set_conn_def upd_client_def fun_upd_idem)
  have n: "next_round a w = Inr (set_conn a cn w, False)"
    using assms(1) cn(1) by (simp add: next_round_def get_client_def)
  have "(IRC_MSG_SIZE :: nat) + 1 = Suc 512" by simp
  then have "handle_store e a w = Inr (set_conn a cn w)"
    unfolding handle_store_def by (simp only: handle_messages.simps n sum.case prod.case bool.case option.case)
  moreover have "Conn_ReadStoreBuffer (conn c) (Read_bytes []) = Inr (conn c, 0)"
    by (simp add: Conn_ReadStoreBuffer_def memcpy_def)
  ultimately have "Client_HandleRead e (Read_bytes []) a w = close_client a (set_conn a cn w)"
    using assms(1) by (simp add: Client_HandleRead_def get_client_def same)
  with cn(2,3) show ?thesis by blast
qed

subsection \<open>A closed client is never touched again\<close>

definition gone :: "caddr \<Rightarrow> client_s \<Rightarrow> world \<Rightarrow> bool" where
  "gone a v w \<longleftrightarrow> view w a = Some v \<and> \<not> is_open w a"

lemma gone_event:
  assumes "steady u" and "gone a v u" and "handle_event e ev u = Inr u'"
    and en: "(handler_fd (ev_handler ev), ev_handler ev) \<in> set (interest u)"
    and bits: "ev_bits ev AND NOT (reactor_configure_events 0 (ev_handler ev) OR EPOLLERR OR EPOLLHUP) = 0"
  shows "gone a v u'"
proof -
  have wok: "world_ok u" using assms(1) by (simp add: steady_def)
  then have ii: "interest_inv u" by (simp add: world_ok_def)
  from assms(3) ii en bits show ?thesis
  proof (cases rule: handle_event_cases)
    case accept
    then show ?thesis
    proof (cases rule: Server_HandleReadEvent_cases)
      case failed
      then show ?thesis using assms(2) by (simp add: gone_def view_def is_open_def)
    next
      case (accepted fd host b i c s)
      have "a \<noteq> b" using fresh_client(1) [OF wok] assms(2) accepted(2) by (auto simp: gone_def)
      then show ?thesis using assms(2) accepted(7)
        by (auto simp: gone_def view_def is_open_def client_handler_def)
    qed
  next
    case (read b d r)
    then have "b \<noteq> a" using assms(2) by (auto simp: gone_def)
    with Client_HandleRead_ok [OF read(1) assms(1) read(2,3)] assms(2) show ?thesis
      by (auto simp: gone_def is_open_def set_delete)
  qed (use assms(2) in simp)
qed

lemma gone_step:
  assumes "loop_step e w w'" and "steady w" and "gone a v w"
  shows "steady w' \<and> gone a v w'"
proof -
  obtain evs where evs: "reported w evs" "reactor_handle_events e evs w = Inr w'"
    using assms(1) unfolding loop_step_def by blast
  show ?thesis
    by (rule reactor_handle_events_keep [where P = "gone a v", OF evs(2) assms(2) evs(1) assms(3)])
      (rule gone_event)
qed

lemma gone_for_ever: "(loop_step e)\<^sup>*\<^sup>* w w' \<Longrightarrow> steady w \<Longrightarrow> gone a v w \<Longrightarrow> steady w' \<and> gone a v w'"
  by (induction rule: rtranclp_induct) (auto dest: gone_step)

text \<open>
  C20: a client that has gone keeps its nickname.  Once a connection is closed, every later state
  of the server still maps the client's nickname to it: the nickname can never be taken again, and
  a message to it is written to a descriptor that is closed or belongs to someone else.
\<close>

theorem departed_keeps_nickname:
  assumes "reachable e w" and "client_mem w a = Some c" and "\<not> is_open w a"
    and "receivedNick c" and "cstr (nickname c) = Inr n" and "(loop_step e)\<^sup>*\<^sup>* w w'"
  shows "g_lookup (nicks (server w')) n = Some (clientId c) \<and>
     g_lookup (clients (server w')) (clientId c) = Some a \<and> \<not> is_open w' a \<and>
     (\<exists>c'. client_mem w' a = Some c' \<and> conn_fd (conn c') = conn_fd (conn c))"
proof -
  have "steady w" by (rule reachable_is_steady [OF assms(1)])
  moreover have "gone a (core c) w" using assms(2,3) by (simp add: gone_def view_def)
  ultimately have g: "world_ok w'" "view w' a = Some (core c)" "\<not> is_open w' a"
    using gone_for_ever [OF assms(6)] by (auto simp: steady_def gone_def)
  then have "nick_owner w' (clientId c) = Some n"
    using inv_nick_owner [OF g(1,2)] assms(4,5) by (simp add: cstr_cstring)
  then have "g_lookup (nicks (server w')) n = Some (clientId c)"
    using g(1) by (simp add: world_ok_def nicks_inv_def gh.owns_def)
  moreover have "g_lookup (clients (server w')) (clientId c) = Some a" using inv_client(4) [OF g(1,2)] by simp
  moreover obtain d where "client_mem w' a = Some d" "core d = core c" using view_SomeD [OF g(2)] by auto
  ultimately show ?thesis using g(3) core_eqD(11) by blast
qed

text \<open>The session of the witnesses: \<open>ann\<close> signs in and hangs up.\<close>

lemma nick_session:
  "\<exists>w c. reachable demo_env w \<and> client_mem w 0 = Some c \<and> drained (conn c) \<and> conn_fd (conn c) = 5 \<and>
     receivedNick c \<and> \<not> receivedUser c \<and> cstr (nickname c) = Inr ''ann'' \<and> clientId c = 1 \<and>
     cstr (client_hostname c) = Inr ''host'' \<and> interest w = [(3, server_handler 3), (5, client_handler 5 0)]"
proof -
  obtain c where c: "client_mem demo_world 0 = Some c" "totalRead (conn c) = 0" "\<not> receivedNick c"
    "\<not> receivedUser c" "clientId c = 1" "conn_fd (conn c) = 5" "cstr (client_hostname c) = Inr ''host''"
    using demo_client by blast
  have f: "g_lookup (nicks (server demo_world)) ''ann'' = None" by code_simp
  have i: "interest demo_world = [(3, server_handler 3), (5, client_handler 5 0)]" by code_simp
  have st: "steady demo_world" by (rule reachable_is_steady [OF demo_reachable])
  have "client_ok (core c)"
    using inv_client(1) [OF reachable_world_ok [OF demo_reachable] view_SomeI [OF c(1)]] .
  then have ok: "length (nickname c) = IRC_NICK_SIZE + 1" "cstr (nickname c) = Inr (cstring (nickname c))"
    "drained (conn c)"
    using steady_client [OF steady_steady_but [OF st] c(1)] c(2) array_ok_cstr
    by (auto simp: client_ok_def array_ok_def drained_def)
  have q: "conn_responses (conn c) = []" using st c(1) by (auto simp: steady_def idle_def)
  have wn: "word_ok ''ann''" by (simp add: word_ok_def)
  obtain cn where cn: "drained cn" "conn_frame (conn c) cn"
    "Client_HandleRead demo_env (Read_bytes (''NICK '' @ ''ann'' @ CRLF)) 0 demo_world =
       Inr (set_conn 0 cn (take_nick 0 c (cstring (nickname c)) ''ann'' demo_world), 0)"
    using nick_line [OF c(1) ok(3) q c(4) ok(1,2) wn _ f, of demo_env] by auto
  let ?w = "set_conn 0 cn (take_nick 0 c (cstring (nickname c)) ''ann'' demo_world)"
  have "(5, client_handler 5 0) \<in> set (interest demo_world)" by (simp add: i)
  from loop_step_read [OF this cn(3)] have "reachable demo_env ?w"
    by (rule reachable.stepped [OF demo_reachable])
  moreover have "interest ?w = [(3, server_handler 3), (5, client_handler 5 0)]"
    by (simp add: take_nick_simps i)
  moreover have "cstr (''ann'' @ NUL # x) = Inr ''ann''" for x by (rule cstr_terminated) simp
  ultimately show ?thesis using c cn(1,2)
    by (intro exI [of _ ?w]) (auto simp: take_nick_simps conn_frame_def)
qed

theorem departed_keeps_nickname_witness:
  "\<exists>w. reachable demo_env w \<and> interest w = [(3, server_handler 3)] \<and>
     g_lookup (nicks (server w)) ''ann'' = Some 1 \<and> g_lookup (clients (server w)) 1 = Some 0"
proof -
  obtain w c where w: "reachable demo_env w" "client_mem w 0 = Some c" "drained (conn c)"
      "conn_fd (conn c) = 5" "receivedNick c" "cstr (nickname c) = Inr ''ann''" "clientId c = 1"
    and i: "interest w = [(3, server_handler 3), (5, client_handler 5 0)]"
    using nick_session by blast
  obtain cn where cn: "conn_frame (conn c) cn"
    "Client_HandleRead demo_env (Read_bytes []) 0 w = close_client 0 (set_conn 0 cn w)"
    using eof_read [OF w(2,3)] by blast
  have g: "get_client (set_conn 0 cn w) 0 = Inr (c\<lparr>conn := cn\<rparr>)" using w(2) by (simp add: get_client_def)
  have fd: "conn_fd cn = 5" using cn(1) w(4) by (simp add: conn_frame_def)
  obtain w' r where w': "close_client 0 (set_conn 0 cn w) = Inr (w', r)" "client_mem w' = client_mem (set_conn 0 cn w)"
    "interest w' = [(3, server_handler 3)]"
    by (simp add: close_client_def g Let_def close_fd_def fd i upd_server_def split: if_splits)
  have "(5, client_handler 5 0) \<in> set (interest w)" by (simp add: i)
  from loop_step_read [OF this] w'(1) cn(2) have r: "reachable demo_env w'"
    using reachable.stepped [OF w(1)] by metis
  have m: "client_mem w' 0 = Some (c\<lparr>conn := cn\<rparr>)" using w(2) w'(2) by simp
  have o: "\<not> is_open w' 0" by (simp add: is_open_def w'(3) client_handler_def server_handler_def)
  from departed_keeps_nickname [OF r m o _ _ rtranclp.rtrancl_refl, of "''ann''"] w(5-7) w'(3) r
  show ?thesis by auto
qed

text \<open>The nickname table of the same session (the property is in theory \<open>ServerProps\<close>).\<close>

theorem nick_table_exact_witness:
  "\<exists>w :: world. g_lookup (nicks (server w)) ''ann'' = Some 1 \<and>
     (\<exists>a c. client_mem w a = Some c \<and> clientId c = 1 \<and> receivedNick c \<and> cstr (nickname c) = Inr ''ann'') \<and>
     g_lookup (nicks (server w)) ''bob'' \<noteq> Some 1"
proof -
  obtain w c where w: "reachable demo_env w" "client_mem w 0 = Some c" "receivedNick c"
      "cstr (nickname c) = Inr ''ann''" "clientId c = 1"
    using nick_session by blast
  then have l: "g_lookup (nicks (server w)) ''ann'' = Some 1" using nick_table_exact [OF w(1)] by blast
  have "g_lookup (nicks (server w)) ''bob'' \<noteq> Some 1"
  proof
    assume "g_lookup (nicks (server w)) ''bob'' = Some 1"
    then obtain a d where d: "client_mem w a = Some d" "clientId d = 1" "cstr (nickname d) = Inr ''bob''"
      using nick_table_exact [OF w(1)] by blast
    then have "a = 0"
      using inv_id_inj [OF reachable_world_ok [OF w(1)] view_SomeI [OF d(1)] view_SomeI [OF w(2)]] w(5) by simp
    with d w(2,4) show False by simp
  qed
  moreover have "\<exists>a c. client_mem w a = Some c \<and> clientId c = 1 \<and> receivedNick c \<and> cstr (nickname c) = Inr ''ann''"
    using w(2-5) by auto
  ultimately show ?thesis using l by (intro exI [of _ w]) simp
qed

text \<open>The same session when USER follows: before it the client is not registered, after it it is.\<close>

theorem registered_iff_nick_and_user_witness:
  "\<exists>w c w' c'. reachable demo_env w \<and> client_mem w 0 = Some c \<and> receivedNick c \<and> \<not> receivedUser c \<and> \<not> registered c \<and>
     Client_HandleRead demo_env (Read_bytes (''USER a 0 * :Ann A'' @ CRLF)) 0 w = Inr (w', 0) \<and> reachable demo_env w' \<and>
     client_mem w' 0 = Some c' \<and> registered c' \<and> receivedNick c' \<and> receivedUser c'"
proof -
  obtain w c where w: "reachable demo_env w" and c: "client_mem w 0 = Some c" "drained (conn c)" "receivedNick c"
      "\<not> receivedUser c" "cstr (nickname c) = Inr ''ann''" "cstr (client_hostname c) = Inr ''host''"
    and i: "interest w = [(3, server_handler 3), (5, client_handler 5 0)]"
    using nick_session by blast
  have new: "\<not> registered c" using registered_iff_nick_and_user [OF w c(1)] c(4) by simp
  have q: "conn_responses (conn c) = []"
    using reachable_is_steady [OF w] c(1) by (auto simp: steady_def idle_def)
  have "client_ok (core c)" by (rule inv_client(1) [OF reachable_world_ok [OF w] view_SomeI [OF c(1)]])
  then have arrays: "length (username c) = IRC_MSG_SIZE" "length (fullname c) = IRC_MSG_SIZE"
    by (simp_all add: client_ok_def array_ok_def)
  have words: "word_ok ''a''" "word_ok ''0''" "word_ok ''*''" "is_line ''Ann A''"
    by (simp_all add: word_ok_def is_line_def)
  have line: "render [''USER'', ''a'', ''0'', ''*''] (Some ''Ann A'') = ''USER a 0 * :Ann A''" by code_simp
  obtain w' c' where w': "Client_HandleRead demo_env (Read_bytes (''USER a 0 * :Ann A'' @ CRLF)) 0 w = Inr (w', 0)"
      "client_mem w' 0 = Some c'" "registered c'"
    using user_line [OF c(1,2) q new c(3) arrays c(5,6) words, of demo_env] by (auto simp: line)
  have "(5, client_handler 5 0) \<in> set (interest w)" by (simp add: i)
  from loop_step_read [OF this w'(1)] have r: "reachable demo_env w'" by (rule reachable.stepped [OF w])
  from registered_iff_nick_and_user [OF r w'(2)] w'(3) have "receivedNick c'" "receivedUser c'" by simp_all
  with w c(1,3,4) new w' r show ?thesis by blast
qed

end
