(* ===== verification/Faults.thy ===== *)
theory Faults
  imports EndToEnd
begin

text \<open>
  Input that makes the server leave defined behaviour, and what protects it elsewhere: which single
  lines crash it, how a stale pointer lets a nickname overflow its array, and that dispatch and
  the sending of responses are always defined.
\<close>

subsection \<open>Dispatch\<close>

text \<open>
  Dispatch is total on parsed messages.  Whatever the buffer holds, if the struct's type had an
  entry in the table before \<open>parse_message\<close>, it has one after it, and the dispatcher runs exactly that
  handler: it never calls a null function pointer and never indexes outside the table.
\<close>

theorem parsed_message_has_handler:
  assumes "parse_message buf m = Inr (buf', m', ret)" and "msg_type m \<notin> {INVALID, NOTICE}"
  shows "\<exists>h. handlers2 e (msg_type m') = Some h \<and> Handler_HandleMessage e a m' w = h a m' w"
proof -
  have "msg_type m' \<notin> {INVALID, NOTICE}"
    using assms
    unfolding parse_message_def parse_message_nick_def parse_message_user_def parse_message_ping_def
      parse_message_pong_def parse_message_motd_def parse_message_privmsg_def parse_message_lusers_def
      parse_message_whois_def parse_message_join_def parse_message_part_def parse_message_list_def
      parse_message_topic_def parse_message_names_def parse_message_away_def Let_def
    by (auto elim!: rbind_InrE split: if_splits)
  then show ?thesis
    by (cases "msg_type m'") (simp_all add: handlers2_def Handler_HandleMessage_def)
qed

theorem parsed_message_has_handler_witness:
  "\<exists>buf m ret h. parse_message (''NOTICE x'' @ CRLF) zero_message = Inr (buf, m, ret) \<and>
     handlers2 plain_env (msg_type m) = Some h"
proof -
  have "case parse_message (''NOTICE x'' @ CRLF) zero_message of Inl _ \<Rightarrow> False | Inr _ \<Rightarrow> True" by code_simp
  then obtain buf m ret where p: "parse_message (''NOTICE x'' @ CRLF) zero_message = Inr (buf, m, ret)"
    by (auto split: sum.splits)
  from parsed_message_has_handler [OF p, of plain_env 0 "mini_world []"] p show ?thesis
    by (auto simp: zero_message_def)
qed

subsection \<open>Lines that crash the server\<close>

text \<open>The undefined behaviour a command leads to, when it is the first of a read.\<close>

definition crash_of :: "server_s \<Rightarrow> irc_cmd \<Rightarrow> fault option" where
  "crash_of s cmd =
     (case cmd of
        Cmd_nick_too_long \<Rightarrow> Some NullDeref
      | Cmd_part_few \<Rightarrow> Some NullDeref
      | Cmd_join_zero \<Rightarrow> Some UninitPointer
      | Cmd_topic ch (Some t) \<Rightarrow>
          (if g_lookup (channels s) (lowercase ch) = None then Some NullDeref else None)
      | _ \<Rightarrow> None)"

text \<open>
  C21: four kinds of lines crash the server, whoever sends them and whatever its state.  If the
  first line of a read is NICK with more than nine characters, PART without a channel, JOIN 0, or
  TOPIC setting the topic of a channel that does not exist, handling it follows a null pointer (for
  JOIN 0, an uninitialised one).
\<close>

theorem one_line_crashes:
  assumes "client_mem w a = Some c" and "line_at (conn_message (conn c)) 0 l"
    and "crash_of (server w) (parse_spec (tokens (dropWhile (\<lambda>x. x = SP) l))) = Some f"
  shows "handle_one e a zero_message w = Inl f"
proof -
  let ?cmd = "parse_spec (tokens (dropWhile (\<lambda>x. x = SP) l))"
  from parse_message_line [OF assms(2), of zero_message] obtain buf m ret
    where p: "parse_message (conn_message (conn c)) zero_message = Inr (buf, m, ret)"
      "denotes zero_message buf m ret ?cmd" by (auto simp: parses_def)
  let ?w = "upd_client a (set_message buf) w" and ?c = "set_message buf c"
  have c: "client_mem ?w a = Some ?c" using assms(1) by simp
  note g = get_client_mem [OF c]
  have "ret \<noteq> -1 \<and> Handler_HandleMessage e a m ?w = Inl f"
  proof (cases ?cmd)
    case Cmd_nick_too_long
    then show ?thesis using p(2) assms(3)
      by (simp add: crash_of_def Handler_HandleMessage_def handlers2_def Handler_Nick_def g msg_str_def
          msg_ptr_def zero_message_def)
  next
    case Cmd_part_few
    then show ?thesis using p(2) assms(3)
      by (simp add: crash_of_def Handler_HandleMessage_def handlers2_def handler_part_def g msg_str_def
          msg_ptr_def zero_message_def)
  next
    case Cmd_join_zero
    then show ?thesis using p(2) assms(3)
      by (simp add: crash_of_def Handler_HandleMessage_def handlers2_def handler_join_def g zero_message_def)
  next
    case (Cmd_topic ch x)
    then obtain t where x: "x = Some t" and ch: "g_lookup (channels (server w)) (lowercase ch) = None" "f = NullDeref"
      using assms(3) by (auto simp: crash_of_def split: option.splits if_splits)
    have d: "ret = 0" "msg_type m = TOPIC" "parse_err m = 0" "topic_topic m \<noteq> None"
      "points (conn_message (conn ?c)) (topic_channel m) ch"
      using p(2) by (auto simp: Cmd_topic x points_def)
    have "msg_str a (topic_channel m) ?w = Inr ch" by (rule msg_str_points [OF c d(5)])
    then show ?thesis using d(1-4) ch
      by (auto simp: Handler_HandleMessage_def handlers2_def handler_topic_def g server_get_channel_def Let_def)
  qed (use assms(3) in \<open>simp_all add: crash_of_def\<close>)
  then show ?thesis using get_client_mem [OF assms(1)] p(1) by (simp add: handle_one_def)
qed

theorem one_line_crashes_witness:
  "handle_one plain_env 0 zero_message (mini_world (''PART'' @ CRLF)) = Inl NullDeref"
proof -
  let ?w = "mini_world (''PART'' @ CRLF)"
  have l: "line_at (conn_message (conn (mini_client 1 ''ann'' (''PART'' @ CRLF)))) 0 ''PART''"
    by (simp add: line_at_def is_line_def mini_client_strings)
  have "tokens ''PART'' = [''PART'']" by (simp add: tokens.simps tok_next_def)
  then have "crash_of (server ?w) (parse_spec (tokens (dropWhile (\<lambda>x. x = SP) ''PART''))) = Some NullDeref"
    by (simp add: parse_spec_def crash_of_def nonempty_arg_def)
  from one_line_crashes [OF mini_simps(1) l this] show ?thesis .
qed

subsection \<open>A nickname that overflows its array\<close>

text \<open>
  C28: a nickname that was refused by the parser is taken all the same.  After
  ERR_ERRONEUSNICKNAME the handler goes on with the pointer a previous message of the same read
  left in the union; if that reads a free name of at least the size of the array, \<open>strcpy\<close> writes
  past the end of \<open>nickname\<close>.
\<close>

theorem refused_nick_overflows:
  assumes "client_mem w a = Some c" and "parse_err m = ERR_ERRONEUSNICKNAME"
    and "msg_str a (nick_nick m) w = Inr nick" and "length nick \<ge> length (nickname c)"
    and "g_lookup (nicks (server w)) nick = None" and "cstr (nickname c) = Inr old"
  shows "Handler_Nick a m w = Inl BufferOverflow"
  using assms
  by (simp add: Handler_Nick_def get_client_mem Client_TryChangeNick_def g_contains_lookup strcpy_def)

text \<open>The two lines \<open>JOIN #c\<close> and \<open>NICK abcdefghijk\<close> in one read.\<close>

theorem refused_nick_overflows_witness:
  "\<exists>buf1 m1 r1 buf2 m2 r2. parse_message (''JOIN #c'' @ CRLF) zero_message = Inr (buf1, m1, r1) \<and>
     parse_message (''NICK abcdefghijk'' @ CRLF) m1 = Inr (buf2, m2, r2) \<and>
     Handler_Nick 0 m2 (mini_world buf2) = Inl BufferOverflow"
proof -
  have "case parse_message (''JOIN #c'' @ CRLF) zero_message of Inl _ \<Rightarrow> False | Inr (_, m1, _) \<Rightarrow>
      (case parse_message (''NICK abcdefghijk'' @ CRLF) m1 of Inl _ \<Rightarrow> False | Inr (buf2, m2, _) \<Rightarrow>
         parse_err m2 = 432 \<and> msg_str 0 (nick_nick m2) (mini_world buf2) = Inr ''abcdefghijk'')"
    by code_simp
  then obtain buf1 m1 r1 buf2 m2 r2 where
    p: "parse_message (''JOIN #c'' @ CRLF) zero_message = Inr (buf1, m1, r1)"
      "parse_message (''NICK abcdefghijk'' @ CRLF) m1 = Inr (buf2, m2, r2)"
    and m: "parse_err m2 = 432" "msg_str 0 (nick_nick m2) (mini_world buf2) = Inr ''abcdefghijk''"
    by (auto split: sum.splits prod.splits)
  have f: "g_lookup (nicks (server (mini_world buf2))) ''abcdefghijk'' = None"
    by (simp add: mini_simps mini_server_def g_lookup_def)
  have o: "cstr (nickname (mini_client 1 ''ann'' buf2)) = Inr ''ann''" by (simp add: mini_client_strings cstr_pad)
  have l: "length (nickname (mini_client 1 ''ann'' buf2)) \<le> length ''abcdefghijk''"
    by (simp add: mini_client_strings length_pad)
  from refused_nick_overflows [OF mini_simps(1) m l f o] p show ?thesis by blast
qed

subsection \<open>A user name that overflows the welcome\<close>

text \<open>
  RPL_WELCOME holds the nickname twice, the user name and the host name, and is formatted without a
  bound: a registration whose text is longer than the response buffer writes past its end.  A line
  has room for a user name that long.
\<close>

lemma long_user_name_overflows:
  assumes "client_mem w a = Some c" and "\<not> registered c" and "receivedNick c" and "receivedUser c" and "named c n u h"
  shows "Client_TryRegister a w = Inl BufferOverflow \<longleftrightarrow> IRC_MSG_SIZE < length (welcome_text n u h)"
proof -
  have "named (c\<lparr>registered := True\<rparr>) n u h" using assms(5) by (simp add: named_def)
  then have "Reply_RplWelcome (c\<lparr>registered := True\<rparr>) = fits (welcome_text n u h)"
    by (simp add: Reply_RplWelcome_text named_def welcome_text_def)
  then show ?thesis using assms(1-4)
    by (simp add: Client_TryRegister_def get_client_def Let_def fits_def)
qed

subsection \<open>Sending\<close>

text \<open>
  Responses are sent in order, once each.  \<open>Client_TryEmptyBuffer\<close> returns and writes every
  queued response to the client's descriptor in the order of the queue, leaves the queue empty and
  changes nothing else.
\<close>

theorem responses_sent_in_order:
  assumes "client_mem w a = Some c" and "conn_responses (conn c) = map text_response ss"
    and "\<forall>s\<in>set ss. length s \<le> IRC_MSG_SIZE"
  shows "Client_TryEmptyBuffer a w =
     Inr ((upd_client a (set_queue []) w)\<lparr>wire := wire w @ map (\<lambda>s. (conn_fd (conn c), s)) ss\<rparr>)"
  using Client_TryEmptyBuffer_writes [OF assms(1), of ss] all_bytes_text [OF assms(3)] assms(2)
  by (simp add: flushed_def)

theorem responses_sent_in_order_witness:
  "Client_TryEmptyBuffer 0 (upd_client 0 (set_queue [text_response ''a'', text_response ''b'']) (mini_world [])) =
     Inr ((mini_world [])\<lparr>wire := [(11, ''a''), (11, ''b'')]\<rparr>)"
proof -
  let ?q = "[text_response ''a'', text_response ''b'']"
  let ?c = "set_queue ?q (mini_client 1 ''ann'' [])"
  have c: "client_mem (upd_client 0 (set_queue ?q) (mini_world [])) 0 = Some ?c" by (simp add: mini_simps)
  have "upd_client 0 (set_queue []) (mini_world []) = mini_world []"
    by (simp add: upd_client_def mini_world_def fun_upd_idem mini_client_strings)
  then show ?thesis
    using responses_sent_in_order [OF c, of "[''a'', ''b'']"]
    by (simp add: upd_client_twice comp_def mini_simps mini_client_strings)
qed

end
