(* ===== verification/Polite.thy ===== *)
theory Polite
  imports ChannelsDefined Departed Faults
begin

text \<open>
  Sessions that cannot crash the server.  A \<open>polite\<close> line has at most 200 characters and asks for
  nothing the code cannot do in the state it arrives in; a polite read brings whole polite lines, or
  the end of the stream.  From its start, a server whose clients are all polite never leaves defined
  behaviour: it always completes the events that \<open>epoll\<close> reports (progress), and what makes that so is
  kept (preservation).
\<close>

subsection \<open>Commands\<close>

definition opt_list :: "'a option \<Rightarrow> 'a list" where
  "opt_list x = (case x of None \<Rightarrow> [] | Some t \<Rightarrow> [t])"

lemma opt_list_simps [simp]: "opt_list None = []" "opt_list (Some x) = [x]"
  by (simp_all add: opt_list_def)

fun cmd_strings :: "irc_cmd \<Rightarrow> string list" where
  "cmd_strings (Cmd_nick n) = [n]"
| "cmd_strings (Cmd_user u r) = [u, r]"
| "cmd_strings (Cmd_privmsg t x) = [t, x]"
| "cmd_strings (Cmd_whois x) = opt_list x"
| "cmd_strings (Cmd_join ch) = [ch]"
| "cmd_strings (Cmd_part ch x) = ch # opt_list x"
| "cmd_strings (Cmd_list x) = opt_list x"
| "cmd_strings (Cmd_topic ch x) = ch # opt_list x"
| "cmd_strings (Cmd_names x) = opt_list x"
| "cmd_strings (Cmd_away x) = opt_list x"
| "cmd_strings (Cmd_unknown c) = [c]"
| "cmd_strings _ = []"

abbreviation total_length :: "string list \<Rightarrow> nat" where
  "total_length ss \<equiv> sum_list (map length ss)"

lemma first_arg_length: "first_arg args = Some x \<Longrightarrow> length x \<le> total_length args"
  by (auto simp: first_arg_def split: list.splits)

lemma nonempty_arg_length: "nonempty_arg args = Some x \<Longrightarrow> length x + total_length (tl args) \<le> total_length args"
  by (auto simp: nonempty_arg_def split: list.splits if_splits)

lemma strings_if:
  "total_length (cmd_strings x) \<le> n \<Longrightarrow> total_length (cmd_strings y) \<le> n \<Longrightarrow>
     total_length (cmd_strings (if b then x else y)) \<le> n"
  by simp

lemma parse_spec_length: "total_length (cmd_strings (parse_spec ts)) \<le> total_length ts"
proof (cases ts)
  case (Cons c args)
  note a = first_arg_length [of args] nonempty_arg_length [of args] first_arg_length [of "tl args"]
    nonempty_arg_length [of "tl args"]
  have "total_length (cmd_strings (parse_spec (c # args))) \<le> length c + total_length args"
    unfolding parse_spec_def list.case
    by (intro strings_if) (use a in \<open>auto simp: opt_list_def split: option.split list.split\<close>)
  then show ?thesis by (simp add: Cons)
qed (simp add: parse_spec_def)

lemma parse_spec_nick: "parse_spec ts = Cmd_nick n \<Longrightarrow> length n \<le> 9"
  by (cases ts) (auto simp: parse_spec_def split: if_splits option.splits list.splits)

lemma tok_next_length: "length (fst (tok_next l)) + (case snd (tok_next l) of None \<Rightarrow> 0 | Some r \<Rightarrow> length r) \<le> length l"
proof (cases "SP \<in> set l \<and> \<not> (l \<noteq> [] \<and> hd l = CHR '':'')")
  case True
  have "length (takeWhile (\<lambda>c. c \<noteq> SP) l) + length (dropWhile (\<lambda>c. c \<noteq> SP) l) = length l"
    by (metis length_append takeWhile_dropWhile_id)
  then show ?thesis
    using True length_dropWhile_le [of "\<lambda>c. c = SP" "dropWhile (\<lambda>c. c \<noteq> SP) l"] by (auto simp: tok_next_def)
qed (auto simp: tok_next_def)

lemma tokens_length: "total_length (tokens l) \<le> length l"
proof (induction l rule: tokens.induct)
  case (1 l)
  show ?case
  proof (cases "snd (tok_next l)")
    case None
    then show ?thesis using tok_next_length [of l] by (simp add: tokens.simps [of l])
  next
    case (Some r)
    then show ?thesis using tok_next_length [of l] "1.IH" [OF Some] by (simp add: tokens.simps [of l])
  qed
qed

text \<open>The command of a line, as the parser reads it.\<close>

definition command_of :: "string \<Rightarrow> irc_cmd" where
  "command_of l = parse_spec (tokens (dropWhile (\<lambda>c. c = SP) l))"

lemma command_length: "total_length (cmd_strings (command_of l)) \<le> length l"
  unfolding command_of_def
  using parse_spec_length tokens_length length_dropWhile_le by (meson le_trans)

subsection \<open>Polite lines\<close>

text \<open>
  A command that gives every parameter its handler reads.  The others, LIST and TOPIC without their
  last parameter, read what an earlier message of the same read left in the struct, so they are
  polite only while nothing has been left there.
\<close>

definition self_contained :: "irc_cmd \<Rightarrow> bool" where
  "self_contained cmd = (case cmd of Cmd_list None \<Rightarrow> False | Cmd_topic _ None \<Rightarrow> False | _ \<Rightarrow> True)"

definition blank :: "irc_message \<Rightarrow> bool" where
  "blank m \<longleftrightarrow> slot0 m = None \<and> slot1 m = None"

definition joins_ok :: "world \<Rightarrow> caddr \<Rightarrow> irc_cmd \<Rightarrow> bool" where
  "joins_ok w a cmd = (case cmd of Cmd_join ch \<Rightarrow> (\<forall>n\<in>set (strtok_all ch (CHR '','')). joinable w a n) | _ \<Rightarrow> True)"

definition polite_line :: "world \<Rightarrow> caddr \<Rightarrow> irc_message \<Rightarrow> string \<Rightarrow> bool" where
  "polite_line w a m l \<longleftrightarrow> is_line l \<and> length l \<le> 200 \<and> crash_of (server w) (command_of l) = None \<and>
     (blank m \<or> self_contained (command_of l)) \<and> joins_ok w a (command_of l)"

lemma points_says: "msg_buf w a = Some buf \<Longrightarrow> points buf p s \<Longrightarrow> says w a p s"
  by (auto simp: says_def)

lemma opt_says:
  assumes "msg_buf w a = Some buf" and "points_opt buf p x"
  shows "case p of None \<Rightarrow> True | Some _ \<Rightarrow> \<exists>s. says w a p s \<and> length s \<le> total_length (opt_list x)"
  using assms by (cases p; cases x) (auto simp: points_opt_def says_def)

lemma tame_command_ok:
  assumes "able a w" and "env_ok e" and buf: "msg_buf w a = Some buf" and d: "denotes old buf m ret cmd"
    and "ret \<noteq> -1" and "crash_of (server w) cmd = None" and "blank old \<or> self_contained cmd" and "joins_ok w a cmd"
    and len: "total_length (cmd_strings cmd) \<le> 200"
    and short: "\<And>n. cmd = Cmd_nick n \<Longrightarrow> length n \<le> 9"
  shows "returns_able a (Handler_HandleMessage e a m w)"
proof -
  note says = points_says [OF buf]
  note disp = Handler_HandleMessage_def handlers2_def
  show ?thesis
  proof (cases cmd)
    case (Cmd_nick n)
    then have "returns_able a (Handler_Nick a m w)" using d len says
      by (intro Handler_Nick_ok [OF assms(1)]) (use short in auto)
    then show ?thesis using d Cmd_nick by (simp add: disp)
  next
    case Cmd_nick_missing
    then have "returns_able a (Handler_Nick a m w)" using d by (intro Handler_Nick_ok [OF assms(1)]) simp
    then show ?thesis using d Cmd_nick_missing by (simp add: disp)
  next
    case (Cmd_user u r)
    then have "returns_able a (Handler_User a m w)" using d len says
      by (intro Handler_User_ok [OF assms(1)]) auto
    then show ?thesis using d Cmd_user by (simp add: disp)
  next
    case Cmd_user_few
    then have "returns_able a (Handler_User a m w)" using d by (intro Handler_User_ok [OF assms(1)]) simp
    then show ?thesis using d Cmd_user_few by (simp add: disp)
  next
    case (Cmd_privmsg t x)
    then have "returns_able a (Handler_Privmsg e a m w)" using d len says
      by (intro Handler_Privmsg_ok [OF assms(1,2)]) auto
    then show ?thesis using d Cmd_privmsg by (simp add: disp)
  next
    case Cmd_privmsg_no_recipient
    then have "returns_able a (Handler_Privmsg e a m w)" using d by (intro Handler_Privmsg_ok [OF assms(1,2)]) simp
    then show ?thesis using d Cmd_privmsg_no_recipient by (simp add: disp)
  next
    case Cmd_privmsg_no_text
    then have "returns_able a (Handler_Privmsg e a m w)" using d by (intro Handler_Privmsg_ok [OF assms(1,2)]) simp
    then show ?thesis using d Cmd_privmsg_no_text by (simp add: disp)
  next
    case Cmd_ping
    then show ?thesis using d Handler_Ping_ok [OF assms(1)] by (simp add: disp)
  next
    case Cmd_pong
    then show ?thesis using d Handler_Pong_ok [OF assms(1)] by (simp add: disp)
  next
    case Cmd_motd
    then show ?thesis using d Handler_Motd_ok [OF assms(1)] by (simp add: disp)
  next
    case Cmd_lusers
    then show ?thesis using d Handler_LUsers_ok [OF assms(1)] by (simp add: disp)
  next
    case (Cmd_whois x)
    have "case whois_mask m of None \<Rightarrow> True | Some _ \<Rightarrow> \<exists>s. says w a (whois_mask m) s \<and> length s \<le> 200"
      using opt_says [OF buf, of "whois_mask m" x] d len by (auto simp: Cmd_whois split: option.splits)
    then have "returns_able a (Handler_WhoIs a m w)" by (rule Handler_WhoIs_ok [OF assms(1)])
    then show ?thesis using d Cmd_whois by (simp add: disp)
  next
    case (Cmd_join ch)
    then have "returns_able a (handler_join e a m w)" using d says assms(8)
      by (intro handler_join_ok [OF assms(1,2)]) (auto simp: joins_ok_def)
    then show ?thesis using d Cmd_join by (simp add: disp)
  next
    case Cmd_join_few
    then have "returns_able a (handler_join e a m w)" using d by (intro handler_join_ok [OF assms(1,2)]) simp
    then show ?thesis using d Cmd_join_few by (simp add: disp)
  next
    case (Cmd_part ch x)
    then have "says w a (part_channels m) ch" "length ch \<le> 200" using d len says by auto
    moreover have "part_message m = None \<or> (\<exists>t. says w a (part_message m) t \<and> length ch + length t \<le> 200)"
      using d len says by (cases x) (auto simp: Cmd_part points_opt_def)
    ultimately have "returns_able a (handler_part e a m w)" by (rule handler_part_ok [OF assms(1,2)])
    then show ?thesis using d Cmd_part by (simp add: disp)
  next
    case (Cmd_list x)
    have "case list_channels m of None \<Rightarrow> True | Some _ \<Rightarrow> \<exists>s. says w a (list_channels m) s"
    proof (cases x)
      case (Some s)
      then have "says w a (list_channels m) s" using d says by (simp add: Cmd_list)
      then show ?thesis by (cases "list_channels m") auto
    qed (use d assms(7) in \<open>simp add: Cmd_list self_contained_def blank_def\<close>)
    then have "returns_able a (handler_list e a m w)" by (rule handler_list_ok [OF assms(1,2)])
    then show ?thesis using d Cmd_list by (simp add: disp)
  next
    case (Cmd_topic ch x)
    have "says w a (topic_channel m) ch" "length ch \<le> 200" "parse_err m = 0" using d len says by (auto simp: Cmd_topic)
    moreover have "topic_topic m \<noteq> None \<longrightarrow>
        (\<exists>t. says w a (topic_topic m) t) \<and> g_lookup (channels (server w)) (lowercase ch) \<noteq> None"
      using d says assms(6,7) by (cases x) (auto simp: Cmd_topic self_contained_def blank_def crash_of_def split: if_splits)
    ultimately have "returns_able a (handler_topic a m w)" by (intro handler_topic_ok [OF assms(1)]) blast
    then show ?thesis using d Cmd_topic by (simp add: disp)
  next
    case Cmd_topic_few
    then have "returns_able a (handler_topic a m w)" using d by (intro handler_topic_ok [OF assms(1)]) simp
    then show ?thesis using d Cmd_topic_few by (simp add: disp)
  next
    case (Cmd_names x)
    have "case names_channels m of None \<Rightarrow> True | Some _ \<Rightarrow> \<exists>s. says w a (names_channels m) s"
      using opt_says [OF buf, of "names_channels m" x] d by (auto simp: Cmd_names split: option.splits)
    then have "returns_able a (handler_names e a m w)" by (rule handler_names_ok [OF assms(1,2)])
    then show ?thesis using d Cmd_names by (simp add: disp)
  next
    case (Cmd_away x)
    have "case away_text m of None \<Rightarrow> True | Some _ \<Rightarrow> \<exists>s. says w a (away_text m) s \<and> length s \<le> 200"
      using opt_says [OF buf, of "away_text m" x] d len by (auto simp: Cmd_away split: option.splits)
    then have "returns_able a (handler_away a m w)" by (rule handler_away_ok [OF assms(1)])
    then show ?thesis using d Cmd_away by (simp add: disp)
  next
    case (Cmd_unknown c)
    then have "returns_able a (Handler_Unknown a m w)" using d len says
      by (intro Handler_Unknown_ok [OF assms(1)]) auto
    then show ?thesis using d Cmd_unknown by (simp add: disp)
  qed (use d assms(5,6) in \<open>simp_all add: crash_of_def\<close>)
qed

end
