(* ===== verification/Chat.thy ===== *)
theory Chat
  imports Polite
begin

text \<open>
  What the server promises, without its tables, heaps, buffers and counters: people with a nickname,
  a user name and an away message, and rooms with a topic and people in them.  \<open>chat_cmd\<close> is the
  meaning of each command; theory \<open>ChatRefined\<close> shows that the handlers implement it.
\<close>

record person =
  p_nick :: "string option"
  p_user :: "(string \<times> string) option"
  p_away :: "string option"

record room =
  r_topic :: string
  r_people :: "int set"

record chat =
  folk :: "int \<Rightarrow> person option"
  rooms :: "string \<Rightarrow> room option"

definition newcomer :: person where
  "newcomer = \<lparr>p_nick = None, p_user = None, p_away = None\<rparr>"

definition empty_chat :: chat where
  "empty_chat = \<lparr>folk = (\<lambda>_. None), rooms = (\<lambda>_. None)\<rparr>"

definition nick_taken :: "string \<Rightarrow> chat \<Rightarrow> bool" where
  "nick_taken n s \<longleftrightarrow> (\<exists>i p. folk s i = Some p \<and> p_nick p = Some n)"

definition change_person :: "int \<Rightarrow> (person \<Rightarrow> person) \<Rightarrow> chat \<Rightarrow> chat" where
  "change_person i f s = s\<lparr>folk := (folk s)(i := map_option f (folk s i))\<rparr>"

definition set_room :: "string \<Rightarrow> room option \<Rightarrow> chat \<Rightarrow> chat" where
  "set_room key r s = s\<lparr>rooms := (rooms s)(key := r)\<rparr>"

subsection \<open>Commands\<close>

text \<open>A nickname that is taken, be it by oneself, is refused.\<close>

definition chat_nick :: "int \<Rightarrow> string \<Rightarrow> chat \<Rightarrow> chat" where
  "chat_nick i n s = (if nick_taken n s then s else change_person i (p_nick_update (\<lambda>_. Some n)) s)"

text \<open>USER counts until the registration is complete.\<close>

definition signed_in :: "person \<Rightarrow> bool" where
  "signed_in p \<longleftrightarrow> p_nick p \<noteq> None \<and> p_user p \<noteq> None"

definition chat_user :: "int \<Rightarrow> string \<Rightarrow> string \<Rightarrow> chat \<Rightarrow> chat" where
  "chat_user i u r = change_person i (\<lambda>p. if signed_in p then p else p\<lparr>p_user := Some (u, r)\<rparr>)"

text \<open>Room names do not depend on case; who enters a room that does not exist opens it.\<close>

definition chat_join :: "int \<Rightarrow> string \<Rightarrow> chat \<Rightarrow> chat" where
  "chat_join i n s = set_room (lowercase n)
     (Some (case rooms s (lowercase n) of
        None \<Rightarrow> \<lparr>r_topic = [], r_people = {i}\<rparr>
      | Some r \<Rightarrow> r\<lparr>r_people := insert i (r_people r)\<rparr>)) s"

text \<open>The last to leave closes the room.\<close>

definition chat_part :: "int \<Rightarrow> string \<Rightarrow> chat \<Rightarrow> chat" where
  "chat_part i n s = (case rooms s (lowercase n) of
     None \<Rightarrow> s
   | Some r \<Rightarrow>
       if i \<notin> r_people r then s
       else set_room (lowercase n)
         (if r_people r = {i} then None else Some (r\<lparr>r_people := r_people r - {i}\<rparr>)) s)"

text \<open>Anybody can set the topic of a room.\<close>

definition chat_topic :: "string \<Rightarrow> string \<Rightarrow> chat \<Rightarrow> chat" where
  "chat_topic n t s = (case rooms s (lowercase n) of
     None \<Rightarrow> s | Some r \<Rightarrow> set_room (lowercase n) (Some (r\<lparr>r_topic := t\<rparr>)) s)"

definition chat_away :: "int \<Rightarrow> string option \<Rightarrow> chat \<Rightarrow> chat" where
  "chat_away i x = change_person i (p_away_update (\<lambda>_. x))"

text \<open>The other commands only ask, talk or fail.\<close>

fun chat_cmd :: "int \<Rightarrow> irc_cmd \<Rightarrow> chat \<Rightarrow> chat" where
  "chat_cmd i (Cmd_nick n) s = chat_nick i n s"
| "chat_cmd i (Cmd_user u r) s = chat_user i u r s"
| "chat_cmd i (Cmd_join ch) s = fold (chat_join i) (strtok_all ch (CHR '','')) s"
| "chat_cmd i (Cmd_part ch _) s = chat_part i ch s"
| "chat_cmd i (Cmd_topic ch (Some t)) s = chat_topic ch t s"
| "chat_cmd i (Cmd_away x) s = chat_away i x s"
| "chat_cmd i _ s = s"

definition chat_line :: "int \<Rightarrow> string \<Rightarrow> chat \<Rightarrow> chat" where
  "chat_line i l = chat_cmd i (command_of l)"

text \<open>A run of the chat: somebody arrives, or somebody there says some lines.\<close>

inductive chat_step :: "chat \<Rightarrow> chat \<Rightarrow> bool" where
  arrives: "folk s i = None \<Longrightarrow> chat_step s (s\<lparr>folk := (folk s)(i \<mapsto> newcomer)\<rparr>)"
| says: "folk s i \<noteq> None \<Longrightarrow> chat_step s (fold (chat_line i) ls s)"

inductive_cases chat_step_cases: "chat_step s t"

subsection \<open>What holds of every chat\<close>

definition nicks_unique :: "chat \<Rightarrow> bool" where
  "nicks_unique s \<longleftrightarrow> (\<forall>i j p q n. folk s i = Some p \<longrightarrow> folk s j = Some q \<longrightarrow>
     p_nick p = Some n \<longrightarrow> p_nick q = Some n \<longrightarrow> i = j)"

definition rooms_occupied :: "chat \<Rightarrow> bool" where
  "rooms_occupied s \<longleftrightarrow> (\<forall>key r. rooms s key = Some r \<longrightarrow>
     r_people r \<noteq> {} \<and> r_people r \<subseteq> dom (folk s) \<and> lowercase key = key)"

definition chat_ok :: "chat \<Rightarrow> bool" where
  "chat_ok s \<longleftrightarrow> nicks_unique s \<and> rooms_occupied s"

lemma folk_simps [simp]:
  "folk (set_room key r s) = folk s" "rooms (set_room key r s) = (rooms s)(key := r)"
  "folk (change_person i f s) = (folk s)(i := map_option f (folk s i))" "rooms (change_person i f s) = rooms s"
  by (simp_all add: set_room_def change_person_def)

lemma rooms_occupied_cong: "rooms t = rooms s \<Longrightarrow> dom (folk t) = dom (folk s) \<Longrightarrow> rooms_occupied t = rooms_occupied s"
  by (simp add: rooms_occupied_def)

lemma change_person_ok:
  assumes "chat_ok s" and f: "\<And>p n. folk s i = Some p \<Longrightarrow> p_nick (f p) = Some n \<Longrightarrow> p_nick p = Some n \<or> \<not> nick_taken n s"
  shows "chat_ok (change_person i f s)"
proof -
  let ?t = "change_person i f s"
  have u: "nicks_unique s" using assms(1) by (simp add: chat_ok_def)
  have old: "(\<exists>p'. folk s j = Some p' \<and> p_nick p' = Some n) \<or> j = i \<and> \<not> nick_taken n s"
    if "folk ?t j = Some p" "p_nick p = Some n" for j p n
    using that f by (auto split: if_splits)
  have "nicks_unique ?t" unfolding nicks_unique_def
  proof (intro allI impI)
    fix j k p q n assume p: "folk ?t j = Some p" "p_nick p = Some n" and q: "folk ?t k = Some q" "p_nick q = Some n"
    from old [OF p] old [OF q] u show "j = k" unfolding nicks_unique_def nick_taken_def by metis
  qed
  moreover have "dom (folk ?t) = dom (folk s)" by auto
  then have "rooms_occupied ?t" using assms(1) rooms_occupied_cong [of ?t s] by (simp only: chat_ok_def folk_simps)
  ultimately show ?thesis by (simp add: chat_ok_def)
qed

lemma set_room_ok:
  assumes "chat_ok s" and "\<And>r. x = Some r \<Longrightarrow> r_people r \<noteq> {} \<and> r_people r \<subseteq> dom (folk s)" and "lowercase key = key"
  shows "chat_ok (set_room key x s)"
  using assms by (simp add: chat_ok_def nicks_unique_def rooms_occupied_def)

lemma chat_ok_room:
  "chat_ok s \<Longrightarrow> rooms s key = Some r \<Longrightarrow> r_people r \<noteq> {} \<and> (\<forall>i\<in>r_people r. folk s i \<noteq> None)"
  by (auto simp: chat_ok_def rooms_occupied_def)

lemma chat_join_ok: "chat_ok s \<Longrightarrow> folk s i \<noteq> None \<Longrightarrow> chat_ok (chat_join i n s)"
  unfolding chat_join_def
  by (rule set_room_ok) (auto split: option.splits dest!: chat_ok_room)

lemma chat_part_ok:
  assumes "chat_ok s"
  shows "chat_ok (chat_part i n s)"
proof (cases "rooms s (lowercase n)")
  case (Some r)
  have "r_people r - {i} \<noteq> {}" if "i \<in> r_people r" "r_people r \<noteq> {i}" using that by blast
  with chat_ok_room [OF assms Some] have "chat_ok (set_room (lowercase n)
      (if r_people r = {i} then None else Some (r\<lparr>r_people := r_people r - {i}\<rparr>)) s)" if "i \<in> r_people r"
    by (intro set_room_ok [OF assms]) (use that in \<open>auto split: if_splits\<close>)
  then show ?thesis using assms by (simp add: chat_part_def Some)
qed (use assms in \<open>simp add: chat_part_def\<close>)

lemma chat_topic_ok: "chat_ok s \<Longrightarrow> chat_ok (chat_topic n t s)"
  by (auto simp: chat_topic_def split: option.split intro!: set_room_ok dest: chat_ok_room)

lemma folk_chat_join [simp]: "folk (chat_join i n s) = folk s"
  by (simp add: chat_join_def)

lemma chat_joins_ok:
  "chat_ok s \<Longrightarrow> folk s i \<noteq> None \<Longrightarrow> chat_ok (fold (chat_join i) ns s) \<and> folk (fold (chat_join i) ns s) = folk s"
  by (induction ns arbitrary: s) (simp_all add: chat_join_ok)

lemma chat_cmd_ok:
  assumes "chat_ok s" and "folk s i \<noteq> None"
  shows "chat_ok (chat_cmd i cmd s) \<and> folk (chat_cmd i cmd s) i \<noteq> None"
  using assms(2)
proof (cases "(i, cmd, s)" rule: chat_cmd.cases)
  case (1 i' n s')
  then show ?thesis using assms by (auto simp: chat_nick_def intro: change_person_ok)
next
  case (2 i' u r s')
  then show ?thesis using assms by (auto simp: chat_user_def intro: change_person_ok split: if_splits)
next
  case (3 i' ch s')
  then show ?thesis using assms chat_joins_ok by simp
next
  case (4 i' ch x s')
  have "folk (chat_part i ch s) = folk s" by (simp add: chat_part_def split: option.split)
  then show ?thesis using 4 assms chat_part_ok by simp
next
  case (5 i' ch t s')
  have "folk (chat_topic ch t s) = folk s" by (simp add: chat_topic_def split: option.split)
  then show ?thesis using 5 assms chat_topic_ok by simp
next
  case (6 i' x s')
  then show ?thesis using assms by (auto simp: chat_away_def intro: change_person_ok)
qed (use assms in auto)

lemma folk_chat_cmd: "folk (chat_cmd i cmd s) j = None \<longleftrightarrow> folk s j = None"
proof -
  have "folk (fold (chat_join i) ns s) = folk s" for ns by (induction ns arbitrary: s) simp_all
  then show ?thesis
    by (cases "(i, cmd, s)" rule: chat_cmd.cases)
      (auto simp: chat_nick_def chat_user_def chat_part_def chat_topic_def chat_away_def split: option.split)
qed

lemma chat_step_ok: "chat_step s t \<Longrightarrow> chat_ok s \<Longrightarrow> chat_ok t"
proof (induction rule: chat_step.induct)
  case (arrives s i)
  then show ?case by (auto simp: chat_ok_def nicks_unique_def rooms_occupied_def newcomer_def subset_iff)
next
  case (says s i ls)
  then show ?case
  proof (induction ls arbitrary: s)
    case (Cons l ls)
    then show ?case using chat_cmd_ok [of s i "command_of l"] by (simp add: chat_line_def)
  qed simp
qed

lemma chat_run_ok: "chat_step\<^sup>*\<^sup>* s t \<Longrightarrow> chat_ok s \<Longrightarrow> chat_ok t"
  by (induction rule: rtranclp_induct) (auto intro: chat_step_ok)

lemma empty_chat_ok: "chat_ok empty_chat"
  by (simp add: chat_ok_def empty_chat_def nicks_unique_def rooms_occupied_def)

end
