(* ===== verification/Speech.thy ===== *)
theory Speech
  imports Chat
begin

text \<open>
  What the server says, on top of \<open>Chat\<close>: who is written what in answer to each command.  A house is
  what the answers need besides people and rooms: the name of the server, the message of the day, the
  hosts people come from, and the two counters that LUSERS reports.  Theories \<open>SpeechTexts\<close> to
  \<open>SpeechHouse\<close> show that the handlers write exactly this, and \<open>PoliteRuns\<close> that whole runs do.
\<close>

record house =
  h_name :: string
  h_motd :: "string option"
  h_host :: "int \<Rightarrow> string"
  h_users :: "32 word"
  h_unknown :: "32 word"

subsection \<open>Texts\<close>

definition called :: "person \<Rightarrow> string" where
  "called p = (case p_nick p of None \<Rightarrow> [] | Some n \<Rightarrow> n)"

definition called_or_star :: "person \<Rightarrow> string" where
  "called_or_star p = (case p_nick p of None \<Rightarrow> ''*'' | Some n \<Rightarrow> n)"

definition user_of :: "person \<Rightarrow> string" where
  "user_of p = (case p_user p of None \<Rightarrow> [] | Some (u, r) \<Rightarrow> u)"

definition real_of :: "person \<Rightarrow> string" where
  "real_of p = (case p_user p of None \<Rightarrow> [] | Some (u, r) \<Rightarrow> r)"

definition mask :: "string \<Rightarrow> person \<Rightarrow> string" where
  "mask host p = called p @ ''!'' @ user_of p @ ''@'' @ host"

text \<open>Numeric replies come in two forms: with the server's name in front, and without.\<close>

definition coded :: "string \<Rightarrow> string \<Rightarrow> string \<Rightarrow> string" where
  "coded code who rest = code @ '' '' @ who @ '' '' @ rest @ CRLF"

definition numeric :: "string \<Rightarrow> string \<Rightarrow> person \<Rightarrow> string \<Rightarrow> string" where
  "numeric name code p rest = '':'' @ name @ '' '' @ coded code (called p) rest"

definition welcome_line :: "string \<Rightarrow> person \<Rightarrow> string" where
  "welcome_line host p = coded ''001'' (called p) ('':Welcome to the Internet Relay Network '' @ mask host p)"

definition private_text :: "string \<Rightarrow> person \<Rightarrow> string \<Rightarrow> string \<Rightarrow> string" where
  "private_text host p t x = mask host p @ '' PRIVMSG '' @ t @ '' :'' @ x @ CRLF"

definition joined_text :: "string \<Rightarrow> person \<Rightarrow> string \<Rightarrow> string" where
  "joined_text host p key = '':'' @ mask host p @ '' JOIN '' @ key @ CRLF"

definition parted_text :: "string \<Rightarrow> person \<Rightarrow> string \<Rightarrow> string \<Rightarrow> string" where
  "parted_text host p key x = mask host p @ '' PART '' @ key @ '' :'' @ x @ CRLF"

definition no_such_nick :: "person \<Rightarrow> string \<Rightarrow> string" where
  "no_such_nick p t = coded ''401'' (called_or_star p) (t @ '' :No such nick/channel'')"

definition no_such_room :: "string \<Rightarrow> person \<Rightarrow> string \<Rightarrow> string" where
  "no_such_room name p key = numeric name ''403'' p (key @ '' :No such channel'')"

definition more_params :: "person \<Rightarrow> string \<Rightarrow> string" where
  "more_params p cmd = coded ''461'' (called_or_star p) (cmd @ '' :Not enough parameters'')"

definition topic_line :: "string \<Rightarrow> person \<Rightarrow> string \<Rightarrow> string \<Rightarrow> string" where
  "topic_line name p key t = numeric name ''332'' p (key @ '' :'' @ t)"

definition room_line :: "string \<Rightarrow> person \<Rightarrow> string \<Rightarrow> room \<Rightarrow> string" where
  "room_line name p key r = numeric name ''322'' p (key @ '' 1 :'' @ r_topic r)"

definition names_lines :: "string \<Rightarrow> person \<Rightarrow> string \<Rightarrow> string list \<Rightarrow> string list" where
  "names_lines name p key ns =
     [numeric name ''353'' p (key @ '' :'' @ joined ns), numeric name ''366'' p (key @ '' :End of NAMES list'')]"

definition whois_lines :: "house \<Rightarrow> person \<Rightarrow> int \<Rightarrow> person \<Rightarrow> string list" where
  "whois_lines h p j q =
     [coded ''311'' (called p) (called q @ '' '' @ user_of q @ '' '' @ h_host h j @ '' * :'' @ real_of q),
      coded ''312'' (called p) (called q @ '' '' @ h_name h @ '' :cIRC, version 0.1''),
      coded ''318'' (called p) (called q @ '' :End of WHOIS list'')]"

definition motd_lines :: "house \<Rightarrow> person \<Rightarrow> string list" where
  "motd_lines h p =
     (case h_motd h of
        None \<Rightarrow> [coded ''422'' (called_or_star p) '':MOTD File is missing'']
      | Some m \<Rightarrow>
          [coded ''375'' (called_or_star p) ('':- '' @ h_name h @ '' Message of the day - '')] @
          map (\<lambda>part. coded ''372'' (called_or_star p) ('':- '' @ part)) (motd_fragments m) @
          [coded ''376'' (called_or_star p) '':End of MOTD command''])"

text \<open>The server counts neither services nor operators nor channels: the counters stay 0.\<close>

definition lusers_lines :: "house \<Rightarrow> person \<Rightarrow> string list" where
  "lusers_lines h p =
     [coded ''251'' (called p) ('':There are '' @ dec (sint (h_users h)) @ '' users and 0 services on 1 servers'')] @
     (if h_unknown h = 0 then [] else [coded ''253'' (called p) (dec (sint (h_unknown h)) @ '' :unknown connection(s)'')]) @
     [coded ''255'' (called p) ('':I have '' @ dec (sint (h_users h + h_unknown h)) @ '' clients and 0 servers'')]"

subsection \<open>Speeches\<close>

text \<open>
  A speech: what others are written at once, each with the person written to, and what the speaker is
  written at the end.
\<close>

type_synonym speech = "(int \<times> string) list \<times> string list"

text \<open>The order in which the members of a room are visited is not fixed.\<close>

definition each_once :: "'a set \<Rightarrow> 'a list \<Rightarrow> bool" where
  "each_once A xs \<longleftrightarrow> set xs = A \<and> distinct xs"

definition tells :: "int set \<Rightarrow> string \<Rightarrow> (int \<times> string) list \<Rightarrow> bool" where
  "tells A t os \<longleftrightarrow> (\<exists>js. each_once A js \<and> os = map (\<lambda>j. (j, t)) js)"

definition roll :: "chat \<Rightarrow> int set \<Rightarrow> string list \<Rightarrow> bool" where
  "roll s A ns \<longleftrightarrow> (\<exists>js. each_once A js \<and> ns = map (\<lambda>j. case folk s j of None \<Rightarrow> [] | Some q \<Rightarrow> called q) js)"

definition room_prefix :: "string \<Rightarrow> bool" where
  "room_prefix t \<longleftrightarrow> take 1 t \<in> {''#'', ''+'', ''!'', ''&''}"

definition nick_answer :: "house \<Rightarrow> int \<Rightarrow> person \<Rightarrow> string \<Rightarrow> chat \<Rightarrow> string list" where
  "nick_answer h i p n s =
     (if nick_taken n s then [coded ''433'' (called_or_star p) (n @ '' :Nickname is already in use'')]
      else if p_nick p = None \<and> p_user p \<noteq> None then [welcome_line (h_host h i) (p\<lparr>p_nick := Some n\<rparr>)]
      else [])"

definition user_answer :: "house \<Rightarrow> int \<Rightarrow> person \<Rightarrow> string \<Rightarrow> string \<Rightarrow> string list" where
  "user_answer h i p u r =
     (if signed_in p then [coded ''462'' (called p) '':You may not reregister'']
      else if p_nick p \<noteq> None then [welcome_line (h_host h i) (p\<lparr>p_user := Some (u, r)\<rparr>)]
      else [])"

text \<open>A room is looked up under the name as typed, and an unknown one is passed over in silence.\<close>

definition privmsg_speech :: "house \<Rightarrow> int \<Rightarrow> person \<Rightarrow> string \<Rightarrow> string \<Rightarrow> chat \<Rightarrow> speech \<Rightarrow> bool" where
  "privmsg_speech h i p t x s sp \<longleftrightarrow>
     (if room_prefix t then
        (case rooms s t of
           None \<Rightarrow> sp = ([], [])
         | Some r \<Rightarrow> tells (r_people r - {i}) (private_text (h_host h i) p t x) (fst sp) \<and> snd sp = [])
      else if nick_taken t s then
        (\<exists>j q. folk s j = Some q \<and> p_nick q = Some t \<and>
           sp = ([(j, private_text (h_host h i) p t x)],
                 case p_away q of None \<Rightarrow> [] | Some m \<Rightarrow> [numeric (h_name h) ''301'' p (t @ '' :'' @ m)]))
      else sp = ([], [no_such_nick p t]))"

definition whois_speech :: "house \<Rightarrow> person \<Rightarrow> string \<Rightarrow> chat \<Rightarrow> speech \<Rightarrow> bool" where
  "whois_speech h p t s sp \<longleftrightarrow>
     (if nick_taken t s then \<exists>j q. folk s j = Some q \<and> p_nick q = Some t \<and> sp = ([], whois_lines h p j q)
      else sp = ([], [no_such_nick p t]))"

text \<open>
  Who enters a room is announced to those in it and greeted with the topic and the names; who is in it
  already is only greeted.
\<close>

definition join_speech :: "house \<Rightarrow> int \<Rightarrow> person \<Rightarrow> string \<Rightarrow> chat \<Rightarrow> speech \<Rightarrow> bool" where
  "join_speech h i p n s sp \<longleftrightarrow>
     (let key = lowercase n;
          r = (case rooms s key of None \<Rightarrow> \<lparr>r_topic = [], r_people = {}\<rparr> | Some r \<Rightarrow> r) in
      tells (if i \<in> r_people r then {} else r_people r) (joined_text (h_host h i) p key) (fst sp) \<and>
      (\<exists>ns. roll s (insert i (r_people r)) ns \<and>
         snd sp = [joined_text (h_host h i) p key] @
           (if r_topic r = [] then [] else [topic_line (h_name h) p key (r_topic r)]) @
           names_lines (h_name h) p key ns))"

definition then_says :: "speech \<Rightarrow> speech \<Rightarrow> speech" where
  "then_says sp sp' = (fst sp @ fst sp', snd sp @ snd sp')"

fun joins_speech :: "house \<Rightarrow> int \<Rightarrow> person \<Rightarrow> string list \<Rightarrow> chat \<Rightarrow> speech \<Rightarrow> bool" where
  "joins_speech h i p [] s sp \<longleftrightarrow> sp = ([], [])"
| "joins_speech h i p (n # ns) s sp \<longleftrightarrow>
     (\<exists>sp1 sp2. join_speech h i p n s sp1 \<and> joins_speech h i p ns (chat_join i n s) sp2 \<and> sp = then_says sp1 sp2)"

text \<open>Without a message, PART says the nickname; to part from a room one is not in is answered like an unknown room.\<close>

definition part_speech :: "house \<Rightarrow> int \<Rightarrow> person \<Rightarrow> string \<Rightarrow> string option \<Rightarrow> chat \<Rightarrow> speech \<Rightarrow> bool" where
  "part_speech h i p n x s sp \<longleftrightarrow>
     (case rooms s (lowercase n) of
        None \<Rightarrow> sp = ([], [no_such_room (h_name h) p (lowercase n)])
      | Some r \<Rightarrow>
          if i \<notin> r_people r then sp = ([], [no_such_room (h_name h) p (lowercase n)])
          else tells (r_people r - {i})
                 (parted_text (h_host h i) p (lowercase n) (case x of None \<Rightarrow> called p | Some t \<Rightarrow> t)) (fst sp) \<and>
               snd sp = [])"

definition named_room_lines :: "house \<Rightarrow> person \<Rightarrow> chat \<Rightarrow> string \<Rightarrow> string list" where
  "named_room_lines h p s n =
     (case rooms s (lowercase n) of None \<Rightarrow> [] | Some r \<Rightarrow> [room_line (h_name h) p (lowercase n) r])"

definition list_speech :: "house \<Rightarrow> person \<Rightarrow> string option \<Rightarrow> chat \<Rightarrow> speech \<Rightarrow> bool" where
  "list_speech h p x s sp \<longleftrightarrow>
     (\<exists>ls. sp = ([], [numeric (h_name h) ''321'' p ''Channel :Users Name''] @ ls @ [numeric (h_name h) ''323'' p '':End of /LIST'']) \<and>
        (case x of
           None \<Rightarrow> \<exists>keys. each_once (dom (rooms s)) keys \<and>
             ls = concat (map (\<lambda>key. case rooms s key of None \<Rightarrow> [] | Some r \<Rightarrow> [room_line (h_name h) p key r]) keys)
         | Some ch \<Rightarrow> ls = concat (map (named_room_lines h p s) (strtok_all ch (CHR '','')))))"

definition topic_speech :: "house \<Rightarrow> person \<Rightarrow> string \<Rightarrow> string option \<Rightarrow> chat \<Rightarrow> speech" where
  "topic_speech h p n x s =
     ([], if x \<noteq> None then []
          else case rooms s (lowercase n) of
            None \<Rightarrow> [no_such_room (h_name h) p (lowercase n)]
          | Some r \<Rightarrow> [if r_topic r = [] then numeric (h_name h) ''331'' p (lowercase n @ '' :No topic is set'')
                       else topic_line (h_name h) p (lowercase n) (r_topic r)])"

fun names_answer :: "house \<Rightarrow> person \<Rightarrow> chat \<Rightarrow> string list \<Rightarrow> string list \<Rightarrow> bool" where
  "names_answer h p s [] ls \<longleftrightarrow> ls = []"
| "names_answer h p s (n # ns) ls \<longleftrightarrow>
     (case rooms s (lowercase n) of
        None \<Rightarrow> names_answer h p s ns ls
      | Some r \<Rightarrow> \<exists>ks ls'. roll s (r_people r) ks \<and> names_answer h p s ns ls' \<and>
          ls = names_lines (h_name h) p (lowercase n) ks @ ls')"

definition away_answer :: "house \<Rightarrow> person \<Rightarrow> string option \<Rightarrow> string" where
  "away_answer h p x =
     (case x of
        None \<Rightarrow> numeric (h_name h) ''305'' p '':You are no longer marked as being away''
      | Some _ \<Rightarrow> tl (numeric (h_name h) ''306'' p '':You have been marked as being away''))"

text \<open>The whole server.  The commands the code has no defined answer to are left out.\<close>

fun replies :: "house \<Rightarrow> int \<Rightarrow> person \<Rightarrow> irc_cmd \<Rightarrow> chat \<Rightarrow> speech \<Rightarrow> bool" where
  "replies h i p (Cmd_nick n) s sp \<longleftrightarrow> sp = ([], nick_answer h i p n s)"
| "replies h i p Cmd_nick_missing s sp \<longleftrightarrow> sp = ([], [coded ''431'' (called_or_star p) '':No nickname given''])"
| "replies h i p Cmd_nick_too_long s sp \<longleftrightarrow> False"
| "replies h i p (Cmd_user u r) s sp \<longleftrightarrow> sp = ([], user_answer h i p u r)"
| "replies h i p Cmd_user_few s sp \<longleftrightarrow> sp = ([], [more_params p ''USER''])"
| "replies h i p (Cmd_privmsg t x) s sp \<longleftrightarrow> privmsg_speech h i p t x s sp"
| "replies h i p Cmd_privmsg_no_recipient s sp \<longleftrightarrow>
     sp = ([], [coded ''411'' (called_or_star p) '':No recipient given (PRIVMSG)''])"
| "replies h i p Cmd_privmsg_no_text s sp \<longleftrightarrow> sp = ([], [coded ''412'' (called_or_star p) '':No text to send''])"
| "replies h i p Cmd_ping s sp \<longleftrightarrow> sp = ([], [''PONG '' @ h_name h @ CRLF])"
| "replies h i p Cmd_pong s sp \<longleftrightarrow> sp = ([], [])"
| "replies h i p Cmd_motd s sp \<longleftrightarrow> sp = ([], motd_lines h p)"
| "replies h i p Cmd_lusers s sp \<longleftrightarrow> sp = ([], lusers_lines h p)"
| "replies h i p (Cmd_whois None) s sp \<longleftrightarrow> sp = ([], [])"
| "replies h i p (Cmd_whois (Some t)) s sp \<longleftrightarrow> whois_speech h p t s sp"
| "replies h i p (Cmd_join ch) s sp \<longleftrightarrow> joins_speech h i p (strtok_all ch (CHR '','')) s sp"
| "replies h i p Cmd_join_zero s sp \<longleftrightarrow> False"
| "replies h i p Cmd_join_few s sp \<longleftrightarrow> sp = ([], [more_params p ''JOIN''])"
| "replies h i p (Cmd_part n x) s sp \<longleftrightarrow> part_speech h i p n x s sp"
| "replies h i p Cmd_part_few s sp \<longleftrightarrow> False"
| "replies h i p (Cmd_list x) s sp \<longleftrightarrow> list_speech h p x s sp"
| "replies h i p (Cmd_topic n x) s sp \<longleftrightarrow> sp = topic_speech h p n x s"
| "replies h i p Cmd_topic_few s sp \<longleftrightarrow> sp = ([], [more_params p ''TOPIC''])"
| "replies h i p (Cmd_names None) s sp \<longleftrightarrow> sp = ([], [])"
| "replies h i p (Cmd_names (Some ch)) s sp \<longleftrightarrow> fst sp = [] \<and> names_answer h p s (strtok_all ch (CHR '','')) (snd sp)"
| "replies h i p (Cmd_away x) s sp \<longleftrightarrow> sp = ([], [away_answer h p x])"
| "replies h i p (Cmd_unknown c) s sp \<longleftrightarrow> sp = ([], [coded ''421'' (called_or_star p) (c @ '' :Unknown command'')])"
| "replies h i p Cmd_invalid s sp \<longleftrightarrow> sp = ([], [])"

subsection \<open>Conversations\<close>

text \<open>Registration is complete when NICK and USER have both been accepted; then the counters change.\<close>

definition house_line :: "int \<Rightarrow> string \<Rightarrow> chat \<Rightarrow> house \<Rightarrow> house" where
  "house_line i l s h =
     (case (folk s i, folk (chat_line i l s) i) of
        (Some p, Some q) \<Rightarrow>
          if \<not> signed_in p \<and> signed_in q then h\<lparr>h_users := h_users h + 1, h_unknown := h_unknown h - 1\<rparr> else h
      | _ \<Rightarrow> h)"

text \<open>What is written when \<open>i\<close> says a line, and when \<open>i\<close> says several.\<close>

definition line_heard :: "house \<Rightarrow> int \<Rightarrow> string \<Rightarrow> chat \<Rightarrow> (int \<times> string) list \<Rightarrow> bool" where
  "line_heard h i l s out \<longleftrightarrow>
     (\<exists>p sp. folk s i = Some p \<and> replies h i p (command_of l) s sp \<and> out = fst sp @ map (Pair i) (snd sp))"

fun talk :: "int \<Rightarrow> string list \<Rightarrow> house \<times> chat \<Rightarrow> (int \<times> string) list \<Rightarrow> house \<times> chat \<Rightarrow> bool" where
  "talk i [] st out st' \<longleftrightarrow> out = [] \<and> st' = st"
| "talk i (l # ls) st out st' \<longleftrightarrow>
     (\<exists>o1 o2. line_heard (fst st) i l (snd st) o1 \<and>
        talk i ls (house_line i l (snd st) (fst st), chat_line i l (snd st)) o2 st' \<and> out = o1 @ o2)"

definition house_left :: "person \<Rightarrow> house \<Rightarrow> house" where
  "house_left p h = (if signed_in p then h\<lparr>h_users := h_users h - 1\<rparr> else h\<lparr>h_unknown := h_unknown h - 1\<rparr>)"

text \<open>
  A conversation: people arrive, say lines and leave, and \<open>tr\<close> is everything that has been written, in
  its order.  Who leaves is still in the rooms.  A connection that cannot be registered is closed again but
  has been counted.
\<close>

definition new_house :: "string \<Rightarrow> string option \<Rightarrow> house" where
  "new_house name m = \<lparr>h_name = name, h_motd = m, h_host = (\<lambda>_. []), h_users = 0, h_unknown = 0\<rparr>"

inductive conversation :: "house \<times> chat \<Rightarrow> (int \<times> string) list \<Rightarrow> house \<times> chat \<Rightarrow> bool" for st where
  silence: "conversation st [] st"
| arrives: "conversation st tr (h, s) \<Longrightarrow> folk s i = None \<Longrightarrow>
    conversation st tr (h\<lparr>h_host := (h_host h)(i := host), h_unknown := h_unknown h + 1\<rparr>,
      s\<lparr>folk := (folk s)(i \<mapsto> newcomer)\<rparr>)"
| turned_away: "conversation st tr (h, s) \<Longrightarrow> conversation st tr (h\<lparr>h_unknown := h_unknown h + 1\<rparr>, s)"
| says: "conversation st tr (h, s) \<Longrightarrow> folk s i \<noteq> None \<Longrightarrow> talk i ls (h, s) out (h', s') \<Longrightarrow>
    conversation st (tr @ out) (h', s')"
| leaves: "conversation st tr (h, s) \<Longrightarrow> folk s i = Some p \<Longrightarrow> conversation st tr (house_left p h, s)"

inductive_cases conversation_cases: "conversation st tr st'"

lemma talk_chat: "talk i ls st out st' \<Longrightarrow> snd st' = fold (chat_line i) ls (snd st)"
  by (induction i ls st out st' rule: talk.induct) auto

lemma each_once_insert: "each_once A xs \<Longrightarrow> x \<notin> A \<Longrightarrow> each_once (insert x A) (x # xs)"
  by (auto simp: each_once_def)

lemma tells_empty [simp]: "tells {} t os \<longleftrightarrow> os = []"
  by (auto simp: tells_def each_once_def)

lemma then_says_simps [simp]:
  "then_says ([], []) sp = sp" "then_says sp ([], []) = sp"
  "fst (then_says sp sp') = fst sp @ fst sp'" "snd (then_says sp sp') = snd sp @ snd sp'"
  by (simp_all add: then_says_def)

subsection \<open>What holds of every conversation\<close>

lemma talk_append:
  "talk i ls st o1 st' \<Longrightarrow> talk i ms st' o2 st'' \<Longrightarrow> talk i (ls @ ms) st (o1 @ o2) st''"
proof (induction i ls st o1 st' rule: talk.induct)
  case (2 i l ls st out st')
  then show ?case by (metis append.assoc append_Cons talk.simps(2))
qed simp

lemma conversation_trans: "conversation v ts w \<Longrightarrow> conversation u tr v \<Longrightarrow> conversation u (tr @ ts) w"
  by (induction rule: conversation.induct)
    (auto intro: conversation.intros simp flip: append_assoc)

text \<open>Without the words it is a run of the chat.\<close>

lemma conversation_chat: "conversation st tr st' \<Longrightarrow> chat_step\<^sup>*\<^sup>* (snd st) (snd st')"
proof (induction rule: conversation.induct)
  case (arrives tr h s i host)
  then show ?case using chat_step.arrives by (auto intro: rtranclp.rtrancl_into_rtrancl)
next
  case (says tr h s i ls out h' s')
  have "s' = fold (chat_line i) ls s" using talk_chat [OF says(3)] by simp
  then show ?case using says.IH chat_step.says [OF says(2)] by (auto intro: rtranclp.rtrancl_into_rtrancl)
qed simp_all

text \<open>The name of the server and the message of the day stay the same.\<close>

lemma talk_house: "talk i ls st out st' \<Longrightarrow> h_name (fst st') = h_name (fst st) \<and> h_motd (fst st') = h_motd (fst st)"
  by (induction i ls st out st' rule: talk.induct) (auto simp: house_line_def split: option.splits)

lemma conversation_house:
  "conversation st tr st' \<Longrightarrow> h_name (fst st') = h_name (fst st) \<and> h_motd (fst st') = h_motd (fst st)"
  by (induction rule: conversation.induct) (auto simp: house_left_def dest: talk_house)

text \<open>Only people who have arrived are written to.\<close>

definition known :: "chat \<Rightarrow> (int \<times> string) list \<Rightarrow> bool" where
  "known s out \<longleftrightarrow> fst ` set out \<subseteq> dom (folk s)"

lemma known_simps [simp]:
  "known s []" "known s (o1 @ o2) \<longleftrightarrow> known s o1 \<and> known s o2" "known s ((j, t) # out) \<longleftrightarrow> folk s j \<noteq> None \<and> known s out"
  by (auto simp: known_def)

lemma known_folk: "dom (folk t) = dom (folk s) \<Longrightarrow> known t out = known s out"
  by (simp add: known_def)

lemma known_tells:
  assumes "tells A t os" and "A \<subseteq> dom (folk s)"
  shows "known s os"
  using assms by (auto simp: tells_def each_once_def known_def)

lemma room_known: "chat_ok s \<Longrightarrow> rooms s n = Some r \<Longrightarrow> r_people r \<subseteq> dom (folk s)"
  by (auto simp: chat_ok_def rooms_occupied_def)

lemma join_speech_known: "join_speech h i p n s sp \<Longrightarrow> chat_ok s \<Longrightarrow> known s (fst sp)"
  unfolding join_speech_def Let_def
  by (cases "rooms s (lowercase n)") (auto split: if_splits intro: known_tells dest: room_known)

lemma joins_speech_known:
  "joins_speech h i p ns s sp \<Longrightarrow> chat_ok s \<Longrightarrow> folk s i \<noteq> None \<Longrightarrow> known s (fst sp)"
proof (induction ns arbitrary: s sp)
  case (Cons n ns)
  then obtain sp1 sp2 where sp: "join_speech h i p n s sp1" "joins_speech h i p ns (chat_join i n s) sp2" "sp = then_says sp1 sp2"
    by auto
  have "known (chat_join i n s) (fst sp2)" by (rule Cons.IH [OF sp(2)]) (use Cons.prems chat_join_ok in auto)
  then have "known s (fst sp2)" using known_folk [of "chat_join i n s" s] by simp
  then show ?case using join_speech_known [OF sp(1) Cons.prems(2)] by (simp add: sp(3))
qed simp

lemma part_speech_known: "part_speech h i p n x s sp \<Longrightarrow> chat_ok s \<Longrightarrow> known s (fst sp)"
  unfolding part_speech_def
  by (auto split: option.splits if_splits intro!: known_tells dest: room_known)

lemma privmsg_speech_known:
  assumes "privmsg_speech h i p t x s sp" and "chat_ok s"
  shows "known s (fst sp)"
proof (cases "room_prefix t")
  case True
  then show ?thesis using assms unfolding privmsg_speech_def
    by (auto split: option.splits intro!: known_tells dest: room_known)
next
  case False
  then show ?thesis using assms(1) unfolding privmsg_speech_def by (auto split: if_splits)
qed

lemma whois_speech_known: "whois_speech h p t s sp \<Longrightarrow> known s (fst sp)"
  by (auto simp: whois_speech_def split: if_splits)

lemma replies_known:
  assumes "replies h i p cmd s sp" and "chat_ok s" and "folk s i = Some p"
  shows "known s (fst sp)"
  using assms by (cases "(h, i, p, cmd, s, sp)" rule: replies.cases)
    (auto simp: list_speech_def topic_speech_def
      dest: joins_speech_known part_speech_known privmsg_speech_known whois_speech_known)

lemma line_heard_known:
  assumes "line_heard h i l s out" and "chat_ok s"
  shows "known s out"
proof -
  obtain p sp where "folk s i = Some p" "replies h i p (command_of l) s sp" "out = fst sp @ map (Pair i) (snd sp)"
    using assms(1) by (auto simp: line_heard_def)
  moreover have "known s (map (Pair i) ts)" for ts using calculation(1) by (auto simp: known_def)
  ultimately show ?thesis using replies_known [of h i p "command_of l" s sp] assms(2) by simp
qed

lemma talk_known:
  "talk i ls st out st' \<Longrightarrow> chat_ok (snd st) \<Longrightarrow> folk (snd st) i \<noteq> None \<Longrightarrow> known (snd st) out \<and> dom (folk (snd st')) = dom (folk (snd st))"
proof (induction i ls st out st' rule: talk.induct)
  case (2 i l ls st out st')
  then obtain o1 o2 where o: "line_heard (fst st) i l (snd st) o1"
    "talk i ls (house_line i l (snd st) (fst st), chat_line i l (snd st)) o2 st'" "out = o1 @ o2" by auto
  have d: "dom (folk (chat_line i l (snd st))) = dom (folk (snd st))" by (auto simp: chat_line_def folk_chat_cmd dom_def)
  have "chat_ok (chat_line i l (snd st)) \<and> folk (chat_line i l (snd st)) i \<noteq> None"
    unfolding chat_line_def by (rule chat_cmd_ok [OF 2(3,4)])
  then have "known (chat_line i l (snd st)) o2 \<and> dom (folk (snd st')) = dom (folk (chat_line i l (snd st)))"
    using 2(1) [OF o(2)] by simp
  then show ?case using line_heard_known [OF o(1) 2(3)] d o(3) known_folk [OF d] by simp
qed simp

lemma conversation_known:
  "conversation st tr st' \<Longrightarrow> chat_ok (snd st) \<Longrightarrow> known (snd st') tr"
proof (induction rule: conversation.induct)
  case (arrives tr h s i host)
  then show ?case by (auto simp: known_def)
next
  case (says tr h s i ls out h' s')
  have "chat_ok s" using chat_run_ok [OF conversation_chat [OF says(1)]] says.prems by simp
  with talk_known [OF says(3)] says(2) have "known s out" "dom (folk s') = dom (folk s)" by simp_all
  then show ?case using says.IH says.prems known_folk [of s' s] by simp
qed simp_all

end
