(* ===== verification/ChatRefined.thy ===== *)
theory ChatRefined
  imports Chat
begin

text \<open>
  The handlers implement the chat: \<open>chat_of\<close> forgets tables, heaps, buffers and counters, and what a
  handler does to the world is, seen through \<open>chat_of\<close>, what \<open>chat_cmd\<close> does to the chat.
\<close>

subsection \<open>The abstraction\<close>

definition person_of :: "client_s \<Rightarrow> person" where
  "person_of c =
     \<lparr>p_nick = if receivedNick c then Some (cstring (nickname c)) else None,
      p_user = if receivedUser c then Some (cstring (username c), cstring (fullname c)) else None,
      p_away = if away c then Some (cstring (away_message c)) else None\<rparr>"

definition room_of :: "channel_s \<Rightarrow> room" where
  "room_of k = \<lparr>r_topic = cstring (chan_topic k), r_people = dom (g_lookup (members k))\<rparr>"

definition chat_of :: "world \<Rightarrow> chat" where
  "chat_of w =
     \<lparr>folk = (\<lambda>i. Option.bind (g_lookup (clients (server w)) i) (\<lambda>a. map_option person_of (view w a))),
      rooms = (\<lambda>key. Option.bind (g_lookup (channels (server w)) key) (\<lambda>ch. map_option room_of (channel_mem w ch)))\<rparr>"

lemma person_of_core [simp]: "person_of (core c) = person_of c"
  by (simp add: person_of_def)

lemma chat_of_quiet: "quiet w v \<Longrightarrow> chat_of v = chat_of w"
  by (simp add: chat_of_def quiet_eqs)

lemmas chat_of_calm = chat_of_quiet [OF calm_quiet]

lemma chat_of_client:
  assumes "world_ok w" and "client_mem w a = Some c"
  shows "folk (chat_of w) (clientId c) = Some (person_of c)"
  using inv_client(4) [OF assms(1) view_SomeI [OF assms(2)]] view_SomeI [OF assms(2)] by (simp add: chat_of_def)

text \<open>A change of one client object is a change of one person.\<close>

lemma chat_of_upd_client:
  assumes "world_ok w" and c: "client_mem w a = Some c" and "view v = (view w)(a \<mapsto> d)"
    and "clients (server v) = clients (server w)" and "channels (server v) = channels (server w)"
    and "channel_mem v = channel_mem w" and "person_of d = f (person_of c)"
  shows "chat_of v = change_person (clientId c) f (chat_of w)"
proof -
  note lk = inv_client(4) [OF assms(1) view_SomeI [OF c]]
  have "folk (chat_of v) i = folk (change_person (clientId c) f (chat_of w)) i" for i
  proof (cases "i = clientId c")
    case True
    then show ?thesis using lk assms(3,4,7) view_SomeI [OF c] by (simp add: chat_of_def)
  next
    case False
    then have "g_lookup (clients (server w)) i \<noteq> Some a"
      using inv_table [OF assms(1) _ view_SomeI [OF c]] by fastforce
    then show ?thesis using False assms(3,4) by (cases "g_lookup (clients (server w)) i") (auto simp: chat_of_def)
  qed
  moreover have "rooms (chat_of v) = rooms (change_person (clientId c) f (chat_of w))"
    using assms(5,6) by (simp add: chat_of_def)
  ultimately show ?thesis by (intro chat.equality) auto
qed

text \<open>A change of one channel object, or of its entry in the table, is a change of one room.\<close>

lemma table_ok_key:
  "table_ok w \<Longrightarrow> g_lookup (channels (server w)) x = Some ch \<Longrightarrow> channel_mem w ch = Some k \<Longrightarrow> x = cstring (chan_name k)"
  unfolding table_ok_def by (metis option.inject)

lemma chat_of_upd_room:
  assumes "view v = view w" and "clients (server v) = clients (server w)"
    and "g_lookup (channels (server v)) = (g_lookup (channels (server w)))(key := x)"
    and mem: "\<And>b. b \<noteq> ch \<Longrightarrow> channel_mem v b = channel_mem w b"
    and only: "\<And>y. g_lookup (channels (server w)) y = Some ch \<Longrightarrow> y = key"
    and "Option.bind x (\<lambda>ch. map_option room_of (channel_mem v ch)) = r"
  shows "chat_of v = set_room key r (chat_of w)"
proof -
  have "rooms (chat_of v) y = rooms (set_room key r (chat_of w)) y" for y
  proof (cases "y = key")
    case False
    then have "g_lookup (channels (server w)) y \<noteq> Some ch" using only by blast
    then show ?thesis using False assms(3) mem by (cases "g_lookup (channels (server w)) y") (auto simp: chat_of_def)
  qed (use assms(3,6) in \<open>simp add: chat_of_def\<close>)
  moreover have "folk (chat_of v) = folk (set_room key r (chat_of w))" using assms(1,2) by (simp add: chat_of_def)
  ultimately show ?thesis by (intro chat.equality) auto
qed

lemma chat_of_upd_channel:
  assumes "table_ok w" and look: "g_lookup (channels (server w)) key = Some ch" and "channel_mem w ch = Some k"
    and "view v = view w" and "server v = server w" and "channel_mem v = (channel_mem w)(ch \<mapsto> l)"
  shows "chat_of v = set_room key (Some (room_of l)) (chat_of w)"
proof (rule chat_of_upd_room)
  show "g_lookup (channels (server v)) = (g_lookup (channels (server w)))(key := Some ch)"
    by (simp add: assms(5) look fun_upd_idem)
  show "y = key" if "g_lookup (channels (server w)) y = Some ch" for y
    using table_ok_key [OF assms(1) that assms(3)] table_ok_key [OF assms(1) look assms(3)] by simp
qed (simp_all add: assms(4-6))

lemma rooms_chat_of:
  "g_lookup (channels (server w)) key = None \<Longrightarrow> rooms (chat_of w) key = None"
  "g_lookup (channels (server w)) key = Some ch \<Longrightarrow> channel_mem w ch = Some k \<Longrightarrow> rooms (chat_of w) key = Some (room_of k)"
  by (simp_all add: chat_of_def)

subsection \<open>People\<close>

lemma change_person_same [simp]: "change_person i (\<lambda>p. p) s = s"
  by (simp add: change_person_def option.map_ident)

lemma view_upd_client_at:
  "(\<And>d. core (f d) = f (core d)) \<Longrightarrow> client_mem w a = Some c \<Longrightarrow> view (upd_client a f w) = (view w)(a \<mapsto> f (core c))"
  by (simp add: view_upd_client view_SomeI)

lemma TryRegister_chat:
  assumes "Client_TryRegister a w = Inr (v, r)" and "world_ok w"
  shows "chat_of v = chat_of w"
  using assms(1)
proof (cases rule: Client_TryRegister_cases)
  case (yes c)
  have same: "g_insert (clientId c) a (clients (server w)) = clients (server w)"
    using g_insert_same inv_client(4) [OF assms(2) view_SomeI [OF yes(1)]] by simp
  have "chat_of v = change_person (clientId c) (\<lambda>p. p) (chat_of w)"
  proof (rule chat_of_upd_client [OF assms(2) yes(1)])
    show "view v = (view w)(a \<mapsto> (core c)\<lparr>registered := True\<rparr>)" using yes(1) by (simp add: yes(6) view_upd_client_at)
    show "person_of ((core c)\<lparr>registered := True\<rparr>) = person_of c" by (simp add: person_of_def)
  qed (simp_all add: yes(6) same)
  then show ?thesis by simp
qed simp

lemma TryRegister_push_chat:
  assumes "rbind (Client_TryRegister a w) (\<lambda>(w, r). Inr (push_optional a r w, n)) = Inr (v, m)" and "world_ok w"
  shows "chat_of v = chat_of w"
  using assms TryRegister_chat [OF _ assms(2)] chat_of_calm [OF push_optional_calm]
  by (auto elim!: rbind_InrE)

lemma nick_taken_iff:
  assumes "world_ok w"
  shows "nick_taken n (chat_of w) \<longleftrightarrow> g_lookup (nicks (server w)) n \<noteq> None"
proof -
  have o: "g_lookup (nicks (server w)) n = Some i \<longleftrightarrow> nick_owner w i = Some n" for i
    using assms by (simp add: world_ok_def nicks_inv_def gh.owns_def)
  have "nick_owner w i = Option.bind (folk (chat_of w) i) p_nick" for i
    by (simp add: nick_owner_def chat_of_def split: option.split) (simp add: person_of_def)
  then show ?thesis using o by (auto simp: nick_taken_def bind_eq_Some_conv)
qed

lemma Handler_Nick_chat:
  assumes "Handler_Nick a m w = Inr (v, r)" and w: "world_ok w" and c: "client_mem w a = Some c"
    and m: "parse_err m = 0" "msg_str a (nick_nick m) w = Inr n"
  shows "chat_of v = chat_nick (clientId c) n (chat_of w)"
proof -
  have nul: "NUL \<notin> set n" using msg_str_bound(2) [OF m(2) w] .
  from assms(1) m obtain u q res where u: "Client_TryChangeNick a n w = Inr (u, q, res)"
    and rest: "(if res = -1 then Inr (push_optional a q u, -1)
          else rbind (Client_TryRegister a u) (\<lambda>(w, r). Inr (push_optional a r w, 0))) = Inr (v, r)"
    by (auto simp: Handler_Nick_def get_client_mem [OF c] elim!: rbind_InrE)
  from u show ?thesis
  proof (cases rule: Client_TryChangeNick_cases)
    case in_use
    then have "chat_of v = chat_of w" using rest chat_of_calm [OF push_optional_calm] by auto
    then show ?thesis using in_use(4) nick_taken_iff [OF w] by (simp add: chat_nick_def)
  next
    case (changed d nn ns)
    have d: "d = c" using changed(4) c by simp
    have "chat_of u = change_person (clientId c) (p_nick_update (\<lambda>_. Some n)) (chat_of w)"
    proof (rule chat_of_upd_client [OF w c])
      show "view u = (view w)(a \<mapsto> (core c)\<lparr>nickname := nn, receivedNick := True\<rparr>)"
        using c by (simp add: changed(7) view_upd_client_at)
      have "cstring nn = n" using cstr_cstring [OF strcpy_cstr [OF changed(5) nul]] .
      then show "person_of ((core c)\<lparr>nickname := nn, receivedNick := True\<rparr>) = p_nick_update (\<lambda>_. Some n) (person_of c)"
        by (simp add: person_of_def)
    qed (simp_all add: changed(7))
    moreover have "chat_of v = chat_of u"
      using rest changed(1) by (intro TryRegister_push_chat [OF _ Client_TryChangeNick_inv [OF u w nul]]) simp
    ultimately show ?thesis using changed(3) nick_taken_iff [OF w] by (simp add: chat_nick_def)
  qed
qed

lemma Handler_User_chat:
  assumes "Handler_User a m w = Inr (v, r)" and w: "world_ok w" "complete_but {} w" and c: "client_mem w a = Some c"
    and m: "parse_err m = 0" "msg_str a (user_username m) w = Inr s" "msg_str a (user_fullname m) w = Inr t"
  shows "chat_of v = chat_user (clientId c) s t (chat_of w)"
proof (cases "registered c")
  case True
  note vc = view_SomeI [OF c]
  have "client_ok (core c)" by (rule inv_client(1) [OF w(1) vc])
  then have "signed_in (person_of c)" using True by (simp add: client_ok_def signed_in_def person_of_def)
  moreover have "rbind (push_reply a (Reply_ErrAlreadyRegistered c) w) (\<lambda>w. Inr (w, -1)) = Inr (v, r)"
    using assms(1) m True by (simp add: Handler_User_def get_client_mem [OF c])
  then have "chat_of v = chat_of w" by (rule chat_of_calm [OF reply_calm])
  ultimately show ?thesis using chat_of_client [OF w(1) c]
    by (simp add: chat_user_def change_person_def fun_upd_idem)
next
  case False
  note vc = view_SomeI [OF c]
  have ok: "client_ok (core c)" by (rule inv_client(1) [OF w(1) vc])
  have "\<not> (receivedNick (core c) \<and> receivedUser (core c))" using w(2) vc False unfolding complete_but_def by fastforce
  then have "\<not> signed_in (person_of c)" by (simp add: signed_in_def person_of_def)
  then have f: "change_person (clientId c) (\<lambda>p. if signed_in p then p else p\<lparr>p_user := Some (s, t)\<rparr>) (chat_of w) =
      change_person (clientId c) (p_user_update (\<lambda>_. Some (s, t))) (chat_of w)"
    using chat_of_client [OF w(1) c] by (simp add: change_person_def)
  have len: "length (username c) = IRC_MSG_SIZE" "length (fullname c) = IRC_MSG_SIZE"
    using ok by (simp_all add: client_ok_def array_ok_def)
  note b = msg_str_bound [OF m(2) w(1)] msg_str_bound [OF m(3) w(1)]
  let ?f = "\<lambda>c. c\<lparr>username := pad IRC_MSG_SIZE s, fullname := pad IRC_MSG_SIZE t, receivedUser := True\<rparr>"
  let ?u = "upd_client a ?f w"
  have rest: "rbind (Client_TryRegister a ?u) (\<lambda>(w, r). Inr (push_optional a r w, 0)) = Inr (v, r)"
    using assms(1) m False strncpy_pad [OF b(2,1) len(1)] strncpy_pad [OF b(4,3) len(2)]
    by (simp add: Handler_User_def get_client_mem [OF c])
  have "array_ok IRC_MSG_SIZE (pad IRC_MSG_SIZE s)" "array_ok IRC_MSG_SIZE (pad IRC_MSG_SIZE t)"
    using b by (simp_all add: array_ok_pad)
  then have "world_ok ?u" using inv_client(1) [OF w(1)] by (intro inv_upd_client [OF w(1)]) (auto simp: client_ok_def)
  then have "chat_of v = chat_of ?u" by (rule TryRegister_push_chat [OF rest])
  also have "chat_of ?u = change_person (clientId c) (p_user_update (\<lambda>_. Some (s, t))) (chat_of w)"
  proof (rule chat_of_upd_client [OF w(1) c])
    show "view ?u = (view w)(a \<mapsto> ?f (core c))" using c by (simp add: view_upd_client_at)
    show "person_of (?f (core c)) = p_user_update (\<lambda>_. Some (s, t)) (person_of c)"
      using b by (simp add: person_of_def cstring_pad)
  qed simp_all
  finally show ?thesis by (simp add: chat_user_def f)
qed

lemma handler_away_chat:
  assumes "handler_away a m w = Inr (v, r)" and w: "world_ok w" and c: "client_mem w a = Some c"
    and m: "case x of None \<Rightarrow> away_text m = None | Some s \<Rightarrow> away_text m \<noteq> None \<and> msg_str a (away_text m) w = Inr s"
  shows "chat_of v = chat_away (clientId c) x (chat_of w)"
proof (cases x)
  case None
  let ?u = "upd_client a (\<lambda>c. c\<lparr>away := False\<rparr>) w"
  have "calm a ?u v" using assms(1) m
    by (auto simp: None handler_away_def client_unset_away_def get_client_mem [OF c] intro: push_reply_calm elim!: rbind_InrE)
  moreover have "chat_of ?u = change_person (clientId c) (p_away_update (\<lambda>_. None)) (chat_of w)"
  proof (rule chat_of_upd_client [OF w c])
    show "view ?u = (view w)(a \<mapsto> (core c)\<lparr>away := False\<rparr>)" using c by (simp add: view_upd_client_at)
    show "person_of ((core c)\<lparr>away := False\<rparr>) = p_away_update (\<lambda>_. None) (person_of c)" by (simp add: person_of_def)
  qed simp_all
  ultimately show ?thesis by (simp add: chat_away_def None chat_of_calm)
next
  case (Some s)
  have b: "length s < IRC_MSG_SIZE" "NUL \<notin> set s" using m Some msg_str_bound [OF _ w] by auto
  have len: "length (away_message c) = IRC_MSG_SIZE + 1"
    using inv_client(1) [OF w view_SomeI [OF c]] by (simp add: client_ok_def array_ok_def)
  let ?am = "pad IRC_MSG_SIZE s @ drop IRC_MSG_SIZE (away_message c)"
  let ?u = "upd_client a (\<lambda>c. c\<lparr>away := True, away_message := ?am\<rparr>) w"
  have "strncpy (away_message c) s IRC_MSG_SIZE = Inr ?am" using b len by (simp add: strncpy_def)
  then have "calm a ?u v" using assms(1) m
    by (auto simp: Some handler_away_def client_set_away_def get_client_mem [OF c] intro: push_reply_calm elim!: rbind_InrE)
  moreover have "cstring ?am = s"
  proof -
    have "?am = s @ NUL # (replicate (511 - length s) NUL @ drop IRC_MSG_SIZE (away_message c))"
      using b(1) by (simp add: pad_def Suc_diff_le [symmetric] flip: replicate_Suc append_Cons)
    then show ?thesis using cstr_cstring [OF cstr_terminated] b(2) by metis
  qed
  then have "chat_of ?u = change_person (clientId c) (p_away_update (\<lambda>_. Some s)) (chat_of w)"
  proof (intro chat_of_upd_client [OF w c])
    show "view ?u = (view w)(a \<mapsto> (core c)\<lparr>away := True, away_message := ?am\<rparr>)" using c by (simp add: view_upd_client_at)
  qed (simp_all add: person_of_def)
  ultimately show ?thesis by (simp add: chat_away_def Some chat_of_calm)
qed

subsection \<open>Rooms\<close>

lemma server_create_channel_chat:
  assumes "server_create_channel name a w = Inr (v, ch)" and w: "world_ok w" "table_ok w"
    and c: "client_mem w a = Some c"
  shows "chat_of v = set_room (lowercase name) (Some \<lparr>r_topic = [], r_people = {clientId c}\<rparr>) (chat_of w)"
    and "view v = view w"
proof -
  from assms(1) obtain nm where v: "v = upd_server (\<lambda>s. s\<lparr>channels := g_insert (lowercase name) ch (channels s)\<rparr>)
      (w\<lparr>channel_mem := (channel_mem w)(ch \<mapsto>
          \<lparr>chan_name = nm, chan_topic = replicate (CHANNEL_TOPIC_MAX + 1) NUL,
           members = g_insert (clientId c) a g_empty, member_modes = g_empty,
           chan_private = False, secret = False, invite_only = False,
           no_outside_messages = False, moderated = False\<rparr>), next_addr := ch + 1\<rparr>)" and ch: "ch = next_addr w"
    by (auto simp: server_create_channel_def channel_new_def get_client_mem [OF c] Let_def elim!: rbind_InrE)
  show "view v = view w" by (simp add: v)
  show "chat_of v = set_room (lowercase name) (Some \<lparr>r_topic = [], r_people = {clientId c}\<rparr>) (chat_of w)"
  proof (rule chat_of_upd_room)
    show "y = lowercase name" if "g_lookup (channels (server w)) y = Some ch" for y
      using that w(2) inv_channel(2) [OF w(1)] unfolding table_ok_def ch by fastforce
    have "cstring (replicate 256 NUL) = []" by (simp add: cstring_def)
    then show "Option.bind (Some ch) (\<lambda>ch. map_option room_of (channel_mem v ch)) =
        Some \<lparr>r_topic = [], r_people = {clientId c}\<rparr>"
      by (simp add: v room_of_def) (auto split: if_splits)
  qed (simp_all add: v)
qed

lemma channel_join_chat:
  assumes "channel_join e ch a w = Inr (v, r)" and w: "world_ok w" "table_ok w"
    and c: "client_mem w a = Some c" and look: "g_lookup (channels (server w)) (lowercase n) = Some ch"
  shows "chat_of v = chat_join (clientId c) n (chat_of w)" and "view v = view w"
proof -
  obtain k where k: "channel_mem w ch = Some k" using w(2) look unfolding table_ok_def by blast
  note rk = rooms_chat_of(2) [OF look k]
  let ?l = "k\<lparr>members := g_insert (clientId c) a (members k)\<rparr>"
  let ?u = "upd_channel ch (\<lambda>k. k\<lparr>members := g_insert (clientId c) a (members k)\<rparr>) w"
  have l: "room_of ?l = (room_of k)\<lparr>r_people := insert (clientId c) (r_people (room_of k))\<rparr>" by (simp add: room_of_def)
  have join: "chat_join (clientId c) n (chat_of w) = set_room (lowercase n) (Some (room_of ?l)) (chat_of w)"
    by (simp add: chat_join_def rk l)
  have "chat_of v = chat_join (clientId c) n (chat_of w) \<and> view v = view w"
  proof (cases "g_lookup (members k) (clientId c) = None")
    case True
    have "calm a ?u v" using assms(1) True
      by (auto simp: channel_join_def get_channel_def k get_client_mem [OF c] elim!: rbind_InrE intro: channel_sendall_calm)
    moreover have "chat_of ?u = set_room (lowercase n) (Some (room_of ?l)) (chat_of w)"
      by (rule chat_of_upd_channel [OF w(2) look k]) (use k in \<open>simp_all add: fun_eq_iff\<close>)
    ultimately show ?thesis using quiet_eqs(1) [OF calm_quiet] by (simp add: join chat_of_calm)
  next
    case False
    then have "room_of ?l = room_of k" unfolding l by (auto simp: room_of_def)
    moreover have "set_room (lowercase n) (Some (room_of k)) (chat_of w) = chat_of w"
      using rk by (simp add: set_room_def fun_upd_idem)
    moreover have "v = w" using assms(1) False by (simp add: channel_join_def get_channel_def k get_client_mem [OF c])
    ultimately show ?thesis by (simp add: join)
  qed
  then show "chat_of v = chat_join (clientId c) n (chat_of w)" "view v = view w" by blast+
qed

lemma join_one_chat:
  assumes "join_one e a n w = Inr v" and w: "world_ok w" "table_ok w" and c: "client_mem w a = Some c"
  shows "chat_of v = chat_join (clientId c) n (chat_of w)" and "view v = view w"
proof -
  from assms(1) obtain u ch where u: "(case server_get_channel (server w) n of
              (_, Some ch) \<Rightarrow> rbind (channel_join e ch a w) (\<lambda>(w, _). Inr (w, ch))
            | (name, None) \<Rightarrow> server_create_channel name a w) = Inr (u, ch)"
    and rest: "calm a u v"
    unfolding join_one_def
    by (auto elim!: rbind_InrE dest!: push_reply_calm optional_reply_calm; meson calm_trans)
  have "chat_of u = chat_join (clientId c) n (chat_of w) \<and> view u = view w"
  proof (cases "g_lookup (channels (server w)) (lowercase n)")
    case None
    then have "server_create_channel (lowercase n) a w = Inr (u, ch)" using u by (simp add: server_get_channel_def)
    from server_create_channel_chat [OF this w c] show ?thesis by (simp add: chat_join_def rooms_chat_of(1) [OF None])
  next
    case (Some x)
    then obtain r where "channel_join e x a w = Inr (u, r)"
      using u by (auto simp: server_get_channel_def elim!: rbind_InrE)
    from channel_join_chat [OF this w c Some] show ?thesis by blast
  qed
  then show "chat_of v = chat_join (clientId c) n (chat_of w)" "view v = view w"
    using chat_of_calm [OF rest] quiet_eqs(1) [OF calm_quiet [OF rest]] by simp_all
qed

lemma join_loop_chat:
  assumes "rfold (join_one e a) ns w = Inr v" and "able a w" and "env_ok e"
    and "\<forall>n\<in>set ns. joinable w a n \<and> NUL \<notin> set n" and "client_mem w a = Some c"
  shows "chat_of v = fold (chat_join (clientId c)) ns (chat_of w)"
  using assms(1,2,4,5)
proof (induction ns arbitrary: w c)
  case (Cons n ns)
  have w: "world_ok w" "table_ok w" using Cons.prems(2) by (simp_all add: able_def sane_def)
  from Cons.prems(1) obtain u where u: "join_one e a n w = Inr u" "rfold (join_one e a) ns u = Inr v"
    by (auto elim!: rbind_InrE)
  have a: "able a u" "\<forall>m. joinable w a m \<longrightarrow> joinable u a m"
    using join_one_ok [OF Cons.prems(2) assms(3), of n] Cons.prems(3) u(1) by (auto simp: ok_def)
  note ch = join_one_chat [OF u(1) w Cons.prems(4)]
  obtain d where d: "client_mem u a = Some d" using able_client [OF a(1)] by blast
  have "core d = core c" using ch(2) view_SomeI [OF d] view_SomeI [OF Cons.prems(4)] by simp
  then have "clientId d = clientId c" by (rule core_eqD)
  with Cons.IH [OF u(2) a(1) _ d] a(2) Cons.prems(3) ch(1) show ?case by simp
qed simp

lemma store_lowercase_calm: "msg_str a p w = Inr n \<Longrightarrow> calm a w (store_str a p (lowercase n) w)"
  by (rule store_str_calm) simp_all

lemma g_lookup_empty_iff: "g_size h = 0 \<longleftrightarrow> dom (g_lookup h) = {}"
  by (auto simp: g_size_zero_iff)

lemma room_left:
  assumes "table_ok w" and look: "g_lookup (channels (server w)) key = Some ch" and k: "channel_mem w ch = Some k"
    and u: "view u = view w" "server u = server w" "channel_mem u = channel_mem w"
    and c: "client_mem u a = Some c" and i: "i = clientId c" and member: "g_lookup (members k) i \<noteq> None"
    and x: "channel_remove_member ch a u = Inr x" "channel_mem x ch = Some l"
      "(if channel_size l = 0 then server_remove_channel ch x else Inr x) = Inr v"
  shows "chat_of v = set_room key
     (if r_people (room_of k) = {i} then None
      else Some ((room_of k)\<lparr>r_people := r_people (room_of k) - {i}\<rparr>)) (chat_of w)"
proof -
  have kx: "channel_mem u ch = Some k" using k u(3) by simp
  have l: "l = k\<lparr>members := g_remove i (members k), member_modes := g_remove i (member_modes k)\<rparr>"
    and xu: "x = upd_channel ch (\<lambda>k. k\<lparr>members := g_remove i (members k), member_modes := g_remove i (member_modes k)\<rparr>) u"
    using x(1,2) kx by (auto simp: channel_remove_member_def get_channel_def get_client_mem [OF c] i)
  have ppl: "r_people (room_of l) = r_people (room_of k) - {i}" by (auto simp: l room_of_def)
  then have rl: "room_of l = (room_of k)\<lparr>r_people := r_people (room_of k) - {i}\<rparr>" by (simp add: l room_of_def)
  have "channel_size l = 0 \<longleftrightarrow> r_people (room_of l) = {}"
    by (simp add: channel_size_def g_lookup_empty_iff room_of_def)
  moreover have "i \<in> r_people (room_of k)" using member by (simp add: room_of_def dom_def)
  ultimately have size: "channel_size l = 0 \<longleftrightarrow> r_people (room_of k) = {i}" using ppl by auto
  show ?thesis
  proof (cases "channel_size l = 0")
    case False
    then have v: "v = x" using x(3) by simp
    have "channel_mem v = (channel_mem w)(ch \<mapsto> l)" using kx u(3) by (auto simp: v xu l fun_eq_iff)
    then have "chat_of v = set_room key (Some (room_of l)) (chat_of w)"
      by (intro chat_of_upd_channel [OF assms(1) look k]) (simp_all add: v xu u)
    then show ?thesis using False size by (simp add: rl)
  next
    case True
    have "cstring (chan_name l) = key" using table_ok_key [OF assms(1) look k] by (simp add: l)
    then have v: "v = (upd_server (\<lambda>s. s\<lparr>channels := g_remove key (channels s)\<rparr>) x)\<lparr>channel_mem := (channel_mem x)(ch := None)\<rparr>"
      using x(2,3) True by (auto simp: server_remove_channel_def get_channel_def Let_def dest: cstr_cstring elim!: rbind_InrE)
    have "chat_of v = set_room key None (chat_of w)"
    proof (rule chat_of_upd_room)
      show "y = key" if "g_lookup (channels (server w)) y = Some ch" for y
        using table_ok_key [OF assms(1) that k] table_ok_key [OF assms(1) look k] by simp
      show "channel_mem v b = channel_mem w b" if "b \<noteq> ch" for b using that by (simp add: v xu u(3))
      show "g_lookup (channels (server v)) = (g_lookup (channels (server w)))(key := None)" by (simp add: v xu u(2))
    qed (simp_all add: v xu u)
    then show ?thesis using True size by simp
  qed
qed

lemma handler_part_chat:
  assumes "handler_part e a m w = Inr (v, r)" and w: "world_ok w" "table_ok w" and c: "client_mem w a = Some c"
    and n: "msg_str a (part_channels m) w = Inr n"
  shows "chat_of v = chat_part (clientId c) n (chat_of w)"
proof -
  let ?w = "store_str a (part_channels m) (lowercase n) w"
  have q: "calm a w ?w" by (rule store_lowercase_calm [OF n])
  note qe = quiet_eqs [OF calm_quiet [OF q]]
  note g = get_client_mem [OF c]
  show ?thesis
  proof (cases "g_lookup (channels (server w)) (lowercase n)")
    case None
    then have "rbind (push_reply a (Reply_ErrNoSuchChannel c (server ?w) (lit (lowercase n))) ?w) (\<lambda>w. Inr (w, -1)) = Inr (v, r)"
      using assms(1) n by (simp add: handler_part_def g server_get_channel_def qe)
    from chat_of_calm [OF reply_calm [OF this]] chat_of_calm [OF q] show ?thesis
      by (simp add: chat_part_def rooms_chat_of(1) [OF None])
  next
    case (Some ch)
    obtain k where k: "channel_mem w ch = Some k" using w(2) Some unfolding table_ok_def by blast
    note rk = rooms_chat_of(2) [OF Some k]
    have kw: "get_channel ?w ch = Inr k" using k by (simp add: get_channel_def qe)
    show ?thesis
    proof (cases "channel_is_member k c")
      case False
      then have "rbind (push_reply a (Reply_ErrNotOnChannel c (server ?w) k) ?w) (\<lambda>w. Inr (w, -1)) = Inr (v, r)"
        using assms(1) n kw by (simp add: handler_part_def g server_get_channel_def qe Some)
      from chat_of_calm [OF reply_calm [OF this]] chat_of_calm [OF q] False show ?thesis
        by (simp add: chat_part_def rk channel_is_member_def room_of_def dom_def)
    next
      case True
      then obtain pm u x l where u: "channel_sendall_part e ch a pm ?w = Inr u"
        and x: "channel_remove_member ch a u = Inr x" "channel_mem x ch = Some l"
          "(if channel_size l = 0 then rbind (server_remove_channel ch x) (\<lambda>w. Inr (w, 0)) else Inr (x, 0)) = Inr (v, r)"
        using assms(1) n kw
        by (auto simp: handler_part_def g server_get_channel_def Let_def qe Some get_channel_eq elim!: rbind_InrE)
      have qu: "quiet w u" using calm_quiet [OF q] calm_quiet [OF channel_sendall_calm(2) [OF u, of a]] by (rule quiet_trans)
      note ue = quiet_eqs [OF qu]
      obtain d where d: "client_mem u a = Some d" "core d = core c" using quiet_client_mem [OF qu c] by blast
      have i: "clientId c = clientId d" using core_eqD(4) [OF d(2)] by simp
      have "(if channel_size l = 0 then server_remove_channel ch x else Inr x) = Inr v"
        using x(3) by (auto split: if_splits elim!: rbind_InrE)
      from room_left [OF w(2) Some k ue(1-3) d(1) i _ x(1,2) this] True show ?thesis
        by (simp add: channel_is_member_def chat_part_def rk) (auto simp: room_of_def dom_def)
    qed
  qed
qed

lemma handler_topic_chat:
  assumes "handler_topic a m w = Inr (v, r)" and w: "world_ok w" "table_ok w" and c: "client_mem w a = Some c"
    and m: "parse_err m = 0" "msg_str a (topic_channel m) w = Inr n"
    and x: "case x of None \<Rightarrow> topic_topic m = None
      | Some t \<Rightarrow> topic_topic m \<noteq> None \<and> length t \<le> CHANNEL_TOPIC_MAX \<and> NUL \<notin> set t \<and>
          msg_str a (topic_topic m) (store_str a (topic_channel m) (lowercase n) w) = Inr t"
  shows "chat_of v = (case x of None \<Rightarrow> chat_of w | Some t \<Rightarrow> chat_topic n t (chat_of w))"
proof -
  let ?w = "store_str a (topic_channel m) (lowercase n) w"
  have q: "calm a w ?w" by (rule store_lowercase_calm [OF m(2)])
  note qe = quiet_eqs [OF calm_quiet [OF q]] and g = get_client_mem [OF c]
  show ?thesis
  proof (cases x)
    case None
    then have "calm a ?w v" using assms(1) m x
      by (auto simp: handler_topic_def g server_get_channel_def Let_def elim!: rbind_InrE split: option.splits if_splits
          intro: push_reply_calm)
    then show ?thesis using chat_of_calm [OF q] chat_of_calm by (simp add: None)
  next
    case (Some t)
    then have t: "topic_topic m \<noteq> None" "length t \<le> CHANNEL_TOPIC_MAX" "NUL \<notin> set t" "msg_str a (topic_topic m) ?w = Inr t"
      using x by auto
    from assms(1) m t obtain ch where ch: "g_lookup (channels (server w)) (lowercase n) = Some ch"
      and set: "channel_set_topic ch t ?w = Inr v"
      by (auto simp: handler_topic_def g server_get_channel_def Let_def elim!: rbind_InrE split: option.splits)
    obtain k where k: "channel_mem w ch = Some k" using w(2) ch unfolding table_ok_def by blast
    have len: "length (chan_topic k) = 256" using inv_channel(1) [OF w(1) k] by (simp add: channel_ok_def array_ok_def)
    let ?t = "(pad 255 t @ drop 255 (chan_topic k))[255 := NUL]"
    have v: "v = upd_channel ch (\<lambda>k. k\<lparr>chan_topic := ?t\<rparr>) ?w"
      using set k t len by (auto simp: channel_set_topic_def get_channel_def qe strncpy_def length_pad split: if_splits)
    have "drop 255 (chan_topic k) = [chan_topic k ! 255]" using len by (simp add: Cons_nth_drop_Suc [symmetric])
    then have "?t = t @ NUL # replicate (255 - length t) NUL"
      using t(2) by (simp add: list_update_append pad_def replicate_append_same [symmetric])
    then have "cstring ?t = t" using cstr_cstring [OF cstr_terminated] t(3) by metis
    then have l: "room_of (k\<lparr>chan_topic := ?t\<rparr>) = (room_of k)\<lparr>r_topic := t\<rparr>" by (simp add: room_of_def)
    have "chat_of v = set_room (lowercase n) (Some (room_of (k\<lparr>chan_topic := ?t\<rparr>))) (chat_of w)"
      by (rule chat_of_upd_channel [OF w(2) ch k]) (use k in \<open>auto simp: v qe fun_eq_iff\<close>)
    then show ?thesis by (simp add: Some chat_topic_def rooms_chat_of(2) [OF ch k] l)
  qed
qed

subsection \<open>Every command\<close>

lemma store_lowercase_apart:
  assumes "says w a p n" and "says w a q t" and "apart p n q"
  shows "says (store_str a p (lowercase n) w) a q t"
proof -
  from assms obtain buf i j where b: "msg_buf w a = Some buf" "p = Some i" "q = Some j" "i + length n < j"
    "cstr (drop i buf) = Inr n" "cstr (drop j buf) = Inr t"
    by (auto simp: says_def points_def apart_def)
  have "i \<le> length buf" using cstr_length [OF b(5)] by simp
  then have "drop j (write_at i (lowercase n) buf) = drop j buf" using b(4) by (simp add: write_at_def)
  moreover obtain c where "client_mem w a = Some c" "buf = conn_message (conn c)" using b(1) by (auto simp: msg_buf_def)
  ultimately show ?thesis using b(2,3,6)
    by (simp add: says_def points_def msg_buf_def store_str_def set_message_def)
qed

lemma chat_cmd_idle:
  "(case cmd of Cmd_nick _ \<Rightarrow> False | Cmd_user _ _ \<Rightarrow> False | Cmd_join _ \<Rightarrow> False | Cmd_part _ _ \<Rightarrow> False
    | Cmd_topic _ (Some _) \<Rightarrow> False | Cmd_away _ \<Rightarrow> False | _ \<Rightarrow> True) \<Longrightarrow> chat_cmd i cmd s = s"
  by (cases "(i, cmd, s)" rule: chat_cmd.cases) auto

lemma command_refines_chat:
  assumes "Handler_HandleMessage e a m w = Inr (v, r)" and "able a w" and "complete_but {} w" and "env_ok e"
    and c: "client_mem w a = Some c" and buf: "msg_buf w a = Some buf" and d: "denotes old buf m ret cmd"
    and "ret \<noteq> -1" and crash: "crash_of (server w) cmd = None" and bl: "blank old \<or> self_contained cmd" and "joins_ok w a cmd"
    and len: "total_length (cmd_strings cmd) \<le> 200"
  shows "chat_of v = chat_cmd (clientId c) cmd (chat_of w)"
proof -
  have w: "world_ok w" "table_ok w" using assms(2) by (simp_all add: able_def sane_def)
  note says = points_says [OF buf] and str = says_str [OF points_says [OF buf]]
  note disp = Handler_HandleMessage_def handlers2_def
  have calm: "chat_of v = chat_of w" if "calm a w v" by (rule chat_of_calm [OF that])
  have reply: "chat_of v = chat_of w" if "rbind (push_reply a x w) (\<lambda>w. Inr (w, n)) = Inr (v, r)" for x n
    by (rule chat_of_calm [OF reply_calm [OF that]])
  show ?thesis
  proof (cases cmd)
    case (Cmd_nick n)
    then show ?thesis using assms(1) d by (auto simp: disp intro!: Handler_Nick_chat [OF _ w(1) c] str)
  next
    case Cmd_nick_missing
    then show ?thesis using assms(1) d reply by (auto simp: disp Handler_Nick_def get_client_mem [OF c])
  next
    case (Cmd_user u s)
    then show ?thesis using assms(1) d by (auto simp: disp intro!: Handler_User_chat [OF _ w(1) assms(3) c] str)
  next
    case Cmd_user_few
    then show ?thesis using assms(1) d reply by (auto simp: disp Handler_User_def get_client_mem [OF c])
  next
    case (Cmd_join ch)
    then have "says w a (join_channels m) ch" "msg_str a (join_channels m) w = Inr ch" using d says str by auto
    moreover have "NUL \<notin> set n" if "n \<in> set (strtok_all ch (CHR '',''))" for n
      using strtok_all_set [OF that] says_no_NUL [OF calculation(1)] by blast
    ultimately show ?thesis using assms(1) d Cmd_join \<open>joins_ok w a cmd\<close>
      by (auto simp: disp handler_join_def get_client_mem [OF c] joins_ok_def elim!: rbind_InrE split: if_splits
          intro!: join_loop_chat [OF _ assms(2,4) _ c])
  next
    case Cmd_join_few
    then show ?thesis using assms(1) d reply by (auto simp: disp handler_join_def get_client_mem [OF c])
  next
    case (Cmd_part ch x)
    then show ?thesis using assms(1) d by (auto simp: disp intro!: handler_part_chat [OF _ w c] str)
  next
    case (Cmd_topic ch x)
    have "case x of None \<Rightarrow> topic_topic m = None
      | Some t \<Rightarrow> topic_topic m \<noteq> None \<and> length t \<le> CHANNEL_TOPIC_MAX \<and> NUL \<notin> set t \<and>
          msg_str a (topic_topic m) (store_str a (topic_channel m) (lowercase ch) w) = Inr t"
    proof (cases x)
      case None
      then show ?thesis using d bl by (simp add: Cmd_topic self_contained_def blank_def)
    next
      case (Some t)
      then have p: "says w a (topic_channel m) ch" "says w a (topic_topic m) t" "apart (topic_channel m) ch (topic_topic m)"
        using d says by (auto simp: Cmd_topic)
      from says_str [OF store_lowercase_apart [OF p]] says_no_NUL [OF p(2)] p(3) len show ?thesis
        by (simp add: Some Cmd_topic apart_def) auto
    qed
    then have "chat_of v = (case x of None \<Rightarrow> chat_of w | Some t \<Rightarrow> chat_topic ch t (chat_of w))"
      using assms(1) d str by (intro handler_topic_chat [OF _ w c, where m = m and r = r]) (auto simp: disp Cmd_topic)
    then show ?thesis by (cases x) (simp_all add: Cmd_topic)
  next
    case Cmd_topic_few
    then show ?thesis using assms(1) d reply by (auto simp: disp handler_topic_def get_client_mem [OF c])
  next
    case (Cmd_away x)
    then show ?thesis using assms(1) d
      by (auto simp: disp points_opt_def points_def split: option.splits intro!: handler_away_chat [OF _ w(1) c] str)
  next
    case Cmd_pong
    then show ?thesis using assms(1) d by (simp add: disp Handler_Pong_def)
  qed (use assms(1,8) d crash in \<open>auto simp: disp crash_of_def intro!: calm intro: calm_handlers\<close>)
qed

subsection \<open>Outside the handlers\<close>

lemma chat_of_frame:
  "view v = view w \<Longrightarrow> clients (server v) = clients (server w) \<Longrightarrow> channels (server v) = channels (server w) \<Longrightarrow>
     channel_mem v = channel_mem w \<Longrightarrow> chat_of v = chat_of w"
  by (simp add: chat_of_def)

lemma person_of_conn [simp]: "person_of (c\<lparr>conn := cn\<rparr>) = person_of c"
  by (simp add: person_of_def)

lemma chat_of_set_conn [simp]: "chat_of (set_conn a cn w) = chat_of w"
proof -
  have "map_option person_of (view (set_conn a cn w) b) = map_option person_of (view w b)" for b
    by (cases "client_mem w b") (auto simp: view_def)
  then show ?thesis by (simp add: chat_of_def)
qed

lemma chat_of_close: "close_client a w = Inr (v, r) \<Longrightarrow> chat_of v = chat_of w"
  by (auto simp: close_client_def close_fd_def Let_def upd_server_def chat_of_def view_def fun_eq_iff
      elim!: rbind_InrE split: if_splits)

text \<open>An id that is still that of somebody belongs to the same object.\<close>

lemma same_client_id:
  assumes "world_ok w" and "world_ok v" and c: "client_mem w a = Some c" and d: "client_mem v a = Some d"
    and others: "\<forall>b. b \<noteq> a \<longrightarrow> view v b = view w b" and "folk (chat_of v) (clientId c) \<noteq> None"
  shows "clientId d = clientId c"
proof -
  obtain b x where b: "g_lookup (clients (server v)) (clientId c) = Some b" "view v b = Some x"
    using assms(6) by (auto simp: chat_of_def bind_eq_Some_conv)
  have x: "clientId x = clientId c" by (rule inv_table [OF assms(2) b])
  have "b = a"
  proof (rule ccontr)
    assume "b \<noteq> a"
    then have "view w b = Some x" using others b(2) by simp
    from inv_id_inj [OF assms(1) this view_SomeI [OF c]] x \<open>b \<noteq> a\<close> show False by simp
  qed
  then have "x = core d" using b(2) view_SomeI [OF d] by simp
  with x show ?thesis by simp
qed

lemma accepted_new:
  assumes w: "world_ok w" and "a = next_addr w" and "i = idCounter (server w)"
  shows "g_lookup (clients (server w)) i = None" "client_mem w a = None"
    "\<And>j b. g_lookup (clients (server w)) j = Some b \<Longrightarrow> b \<noteq> a"
proof -
  show "g_lookup (clients (server w)) i = None" "\<And>j b. g_lookup (clients (server w)) j = Some b \<Longrightarrow> b \<noteq> a"
    using assms unfolding world_ok_def clients_inv_def by (metis not_None_eq less_irrefl)+
  show "client_mem w a = None" using inv_client(2) [OF w] assms(2) view_None [of w a]
    by (metis less_irrefl not_None_eq)
qed

text \<open>A client arrives as a new person, unless it could not be registered with the reactor.\<close>

lemma accepted_chat:
  assumes w: "world_ok w"
    and ac: "ar = Accepted fd host" "a = next_addr w" "i = idCounter (server w)" "i + 1 < 2 ^ 31"
      "c = zero_client\<lparr>clientId := i, conn := zero_conn\<lparr>conn_fd := fd\<rparr>, client_hostname := getnameinfo_hostname host\<rparr>"
      "s = (server w)\<lparr>idCounter := i + 1, clients := g_insert i a (clients (server w)), nUnknown := nUnknown (server w) + 1\<rparr>"
      "v = (if reg \<and> fd \<notin> fst ` set (interest w)
            then w\<lparr>server := s, next_addr := a + 1, client_mem := (client_mem w)(a \<mapsto> c),
                   interest := interest w @ [(fd, client_handler fd a)]\<rparr>
            else w\<lparr>server := s, next_addr := a + 1, client_mem := (client_mem w)(a := None)\<rparr>)"
  shows "chat_of v = (if reg \<and> fd \<notin> fst ` set (interest w) then (chat_of w)\<lparr>folk := (folk (chat_of w))(i \<mapsto> newcomer)\<rparr> else chat_of w)"
proof -
  note new = accepted_new [OF w ac(2,3)]
  show ?thesis
  proof (cases "reg \<and> fd \<notin> fst ` set (interest w)")
    case False
    have "view v = view w" using False ac(7) new(2) by (auto simp: view_def fun_eq_iff)
    moreover have "view w a = None" using new(2) by (simp add: view_def)
    ultimately have "folk (chat_of v) j = folk (chat_of w) j" for j
      using new(1) ac(6,7) False by (cases "j = i") (simp_all add: chat_of_def)
    moreover have "rooms (chat_of v) = rooms (chat_of w)" using ac(6,7) False by (simp add: chat_of_def)
    ultimately have "chat_of v = chat_of w" by (intro chat.equality) auto
    then show ?thesis unfolding if_not_P [OF False] .
  next
    case True
    have p: "person_of c = newcomer" using ac(5) by (simp add: person_of_def newcomer_def zero_client_def)
    have "folk (chat_of v) j = ((folk (chat_of w))(i \<mapsto> newcomer)) j" for j
      using new(3) ac(6,7) True p
      by (cases "g_lookup (clients (server w)) j") (auto simp: chat_of_def view_def)
    moreover have "rooms (chat_of v) = rooms (chat_of w)" using ac(6,7) True by (simp add: chat_of_def)
    ultimately have "chat_of v = (chat_of w)\<lparr>folk := (folk (chat_of w))(i \<mapsto> newcomer)\<rparr>"
      by (intro chat.equality) auto
    then show ?thesis unfolding if_P [OF True] .
  qed
qed

lemma chat_of_start:
  "start_server host mt lfd efd reg = Some w \<Longrightarrow> chat_of w = empty_chat"
  by (auto simp: start_server_def reactor_register_handler_def chat_of_def empty_chat_def start_server_state_def
      server_handler_def fun_eq_iff split: if_splits)

end
