(* ===== verification/SpeechTexts.thy ===== *)
theory SpeechTexts
  imports Speech ChatRefined
begin

text \<open>
  The formatting functions write the texts of \<open>Speech\<close>.  \<open>sends reply s\<close> says that formatting is defined
  and that the bytes written are \<open>s\<close>; each reply has one lemma, for clients, servers
  and channels that keep the bounds of \<open>ReplyBounds\<close>.
\<close>

subsection \<open>The strings of a client\<close>

definition sends :: "response_s run \<Rightarrow> string \<Rightarrow> bool" where
  "sends reply s \<longleftrightarrow> (\<exists>r. reply = Inr r \<and> resp_bytes r = Inr s)"

lemma sprintf_sends: "vformat fmt args = Inr s \<Longrightarrow> length s \<le> IRC_MSG_SIZE \<Longrightarrow> sends (sprintf_response fmt args) s"
  by (simp add: sends_def sprintf_response_eq resp_bytes_text)

lemma snprintf_sends: "vformat fmt args = Inr s \<Longrightarrow> length s \<le> IRC_MSG_SIZE \<Longrightarrow> sends (snprintf_response fmt args) s"
  by (simp add: sends_def snprintf_response_eq resp_bytes_text)

text \<open>A client as the abstract person, with the strings the formats read.\<close>

lemma person_strings:
  assumes "client_ok c"
  shows "cstr (nickname c) = Inr (called (person_of c))" "cstr (NICK_OR_STAR c) = Inr (called_or_star (person_of c))"
    "cstr (username c) = Inr (user_of (person_of c))" "cstr (fullname c) = Inr (real_of (person_of c))"
    "cstr (client_hostname c) = Inr (cstring (client_hostname c))"
proof -
  note ok = assms [unfolded client_ok_def]
  have arrays: "cstr (nickname c) = Inr (cstring (nickname c))" "cstr (username c) = Inr (cstring (username c))"
    "cstr (fullname c) = Inr (cstring (fullname c))" "cstr (client_hostname c) = Inr (cstring (client_hostname c))"
    using ok by (auto intro: array_ok_cstr)
  show n: "cstr (nickname c) = Inr (called (person_of c))"
    using ok arrays by (cases "receivedNick c") (simp_all add: called_def person_of_def)
  show "cstr (NICK_OR_STAR c) = Inr (called_or_star (person_of c))"
    using n by (cases "receivedNick c") (simp_all add: NICK_OR_STAR_def called_def called_or_star_def person_of_def)
  show "cstr (username c) = Inr (user_of (person_of c))" "cstr (fullname c) = Inr (real_of (person_of c))"
    using ok arrays by (cases "receivedUser c"; simp add: user_of_def real_of_def person_of_def)+
  show "cstr (client_hostname c) = Inr (cstring (client_hostname c))" by (rule arrays)
qed

lemma person_lengths:
  assumes "client_ok c"
  shows "length (called (person_of c)) \<le> 9" "length (called_or_star (person_of c)) \<le> 9"
    "length (cstring (client_hostname c)) \<le> 63"
  using client_fits [OF assms] by (simp_all add: person_strings [OF assms])

lemma person_modest:
  assumes "client_ok c" and "modest c"
  shows "length (user_of (person_of c)) + length (real_of (person_of c)) \<le> 200"
proof -
  have "cstring (username c) = user_of (person_of c)" "cstring (fullname c) = real_of (person_of c)"
    using person_strings(3,4) [OF assms(1)] by (simp_all add: cstr_cstring)
  then show ?thesis using assms(2) by (simp add: modest_def)
qed

lemma server_string:
  assumes "modest_server s"
  shows "cstr (server_hostname s) = Inr (cstring (server_hostname s))" "length (cstring (server_hostname s)) \<le> 63"
  using assms by (auto simp: modest_server_def intro: array_ok_cstr)

lemma channel_strings:
  assumes "channel_ok k"
  shows "cstr (chan_name k) = Inr (cstring (chan_name k))" "cstr (chan_topic k) = Inr (cstring (chan_topic k))"
    "length (cstring (chan_name k)) \<le> 50" "length (cstring (chan_topic k)) \<le> 255"
  using assms array_ok_length [of 51] array_ok_length [of 256] by (auto simp: channel_ok_def intro: array_ok_cstr)

lemma called_star: "p_nick p \<noteq> None \<Longrightarrow> called_or_star p = called p"
  by (auto simp: called_def called_or_star_def)

lemma person_conn [simp]: "person_of (set_queue rs c) = person_of c"
  by (simp add: person_of_def set_queue_def)

lemmas text_simps = coded_def numeric_def mask_def CRLF_def

subsection \<open>Replies without the server's name\<close>

lemma Reply_RplWelcome_sends:
  assumes "client_ok c" and "modest c"
  shows "sends (Reply_RplWelcome c) (welcome_line (cstring (client_hostname c)) (person_of c))"
  unfolding Reply_RplWelcome_def FORMAT_RPL_WELCOME_def
  by (rule sprintf_sends)
    (use person_strings [OF assms(1)] person_lengths [OF assms(1)] person_modest [OF assms] in
      \<open>simp_all add: text_simps welcome_line_def\<close>)

lemma Reply_ErrNicknameInUse_sends:
  assumes "client_ok c" and "NUL \<notin> set n" and "length n \<le> 9"
  shows "sends (Reply_ErrNicknameInUse c (lit n)) (coded ''433'' (called_or_star (person_of c)) (n @ '' :Nickname is already in use''))"
  unfolding Reply_ErrNicknameInUse_def STR_ERR_NICKNAMEINUSE_def
  by (rule sprintf_sends)
    (use assms(2,3) person_strings [OF assms(1)] person_lengths [OF assms(1)] in \<open>simp_all add: text_simps\<close>)

lemma Reply_ErrNoNicknameGiven_sends:
  assumes "client_ok c"
  shows "sends (Reply_ErrNoNicknameGiven c) (coded ''431'' (called_or_star (person_of c)) '':No nickname given'')"
  unfolding Reply_ErrNoNicknameGiven_def STR_ERR_NONICKNAMEGIVEN_def
  by (rule sprintf_sends)
    (use person_strings [OF assms(1)] person_lengths [OF assms(1)] in \<open>simp_all add: text_simps\<close>)

lemma Reply_ErrAlreadyRegistered_sends:
  assumes "client_ok c"
  shows "sends (Reply_ErrAlreadyRegistered c) (coded ''462'' (called (person_of c)) '':You may not reregister'')"
  unfolding Reply_ErrAlreadyRegistered_def STR_ERR_ALREADYREGISTERED_def
  by (rule sprintf_sends)
    (use person_strings [OF assms(1)] person_lengths [OF assms(1)] in \<open>simp_all add: text_simps\<close>)

lemma Reply_ErrNeedMoreParams_sends:
  assumes "client_ok c" and "NUL \<notin> set n" and "length n \<le> 10"
  shows "sends (Reply_ErrNeedMoreParams c (lit n)) (more_params (person_of c) n)"
  unfolding Reply_ErrNeedMoreParams_def STR_ERR_NEEDMOREPARAMS_def
  by (rule sprintf_sends)
    (use assms(2,3) person_strings [OF assms(1)] person_lengths [OF assms(1)] in \<open>simp_all add: text_simps more_params_def\<close>)

lemma Reply_ErrNoRecipient_sends:
  assumes "client_ok c"
  shows "sends (Reply_ErrNoRecipient c (lit ''PRIVMSG''))
    (coded ''411'' (called_or_star (person_of c)) '':No recipient given (PRIVMSG)'')"
  unfolding Reply_ErrNoRecipient_def FMT_ERR_NORECIPIENT_def
  by (rule sprintf_sends)
    (use person_strings [OF assms(1)] person_lengths [OF assms(1)] in \<open>simp_all add: text_simps\<close>)

lemma Reply_ErrNoTextToSend_sends:
  assumes "client_ok c"
  shows "sends (Reply_ErrNoTextToSend c) (coded ''412'' (called_or_star (person_of c)) '':No text to send'')"
  unfolding Reply_ErrNoTextToSend_def FMT_ERR_NOTEXTTOSEND_def
  by (rule sprintf_sends)
    (use person_strings [OF assms(1)] person_lengths [OF assms(1)] in \<open>simp_all add: text_simps\<close>)

lemma Reply_ErrNoSuchNick_sends:
  assumes "client_ok c" and "NUL \<notin> set t" and "length t \<le> 200"
  shows "sends (Reply_ErrNoSuchNick c (lit t)) (no_such_nick (person_of c) t)"
  unfolding Reply_ErrNoSuchNick_def STR_ERR_NOSUCHNICK_def
  by (rule sprintf_sends)
    (use assms(2,3) person_strings [OF assms(1)] person_lengths [OF assms(1)] in \<open>simp_all add: text_simps no_such_nick_def\<close>)

lemma Reply_ErrUnknownCommand_sends:
  assumes "client_ok c" and "cstr q = Inr t" and "length t \<le> 200"
  shows "sends (Reply_ErrUnknownCommand c q) (coded ''421'' (called_or_star (person_of c)) (t @ '' :Unknown command''))"
  unfolding Reply_ErrUnknownCommand_def STR_ERR_UNKNOWNCOMMAND_def
  by (rule sprintf_sends)
    (use assms(2,3) person_strings [OF assms(1)] person_lengths [OF assms(1)] in \<open>simp_all add: text_simps\<close>)

lemma Reply_Pong_sends:
  assumes "modest_server s"
  shows "sends (Reply_Pong (server_hostname s)) (''PONG '' @ cstring (server_hostname s) @ CRLF)"
  unfolding Reply_Pong_def
  by (rule sprintf_sends) (use server_string [OF assms] in \<open>simp_all add: CRLF_def\<close>)

lemma Reply_ErrNoMotd_sends:
  assumes "client_ok c"
  shows "sends (Reply_ErrNoMotd c) (coded ''422'' (called_or_star (person_of c)) '':MOTD File is missing'')"
  unfolding Reply_ErrNoMotd_def STR_ERR_NOMOTD_def
  by (rule snprintf_sends)
    (use person_strings [OF assms(1)] person_lengths [OF assms(1)] in \<open>simp_all add: text_simps\<close>)

lemma Reply_RplMotdStart_sends:
  assumes "client_ok c" and "modest_server s"
  shows "sends (Reply_RplMotdStart c (server_hostname s)) (coded ''375'' (called_or_star (person_of c))
    ('':- '' @ cstring (server_hostname s) @ '' Message of the day - ''))"
  unfolding Reply_RplMotdStart_def FMT_RPL_MOTDSTART_def
  by (rule sprintf_sends)
    (use person_strings [OF assms(1)] person_lengths [OF assms(1)] server_string [OF assms(2)] in \<open>simp_all add: text_simps\<close>)

lemma Reply_RplEndOfMotd_sends:
  assumes "client_ok c"
  shows "sends (Reply_RplEndOfMotd c) (coded ''376'' (called_or_star (person_of c)) '':End of MOTD command'')"
  unfolding Reply_RplEndOfMotd_def FMT_RPL_ENDOFMOTD_def
  by (rule sprintf_sends)
    (use person_strings [OF assms(1)] person_lengths [OF assms(1)] in \<open>simp_all add: text_simps\<close>)

lemma dec_zero [simp]: "dec 0 = ''0''"
  by code_simp

lemma dec_word_length: "length (dec (sint (x :: 32 word))) \<le> 11"
  by (rule dec_sint32_length)

lemma Reply_RplLUser_sends:
  assumes "client_ok c" and "nServices s = 0"
  shows "sends (Reply_RplLUserClient c s) (coded ''251'' (called (person_of c))
      ('':There are '' @ dec (sint (nUsers s)) @ '' users and 0 services on 1 servers''))"
    and "sends (Reply_RplLUserUnknown c s) (coded ''253'' (called (person_of c))
      (dec (sint (nUnknown s)) @ '' :unknown connection(s)''))"
    and "sends (Reply_RplLUserMe c s) (coded ''255'' (called (person_of c))
      ('':I have '' @ dec (sint (nUsers s + nUnknown s)) @ '' clients and 0 servers''))"
proof -
  note facts = assms(2) person_strings [OF assms(1)] person_lengths [OF assms(1)] dec_word_length [of "nUsers s"]
    dec_word_length [of "nUnknown s"] dec_word_length [of "nUsers s + nUnknown s"]
  show "sends (Reply_RplLUserClient c s) (coded ''251'' (called (person_of c))
      ('':There are '' @ dec (sint (nUsers s)) @ '' users and 0 services on 1 servers''))"
    unfolding Reply_RplLUserClient_def FMT_RPL_LUSERCLIENT_def
    by (rule snprintf_sends) (use facts in \<open>simp_all add: text_simps\<close>)
  show "sends (Reply_RplLUserUnknown c s) (coded ''253'' (called (person_of c))
      (dec (sint (nUnknown s)) @ '' :unknown connection(s)''))"
    unfolding Reply_RplLUserUnknown_def FMT_RPL_LUSERUNKNOWN_def
    by (rule snprintf_sends) (use facts in \<open>simp_all add: text_simps\<close>)
  show "sends (Reply_RplLUserMe c s) (coded ''255'' (called (person_of c))
      ('':I have '' @ dec (sint (nUsers s + nUnknown s)) @ '' clients and 0 servers''))"
    unfolding Reply_RplLUserMe_def FMT_RPL_LUSERME_def
    by (rule snprintf_sends) (use facts in \<open>simp_all add: text_simps\<close>)
qed

lemma Reply_RplWhoIs_sends:
  assumes "client_ok c" and "client_ok d" and "modest d" and "modest_server s"
  shows "sends (Reply_RplWhoIsUser c d) (coded ''311'' (called (person_of c)) (called (person_of d) @ '' '' @
      user_of (person_of d) @ '' '' @ cstring (client_hostname d) @ '' * :'' @ real_of (person_of d)))"
    and "sends (Reply_RplWhoIsServer c d s) (coded ''312'' (called (person_of c))
      (called (person_of d) @ '' '' @ cstring (server_hostname s) @ '' :cIRC, version 0.1''))"
    and "sends (Reply_RplEndOfWhoIs c d) (coded ''318'' (called (person_of c)) (called (person_of d) @ '' :End of WHOIS list''))"
proof -
  note facts = person_strings [OF assms(1)] person_lengths [OF assms(1)] person_strings [OF assms(2)]
    person_lengths [OF assms(2)] person_modest [OF assms(2,3)] server_string [OF assms(4)]
  show "sends (Reply_RplWhoIsUser c d) (coded ''311'' (called (person_of c)) (called (person_of d) @ '' '' @
      user_of (person_of d) @ '' '' @ cstring (client_hostname d) @ '' * :'' @ real_of (person_of d)))"
    unfolding Reply_RplWhoIsUser_def FMT_RPL_WHOISUSER_def
    by (rule snprintf_sends) (use facts in \<open>simp_all add: text_simps\<close>)
  show "sends (Reply_RplWhoIsServer c d s) (coded ''312'' (called (person_of c))
      (called (person_of d) @ '' '' @ cstring (server_hostname s) @ '' :cIRC, version 0.1''))"
    unfolding Reply_RplWhoIsServer_def FMT_RPL_WHOISSERVER_def
    by (rule snprintf_sends) (use facts in \<open>simp_all add: text_simps\<close>)
  show "sends (Reply_RplEndOfWhoIs c d) (coded ''318'' (called (person_of c)) (called (person_of d) @ '' :End of WHOIS list''))"
    unfolding Reply_RplEndOfWhoIs_def FMT_RPL_ENDOFWHOIS_def
    by (rule snprintf_sends) (use facts in \<open>simp_all add: text_simps\<close>)
qed

subsection \<open>What others are told\<close>

lemma Message_Privmsg_sends:
  assumes "client_ok c" and "modest c" and "cstr x = Inr t" and "cstr y = Inr s" and "length t + length s \<le> 200"
  shows "sends (Message_Privmsg c x y) (private_text (cstring (client_hostname c)) (person_of c) t s)"
  unfolding Message_Privmsg_def FMT_MSG_PRIVMSG_def
  by (rule sprintf_sends)
    (use assms(3-5) person_strings [OF assms(1)] person_lengths [OF assms(1)] person_modest [OF assms(1,2)] in
      \<open>simp_all add: text_simps private_text_def\<close>)

lemma Format_MessageJoin_sends:
  assumes "client_ok c" and "modest c" and "channel_ok k"
  shows "sends (Format_MessageJoin c (chan_name k)) (joined_text (cstring (client_hostname c)) (person_of c) (cstring (chan_name k)))"
  unfolding Format_MessageJoin_def FMT_MSG_JOIN_def
  by (rule snprintf_sends)
    (use channel_strings [OF assms(3)] person_strings [OF assms(1)] person_lengths [OF assms(1)] person_modest [OF assms(1,2)] in
      \<open>simp_all add: text_simps joined_text_def\<close>)

lemma Format_MessagePart_sends:
  assumes "client_ok c" and "modest c" and "channel_ok k"
    and "case pm of None \<Rightarrow> x = called (person_of c) | Some q \<Rightarrow> cstr q = Inr x"
    and "length (cstring (chan_name k)) + length x \<le> 200"
  shows "sends (Format_MessagePart c (chan_name k) pm)
    (parted_text (cstring (client_hostname c)) (person_of c) (cstring (chan_name k)) x)"
proof -
  have "cstr (case pm of Some m \<Rightarrow> m | None \<Rightarrow> nickname c) = Inr x"
    using assms(4) person_strings(1) [OF assms(1)] by (cases pm) simp_all
  then show ?thesis
    unfolding Format_MessagePart_def FMT_MSG_PART_def
    by (intro snprintf_sends)
      (use assms(5) channel_strings [OF assms(3)] person_strings [OF assms(1)] person_lengths [OF assms(1)] person_modest [OF assms(1,2)] in
        \<open>simp_all add: text_simps parted_text_def\<close>)
qed

subsection \<open>Replies with the server's name\<close>

text \<open>The room a channel object stands for, by its name.\<close>

lemma topic_lines_send:
  assumes "client_ok c" and "modest_server s" and "channel_ok k"
  shows "sends (Reply_RplTopic c s k)
      (topic_line (cstring (server_hostname s)) (person_of c) (cstring (chan_name k)) (r_topic (room_of k)))"
    and "sends (Reply_RplNoTopic c s k)
      (numeric (cstring (server_hostname s)) ''331'' (person_of c) (cstring (chan_name k) @ '' :No topic is set''))"
    and "sends (Reply_RplList c s k)
      (room_line (cstring (server_hostname s)) (person_of c) (cstring (chan_name k)) (room_of k))"
    and "sends (Reply_RplEndOfNames c s k)
      (numeric (cstring (server_hostname s)) ''366'' (person_of c) (cstring (chan_name k) @ '' :End of NAMES list''))"
    and "sends (Reply_ErrNotOnChannel c s k) (no_such_room (cstring (server_hostname s)) (person_of c) (cstring (chan_name k)))"
proof -
  note facts = person_strings [OF assms(1)] person_lengths [OF assms(1)] server_string [OF assms(2)] channel_strings [OF assms(3)]
  show "sends (Reply_RplTopic c s k)
      (topic_line (cstring (server_hostname s)) (person_of c) (cstring (chan_name k)) (r_topic (room_of k)))"
    unfolding Reply_RplTopic_def FMT_RPL_TOPIC_def
    by (rule snprintf_sends) (use facts in \<open>simp_all add: text_simps topic_line_def room_of_def\<close>)
  show "sends (Reply_RplNoTopic c s k)
      (numeric (cstring (server_hostname s)) ''331'' (person_of c) (cstring (chan_name k) @ '' :No topic is set''))"
    unfolding Reply_RplNoTopic_def FMT_RPL_NOTOPIC_def
    by (rule snprintf_sends) (use facts in \<open>simp_all add: text_simps\<close>)
  show "sends (Reply_RplEndOfNames c s k)
      (numeric (cstring (server_hostname s)) ''366'' (person_of c) (cstring (chan_name k) @ '' :End of NAMES list''))"
    unfolding Reply_RplEndOfNames_def FMT_RPL_ENDOFNAMES_def
    by (rule snprintf_sends) (use facts in \<open>simp_all add: text_simps\<close>)
  show "sends (Reply_ErrNotOnChannel c s k) (no_such_room (cstring (server_hostname s)) (person_of c) (cstring (chan_name k)))"
    unfolding Reply_ErrNotOnChannel_def FMT_ERR_NOSUCHCHANNEL_def
    by (rule snprintf_sends) (use facts in \<open>simp_all add: text_simps no_such_room_def\<close>)
  let ?t = "room_line (cstring (server_hostname s)) (person_of c) (cstring (chan_name k)) (room_of k)"
  have "Reply_RplList c s k = clipped ?t"
    using Reply_RplList_text [of s _ c, OF facts(9,1,11,12)] facts by (simp add: text_simps room_line_def room_of_def)
  moreover have "length ?t \<le> IRC_MSG_SIZE" using facts by (simp add: text_simps room_line_def room_of_def)
  ultimately show "sends (Reply_RplList c s k) ?t" by (simp add: sends_def clipped_short resp_bytes_text)
qed

lemma Reply_ErrNoSuchChannel_sends:
  assumes "client_ok c" and "modest_server s" and "NUL \<notin> set n" and "length n \<le> 200"
  shows "sends (Reply_ErrNoSuchChannel c s (lit n)) (no_such_room (cstring (server_hostname s)) (person_of c) n)"
  unfolding Reply_ErrNoSuchChannel_def FMT_ERR_NOSUCHCHANNEL_def
  by (rule snprintf_sends)
    (use assms(3,4) person_strings [OF assms(1)] person_lengths [OF assms(1)] server_string [OF assms(2)] in
      \<open>simp_all add: text_simps no_such_room_def\<close>)

lemma list_ends_send:
  assumes "client_ok c" and "modest_server s"
  shows "sends (Reply_RplListStart c s) (numeric (cstring (server_hostname s)) ''321'' (person_of c) ''Channel :Users Name'')"
    and "sends (Reply_RplListEnd c s) (numeric (cstring (server_hostname s)) ''323'' (person_of c) '':End of /LIST'')"
proof -
  note facts = person_strings [OF assms(1)] person_lengths [OF assms(1)] server_string [OF assms(2)]
  show "sends (Reply_RplListStart c s) (numeric (cstring (server_hostname s)) ''321'' (person_of c) ''Channel :Users Name'')"
    unfolding Reply_RplListStart_def FMT_RPL_LISTSTART_def
    by (rule snprintf_sends) (use facts in \<open>simp_all add: text_simps\<close>)
  show "sends (Reply_RplListEnd c s) (numeric (cstring (server_hostname s)) ''323'' (person_of c) '':End of /LIST'')"
    unfolding Reply_RplListEnd_def FMT_RPL_LISTEND_def
    by (rule snprintf_sends) (use facts in \<open>simp_all add: text_simps\<close>)
qed

lemma away_lines_send:
  assumes "client_ok c" and "modest_server s"
  shows "sends (format_rpl_unaway c s)
      (numeric (cstring (server_hostname s)) ''305'' (person_of c) '':You are no longer marked as being away'')"
    and "sends (format_rpl_nowaway c s)
      (tl (numeric (cstring (server_hostname s)) ''306'' (person_of c) '':You have been marked as being away''))"
    and "cstr q = Inr t \<Longrightarrow> length t \<le> 9 \<Longrightarrow> cstr r = Inr x \<Longrightarrow> length x \<le> 200 \<Longrightarrow>
      sends (format_rpl_away c s q r) (numeric (cstring (server_hostname s)) ''301'' (person_of c) (t @ '' :'' @ x))"
proof -
  note facts = person_strings [OF assms(1)] person_lengths [OF assms(1)] server_string [OF assms(2)]
  show "sends (format_rpl_unaway c s)
      (numeric (cstring (server_hostname s)) ''305'' (person_of c) '':You are no longer marked as being away'')"
    unfolding format_rpl_unaway_def FMT_RPL_UNAWAY_def
    by (rule snprintf_sends) (use facts in \<open>simp_all add: text_simps\<close>)
  show "sends (format_rpl_nowaway c s)
      (tl (numeric (cstring (server_hostname s)) ''306'' (person_of c) '':You have been marked as being away''))"
    unfolding format_rpl_nowaway_def FMT_RPL_NOWAWAY_def
    by (rule snprintf_sends) (use facts in \<open>simp_all add: text_simps\<close>)
  assume "cstr q = Inr t" "length t \<le> 9" "cstr r = Inr x" "length x \<le> 200"
  then show "sends (format_rpl_away c s q r) (numeric (cstring (server_hostname s)) ''301'' (person_of c) (t @ '' :'' @ x))"
    unfolding format_rpl_away_def FMT_RPL_AWAY_def
    by (intro snprintf_sends) (use facts in \<open>simp_all add: text_simps\<close>)
qed

text \<open>\<open>RPL_NAMREPLY\<close>: the names of the members in the order of the iteration.\<close>

lemma Reply_RplNamReply_sends:
  assumes "client_ok c" and "modest_server s" and "channel_ok k" and "env_ok e" and "length (members k) \<le> MEMBERS_MAX"
    and live: "\<And>i b. (i, b) \<in> set (members k) \<Longrightarrow> \<exists>d. client_mem w b = Some d \<and> client_ok d"
    and names: "names = map (\<lambda>m. case client_mem w (snd m) of None \<Rightarrow> [] | Some d \<Rightarrow> called (person_of d))
      (iter_members e (members k))"
  shows "sends (Reply_RplNamReply e w c s k)
    (numeric (cstring (server_hostname s)) ''353'' (person_of c) (cstring (chan_name k) @ '' :'' @ joined names))"
proof -
  note facts = person_strings [OF assms(1)] person_lengths [OF assms(1)] server_string [OF assms(2)] channel_strings [OF assms(3)]
  let ?args = "[S (server_hostname s), S (nickname c), S (chan_name k)]"
  let ?acc = "'':'' @ cstring (server_hostname s) @ '' 353 '' @ called (person_of c) @ '' '' @ cstring (chan_name k) @ '' :''"
  let ?ms = "iter_members e (members k)"
  define nk where "nk b = (case client_mem w b of None \<Rightarrow> [] | Some d \<Rightarrow> called (person_of d))" for b
  have m: "set ?ms = set (members k)" "length ?ms \<le> MEMBERS_MAX"
    using assms(4,5) by (simp_all add: env_ok_def iteration_set iteration_length)
  have d: "\<forall>m\<in>set ?ms. (\<exists>d. client_mem w (snd m) = Some d \<and> cstr (nickname d) = Inr (nk (snd m))) \<and> length (nk (snd m)) \<le> 9"
  proof
    fix x assume "x \<in> set ?ms"
    then obtain d where "client_mem w (snd x) = Some d" "client_ok d" using live [of "fst x" "snd x"] m(1) by auto
    then show "(\<exists>d. client_mem w (snd x) = Some d \<and> cstr (nickname d) = Inr (nk (snd x))) \<and> length (nk (snd x)) \<le> 9"
      using person_strings(1) [of d] person_lengths(1) [of d] by (simp add: nk_def)
  qed
  have n: "names = map (\<lambda>x. nk (snd x)) ?ms" by (simp add: names nk_def)
  have acc: "length ?acc \<le> 131" using facts by simp
  have "length (joined names) \<le> 10 * length ?ms - 1" using joined_length [of names] d by (simp add: n)
  then have j: "length (joined names) \<le> 379" using m(2) by linarith
  have "sprintf_at [] FMT_RPL_NAMREPLY_PARTIAL ?args = Inr ?acc"
    using acc facts by (simp add: sprintf_at_def FMT_RPL_NAMREPLY_PARTIAL_def)
  moreover have "rfold (namreply_step w) ?ms (?acc, True) = Inr (?acc @ joined names, ?ms = [])"
    using namreply_loop [of ?ms w nk ?acc True] d acc j by (simp add: n)
  moreover have "sprintf_at (?acc @ joined names) CRLF [] = Inr (?acc @ joined names @ CRLF)"
    using acc j by (simp add: sprintf_at_def CRLF_def)
  ultimately have "Reply_RplNamReply e w c s k = Inr (text_response (?acc @ joined names @ CRLF))"
    by (simp add: Reply_RplNamReply_def)
  moreover have "length (?acc @ joined names @ CRLF) \<le> IRC_MSG_SIZE" using acc j by (simp add: CRLF_def)
  ultimately show ?thesis by (simp add: sends_def resp_bytes_text numeric_def coded_def)
qed

end
