(* ===== verification/Told.thy ===== *)
theory Told
  imports SpeechTexts
begin

text \<open>
  What an operation writes and queues.  \<open>told f a w v sp\<close> says that from \<open>w\<close> to \<open>v\<close> the first part of the
  speech \<open>sp\<close> has been written to others, where \<open>f\<close> gives everybody's descriptor, that the second part has
  been added to the queue of the client \<open>a\<close>, and that no other queue is left with a response in it that
  was empty.  The operations compose with \<open>told_trans\<close>.
\<close>

subsection \<open>Writing and queueing\<close>

definition told :: "(int \<Rightarrow> int) \<Rightarrow> caddr \<Rightarrow> world \<Rightarrow> world \<Rightarrow> speech \<Rightarrow> bool" where
  "told f a w v sp \<longleftrightarrow> wire v = wire w @ map (\<lambda>(j, t). (f j, t)) (fst sp) \<and>
     (\<exists>rs. queue v a = queue w a @ rs \<and> all_bytes rs = Inr (snd sp)) \<and>
     (\<forall>b. b \<noteq> a \<longrightarrow> queue w b = [] \<longrightarrow> queue v b = [])"

text \<open>The descriptor of the person with an id.\<close>

definition fd_by :: "world \<Rightarrow> int \<Rightarrow> int" where
  "fd_by w j = (case g_lookup (clients (server w)) j of None \<Rightarrow> -1 | Some b \<Rightarrow> fd_of w b)"

lemma told_mute: "wire v = wire w \<Longrightarrow> queue v = queue w \<Longrightarrow> told f a w v ([], [])"
  by (simp add: told_def exI [of _ "[]"])

lemma told_refl [simp]: "told f a w w ([], [])"
  by (simp add: told_mute)

lemma told_trans:
  assumes "told f a u v sp" and "told f a v w sp'"
  shows "told f a u w (then_says sp sp')"
proof -
  from assms obtain rs qs where "queue v a = queue u a @ rs" "all_bytes rs = Inr (snd sp)"
    "queue w a = queue v a @ qs" "all_bytes qs = Inr (snd sp')" by (auto simp: told_def)
  then have "queue w a = queue u a @ (rs @ qs)" "all_bytes (rs @ qs) = Inr (snd (then_says sp sp'))"
    by (simp_all add: all_bytes_append)
  then show ?thesis using assms by (auto simp: told_def)
qed

lemma told_more: "told f a u v ([], ts) \<Longrightarrow> told f a v w ([], us) \<Longrightarrow> told f a u w ([], ts @ us)"
  using told_trans [of f a u v "([], ts)" w "([], us)"] by (simp add: then_says_def)

lemma told_queue: "told f a w v sp \<Longrightarrow> b \<noteq> a \<Longrightarrow> queue w b = [] \<Longrightarrow> queue v b = []"
  by (simp add: told_def)

lemma push_tail_told:
  assumes "client_mem w a = Some c" and "resp_bytes r = Inr s"
  shows "told f a w (push_tail a r w) ([], [s])"
  using assms by (auto simp: told_def intro!: exI [of _ "[r]"])

lemma push_reply_told:
  assumes "push_reply a reply w = Inr v" and "sends reply s" and "client_mem w a = Some c"
  shows "told f a w v ([], [s])"
  using assms by (auto simp: push_reply_def sends_def push_tail_told)

lemma reply_told:
  assumes "rbind (push_reply a reply w) (\<lambda>w. Inr (w, n)) = Inr (v, m)" and "sends reply s" and "client_mem w a = Some c"
  shows "told f a w v ([], [s])"
  using assms by (auto elim!: rbind_InrE intro: push_reply_told)

lemma optional_reply_told:
  assumes "(if b then push_reply a reply w else Inr w) = Inr v" and "b \<Longrightarrow> sends reply s" and "client_mem w a = Some c"
  shows "told f a w v ([], if b then [s] else [])"
  using assms by (cases b) (auto intro: push_reply_told)

lemma sends_optional: "sends reply s \<Longrightarrow> reply = Inr r \<Longrightarrow> resp_bytes r = Inr s"
  by (simp add: sends_def)

text \<open>Sending to a client whose queue is empty writes at once.\<close>

lemma Client_Send_told:
  assumes "Client_Send b r w = Inr v" and "resp_bytes r = Inr s" and "client_mem w b = Some d" and "queue w b = []"
    and "f j = fd_of w b"
  shows "told f a w v ([(j, s)], [])" and "queue v = queue w"
proof -
  have "conn_responses (conn d) = []" using assms(3,4) by (simp add: queue_def)
  from Client_Send_writes [OF assms(3) this assms(2)] assms(1)
  have v: "v = w\<lparr>wire := wire w @ [(conn_fd (conn d), s)]\<rparr>" by simp
  then show "queue v = queue w" by (simp add: queue_def fun_eq_iff)
  then show "told f a w v ([(j, s)], [])" using assms(3,5) by (simp add: told_def v fd_of_def exI [of _ "[]"])
qed

lemma told_still:
  "told f a w v sp \<Longrightarrow> queue w a = [] \<Longrightarrow> \<exists>rs. queue v a = rs \<and> all_bytes rs = Inr (snd sp)"
  by (auto simp: told_def)

subsection \<open>People and rooms of a world\<close>

definition house_of :: "world \<Rightarrow> house" where
  "house_of w =
     \<lparr>h_name = cstring (server_hostname (server w)), h_motd = map_option cstring (motd (server w)),
      h_host = (\<lambda>j. case Option.bind (g_lookup (clients (server w)) j) (view w) of
                  None \<Rightarrow> [] | Some c \<Rightarrow> cstring (client_hostname c)),
      h_users = nUsers (server w), h_unknown = nUnknown (server w)\<rparr>"

lemma house_simps [simp]:
  "h_name (house_of w) = cstring (server_hostname (server w))"
  "h_motd (house_of w) = map_option cstring (motd (server w))"
  "h_users (house_of w) = nUsers (server w)" "h_unknown (house_of w) = nUnknown (server w)"
  by (simp_all add: house_of_def)

lemma host_of_client:
  assumes "world_ok w" and "client_mem w a = Some c"
  shows "h_host (house_of w) (clientId c) = cstring (client_hostname c)"
  using inv_client(4) [OF assms(1) view_SomeI [OF assms(2)]] view_SomeI [OF assms(2)] by (simp add: house_of_def)

lemma fd_of_client:
  assumes "world_ok w" and "client_mem w a = Some c"
  shows "fd_by w (clientId c) = fd_of w a"
  using inv_client(4) [OF assms(1) view_SomeI [OF assms(2)]] by (simp add: fd_by_def)

lemma fd_of_view: "fd_of w b = (case view w b of None \<Rightarrow> -1 | Some c \<Rightarrow> conn_fd (conn c))"
  by (simp add: fd_of_def view_def split: option.split)

text \<open>The members of a channel, in the order of an iteration.\<close>

lemma member_client:
  assumes "world_ok w" and k: "channel_mem w ch = Some k" and "(j, b) \<in> set (members k)"
  obtains d where "client_mem w b = Some d" "clientId d = j" "client_ok d"
proof -
  have "g_wf (members k)" using inv_channel(1) [OF assms(1) k] by (simp add: channel_ok_def)
  then have "g_lookup (members k) j = Some b" using assms(3) by (simp add: g_lookup_in_set)
  from inv_channel(3) [OF assms(1) k this] obtain v where v: "view w b = Some v" "clientId v = j" by blast
  then obtain d where "client_mem w b = Some d" "v = core d" using view_SomeD by blast
  with inv_client(1) [OF assms(1) v(1)] v(2) show thesis by (intro that) simp_all
qed

lemma iter_each_once:
  assumes "env_ok e" and "g_wf (members k)"
  shows "each_once (dom (g_lookup (members k))) (map fst (iter_members e (members k)))"
    and "each_once (dom (g_lookup (members k)) - {i}) (map fst (filter (\<lambda>m. fst m \<noteq> i) (iter_members e (members k))))"
proof -
  have m: "mset (iter_members e (members k)) = mset (members k)" using assms(1) by (simp add: env_ok_def iteration_ok_def)
  then have s: "set (iter_members e (members k)) = set (members k)" using mset_eq_setD by blast
  have "mset (map fst (iter_members e (members k))) = mset (map fst (members k))" using m by simp
  then have d: "distinct (map fst (iter_members e (members k)))"
    using assms(2) mset_eq_imp_distinct_iff unfolding g_wf_def by blast
  have dom: "dom (g_lookup (members k)) = fst ` set (members k)" by (simp add: g_lookup_def dom_map_of_conv_image_fst)
  show "each_once (dom (g_lookup (members k))) (map fst (iter_members e (members k)))"
    using d by (simp add: each_once_def s dom)
  show "each_once (dom (g_lookup (members k)) - {i}) (map fst (filter (\<lambda>m. fst m \<noteq> i) (iter_members e (members k))))"
    using distinct_map_filter [OF d] by (auto simp: each_once_def s dom)
qed

text \<open>A message to a room is written once to everybody in it but its source.\<close>

lemma channel_send_message_told:
  assumes "channel_send_message e ch r i w = Inr v" and "resp_bytes r = Inr t"
    and "world_ok w" and "env_ok e" and k: "channel_mem w ch = Some k" and "\<forall>b. b \<noteq> a \<longrightarrow> queue w b = []"
    and c: "client_mem w a = Some c" "clientId c = i" and f: "f = fd_by w"
  shows "\<exists>os. told f a w v (os, []) \<and> tells (r_people (room_of k) - {i}) t os"
proof -
  have it: "set (iter_members e (members k)) = set (members k)" using assms(4) by (simp add: env_ok_def iteration_set)
  have wf: "g_wf (members k)" using inv_channel(1) [OF assms(3) k] by (simp add: channel_ok_def)
  let ?ms = "filter (\<lambda>m. fst m \<noteq> i) (iter_members e (members k))"
  have m: "ready w (snd m) \<and> f (fst m) = fd_of w (snd m)" if "m \<in> set ?ms" for m
  proof -
    have "(fst m, snd m) \<in> set (members k)" "fst m \<noteq> i" using that it by auto
    then obtain d where d: "client_mem w (snd m) = Some d" "clientId d = fst m" using member_client [OF assms(3) k] by metis
    then have "snd m \<noteq> a" using c \<open>fst m \<noteq> i\<close> by auto
    then have "queue w (snd m) = []" using assms(6) by simp
    then show ?thesis using d fd_of_client [OF assms(3) d(1)] by (auto simp: ready_def idle_def queue_def f)
  qed
  then have "\<forall>b\<in>set (recipients e k i). ready w b" by (auto simp: recipients_def)
  from channel_send_message_delivers [OF k assms(2) this] assms(1)
  have v: "v = w\<lparr>wire := wire w @ map (\<lambda>b. (fd_of w b, t)) (recipients e k i)\<rparr>" by simp
  have "map (\<lambda>b. (fd_of w b, t)) (recipients e k i) = map (\<lambda>(j, t). (f j, t)) (map (\<lambda>j. (j, t)) (map fst ?ms))"
    using m by (simp add: recipients_def)
  then have "told f a w v (map (\<lambda>j. (j, t)) (map fst ?ms), [])"
    by (simp add: told_def v queue_def exI [of _ "[]"])
  moreover have "tells (r_people (room_of k) - {i}) t (map (\<lambda>j. (j, t)) (map fst ?ms))"
    unfolding tells_def using iter_each_once(2) [OF assms(4) wf, of i] by (auto simp: room_of_def)
  ultimately show ?thesis by blast
qed

end
