(* ===== verification/SpeechAsked.thy ===== *)
theory SpeechAsked
  imports Told
begin

text \<open>
  The handlers say what \<open>Speech\<close> says, first part: the commands that change nothing.  What a handler writes
  and queues is a speech that \<open>replies\<close> allows for the command (\<open>answered\<close>).
\<close>

text \<open>The client that speaks, in a state where nothing is queued.\<close>

definition speaker :: "caddr \<Rightarrow> world \<Rightarrow> client_s \<Rightarrow> bool" where
  "speaker a w c \<longleftrightarrow> able a w \<and> client_mem w a = Some c \<and> (\<forall>b. queue w b = [])"

abbreviation (input) answered :: "caddr \<Rightarrow> world \<Rightarrow> client_s \<Rightarrow> irc_cmd \<Rightarrow> world \<Rightarrow> bool" where
  "answered a w c cmd v \<equiv> \<exists>sp. told (fd_by w) a w v sp \<and>
     replies (house_of w) (clientId c) (person_of c) cmd (chat_of w) sp"

lemma speaker_facts:
  assumes "speaker a w c"
  shows "able a w" "client_mem w a = Some c" "client_ok c" "modest c" "modest_server (server w)" "world_ok w" "sane w"
    "get_client w a = Inr c" "queue w b = []"
  using assms able_get [of a w c] able_server [of a w] by (simp_all add: speaker_def get_client_mem)

lemma answeredI:
  "told (fd_by w) a w v sp \<Longrightarrow> replies (house_of w) (clientId c) (person_of c) cmd (chat_of w) sp \<Longrightarrow> answered a w c cmd v"
  by blast

lemma speaker_host: "speaker a w c \<Longrightarrow> h_host (house_of w) (clientId c) = cstring (client_hostname c)"
  using host_of_client [of w a c] speaker_facts [of a w c] by simp

lemma told_client: "client_mem w a = Some c \<Longrightarrow> calm a w v \<Longrightarrow> \<exists>d. client_mem v a = Some d \<and> core d = core c"
  using quiet_client_mem [OF calm_quiet] by blast

text \<open>A sequence of replies to one client.\<close>

lemma push_reply_next:
  assumes "push_reply a reply w = Inr v" and "client_mem w a \<noteq> None"
  shows "client_mem v a \<noteq> None" "server v = server w" "channel_mem v = channel_mem w"
proof -
  note q = quiet_eqs [OF calm_quiet [OF push_reply_calm [OF assms(1)]]]
  show "client_mem v a \<noteq> None" using assms(2) view_None q(1) by metis
  show "server v = server w" "channel_mem v = channel_mem w" using q by simp_all
qed

lemma push_reply_told':
  assumes "push_reply a reply w = Inr v" and "sends reply s" and "client_mem w a \<noteq> None"
  shows "told f a w v ([], [s])"
  using assms push_reply_told by fast

lemma optional_reply_next:
  assumes "(if b then push_reply a reply w else Inr w) = Inr v" and "b \<Longrightarrow> sends reply s" and "client_mem w a \<noteq> None"
  shows "told f a w v ([], if b then [s] else [])" "client_mem v a \<noteq> None" "server v = server w" "channel_mem v = channel_mem w"
  using assms push_reply_next [of a reply w v] by (auto split: if_splits intro: push_reply_told')

subsection \<open>Commands that only ask\<close>

lemma Handler_Unknown_answered:
  assumes "Handler_Unknown a m w = Inr (v, r)" and "speaker a w c" and "says w a (msg_command m) s" and "length s \<le> 200"
  shows "answered a w c (Cmd_unknown s) v"
proof (rule answeredI)
  note sf = speaker_facts [OF assms(2)]
  obtain q where q: "msg_ptr a (msg_command m) w = Inr q" "cstr q = Inr s" using says_ptr [OF assms(3)] .
  have "rbind (push_reply a (Reply_ErrUnknownCommand c q) w) (\<lambda>w. Inr (w, 0)) = Inr (v, r)"
    using assms(1) q sf(8) by (simp add: Handler_Unknown_def)
  from reply_told [OF this Reply_ErrUnknownCommand_sends [OF sf(3) q(2) assms(4)] sf(2)]
  show "told (fd_by w) a w v ([], [coded ''421'' (called_or_star (person_of c)) (s @ '' :Unknown command'')])" .
qed simp

lemma Handler_Ping_answered:
  assumes "Handler_Ping a m w = Inr (v, r)" and "speaker a w c"
  shows "answered a w c Cmd_ping v"
proof (rule answeredI)
  note sf = speaker_facts [OF assms(2)]
  show "told (fd_by w) a w v ([], [''PONG '' @ h_name (house_of w) @ CRLF])"
    using reply_told [OF assms(1) [unfolded Handler_Ping_def] Reply_Pong_sends [OF sf(5)] sf(2)] by simp
qed simp

lemma Handler_LUsers_answered:
  assumes "Handler_LUsers a m w = Inr (v, r)" and "speaker a w c"
  shows "answered a w c Cmd_lusers v"
proof (rule answeredI)
  note sf = speaker_facts [OF assms(2)]
  have z: "nOperators (server w) = 0" "nChannels (server w) = 0" "nServices (server w) = 0"
    using sf(6) by (simp_all add: world_ok_def counters_inv_def)
  let ?s = "server w" and ?p = "person_of c"
  from assms(1) obtain u1 u2 where u: "push_reply a (Reply_RplLUserClient c ?s) w = Inr u1"
    "(if nUnknown ?s \<noteq> 0 then push_reply a (Reply_RplLUserUnknown c ?s) u1 else Inr u1) = Inr u2"
    "push_reply a (Reply_RplLUserMe c ?s) u2 = Inr v"
    by (auto simp: Handler_LUsers_def Let_def sf(8) z elim!: rbind_InrE)
  note s = Reply_RplLUser_sends [OF sf(3) z(3)]
  have c: "client_mem w a \<noteq> None" using sf(2) by simp
  note t1 = push_reply_told' [OF u(1) s(1) c] and c1 = push_reply_next [OF u(1) c]
  note o = optional_reply_next [OF u(2) s(2) c1(1)]
  note t3 = push_reply_told' [OF u(3) s(3) o(2)]
  show "told (fd_by w) a w v ([], lusers_lines (house_of w) ?p)"
    using told_more [OF told_more [OF t1 o(1)] t3] by (cases "nUnknown ?s = 0") (simp_all add: lusers_lines_def)
qed simp

lemma nick_person:
  assumes "speaker a w c" and "g_lookup (nicks (server w)) t = Some j"
  obtains b d where "g_lookup (clients (server w)) j = Some b" "client_mem w b = Some d" "client_ok d" "modest d"
    "folk (chat_of w) j = Some (person_of d)" "p_nick (person_of d) = Some t" "j \<noteq> 0" "clientId d = j"
proof -
  note sf = speaker_facts [OF assms(1)]
  obtain b d where d: "g_lookup (clients (server w)) j = Some b" "client_mem w b = Some d" "client_ok d" "modest d"
    "clientId d = j" "j \<noteq> 0" using nick_owner_live [OF sf(1) assms(2)] .
  from inv_nick_lookup [OF sf(6) assms(2)] d view_SomeI [OF d(2)] have "p_nick (person_of d) = Some t"
    by (auto simp: person_of_def)
  with d chat_of_client [OF sf(6) d(2)] show thesis by (intro that) simp_all
qed

lemma Handler_WhoIs_answered:
  assumes "Handler_WhoIs a m w = Inr (v, r)" and "speaker a w c"
    and x: "case x of None \<Rightarrow> whois_mask m = None | Some s \<Rightarrow> says w a (whois_mask m) s \<and> length s \<le> 200"
  shows "answered a w c (Cmd_whois x) v"
proof (cases x)
  case None
  then have "told (fd_by w) a w v ([], [])" using assms(1) x by (simp add: Handler_WhoIs_def)
  then show ?thesis by (rule answeredI) (simp add: None)
next
  case (Some t)
  note sf = speaker_facts [OF assms(2)]
  have t: "says w a (whois_mask m) t" "length t \<le> 200" using x Some by auto
  note str = says_str [OF t(1)] and nul = says_no_NUL [OF t(1)] and ptr = says_not_null [OF t(1)]
  let ?p = "person_of c"
  show ?thesis
  proof (cases "g_lookup (nicks (server w)) t")
    case None
    then have "rbind (push_reply a (Reply_ErrNoSuchNick c (lit t)) w) (\<lambda>w. Inr (w, -1)) = Inr (v, r)"
      using assms(1) ptr by (simp add: Handler_WhoIs_def sf(8) str)
    from reply_told [OF this Reply_ErrNoSuchNick_sends [OF sf(3) nul t(2)] sf(2)] show ?thesis
      by (rule answeredI) (simp add: Some whois_speech_def nick_taken_iff [OF sf(6)] None)
  next
    case lk: (Some j)
    obtain b d where d: "g_lookup (clients (server w)) j = Some b" "client_mem w b = Some d" "client_ok d" "modest d"
      "folk (chat_of w) j = Some (person_of d)" "p_nick (person_of d) = Some t" "j \<noteq> 0" "clientId d = j"
      using nick_person [OF assms(2) lk] .
    from assms(1) obtain u1 u2 where u: "push_reply a (Reply_RplWhoIsUser c d) w = Inr u1"
      "push_reply a (Reply_RplWhoIsServer c d (server u1)) u1 = Inr u2" "push_reply a (Reply_RplEndOfWhoIs c d) u2 = Inr v"
      using ptr by (auto simp: Handler_WhoIs_def sf(8) str lk d get_client_mem elim!: rbind_InrE)
    have c: "client_mem w a \<noteq> None" using sf(2) by simp
    note c1 = push_reply_next [OF u(1) c] and c2 = push_reply_next [OF u(2) push_reply_next(1) [OF u(1) c]]
    note s = Reply_RplWhoIs_sends [OF sf(3) d(3,4) sf(5)]
    have "told (fd_by w) a w v ([], whois_lines (house_of w) ?p j (person_of d))"
      using told_more [OF told_more [OF push_reply_told' [OF u(1) s(1) c] push_reply_told' [OF u(2) s(2) [folded c1(2)] c1(1)]]
          push_reply_told' [OF u(3) s(3) c2(1)], of "fd_by w"] host_of_client [OF sf(6) d(2)] d(8)
      by (simp add: whois_lines_def c1(2))
    then show ?thesis
      by (rule answeredI) (use d(5,6) in \<open>auto simp: Some whois_speech_def nick_taken_iff [OF sf(6)] lk\<close>)
  qed
qed

subsection \<open>Lists of replies\<close>

lemma idle_queue: "idle w b \<longleftrightarrow> queue w b = []"
  by (auto simp: idle_def queue_def split: option.split)

lemma queue_told:
  assumes "wire v = wire w" and "queue v a = queue w a @ map text_response ss" and "calm a w v"
    and "\<forall>s\<in>set ss. length s \<le> IRC_MSG_SIZE"
  shows "told f a w v ([], ss)"
  using assms all_bytes_text [OF assms(4)] by (auto simp: told_def calm_def idle_queue)

lemma Handler_Motd_answered:
  assumes "Handler_Motd a m w = Inr (v, r)" and "speaker a w c"
  shows "answered a w c Cmd_motd v"
proof (rule answeredI)
  note sf = speaker_facts [OF assms(2)]
  let ?p = "person_of c"
  show "told (fd_by w) a w v ([], motd_lines (house_of w) ?p)"
  proof (cases "motd (server w)")
    case None
    then have "rbind (push_reply a (Reply_ErrNoMotd c) w) (\<lambda>w. Inr (w, -1)) = Inr (v, r)"
      using assms(1) by (simp add: Handler_Motd_def sf(8))
    from reply_told [OF this Reply_ErrNoMotd_sends [OF sf(3)] sf(2)] show ?thesis by (simp add: motd_lines_def None)
  next
    case (Some mt)
    then have mt: "cstr mt = Inr (cstring mt)" using sf(7) by (simp add: sane_def cstr_def cstring_def)
    note n = person_strings(1) [OF sf(3)] and l = person_lengths(1,2) [OF sf(3)] and h = server_string [OF sf(5)]
    have star: "star_nick c (called ?p) = called_or_star ?p"
      by (cases "receivedNick c") (simp_all add: star_nick_def called_def called_or_star_def person_of_def)
    have "length (cstring (server_hostname (server w))) \<le> 255" using h(2) by simp
    from motd_reply_sequence [OF sf(2) n l(1) Some mt h(1) this, of m] assms(1)
    have w: "wire v = wire w" and q: "queue v a = queue w a @ map text_response (motd_lines (house_of w) ?p)"
      by (auto simp: motd_lines_def Some motd_line_def coded_def star comp_def)
    have "length s \<le> IRC_MSG_SIZE" if "s \<in> set (motd_lines (house_of w) ?p)" for s
    proof -
      have "length f \<le> 80" if "f \<in> set (motd_fragments (cstring mt))" for f
        using that by (auto simp: motd_fragments_def motd_fragment_def)
      then show ?thesis using that l(2) h(2) by (fastforce simp: motd_lines_def Some coded_def CRLF_def)
    qed
    with queue_told [OF w q Handler_Motd_calm [OF assms(1)]] show ?thesis by blast
  qed
qed simp

text \<open>A client that is there, while some of its replies may be queued.\<close>

definition present :: "caddr \<Rightarrow> world \<Rightarrow> client_s \<Rightarrow> bool" where
  "present a w c \<longleftrightarrow> world_ok w \<and> sane w \<and> client_mem w a = Some c"

lemma speaker_present: "speaker a w c \<Longrightarrow> present a w c"
  by (auto simp: speaker_def present_def dest: able_server)

lemma present_facts:
  assumes "present a w c"
  shows "client_mem w a = Some c" "client_ok c" "modest c" "modest_server (server w)" "world_ok w" "table_ok w"
    "get_client w a = Inr c" "folk (chat_of w) (clientId c) = Some (person_of c)"
    "h_host (house_of w) (clientId c) = cstring (client_hostname c)"
proof -
  have a: "world_ok w" "sane w" "client_mem w a = Some c" using assms by (simp_all add: present_def)
  then show "world_ok w" "client_mem w a = Some c" "get_client w a = Inr c" by (simp_all add: get_client_mem)
  show "client_ok c" using inv_client(1) [OF a(1) view_SomeI [OF a(3)]] by simp
  show "modest c" by (rule sane_client [OF a(2,3)])
  show "modest_server (server w)" "table_ok w" using a(2) by (simp_all add: sane_def)
  show "folk (chat_of w) (clientId c) = Some (person_of c)" by (rule chat_of_client [OF a(1,3)])
  show "h_host (house_of w) (clientId c) = cstring (client_hostname c)" by (rule host_of_client [OF a(1,3)])
qed

lemma present_channel:
  assumes "present a w c" and "channel_mem w ch = Some k"
  shows "channel_ok k" "length (members k) \<le> MEMBERS_MAX"
    "(i, b) \<in> set (members k) \<Longrightarrow> \<exists>d. client_mem w b = Some d \<and> client_ok d"
proof -
  show "channel_ok k" by (rule inv_channel(1) [OF present_facts(5) [OF assms(1)] assms(2)])
  show "length (members k) \<le> MEMBERS_MAX" using assms unfolding present_def sane_def by blast
  show "\<exists>d. client_mem w b = Some d \<and> client_ok d" if "(i, b) \<in> set (members k)"
    using member_client [OF present_facts(5) [OF assms(1)] assms(2) that] by metis
qed

lemma house_of_quiet: "quiet w v \<Longrightarrow> house_of v = house_of w"
  by (simp add: house_of_def quiet_eqs)

lemma fd_by_views:
  "view v = view w \<Longrightarrow> clients (server v) = clients (server w) \<Longrightarrow> fd_by v = fd_by w"
  by (rule ext) (simp add: fd_by_def fd_of_view split: option.split)

lemma person_of_eq: "core d = core c \<Longrightarrow> person_of d = person_of c"
  by (metis person_of_core)

lemma present_calm:
  assumes "present a w c" and "calm a w u"
  obtains d where "present a u d" "person_of d = person_of c" "clientId d = clientId c" "chat_of u = chat_of w"
    "house_of u = house_of w" "fd_by u = fd_by w" "server u = server w" "channel_mem u = channel_mem w"
proof -
  have q: "quiet w u" by (rule calm_quiet [OF assms(2)])
  obtain d where d: "client_mem u a = Some d" "core d = core c"
    using quiet_client_mem [OF q] present_facts(1) [OF assms(1)] by blast
  have "present a u d" using assms(1) d(1) inv_quiet [OF q] sane_quiet [OF q] by (simp add: present_def)
  then show thesis
    using that person_of_eq [OF d(2)] core_eqD(4) [OF d(2)] chat_of_quiet [OF q] house_of_quiet [OF q]
      fd_by_views [of u w] quiet_eqs [OF q] by simp
qed

text \<open>A loop in which every round queues some lines.\<close>

lemma rfold_told:
  assumes "rfold g xs u = Inr v" and "P u"
    and "\<And>x u u'. x \<in> set xs \<Longrightarrow> P u \<Longrightarrow> g x u = Inr u' \<Longrightarrow> P u' \<and> told f a u u' ([], F x)"
  shows "told f a u v ([], concat (map F xs))"
  using assms
proof (induction xs arbitrary: u)
  case (Cons x xs)
  then obtain u' where u': "g x u = Inr u'" "rfold g xs u' = Inr v" by (auto elim!: rbind_InrE)
  have x: "P u'" "told f a u u' ([], F x)" using Cons.prems(3) [OF _ Cons.prems(2) u'(1)] by simp_all
  have "told f a u' v ([], concat (map F xs))"
    by (rule Cons.IH [OF u'(2) x(1)]) (rule Cons.prems(3); simp)
  from told_more [OF x(2) this] show ?case by simp
qed simp

lemma list_one_told:
  assumes "list_one a ch u = Inr v" and "present a u c" and k: "channel_mem u ch = Some k"
  shows "told f a u v ([], [room_line (h_name (house_of u)) (person_of c) (cstring (chan_name k)) (room_of k)])"
proof -
  note pf = present_facts [OF assms(2)]
  have "push_reply a (Reply_RplList c (server u) k) u = Inr v"
    using assms(1) by (simp add: list_one_def get_channel_def k pf(7))
  from push_reply_told [OF this topic_lines_send(3) [OF pf(2,4) present_channel(1) [OF assms(2) k]] pf(1)]
  show ?thesis by simp
qed

lemma iter_channels_once:
  assumes "env_ok e" and "world_ok w" and "table_ok w"
  shows "each_once (dom (rooms (chat_of w))) (map fst (iter_channels e (channels (server w))))"
    and "(key, ch) \<in> set (iter_channels e (channels (server w))) \<longleftrightarrow> g_lookup (channels (server w)) key = Some ch"
proof -
  let ?t = "channels (server w)"
  have wf: "g_wf ?t" using assms(2) by (simp add: world_ok_def channels_inv_def)
  have m: "mset (iter_channels e ?t) = mset ?t" using assms(1) by (simp add: env_ok_def iteration_ok_def)
  then have s: "set (iter_channels e ?t) = set ?t" using mset_eq_setD by blast
  then show "(key, ch) \<in> set (iter_channels e ?t) \<longleftrightarrow> g_lookup ?t key = Some ch" by (simp add: g_lookup_in_set [OF wf])
  have "mset (map fst (iter_channels e ?t)) = mset (map fst ?t)" using m by simp
  then have "distinct (map fst (iter_channels e ?t))" using wf mset_eq_imp_distinct_iff unfolding g_wf_def by blast
  moreover have "dom (rooms (chat_of w)) = dom (g_lookup ?t)"
    using assms(3) unfolding table_ok_def by (force simp: chat_of_def bind_eq_Some_conv)
  moreover have "dom (g_lookup ?t) = fst ` set ?t" by (simp add: g_lookup_def dom_map_of_conv_image_fst)
  ultimately show "each_once (dom (rooms (chat_of w))) (map fst (iter_channels e ?t))" by (simp add: each_once_def s)
qed

lemma list_body_told:
  assumes "(if list_channels m = None then
              rfold (\<lambda>entry. list_one a (snd entry)) (iter_channels e (channels (server w))) w
            else
              rbind (msg_str a (list_channels m) w) (\<lambda>chans. rfold (list_named a) (strtok_all chans (CHR '','')) w)) = Inr v"
    and "present a w c" and "env_ok e"
    and x: "case x of None \<Rightarrow> list_channels m = None | Some s \<Rightarrow> list_channels m \<noteq> None \<and> msg_str a (list_channels m) w = Inr s"
  shows "\<exists>ls. told f a w v ([], ls) \<and>
    (case x of
       None \<Rightarrow> \<exists>keys. each_once (dom (rooms (chat_of w))) keys \<and>
         ls = concat (map (\<lambda>key. case rooms (chat_of w) key of None \<Rightarrow> []
                            | Some r \<Rightarrow> [room_line (h_name (house_of w)) (person_of c) key r]) keys)
     | Some ch \<Rightarrow> ls = concat (map (named_room_lines (house_of w) (person_of c) (chat_of w)) (strtok_all ch (CHR '',''))))"
proof -
  note pf = present_facts [OF assms(2)]
  let ?F = "\<lambda>key. case rooms (chat_of w) key of None \<Rightarrow> [] | Some r \<Rightarrow> [room_line (h_name (house_of w)) (person_of c) key r]"
  have one: "calm a w u' \<and> told f a u u' ([], ?F key)"
    if ch: "g_lookup (channels (server w)) key = Some ch" and u: "calm a w u" "list_one a ch u = Inr u'" for key ch u u'
  proof -
    obtain d where d: "present a u d" "person_of d = person_of c" "house_of u = house_of w" "channel_mem u = channel_mem w"
      using present_calm [OF assms(2) u(1)] .
    obtain k where k: "channel_mem w ch = Some k" "cstring (chan_name k) = key" using pf(6) ch unfolding table_ok_def by blast
    have "told f a u u' ([], ?F key)"
      using list_one_told [OF u(2) d(1), of k] k d rooms_chat_of(2) [OF ch k(1)] by simp
    moreover have "calm a u u'" using u(2) by (auto simp: list_one_def elim!: rbind_InrE intro: push_reply_calm)
    then have "calm a w u'" by (rule calm_trans [OF u(1)])
    ultimately show ?thesis by simp
  qed
  show ?thesis
  proof (cases x)
    case None
    then have l: "rfold (\<lambda>entry. list_one a (snd entry)) (iter_channels e (channels (server w))) w = Inr v"
      using assms(1) x by simp
    have "told f a w v ([], concat (map (\<lambda>en. ?F (fst en)) (iter_channels e (channels (server w)))))"
    proof (rule rfold_told [OF l, where P = "calm a w"])
      fix en u u' assume "en \<in> set (iter_channels e (channels (server w)))" "calm a w u" "list_one a (snd en) u = Inr u'"
      then show "calm a w u' \<and> told f a u u' ([], ?F (fst en))"
        using one [of "fst en" "snd en" u u'] iter_channels_once(2) [OF assms(3) pf(5,6), of "fst en" "snd en"] by simp
    qed simp
    then have "told f a w v ([], concat (map ?F (map fst (iter_channels e (channels (server w))))))" by (simp add: comp_def)
    with iter_channels_once(1) [OF assms(3) pf(5,6)] show ?thesis unfolding None option.case by blast
  next
    case (Some s)
    then have l: "rfold (list_named a) (strtok_all s (CHR '','')) w = Inr v" using assms(1) x by (auto elim!: rbind_InrE)
    have "told f a w v ([], concat (map (named_room_lines (house_of w) (person_of c) (chat_of w)) (strtok_all s (CHR '',''))))"
    proof (rule rfold_told [OF l, where P = "calm a w"])
      fix n u u' assume u: "calm a w u" "list_named a n u = Inr u'"
      have s: "server u = server w" using quiet_eqs [OF calm_quiet [OF u(1)]] by simp
      show "calm a w u' \<and> told f a u u' ([], named_room_lines (house_of w) (person_of c) (chat_of w) n)"
      proof (cases "g_lookup (channels (server w)) (lowercase n)")
        case None
        then show ?thesis using u by (simp add: list_named_def server_get_channel_def s named_room_lines_def rooms_chat_of)
      next
        case (Some ch)
        then have "list_one a ch u = Inr u'" using u(2) by (simp add: list_named_def server_get_channel_def s)
        with one [OF Some u(1)] show ?thesis by (simp add: named_room_lines_def)
      qed
    qed simp
    then show ?thesis by (auto simp: Some)
  qed
qed

lemma handler_list_answered:
  assumes "handler_list e a m w = Inr (v, r)" and "speaker a w c" and "env_ok e"
    and x: "case x of None \<Rightarrow> list_channels m = None | Some s \<Rightarrow> says w a (list_channels m) s"
  shows "answered a w c (Cmd_list x) v"
proof -
  note sf = speaker_facts [OF assms(2)]
  from assms(1) obtain u1 u2 where u: "push_reply a (Reply_RplListStart c (server w)) w = Inr u1"
    "(if list_channels m = None then
              rfold (\<lambda>entry. list_one a (snd entry)) (iter_channels e (channels (server u1))) u1
            else
              rbind (msg_str a (list_channels m) u1) (\<lambda>chans. rfold (list_named a) (strtok_all chans (CHR '','')) u1)) = Inr u2"
    "push_reply a (Reply_RplListEnd c (server u2)) u2 = Inr v"
    unfolding handler_list_def sf(8) rbind.simps by (elim rbind_InrE) auto
  have k1: "calm a w u1" by (rule push_reply_calm [OF u(1)])
  obtain d where d: "present a u1 d" "person_of d = person_of c" "chat_of u1 = chat_of w" "house_of u1 = house_of w"
    using present_calm [OF speaker_present [OF assms(2)] k1] .
  have s1: "case x of None \<Rightarrow> list_channels m = None | Some s \<Rightarrow> list_channels m \<noteq> None \<and> msg_str a (list_channels m) u1 = Inr s"
  proof (cases x)
    case (Some s)
    obtain rr where "u1 = push_tail a rr w" using u(1) by (auto simp: push_reply_def elim!: rbind_InrE)
    then have "msg_buf u1 a = msg_buf w a" by (cases "client_mem w a") (auto simp: msg_buf_def set_queue_def)
    then have "says u1 a (list_channels m) s" using x Some by (simp add: says_def)
    then show ?thesis using says_not_null says_str Some by auto
  qed (use x in simp)
  obtain ls where ls: "told (fd_by w) a u1 u2 ([], ls)" "(case x of
       None \<Rightarrow> \<exists>keys. each_once (dom (rooms (chat_of w))) keys \<and>
         ls = concat (map (\<lambda>key. case rooms (chat_of w) key of None \<Rightarrow> []
                            | Some r \<Rightarrow> [room_line (h_name (house_of w)) (person_of c) key r]) keys)
     | Some ch \<Rightarrow> ls = concat (map (named_room_lines (house_of w) (person_of c) (chat_of w)) (strtok_all ch (CHR '',''))))"
    using list_body_told [OF u(2) d(1) assms(3) s1, of "fd_by w"] unfolding d by blast
  have k2: "calm a w u2"
  proof -
    have "calm a u1 u2" using u(2)
      by (auto simp: list_one_def list_named_def server_get_channel_def elim!: rbind_InrE rfold_calm split: if_splits option.splits
          intro: push_reply_calm)
    then show ?thesis by (rule calm_trans [OF k1])
  qed
  obtain d2 where d2: "present a u2 d2" "server u2 = server w" using present_calm [OF speaker_present [OF assms(2)] k2] .
  note e = list_ends_send [OF sf(3,5)]
  have c2: "client_mem u2 a \<noteq> None" using present_facts(1) [OF d2(1)] by simp
  have "told (fd_by w) a w v ([], ([numeric (h_name (house_of w)) ''321'' (person_of c) ''Channel :Users Name''] @ ls) @
      [numeric (h_name (house_of w)) ''323'' (person_of c) '':End of /LIST''])"
    using told_more [OF told_more [OF push_reply_told [OF u(1) e(1) sf(2)] ls(1)] push_reply_told' [OF u(3) _ c2]] e(2)
    by (simp add: d2(2))
  then show ?thesis
    by (rule answeredI) (use ls(2) in \<open>auto simp: list_speech_def\<close>)
qed

text \<open>The names of a room.\<close>

lemma roll_members:
  assumes "world_ok w" and "env_ok e" and k: "channel_mem w ch = Some k"
  shows "roll (chat_of w) (r_people (room_of k))
    (map (\<lambda>m. case client_mem w (snd m) of None \<Rightarrow> [] | Some d \<Rightarrow> called (person_of d)) (iter_members e (members k)))"
proof -
  let ?ms = "iter_members e (members k)"
  have wf: "g_wf (members k)" using inv_channel(1) [OF assms(1) k] by (simp add: channel_ok_def)
  have s: "set ?ms = set (members k)" using assms(2) by (simp add: env_ok_def iteration_set)
  have "(case client_mem w (snd m) of None \<Rightarrow> [] | Some d \<Rightarrow> called (person_of d)) =
      (case folk (chat_of w) (fst m) of None \<Rightarrow> [] | Some q \<Rightarrow> called q)" if "m \<in> set ?ms" for m
  proof -
    have "(fst m, snd m) \<in> set (members k)" using that s by simp
    then obtain d where d: "client_mem w (snd m) = Some d" "clientId d = fst m" using member_client [OF assms(1) k] by metis
    then show ?thesis using chat_of_client [OF assms(1) d(1)] by simp
  qed
  then have "map (\<lambda>m. case client_mem w (snd m) of None \<Rightarrow> [] | Some d \<Rightarrow> called (person_of d)) ?ms =
      map (\<lambda>j. case folk (chat_of w) j of None \<Rightarrow> [] | Some q \<Rightarrow> called q) (map fst ?ms)" by simp
  with iter_each_once(1) [OF assms(2) wf] show ?thesis unfolding roll_def room_of_def by fastforce
qed

lemma names_told:
  assumes "push_reply a (Reply_RplNamReply e u c (server u) k) u = Inr v"
    and "push_reply a (Reply_RplEndOfNames c (server v) k) v = Inr v'"
    and "present a u d" and "client_ok c" and "person_of d = person_of c" and "env_ok e" and k: "channel_mem u ch = Some k"
  shows "\<exists>ns. told f a u v' ([], names_lines (h_name (house_of u)) (person_of c) (cstring (chan_name k)) ns) \<and>
    roll (chat_of u) (r_people (room_of k)) ns"
proof -
  note pf = present_facts [OF assms(3)] and pc = present_channel [OF assms(3) k]
  let ?ns = "map (\<lambda>m. case client_mem u (snd m) of None \<Rightarrow> [] | Some d \<Rightarrow> called (person_of d)) (iter_members e (members k))"
  have c1: "client_mem u a \<noteq> None" using pf(1) by simp
  note n = push_reply_next [OF assms(1) c1]
  have "sends (Reply_RplNamReply e u c (server u) k) (numeric (cstring (server_hostname (server u))) ''353'' (person_of c)
      (cstring (chan_name k) @ '' :'' @ joined ?ns))"
    by (rule Reply_RplNamReply_sends [OF assms(4) pf(4) pc(1) assms(6) pc(2) _ refl]) (use pc(3) in blast)
  from told_more [OF push_reply_told' [OF assms(1) this c1] push_reply_told' [OF assms(2) _ n(1)]]
  have "told f a u v' ([], names_lines (h_name (house_of u)) (person_of c) (cstring (chan_name k)) ?ns)"
    using topic_lines_send(4) [OF assms(4) pf(4) pc(1)] by (simp add: names_lines_def n(2))
  with roll_members [OF pf(5) assms(6) k] show ?thesis by blast
qed

lemma names_loop:
  assumes "rfold (names_one e a) ns u = Inr v" and "calm a w u" and "present a w c" and "env_ok e"
  shows "\<exists>ls. told f a u v ([], ls) \<and> names_answer (house_of w) (person_of c) (chat_of w) ns ls"
  using assms(1,2)
proof (induction ns arbitrary: u)
  case (Cons n ns)
  then obtain u' where u': "names_one e a n u = Inr u'" "rfold (names_one e a) ns u' = Inr v" by (auto elim!: rbind_InrE)
  obtain d where d: "present a u d" "person_of d = person_of c" "chat_of u = chat_of w" "house_of u = house_of w"
    "server u = server w" "channel_mem u = channel_mem w" using present_calm [OF assms(3) Cons.prems(2)] by metis
  note pf = present_facts [OF d(1)]
  show ?case
  proof (cases "g_lookup (channels (server w)) (lowercase n)")
    case None
    then have "u' = u" using u'(1) by (simp add: names_one_def server_get_channel_def d(5))
    with Cons.IH [OF _ Cons.prems(2)] u'(2) show ?thesis by (simp add: rooms_chat_of None)
  next
    case (Some ch)
    then obtain k where k: "channel_mem w ch = Some k" "cstring (chan_name k) = lowercase n"
      using present_facts(6) [OF assms(3)] unfolding table_ok_def by blast
    have ku: "channel_mem u ch = Some k" by (simp add: d(6) k(1))
    obtain x where x: "push_reply a (Reply_RplNamReply e u d (server u) k) u = Inr x"
      "push_reply a (Reply_RplEndOfNames d (server x) k) x = Inr u'"
      using u'(1) by (auto simp: names_one_def server_get_channel_def d(5) Some get_channel_def ku pf(7) elim!: rbind_InrE)
    obtain ks where ks: "told f a u u' ([], names_lines (h_name (house_of w)) (person_of c) (lowercase n) ks)"
      "roll (chat_of w) (r_people (room_of k)) ks"
      using names_told [OF x d(1) pf(2) refl assms(4) ku, of f] k(2) d(2-4) by auto
    have "calm a w u'" using Cons.prems(2) push_reply_calm [OF x(1)] push_reply_calm [OF x(2)] calm_trans by blast
    from Cons.IH [OF u'(2) this] obtain ls where "told f a u' v ([], ls)"
      "names_answer (house_of w) (person_of c) (chat_of w) ns ls" by blast
    with told_more [OF ks(1)] ks(2) show ?thesis
      by (intro exI [of _ "names_lines (h_name (house_of w)) (person_of c) (lowercase n) ks @ ls"])
        (auto simp: rooms_chat_of(2) [OF Some k(1)])
  qed
qed simp

lemma handler_names_answered:
  assumes "handler_names e a m w = Inr (v, r)" and "speaker a w c" and "env_ok e"
    and x: "case x of None \<Rightarrow> names_channels m = None | Some s \<Rightarrow> says w a (names_channels m) s"
  shows "answered a w c (Cmd_names x) v"
proof (cases x)
  case None
  then have "told (fd_by w) a w v ([], [])" using assms(1) x by (simp add: handler_names_def)
  then show ?thesis by (rule answeredI) (simp add: None)
next
  case (Some s)
  then have s: "says w a (names_channels m) s" using x by simp
  have "rfold (names_one e a) (strtok_all s (CHR '','')) w = Inr v"
    using assms(1) says_str [OF s] says_not_null [OF s] by (auto simp: handler_names_def elim!: rbind_InrE)
  from names_loop [OF this calm_refl speaker_present [OF assms(2)] assms(3)] show ?thesis by (auto simp: Some)
qed

subsection \<open>PRIVMSG\<close>

lemma Handler_Privmsg_answered:
  assumes "Handler_Privmsg e a m w = Inr (v, r)" and sp: "speaker a w c" and "env_ok e" and m: "parse_err m = 0"
    and t: "says w a (privmsg_msgtarget m) t" and x: "says w a (privmsg_contents m) x" and len: "length t + length x \<le> 200"
  shows "answered a w c (Cmd_privmsg t x) v"
proof -
  note sf = speaker_facts [OF sp] and pf = present_facts [OF speaker_present [OF sp]]
  note ts = says_str [OF t] and nul = says_no_NUL [OF t]
  obtain q where q: "msg_ptr a (privmsg_contents m) w = Inr q" "cstr q = Inr x" using says_ptr [OF x] .
  let ?p = "person_of c" and ?h = "house_of w" and ?i = "clientId c"
  let ?text = "private_text (h_host ?h ?i) ?p t x"
  have pre: "take 1 t \<in> {''#'', ''+'', ''!'', ''&''} \<longleftrightarrow> room_prefix t" by (simp add: room_prefix_def)
  note run = assms(1) [unfolded Handler_Privmsg_def sf(8) rbind.simps m ts pre Let_def q(1)]
  show ?thesis
  proof (cases "room_prefix t")
    case True
    show ?thesis
    proof (cases "g_lookup (channels (server w)) t")
      case None
      then have "told (fd_by w) a w v ([], [])" using run True by simp
      then show ?thesis by (rule answeredI) (simp add: privmsg_speech_def True rooms_chat_of(1) [OF None])
    next
      case (Some ch)
      then obtain k where k: "channel_mem w ch = Some k" "cstring (chan_name k) = t" using pf(6) unfolding table_ok_def by blast
      have name: "cstr (chan_name k) = Inr t"
        using channel_strings(1) [OF present_channel(1) [OF speaker_present [OF sp] k(1)]] k(2) by simp
      obtain y where y: "Message_Privmsg c (chan_name k) q = Inr y" "channel_send_message e ch y ?i w = Inr v"
        using run True Some by (auto simp: channel_sendall_privmsg_def get_channel_def k(1) sf(8) elim!: rbind_InrE)
      have "resp_bytes y = Inr ?text"
        using sends_optional [OF Message_Privmsg_sends [OF sf(3,4) name q(2) len] y(1)] by (simp add: pf(9))
      from channel_send_message_told [OF y(2) this sf(6) assms(3) k(1) _ sf(2) refl refl] sf(9) obtain os where
        "told (fd_by w) a w v (os, [])" "tells (r_people (room_of k) - {?i}) ?text os" by blast
      then show ?thesis
        by (intro exI [of _ "(os, [])"]) (simp add: privmsg_speech_def True rooms_chat_of(2) [OF Some k(1)])
    qed
  next
    case False
    show ?thesis
    proof (cases "g_lookup (nicks (server w)) t")
      case None
      then have "rbind (push_reply a (Reply_ErrNoSuchNick c (lit t)) w) (\<lambda>w. Inr (w, -1)) = Inr (v, r)"
        using run False by simp
      from reply_told [OF this Reply_ErrNoSuchNick_sends [OF sf(3) nul] sf(2)] len show ?thesis
        by (intro answeredI) (auto simp: privmsg_speech_def False nick_taken_iff [OF sf(6)] None)
    next
      case lk: (Some j)
      obtain b d where d: "g_lookup (clients (server w)) j = Some b" "client_mem w b = Some d" "client_ok d" "modest d"
        "folk (chat_of w) j = Some (person_of d)" "p_nick (person_of d) = Some t" "j \<noteq> 0" "clientId d = j"
        using nick_person [OF sp lk] .
      have lt: "cstr (lit t) = Inr t" using nul by simp
      from run False obtain y u where y: "Message_Privmsg c (lit t) q = Inr y" and u: "Client_Send b y w = Inr u"
        and rest: "rbind (get_client u b) (\<lambda>tc. if away tc then rbind (get_client u a) (\<lambda>c.
            rbind (push_reply a (format_rpl_away c (server u) (nickname tc) (away_message tc)) u) (\<lambda>w. Inr (w, 0)))
          else Inr (u, 0)) = Inr (v, r)"
        using d(7) by (auto simp: lk d(1) elim!: rbind_InrE)
      have "resp_bytes y = Inr ?text"
        using sends_optional [OF Message_Privmsg_sends [OF sf(3,4) lt q(2) len] y] by (simp add: pf(9))
      from Client_Send_told(1) [OF u this d(2) sf(9), of "fd_by w" j] fd_of_client [OF sf(6) d(2)]
      have tu: "told (fd_by w) a w u ([(j, ?text)], [])" by (simp add: d(8))
      have ku: "calm a w u" by (rule Client_Send_calm [OF u])
      obtain d' where d': "client_mem u b = Some d'" "core d' = core d" using quiet_client_mem [OF calm_quiet [OF ku] d(2)] by blast
      obtain c' where c': "present a u c'" "person_of c' = ?p" "server u = server w"
        using present_calm [OF speaker_present [OF sp] ku] .
      note pu = present_facts [OF c'(1)]
      let ?notice = "case p_away (person_of d) of None \<Rightarrow> [] | Some m \<Rightarrow> [numeric (h_name ?h) ''301'' ?p (t @ '' :'' @ m)]"
      have "told (fd_by w) a u v ([], ?notice)"
      proof (cases "away d'")
        case False
        then show ?thesis using rest d' core_eqD(9) [OF d'(2)] by (simp add: get_client_def person_of_def)
      next
        case True
        then have away: "p_away (person_of d) = Some (cstring (away_message d))"
          using core_eqD(9) [OF d'(2)] by (simp add: person_of_def)
        have same: "nickname d' = nickname d" "away_message d' = away_message d" using core_eqD(5,10) [OF d'(2)] by simp_all
        have am: "cstr (away_message d) = Inr (cstring (away_message d))" "length (cstring (away_message d)) \<le> 200"
          using d(3,4) by (auto simp: client_ok_def modest_def intro: array_ok_cstr)
        have "called (person_of d) = t" using d(6) by (simp add: called_def)
        then have nk: "cstr (nickname d) = Inr t" "length t \<le> 9"
          using person_strings(1) [OF d(3)] person_lengths(1) [OF d(3)] by simp_all
        have "rbind (push_reply a (format_rpl_away c' (server u) (nickname d) (away_message d)) u) (\<lambda>w. Inr (w, 0)) = Inr (v, r)"
          using rest True d'(1) same pu(7) by (simp add: get_client_def)
        from reply_told [OF this away_lines_send(3) [OF pu(2,4) nk am] pu(1)] show ?thesis by (simp add: away c'(2,3))
      qed
      from told_trans [OF tu this] have "told (fd_by w) a w v ([(j, ?text)], ?notice)" by (simp add: then_says_def)
      then show ?thesis
        by (rule answeredI) (use d(5,6) in \<open>auto simp: privmsg_speech_def False nick_taken_iff [OF sf(6)] lk\<close>)
    qed
  qed
qed

lemma privmsg_errors_answered:
  assumes "Handler_Privmsg e a m w = Inr (v, r)" and "speaker a w c"
  shows "parse_err m = 411 \<Longrightarrow> answered a w c Cmd_privmsg_no_recipient v"
    and "parse_err m = 412 \<Longrightarrow> answered a w c Cmd_privmsg_no_text v"
proof -
  note sf = speaker_facts [OF assms(2)]
  show "answered a w c Cmd_privmsg_no_recipient v" if "parse_err m = 411"
  proof (rule answeredI)
    have "rbind (push_reply a (Reply_ErrNoRecipient c (lit ''PRIVMSG'')) w) (\<lambda>w. Inr (w, -1)) = Inr (v, r)"
      using assms(1) that by (simp add: Handler_Privmsg_def sf(8))
    then show "told (fd_by w) a w v ([], [coded ''411'' (called_or_star (person_of c)) '':No recipient given (PRIVMSG)''])"
      by (rule reply_told [OF _ Reply_ErrNoRecipient_sends [OF sf(3)] sf(2)])
  qed simp
  show "answered a w c Cmd_privmsg_no_text v" if "parse_err m = 412"
  proof (rule answeredI)
    have "rbind (push_reply a (Reply_ErrNoTextToSend c) w) (\<lambda>w. Inr (w, -1)) = Inr (v, r)"
      using assms(1) that by (simp add: Handler_Privmsg_def sf(8))
    then show "told (fd_by w) a w v ([], [coded ''412'' (called_or_star (person_of c)) '':No text to send''])"
      by (rule reply_told [OF _ Reply_ErrNoTextToSend_sends [OF sf(3)] sf(2)])
  qed simp
qed

end
