(* ===== verification/SpeechRefined.thy ===== *)
theory SpeechRefined
  imports SpeechAsked
begin

text \<open>
  The handlers say what \<open>Speech\<close> says, second part: NICK, USER and AWAY, and commands with too few
  parameters.
\<close>

subsection \<open>People\<close>

lemma sends_push: "sends reply s \<Longrightarrow> reply = Inr r \<Longrightarrow> client_mem w a = Some c \<Longrightarrow> told f a w (push_tail a r w) ([], [s])"
  by (rule push_tail_told) (auto dest: sends_optional)

lemma TryRegister_told:
  assumes "rbind (Client_TryRegister a u) (\<lambda>(w, r). Inr (push_optional a r w, n)) = Inr (v, m)" and "present a u c"
  shows "told f a u v ([], if \<not> registered c \<and> receivedUser c \<and> receivedNick c
    then [welcome_line (cstring (client_hostname c)) (person_of c)] else [])"
proof -
  note pf = present_facts [OF assms(2)]
  from assms(1) obtain x q where x: "Client_TryRegister a u = Inr (x, q)" "v = push_optional a q x"
    by (auto elim!: rbind_InrE)
  from x(1) show ?thesis
  proof (cases rule: Client_TryRegister_cases)
    case (no d)
    then show ?thesis using x(2) pf(1) by (auto simp: push_optional_def)
  next
    case (yes d)
    have d: "d = c" using yes(1) pf(1) by simp
    let ?c = "c\<lparr>registered := True\<rparr>"
    from yes(5) obtain y where y: "Reply_RplWelcome ?c = Inr y" "q = Some y" by (auto simp: d)
    have ok: "client_ok ?c" "modest ?c" using pf(2,3) yes(3,4) by (simp_all add: client_ok_def modest_def d)
    have p: "person_of ?c = person_of c" by (simp add: person_of_def)
    have m: "told f a u x ([], [])"
      by (rule told_mute) (simp_all add: yes(6) queue_upd_client)
    have "client_mem x a = Some ?c" using yes(1) by (simp add: yes(6) d)
    from sends_push [OF Reply_RplWelcome_sends [OF ok] y(1) this]
    have "told f a x v ([], [welcome_line (cstring (client_hostname c)) (person_of c)])"
      by (simp add: x(2) y(2) push_optional_def p)
    with told_trans [OF m] yes(2-4) show ?thesis by (simp add: d)
  qed
qed

text \<open>Registration is complete when both commands were accepted.\<close>

lemma registered_signed:
  assumes "world_ok w" and "complete_but {} w" and "client_mem w a = Some c"
  shows "registered c \<longleftrightarrow> receivedNick c \<and> receivedUser c" "registered c \<longleftrightarrow> signed_in (person_of c)"
proof -
  have "client_ok (core c)" by (rule inv_client(1) [OF assms(1) view_SomeI [OF assms(3)]])
  moreover have "receivedNick (core c) \<Longrightarrow> receivedUser (core c) \<Longrightarrow> registered (core c)"
    using assms(2) view_SomeI [OF assms(3)] unfolding complete_but_def by blast
  ultimately show r: "registered c \<longleftrightarrow> receivedNick c \<and> receivedUser c" by (auto simp: client_ok_def)
  show "registered c \<longleftrightarrow> signed_in (person_of c)" by (simp add: r signed_in_def person_of_def)
qed

lemma Handler_Nick_answered:
  assumes "Handler_Nick a m w = Inr (v, r)" and sp: "speaker a w c" and "complete_but {} w"
    and m: "parse_err m = 0" "says w a (nick_nick m) n" and len: "length n \<le> 9"
  shows "answered a w c (Cmd_nick n) v"
proof -
  note sf = speaker_facts [OF sp] and pf = present_facts [OF speaker_present [OF sp]]
  note ns = says_str [OF m(2)] and nul = says_no_NUL [OF m(2)]
  let ?p = "person_of c"
  from assms(1) m(1) ns obtain u q res where u: "Client_TryChangeNick a n w = Inr (u, q, res)"
    and rest: "(if res = -1 then Inr (push_optional a q u, -1)
          else rbind (Client_TryRegister a u) (\<lambda>(w, r). Inr (push_optional a r w, 0))) = Inr (v, r)"
    by (auto simp: Handler_Nick_def sf(8) elim!: rbind_InrE)
  have au: "able a u" using Client_TryChangeNick_ok [OF sf(1) nul len] u by (simp add: ok_def)
  from u show ?thesis
  proof (cases rule: Client_TryChangeNick_cases)
    case in_use
    then obtain y where y: "Reply_ErrNicknameInUse c (lit n) = Inr y" "q = Some y"
      using u by (auto simp: Client_TryChangeNick_def sf(8) g_contains_lookup elim!: rbind_InrE)
    have "v = push_tail a y w" using rest in_use(1,2) y(2) by (simp add: push_optional_def)
    then have "told (fd_by w) a w v ([], [coded ''433'' (called_or_star ?p) (n @ '' :Nickname is already in use'')])"
      using sends_push [OF Reply_ErrNicknameInUse_sends [OF sf(3) nul len] y(1) sf(2)] by simp
    then show ?thesis by (rule answeredI) (simp add: nick_answer_def nick_taken_iff [OF sf(6)] in_use(4))
  next
    case (changed d nn ks)
    have d: "d = c" using changed(4) sf(2) by simp
    let ?c = "c\<lparr>nickname := nn, receivedNick := True\<rparr>"
    have pu: "present a u ?c" using au sf(2) able_server [OF au] by (simp add: present_def changed(7))
    have "cstring nn = n" using cstr_cstring [OF strcpy_cstr [OF changed(5) nul]] .
    then have p: "person_of ?c = ?p\<lparr>p_nick := Some n\<rparr>" by (simp add: person_of_def)
    have m: "told (fd_by w) a w u ([], [])" by (rule told_mute) (simp_all add: changed(7) queue_upd_client)
    have t: "told (fd_by w) a u v ([], if \<not> registered ?c \<and> receivedUser ?c \<and> receivedNick ?c
        then [welcome_line (cstring (client_hostname ?c)) (person_of ?c)] else [])"
      by (rule TryRegister_told [OF _ pu]) (use rest changed(1) in simp)
    have "(\<not> registered ?c \<and> receivedUser ?c \<and> receivedNick ?c) \<longleftrightarrow> p_nick ?p = None \<and> p_user ?p \<noteq> None"
      using registered_signed(1) [OF sf(6) assms(3) sf(2)] by (simp add: person_of_def)
    moreover have "\<not> nick_taken n (chat_of w)" using nick_taken_iff [OF sf(6)] changed(3) by simp
    moreover have "told (fd_by w) a w v ([], if \<not> registered ?c \<and> receivedUser ?c \<and> receivedNick ?c
        then [welcome_line (cstring (client_hostname c)) (?p\<lparr>p_nick := Some n\<rparr>)] else [])"
      using told_trans [OF m t] by (simp add: p cong: if_cong)
    ultimately have "told (fd_by w) a w v ([], nick_answer (house_of w) (clientId c) ?p n (chat_of w))"
      unfolding nick_answer_def pf(9) by (simp only: if_False simp_thms)
    then show ?thesis by (rule answeredI) simp
  qed
qed

lemma user_present:
  assumes sp: "speaker a w c" and s: "says w a p s" "says w a q t" and len: "length s + length t \<le> 200"
  defines "f \<equiv> \<lambda>c. c\<lparr>username := pad IRC_MSG_SIZE s, fullname := pad IRC_MSG_SIZE t, receivedUser := True\<rparr>"
  shows "present a (upd_client a f w) (f c)"
proof -
  note sf = speaker_facts [OF sp]
  note b = msg_str_bound [OF says_str [OF s(1)] sf(6)] msg_str_bound [OF says_str [OF s(2)] sf(6)]
  have "array_ok IRC_MSG_SIZE (pad IRC_MSG_SIZE s)" "array_ok IRC_MSG_SIZE (pad IRC_MSG_SIZE t)"
    using b by (simp_all add: array_ok_pad)
  then have "world_ok (upd_client a f w)"
    using inv_client(1) [OF sf(6)] by (intro inv_upd_client [OF sf(6)]) (auto simp: client_ok_def f_def)
  moreover have "modest (f d)" if "client_mem w a = Some d" for d
    using sane_client [OF sf(7) that] b len by (simp add: modest_def cstring_pad f_def)
  then have "modest d" if "view (upd_client a f w) x = Some d" for x d
    using modest_views [OF sf(7), of f a x d] that by (simp add: f_def)
  then have "sane (upd_client a f w)" by (intro sane_change [OF sf(7)]) simp_all
  ultimately show ?thesis using sf(2) by (simp add: present_def)
qed

lemma Handler_User_answered:
  assumes "Handler_User a m w = Inr (v, r)" and sp: "speaker a w c" and "complete_but {} w"
    and m: "parse_err m = 0" "says w a (user_username m) s" "says w a (user_fullname m) t"
    and len: "length s + length t \<le> 200"
  shows "answered a w c (Cmd_user s t) v"
proof -
  note sf = speaker_facts [OF sp] and pf = present_facts [OF speaker_present [OF sp]]
  note reg = registered_signed [OF sf(6) assms(3) sf(2)]
  let ?p = "person_of c"
  show ?thesis
  proof (cases "registered c")
    case True
    then have "rbind (push_reply a (Reply_ErrAlreadyRegistered c) w) (\<lambda>w. Inr (w, -1)) = Inr (v, r)"
      using assms(1) m(1) by (simp add: Handler_User_def sf(8))
    from reply_told [OF this Reply_ErrAlreadyRegistered_sends [OF sf(3)] sf(2)] True show ?thesis
      by (intro answeredI) (auto simp: user_answer_def reg(2))
  next
    case False
    note b = msg_str_bound [OF says_str [OF m(2)] sf(6)] msg_str_bound [OF says_str [OF m(3)] sf(6)]
    have l: "length (username c) = IRC_MSG_SIZE" "length (fullname c) = IRC_MSG_SIZE"
      using sf(3) by (simp_all add: client_ok_def array_ok_def)
    let ?f = "\<lambda>c. c\<lparr>username := pad IRC_MSG_SIZE s, fullname := pad IRC_MSG_SIZE t, receivedUser := True\<rparr>"
    let ?u = "upd_client a ?f w"
    have rest: "rbind (Client_TryRegister a ?u) (\<lambda>(w, r). Inr (push_optional a r w, 0)) = Inr (v, r)"
      using assms(1) m(1) False says_str [OF m(2)] says_str [OF m(3)] strncpy_pad [OF b(2,1) l(1)] strncpy_pad [OF b(4,3) l(2)]
      by (simp add: Handler_User_def sf(8))
    have pu: "present a ?u (?f c)" by (rule user_present [OF sp m(2,3) len])
    have p: "person_of (?f c) = ?p\<lparr>p_user := Some (s, t)\<rparr>" using b by (simp add: person_of_def cstring_pad)
    have m: "told (fd_by w) a w ?u ([], [])" by (rule told_mute) (simp_all add: queue_upd_client)
    note t = TryRegister_told [OF rest pu]
    have "\<not> signed_in ?p" using False reg(2) by simp
    moreover have "receivedNick c \<longleftrightarrow> p_nick ?p \<noteq> None" by (simp add: person_of_def)
    ultimately have "told (fd_by w) a w v ([], user_answer (house_of w) (clientId c) ?p s t)"
      using told_trans [OF m t] False by (simp add: user_answer_def p pf(9) cong: if_cong)
    then show ?thesis by (rule answeredI) simp
  qed
qed

lemma handler_away_answered:
  assumes "handler_away a m w = Inr (v, r)" and sp: "speaker a w c"
    and m: "case x of None \<Rightarrow> away_text m = None | Some s \<Rightarrow> says w a (away_text m) s"
  shows "answered a w c (Cmd_away x) v"
proof -
  note sf = speaker_facts [OF sp]
  note l = away_lines_send [OF sf(3,5)]
  have "told (fd_by w) a w v ([], [away_answer (house_of w) (person_of c) x])"
  proof (cases x)
    case None
    let ?u = "upd_client a (\<lambda>c. c\<lparr>away := False\<rparr>) w"
    have "rbind (push_reply a (format_rpl_unaway c (server w)) ?u) (\<lambda>w. Inr (w, 0)) = Inr (v, r)"
      using assms(1) m by (simp add: None handler_away_def client_unset_away_def sf(8))
    moreover have "client_mem ?u a = Some (c\<lparr>away := False\<rparr>)" using sf(2) by simp
    ultimately have "told (fd_by w) a ?u v ([], [away_answer (house_of w) (person_of c) x])"
      unfolding None away_answer_def option.case house_simps by (rule reply_told [OF _ l(1)])
    moreover have "told (fd_by w) a w ?u ([], [])" by (rule told_mute) (simp_all add: queue_upd_client)
    ultimately show ?thesis using told_trans by fastforce
  next
    case (Some s)
    then have s: "away_text m \<noteq> None" "msg_str a (away_text m) w = Inr s" using m says_str says_not_null by auto
    obtain am where "strncpy (away_message c) s IRC_MSG_SIZE = Inr am"
      and run: "rbind (push_reply a (format_rpl_nowaway c (server w)) (upd_client a (\<lambda>c. c\<lparr>away := True, away_message := am\<rparr>) w))
        (\<lambda>w. Inr (w, 0)) = Inr (v, r)"
      using assms(1) s by (auto simp: handler_away_def client_set_away_def sf(8) elim!: rbind_InrE)
    let ?u = "upd_client a (\<lambda>c. c\<lparr>away := True, away_message := am\<rparr>) w"
    have "client_mem ?u a = Some (c\<lparr>away := True, away_message := am\<rparr>)" using sf(2) by simp
    with run have "told (fd_by w) a ?u v ([], [away_answer (house_of w) (person_of c) x])"
      unfolding Some away_answer_def option.case house_simps by (rule reply_told [OF _ l(2)])
    moreover have "told (fd_by w) a w ?u ([], [])" by (rule told_mute) (simp_all add: queue_upd_client)
    ultimately show ?thesis using told_trans by fastforce
  qed
  then show ?thesis by (rule answeredI) simp
qed

lemma few_answered:
  assumes "speaker a w c"
  shows "Handler_Nick a m w = Inr (v, r) \<Longrightarrow> parse_err m = 431 \<Longrightarrow> answered a w c Cmd_nick_missing v"
    and "Handler_User a m w = Inr (v, r) \<Longrightarrow> parse_err m = 461 \<Longrightarrow> answered a w c Cmd_user_few v"
    and "handler_join e a m w = Inr (v, r) \<Longrightarrow> parse_err m = 461 \<Longrightarrow> answered a w c Cmd_join_few v"
    and "handler_topic a m w = Inr (v, r) \<Longrightarrow> parse_err m = 461 \<Longrightarrow> answered a w c Cmd_topic_few v"
proof -
  note sf = speaker_facts [OF assms]
  have need: "told (fd_by w) a w v ([], [more_params (person_of c) cmd])"
    if "rbind (push_reply a (Reply_ErrNeedMoreParams c (lit cmd)) w) (\<lambda>w. Inr (w, -1)) = Inr (v, r)" "NUL \<notin> set cmd" "length cmd \<le> 10"
    for cmd
    by (rule reply_told [OF that(1) Reply_ErrNeedMoreParams_sends [OF sf(3) that(2,3)] sf(2)])
  show "answered a w c Cmd_nick_missing v" if "Handler_Nick a m w = Inr (v, r)" "parse_err m = 431"
  proof (rule answeredI)
    have "rbind (push_reply a (Reply_ErrNoNicknameGiven c) w) (\<lambda>w. Inr (w, -1)) = Inr (v, r)"
      using that by (simp add: Handler_Nick_def sf(8))
    then show "told (fd_by w) a w v ([], [coded ''431'' (called_or_star (person_of c)) '':No nickname given''])"
      by (rule reply_told [OF _ Reply_ErrNoNicknameGiven_sends [OF sf(3)] sf(2)])
  qed simp
  show "answered a w c Cmd_user_few v" if "Handler_User a m w = Inr (v, r)" "parse_err m = 461"
    by (rule answeredI [OF need [of "''USER''"]]) (use that in \<open>simp_all add: Handler_User_def sf(8)\<close>)
  show "answered a w c Cmd_join_few v" if "handler_join e a m w = Inr (v, r)" "parse_err m = 461"
    by (rule answeredI [OF need [of "''JOIN''"]]) (use that in \<open>simp_all add: handler_join_def sf(8)\<close>)
  show "answered a w c Cmd_topic_few v" if "handler_topic a m w = Inr (v, r)" "parse_err m = 461"
    by (rule answeredI [OF need [of "''TOPIC''"]]) (use that in \<open>simp_all add: handler_topic_def sf(8)\<close>)
qed

end
