(* ===== verification/Delivery.thy ===== *)
theory Delivery
  imports EndToEnd
begin

text \<open>
  A line of conversation from end to end: the bytes of a PRIVMSG to a channel arrive in one read and
  leave as the bytes written to the other members.
\<close>

definition channel_prefix :: "string \<Rightarrow> bool" where
  "channel_prefix t \<longleftrightarrow> take 1 t \<in> {''#'', ''+'', ''!'', ''&''}"

lemma privmsg_spec:
  assumes "word_ok t"
  shows "parse_spec (tokens (dropWhile (\<lambda>c. c = SP) (render [''PRIVMSG'', t] (Some x)))) = Cmd_privmsg t x"
proof -
  have ws: "\<forall>w\<in>set [''PRIVMSG'', t]. word_ok w" using assms by (simp add: word_ok_def)
  have "tokens (render [''PRIVMSG'', t] (Some x)) = [''PRIVMSG'', t, x]" using tokens_render [OF ws, of "Some x"] by simp
  moreover have "t \<noteq> []" using assms by (simp add: word_ok_def)
  ultimately show ?thesis by (simp add: parse_spec_def nonempty_arg_def first_arg_def)
qed

lemma ready_set_conn:
  assumes "ready w b" and "client_mem w a = Some c" and "conn_responses cn = conn_responses (conn c)"
  shows "ready (set_conn a cn w) b"
  using assms by (auto simp: ready_def idle_def split: if_splits)

lemma fd_of_set_conn:
  "client_mem w a = Some c \<Longrightarrow> conn_fd cn = conn_fd (conn c) \<Longrightarrow> fd_of (set_conn a cn w) b = fd_of w b"
  by (simp add: fd_of_def)

lemma Handler_HandleMessage_privmsg: "msg_type m = PRIVMSG \<Longrightarrow> Handler_HandleMessage e a m w = Handler_Privmsg e a m w"
  by (simp add: Handler_HandleMessage_def handlers2_def)

lemma set_conn_wire: "set_conn a x ((set_conn a y w)\<lparr>wire := ws\<rparr>) = set_conn a x (w\<lparr>wire := ws\<rparr>)"
  by (cases w, cases "client_mem w a") (auto simp: set_conn_def upd_client_def fun_eq_iff)

text \<open>
  C10: what a member says reaches the channel.  A client with nothing pending sends the line
  \<open>PRIVMSG <channel> :<text>\<close> in one read; the channel is in the table under the name as written, the
  members' queues are empty and the relayed text fits.  Then \<open>Client_HandleRead\<close> returns normally, the
  relayed text has been written once to the descriptor of every other member and to nobody else,
  and the world is otherwise unchanged, up to the buffers of the sender's connection, which has
  nothing pending again.
\<close>

theorem channel_line_delivered:
  assumes "env_ok e" and c: "client_mem w a = Some c" "drained (conn c)" "conn_responses (conn c) = []"
    and "named c n u h" and "word_ok t" and "channel_prefix t" and "is_line x"
    and len: "length (render [''PRIVMSG'', t] (Some x)) \<le> 510"
    and ch: "g_lookup (channels (server w)) t = Some ch" "channel_mem w ch = Some k" "cstr (chan_name k) = Inr kn"
    and ready: "\<forall>(i, b)\<in>set (members k). i \<noteq> clientId c \<longrightarrow> ready w b"
    and fits: "length (privmsg_text n u h kn x) \<le> IRC_MSG_SIZE"
  shows "\<exists>cn order. drained cn \<and> conn_frame (conn c) cn \<and>
     Client_HandleRead e (Read_bytes (''PRIVMSG '' @ t @ '' :'' @ x @ CRLF)) a w =
       Inr (set_conn a cn (w\<lparr>wire := wire w @ map (\<lambda>b. (fd_of w b, privmsg_text n u h kn x)) order\<rparr>), 0) \<and>
     mset order = image_mset snd (filter_mset (\<lambda>(i, b). i \<noteq> clientId c) (mset (members k)))"
proof -
  let ?l = "render [''PRIVMSG'', t] (Some x)"
  have l: "?l = ''PRIVMSG '' @ t @ '' :'' @ x" by simp
  have line: "is_line ?l" by (rule is_line_render) (use assms(6,8) in \<open>auto simp: word_ok_def\<close>)
  from line_read [OF c(1,2) line len, of e] obtain cn m ret where cn: "drained cn" "conn_frame (conn c) cn"
    and p: "denotes zero_message (conn_message cn) m ret (Cmd_privmsg t x)"
    and rest: "\<And>u r v d. ret \<noteq> -1 \<Longrightarrow> Handler_HandleMessage e a m (set_conn a cn w) = Inr (u, r) \<Longrightarrow>
       Client_TryEmptyBuffer a u = Inr v \<Longrightarrow> client_mem v a = Some d \<Longrightarrow> drained (conn d) \<Longrightarrow>
       \<exists>cn'. drained cn' \<and> conn_frame (conn d) cn' \<and>
         Client_HandleRead e (Read_bytes (?l @ CRLF)) a w = Inr (set_conn a cn' v, 0)"
    unfolding privmsg_spec [OF assms(6)] by blast
  let ?v = "set_conn a cn w" and ?c = "c\<lparr>conn := cn\<rparr>"
  have same: "conn_responses cn = conn_responses (conn c)" "conn_fd cn = conn_fd (conn c)"
    using cn(2) by (simp_all add: conn_frame_def)
  have v: "client_mem ?v a = Some ?c" using c(1) by simp
  have str: "msg_str a (privmsg_msgtarget m) ?v = Inr t" "msg_str a (privmsg_contents m) ?v = Inr x"
    by (rule msg_str_points [OF v], use p in simp)+
  have r: "\<forall>(i, b)\<in>set (members k). i \<noteq> clientId ?c \<longrightarrow> ready ?v b"
    using ready ready_set_conn [OF _ c(1) same(1)] by fastforce
  have nm: "named ?c n u h" using assms(5) by (simp add: named_def)
  have chv: "g_lookup (channels (server ?v)) t = Some ch" "channel_mem ?v ch = Some k" using ch by simp_all
  have pm: "parse_err m = 0" "msg_type m = PRIVMSG" "ret = 0" using p by simp_all
  from privmsg_delivers_to_channel [OF assms(1) v nm pm(1) str(1) assms(7) [unfolded channel_prefix_def] str(2)
      chv ch(3) r fits]
  obtain order where o: "Handler_Privmsg e a m ?v =
       Inr (?v\<lparr>wire := wire ?v @ map (\<lambda>b. (fd_of ?v b, privmsg_text n u h kn x)) order\<rparr>, 0)"
     "mset order = image_mset snd (filter_mset (\<lambda>(i, b). i \<noteq> clientId ?c) (mset (members k)))" by blast
  let ?out = "wire w @ map (\<lambda>b. (fd_of w b, privmsg_text n u h kn x)) order"
  let ?u = "?v\<lparr>wire := ?out\<rparr>"
  have hd: "Handler_HandleMessage e a m ?v = Inr (?u, 0)"
    using o(1) by (simp add: Handler_HandleMessage_privmsg [OF pm(2)] fd_of_set_conn [OF c(1) same(2)])
  have d: "client_mem ?u a = Some ?c" using v by simp
  have fl: "Client_TryEmptyBuffer a ?u = Inr ?u"
    by (rule Client_TryEmptyBuffer_idle [OF d]) (simp add: same(1) c(3))
  have "ret \<noteq> -1" "drained (conn ?c)" using pm(3) cn(1) by simp_all
  from rest [OF this(1) hd fl d this(2)] obtain cn' where cn': "drained cn'" "conn_frame cn cn'"
    "Client_HandleRead e (Read_bytes (?l @ CRLF)) a w = Inr (set_conn a cn' ?u, 0)" by auto
  have "Client_HandleRead e (Read_bytes (''PRIVMSG '' @ t @ '' :'' @ x @ CRLF)) a w = Inr (set_conn a cn' (w\<lparr>wire := ?out\<rparr>), 0)"
    using cn'(3) by (simp add: set_conn_wire)
  moreover have "conn_frame (conn c) cn'" using cn(2) cn'(2) by (rule conn_frame_trans)
  ultimately show ?thesis using cn'(1) o(2) by (intro exI [of _ cn'] exI [of _ order]) simp
qed

text \<open>Ann speaks, Bob, the only other member, hears it.\<close>

theorem channel_line_delivered_witness:
  "\<exists>cn. Client_HandleRead plain_env (Read_bytes (''PRIVMSG #c :hi all'' @ CRLF)) 0
       (set_conn 0 (zero_conn\<lparr>conn_fd := 11\<rparr>) (mini_world [])) =
     Inr (set_conn 0 cn ((set_conn 0 (zero_conn\<lparr>conn_fd := 11\<rparr>) (mini_world []))
       \<lparr>wire := [(12, ''ann!u@h PRIVMSG #c :hi all'' @ CRLF)]\<rparr>), 0)"
proof -
  let ?cn = "zero_conn\<lparr>conn_fd := 11\<rparr>"
  let ?w = "set_conn 0 ?cn (mini_world [])" and ?c = "(mini_client 1 ''ann'' [])\<lparr>conn := ?cn\<rparr>"
  let ?k = "mini_channel ''#c'' ''t'' [(1, 0), (2, 1)]"
  have c: "client_mem ?w 0 = Some ?c" by (simp add: mini_simps)
  have dr: "drained (conn ?c)" by (simp add: drained_def conn_wf_def zero_conn_def)
  have q: "conn_responses (conn ?c) = []" by (simp add: zero_conn_def)
  have nm: "named ?c ''ann'' ''u'' ''h''" using mini_named [of 1 "[]"] by (simp add: named_def)
  have t: "word_ok ''#c''" "channel_prefix ''#c''" "is_line ''hi all''"
    by (simp_all add: word_ok_def channel_prefix_def is_line_def)
  have len: "length (render [''PRIVMSG'', ''#c''] (Some ''hi all'')) \<le> 510" by simp
  have ch: "g_lookup (channels (server ?w)) ''#c'' = Some 7" "channel_mem ?w 7 = Some ?k"
    "cstr (chan_name ?k) = Inr ''#c''"
    by (simp_all add: mini_simps mini_server_def g_lookup_def) (simp add: mini_channel_def cstr_pad)
  have r: "\<forall>(i, b)\<in>set (members ?k). i \<noteq> clientId ?c \<longrightarrow> ready ?w b"
    using mini_simps(2) [of "[]"] by (simp add: mini_channel_def ready_def idle_def mini_client_strings)
  have id: "clientId ?c = 1" by (simp add: mini_client_strings)
  from channel_line_delivered [OF plain_env_ok c dr q nm t len ch r]
  obtain cn order where o: "Client_HandleRead plain_env (Read_bytes (''PRIVMSG '' @ ''#c'' @ '' :'' @ ''hi all'' @ CRLF)) 0 ?w =
      Inr (set_conn 0 cn (?w\<lparr>wire := wire ?w @ map (\<lambda>b. (fd_of ?w b, privmsg_text ''ann'' ''u'' ''h'' ''#c'' ''hi all'')) order\<rparr>), 0)"
    "mset order = image_mset snd (filter_mset (\<lambda>(i, b). i \<noteq> clientId ?c) (mset (members ?k)))"
    by (auto simp: privmsg_text_def CRLF_def)
  have "mset order = {#1#}" using o(2) id by (simp add: mini_channel_def)
  then have "order = [1]" by simp
  moreover have "fd_of ?w 1 = 12" using mini_simps(2) [of "[]"] by (simp add: fd_of_def mini_client_strings)
  ultimately have "Client_HandleRead plain_env (Read_bytes (''PRIVMSG '' @ ''#c'' @ '' :'' @ ''hi all'' @ CRLF)) 0 ?w =
      Inr (set_conn 0 cn (?w\<lparr>wire := [(12, ''ann!u@h PRIVMSG #c :hi all'' @ CRLF)]\<rparr>), 0)"
    using o(1) by (simp add: privmsg_text_def mini_simps)
  then show ?thesis by (intro exI [of _ cn]) simp
qed

end
