(* ===== verification/Joining.thy ===== *)
theory Joining
  imports Delivery Departed Faults ReplyBounds
begin

text \<open>
  JOIN from end to end: a line that names one channel, in a reachable state of the server.  The
  members hear of it, the client is greeted with the topic and the names, and when there was no such
  channel it is created.
\<close>

subsection \<open>What is written\<close>

definition nick_of :: "world \<Rightarrow> caddr \<Rightarrow> string" where
  "nick_of w b = (case client_mem w b of None \<Rightarrow> [] | Some d \<Rightarrow> cstring (nickname d))"

definition join_text :: "client_s \<Rightarrow> string \<Rightarrow> string" where
  "join_text c kn = '':'' @ cstring (nickname c) @ ''!'' @ cstring (username c) @ ''@'' @
     cstring (client_hostname c) @ '' JOIN '' @ kn @ CRLF"

definition server_prefix :: "server_s \<Rightarrow> string \<Rightarrow> client_s \<Rightarrow> string \<Rightarrow> string" where
  "server_prefix s code c kn = '':'' @ cstring (server_hostname s) @ '' '' @ code @ '' '' @ cstring (nickname c) @ '' '' @ kn"

text \<open>The client is sent JOIN, the topic if there is one, the names and the end of the names.\<close>

definition greeting :: "server_s \<Rightarrow> client_s \<Rightarrow> string \<Rightarrow> string \<Rightarrow> string list \<Rightarrow> string list" where
  "greeting s c kn topic names =
     [join_text c kn] @ (if topic = [] then [] else [server_prefix s ''332'' c kn @ '' :'' @ topic @ CRLF]) @
     [server_prefix s ''353'' c kn @ '' :'' @ joined names @ CRLF,
      server_prefix s ''366'' c kn @ '' :End of NAMES list'' @ CRLF]"

subsection \<open>Queueing several replies\<close>

definition push_all :: "caddr \<Rightarrow> response_s list \<Rightarrow> world \<Rightarrow> world" where
  "push_all a rs w = upd_client a (\<lambda>c. set_queue (conn_responses (conn c) @ rs) c) w"

lemma push_all_Nil: "client_mem w a = Some c \<Longrightarrow> push_all a [] w = w"
  by (cases w) (auto simp: push_all_def upd_client_def fun_upd_idem)

lemma push_tail_all [simp]: "push_tail a r (push_all a rs w) = push_all a (rs @ [r]) w"
  by (simp add: push_tail_def push_all_def upd_client_twice comp_def)

lemma push_tail_as_all: "push_tail a r w = push_all a [r] w"
  by (simp add: push_tail_def push_all_def)

lemma push_all_simps [simp]:
  "server (push_all a rs w) = server w" "channel_mem (push_all a rs w) = channel_mem w"
  "client_mem (push_all a rs w) b =
     (if b = a then map_option (\<lambda>c. set_queue (conn_responses (conn c) @ rs) c) (client_mem w a) else client_mem w b)"
  by (simp_all add: push_all_def)

lemma flush_push_all:
  assumes "client_mem w a = Some c" and "conn_responses (conn c) = []" and "\<forall>s\<in>set ss. length s \<le> IRC_MSG_SIZE"
  shows "Client_TryEmptyBuffer a (push_all a (map text_response ss) w) =
     Inr (w\<lparr>wire := wire w @ map (Pair (conn_fd (conn c))) ss\<rparr>)"
proof -
  let ?w = "push_all a (map text_response ss) w"
  have "client_mem ?w a = Some (set_queue (map text_response ss) c)" using assms(1,2) by simp
  from Client_TryEmptyBuffer_writes [OF this, of ss] all_bytes_text [OF assms(3)]
  have "Client_TryEmptyBuffer a ?w = Inr (flushed a (conn_fd (conn c)) ss ?w)" by simp
  also have "flushed a (conn_fd (conn c)) ss ?w = w\<lparr>wire := wire w @ map (Pair (conn_fd (conn c))) ss\<rparr>"
    using assms(1,2) by (cases w) (auto simp: flushed_def push_all_def upd_client_def fun_upd_idem)
  finally show ?thesis .
qed

subsection \<open>The greeting\<close>

lemma push_reply_text:
  "r = clipped s \<Longrightarrow> length s \<le> IRC_MSG_SIZE \<Longrightarrow> push_reply a r (push_all a rs w) = Inr (push_all a (rs @ [text_response s]) w)"
  by (simp add: push_reply_clipped)

text \<open>The bounds that the arrays give for the strings of a client, a channel and the server.\<close>

definition strings_ok :: "server_s \<Rightarrow> client_s \<Rightarrow> channel_s \<Rightarrow> bool" where
  "strings_ok s c k \<longleftrightarrow> array_ok 255 (server_hostname s) \<and> array_ok 10 (nickname c) \<and> array_ok 512 (username c) \<and>
     array_ok 64 (client_hostname c) \<and> array_ok 51 (chan_name k) \<and> array_ok 256 (chan_topic k) \<and>
     length (cstring (server_hostname s)) \<le> 63 \<and> length (cstring (username c)) \<le> 300"

lemma strings_bounds:
  assumes "strings_ok s c k"
  shows "length (cstring (server_hostname s)) \<le> 63" "length (cstring (nickname c)) \<le> 9"
    "length (cstring (username c)) \<le> 300" "length (cstring (client_hostname c)) \<le> 63"
    "length (cstring (chan_name k)) \<le> 50" "length (cstring (chan_topic k)) \<le> 255"
  using assms array_ok_length [of 10 "nickname c"] array_ok_length [of 64 "client_hostname c"]
    array_ok_length [of 51 "chan_name k"] array_ok_length [of 256 "chan_topic k"]
  by (simp_all add: strings_ok_def)

lemma strings_cstr:
  assumes "strings_ok s c k"
  shows "cstr (server_hostname s) = Inr (cstring (server_hostname s))" "cstr (nickname c) = Inr (cstring (nickname c))"
    "cstr (username c) = Inr (cstring (username c))" "cstr (client_hostname c) = Inr (cstring (client_hostname c))"
    "cstr (chan_name k) = Inr (cstring (chan_name k))" "cstr (chan_topic k) = Inr (cstring (chan_topic k))"
  using assms by (auto simp: strings_ok_def intro: array_ok_cstr)

lemma greeting_lengths:
  assumes "strings_ok s c k" and "\<forall>n\<in>set names. length n \<le> 9" and "length names \<le> 38"
  shows "\<forall>t\<in>set (greeting s c (cstring (chan_name k)) (cstring (chan_topic k)) names). length t \<le> IRC_MSG_SIZE"
proof -
  have "length (joined names) \<le> 379" using joined_length [OF assms(2)] assms(3) by linarith
  then show ?thesis using strings_bounds [OF assms(1)]
    by (auto simp: greeting_def join_text_def server_prefix_def CRLF_def)
qed

definition greet :: "env \<Rightarrow> caddr \<Rightarrow> client_s \<Rightarrow> channel_s \<Rightarrow> world \<Rightarrow> world run" where
  "greet e a c channel w =
     rbind (push_reply a (Format_MessageJoin c (chan_name channel)) w) (\<lambda>w.
     rbind (cstr (chan_topic channel)) (\<lambda>topic.
     rbind (if length topic \<noteq> 0 then push_reply a (Reply_RplTopic c (server w) channel) w else Inr w) (\<lambda>w.
     rbind (push_reply a (Reply_RplNamReply e w c (server w) channel) w) (\<lambda>w.
       push_reply a (Reply_RplEndOfNames c (server w) channel) w))))"

lemma join_one_greet:
  "join_one e a n w =
     rbind (case server_get_channel (server w) n of
              (_, Some ch) \<Rightarrow> rbind (channel_join e ch a w) (\<lambda>(w, _). Inr (w, ch))
            | (name, None) \<Rightarrow> server_create_channel name a w) (\<lambda>(w, ch).
     rbind (get_channel w ch) (\<lambda>channel. rbind (get_client w a) (\<lambda>c. greet e a c channel w)))"
  unfolding join_one_def greet_def ..

lemma Reply_RplEndOfNames_text:
  assumes "strings_ok s c k"
  shows "Reply_RplEndOfNames c s k = clipped (server_prefix s ''366'' c (cstring (chan_name k)) @ '' :End of NAMES list'' @ CRLF)"
  unfolding Reply_RplEndOfNames_def FMT_RPL_ENDOFNAMES_def
  by (rule snprintf_clipped) (simp add: strings_cstr [OF assms] server_prefix_def CRLF_def)

lemma Reply_RplNamReply_text:
  assumes "strings_ok s c k" and "length (members k) \<le> 38" and "env_ok e"
    and live: "\<forall>m\<in>set (members k). \<exists>d. client_mem w (snd m) = Some d \<and> array_ok 10 (nickname d)"
    and names: "names = map (\<lambda>m. nick_of w (snd m)) (iter_members e (members k))"
  shows "Reply_RplNamReply e w c s k =
     Inr (text_response (server_prefix s ''353'' c (cstring (chan_name k)) @ '' :'' @ joined names @ CRLF))"
proof -
  let ?ms = "iter_members e (members k)" and ?acc = "server_prefix s ''353'' c (cstring (chan_name k)) @ '' :''"
  have m: "set ?ms = set (members k)" "length ?ms \<le> 38"
    using assms(2,3) by (simp_all add: env_ok_def iteration_set iteration_length)
  have d: "\<forall>m\<in>set ?ms. \<exists>d. client_mem w (snd m) = Some d \<and> cstr (nickname d) = Inr (nick_of w (snd m))"
    using live m(1) by (fastforce simp: nick_of_def array_ok_cstr)
  have l9: "\<forall>n\<in>set names. length n \<le> 9"
    using live m(1) array_ok_length [of 10] by (fastforce simp: names nick_of_def)
  then have j: "length (joined names) \<le> 379" using joined_length [of names] m(2) by (simp add: names)
  have acc: "length ?acc \<le> 131" using strings_bounds [OF assms(1)] by (simp add: server_prefix_def)
  have "sprintf_at [] FMT_RPL_NAMREPLY_PARTIAL [S (server_hostname s), S (nickname c), S (chan_name k)] = Inr ?acc"
    using acc by (simp add: sprintf_at_def FMT_RPL_NAMREPLY_PARTIAL_def strings_cstr [OF assms(1)] server_prefix_def)
  moreover have "rfold (namreply_step w) ?ms (?acc, True) = Inr (?acc @ joined names, ?ms = [])"
    using namreply_loop [OF d, of ?acc True] acc j by (simp add: names)
  moreover have "sprintf_at (?acc @ joined names) CRLF [] = Inr (?acc @ joined names @ CRLF)"
    using acc j by (simp add: sprintf_at_def CRLF_def)
  ultimately show ?thesis by (simp add: Reply_RplNamReply_def)
qed

lemma greet_text:
  assumes c: "client_mem w a = Some c" "conn_responses (conn c) = []" and so: "strings_ok (server w) c k"
    and "length (members k) \<le> 38" and "env_ok e"
    and live: "\<forall>m\<in>set (members k). \<exists>d. client_mem w (snd m) = Some d \<and> array_ok 10 (nickname d)"
    and names: "names = map (\<lambda>m. nick_of w (snd m)) (iter_members e (members k))"
  shows "greet e a c k w =
     Inr (push_all a (map text_response (greeting (server w) c (cstring (chan_name k)) (cstring (chan_topic k)) names)) w)"
proof -
  let ?kn = "cstring (chan_name k)" and ?t = "cstring (chan_topic k)" and ?s = "server w"
  note b = strings_bounds [OF so] and cs = strings_cstr [OF so]
  have w: "w = push_all a [] w" by (rule push_all_Nil [OF c(1), symmetric])
  have jt: "push_reply a (Format_MessageJoin c (chan_name k)) w = Inr (push_all a [text_response (join_text c ?kn)] w)"
    by (subst (1) w, subst push_reply_text [where s = "join_text c ?kn"])
      (use b in \<open>simp_all add: Format_MessageJoin_text cs join_text_def CRLF_def\<close>)
  let ?tt = "server_prefix ?s ''332'' c ?kn @ '' :'' @ ?t @ CRLF"
  have tt: "push_reply a (Reply_RplTopic c ?s k) (push_all a rs w) = Inr (push_all a (rs @ [text_response ?tt]) w)" for rs
    by (rule push_reply_text) (use b in \<open>simp_all add: Reply_RplTopic_text cs server_prefix_def CRLF_def\<close>)
  have nick: "nick_of (push_all a rs w) x = nick_of w x" for rs x
    using c(1) by (simp add: nick_of_def split: option.split)
  let ?nt = "server_prefix ?s ''353'' c ?kn @ '' :'' @ joined names @ CRLF"
  have nt: "push_reply a (Reply_RplNamReply e (push_all a rs w) c ?s k) (push_all a rs w) =
      Inr (push_all a (rs @ [text_response ?nt]) w)" for rs
  proof -
    have "\<forall>m\<in>set (members k). \<exists>d. client_mem (push_all a rs w) (snd m) = Some d \<and> array_ok 10 (nickname d)"
      using live c(1) by fastforce
    from Reply_RplNamReply_text [OF so assms(4,5) this, of names] show ?thesis
      by (simp add: names nick push_reply_def)
  qed
  let ?et = "server_prefix ?s ''366'' c ?kn @ '' :End of NAMES list'' @ CRLF"
  have et: "push_reply a (Reply_RplEndOfNames c ?s k) (push_all a rs w) = Inr (push_all a (rs @ [text_response ?et]) w)" for rs
    by (rule push_reply_text [OF Reply_RplEndOfNames_text [OF so]]) (use b in \<open>simp add: server_prefix_def CRLF_def\<close>)
  show ?thesis
    by (cases "?t = []") (simp_all add: greet_def jt cs(6) tt nt et greeting_def)
qed

subsection \<open>The handler\<close>

lemma strtok_single:
  assumes "word_ok ch" and "CHR '','' \<notin> set ch"
  shows "strtok_all ch (CHR '','') = [ch]"
proof -
  have t: "takeWhile (\<lambda>c. c \<noteq> CHR '','') ch = ch" and d: "dropWhile (\<lambda>c. c \<noteq> CHR '','') ch = []"
    using assms(2) by (auto simp: takeWhile_eq_all_conv dropWhile_eq_Nil_conv)
  have s: "dropWhile (\<lambda>c. c = CHR '','') ch = ch"
    using assms by (cases ch) (auto simp: word_ok_def)
  have "strtok_r ch (CHR '','') = Some (ch, [])"
    using assms(1) unfolding strtok_r_def Let_def s t d by (simp add: word_ok_def)
  moreover have "strtok_r [] (CHR '','') = None" by (simp add: strtok_r_def)
  ultimately show ?thesis
    by (simp add: strtok_all.simps [of ch] strtok_all.simps [of "[]"])
qed

lemma join_spec:
  assumes "word_ok ch" and "ch \<noteq> ''0''"
  shows "parse_spec (tokens (dropWhile (\<lambda>c. c = SP) (''JOIN '' @ ch))) = Cmd_join ch"
proof -
  have "word_ok ''JOIN''" by (simp add: word_ok_def)
  then have "tokens (''JOIN '' @ ch) = [''JOIN'', ch]" using tokens_render [of "[''JOIN'', ch]" None] assms(1) by simp
  moreover have "ch \<noteq> []" using assms(1) by (simp add: word_ok_def)
  ultimately show ?thesis using assms(2) by (simp add: parse_spec_def nonempty_arg_def)
qed

text \<open>From the line to the state: what \<open>join_one\<close> makes of the world is what the read leaves.\<close>

lemma join_line:
  assumes c: "client_mem w a = Some c" "drained (conn c)" "conn_responses (conn c) = []"
    and ch: "word_ok ch" "CHR '','' \<notin> set ch" "ch \<noteq> ''0''" "length ch \<le> 500"
    and v: "client_mem v a = Some c"
    and join: "\<And>cn. drained cn \<Longrightarrow> conn_frame (conn c) cn \<Longrightarrow>
       join_one e a ch (set_conn a cn w) = Inr (push_all a (map text_response ss) (set_conn a cn v))"
    and len: "\<forall>s\<in>set ss. length s \<le> IRC_MSG_SIZE"
  shows "\<exists>cn. drained cn \<and> conn_frame (conn c) cn \<and>
     Client_HandleRead e (Read_bytes (''JOIN '' @ ch @ CRLF)) a w =
       Inr (set_conn a cn (v\<lparr>wire := wire v @ map (Pair (conn_fd (conn c))) ss\<rparr>), 0)"
proof -
  let ?l = "''JOIN '' @ ch"
  have line: "is_line ?l" using word_is_line [OF ch(1)] ch(1) by (auto simp: is_line_def find_crlf_Cons word_ok_def)
  have "length ?l \<le> 510" using ch(4) by simp
  from line_read [OF c(1,2) line this, of e] obtain cn m ret where cn: "drained cn" "conn_frame (conn c) cn"
    and p: "denotes zero_message (conn_message cn) m ret (Cmd_join ch)"
    and rest: "\<And>u r v d. ret \<noteq> -1 \<Longrightarrow> Handler_HandleMessage e a m (set_conn a cn w) = Inr (u, r) \<Longrightarrow>
       Client_TryEmptyBuffer a u = Inr v \<Longrightarrow> client_mem v a = Some d \<Longrightarrow> drained (conn d) \<Longrightarrow>
       \<exists>cn'. drained cn' \<and> conn_frame (conn d) cn' \<and>
         Client_HandleRead e (Read_bytes (?l @ CRLF)) a w = Inr (set_conn a cn' v, 0)"
    unfolding join_spec [OF ch(1,3)] by blast
  have fr: "conn_responses cn = []" "conn_fd cn = conn_fd (conn c)" using cn(2) c(3) by (simp_all add: conn_frame_def)
  have cw: "client_mem (set_conn a cn w) a = Some (c\<lparr>conn := cn\<rparr>)" using c(1) by simp
  have cv: "client_mem (set_conn a cn v) a = Some (c\<lparr>conn := cn\<rparr>)" using v by simp
  have ms: "msg_str a (join_channels m) (set_conn a cn w) = Inr ch"
    by (rule msg_str_points [OF cw]) (use p in simp)
  have jc: "join_channels m \<noteq> None" using p by (auto simp: points_def)
  have hd: "Handler_HandleMessage e a m (set_conn a cn w) = Inr (push_all a (map text_response ss) (set_conn a cn v), 0)"
    using p ms jc join [OF cn] get_client_mem [OF cw]
    by (simp add: Handler_HandleMessage_def handlers2_def handler_join_def strtok_single [OF ch(1,2)])
  let ?x = "(set_conn a cn v)\<lparr>wire := wire v @ map (Pair (conn_fd (conn c))) ss\<rparr>"
  have fl: "Client_TryEmptyBuffer a (push_all a (map text_response ss) (set_conn a cn v)) = Inr ?x"
    using flush_push_all [OF cv _ len] fr by simp
  have "ret \<noteq> -1" "drained (conn (c\<lparr>conn := cn\<rparr>))" "client_mem ?x a = Some (c\<lparr>conn := cn\<rparr>)" using p cn(1) v by simp_all
  from rest [OF this(1) hd fl this(3,2)] obtain cn' where cn': "drained cn'" "conn_frame cn cn'"
    "Client_HandleRead e (Read_bytes (?l @ CRLF)) a w = Inr (set_conn a cn' ?x, 0)" by auto
  have "conn_frame (conn c) cn'" using cn(2) cn'(2) by (rule conn_frame_trans)
  with cn'(1,3) show ?thesis by (intro exI [of _ cn']) (simp add: set_conn_wire)
qed

subsection \<open>In a reachable state\<close>

lemma reachable_client:
  assumes "reachable e w" and "client_mem w a = Some c" and "totalRead (conn c) = 0"
  shows "drained (conn c)" "conn_responses (conn c) = []" "client_ok c"
proof -
  have st: "steady w" by (rule reachable_is_steady [OF assms(1)])
  have "client_ok (core c)"
    using inv_client(1) [OF reachable_world_ok [OF assms(1)] view_SomeI [OF assms(2)]] .
  then show "client_ok c" by (simp add: client_ok_def conn_wf_def)
  then show "drained (conn c)" using steady_client [OF steady_steady_but [OF st] assms(2)] assms(3)
    by (simp add: drained_def)
  show "conn_responses (conn c) = []" using st assms(2) by (auto simp: steady_def idle_def)
qed

lemma reachable_member:
  assumes "reachable e w" and "channel_mem w x = Some k" and "m \<in> set (members k)"
  shows "ready w (snd m)" "\<exists>d. client_mem w (snd m) = Some d \<and> array_ok 10 (nickname d)"
proof -
  have w: "world_ok w" by (rule reachable_world_ok [OF assms(1)])
  have "g_wf (members k)" using inv_channel(1) [OF w assms(2)] by (simp add: channel_ok_def)
  then have "g_lookup (members k) (fst m) = Some (snd m)" using assms(3) by (simp add: g_lookup_in_set)
  from inv_channel(3) [OF w assms(2) this] obtain v where v: "view w (snd m) = Some v" by blast
  then obtain d where d: "client_mem w (snd m) = Some d" "v = core d" using view_SomeD by blast
  then show "\<exists>d. client_mem w (snd m) = Some d \<and> array_ok 10 (nickname d)"
    using inv_client(1) [OF w v] by (auto simp: client_ok_def)
  show "ready w (snd m)" using d(1) reachable_is_steady [OF assms(1)] by (simp add: ready_def steady_def)
qed

lemma reachable_strings:
  assumes "reachable e w" and "client_mem w a = Some c" and "channel_ok k"
    and "length (cstring (server_hostname (server w))) \<le> 63" and "length (cstring (username c)) \<le> 300"
  shows "strings_ok (server w) c k"
proof -
  have w: "world_ok w" by (rule reachable_world_ok [OF assms(1)])
  have "client_ok (core c)" by (rule inv_client(1) [OF w view_SomeI [OF assms(2)]])
  then show ?thesis using w assms(3-5)
    by (simp add: strings_ok_def client_ok_def channel_ok_def world_ok_def hostname_inv_def)
qed

lemma set_conn_next_addr [simp]: "next_addr (set_conn a cn w) = next_addr w"
  by (simp add: set_conn_def)

lemma greeting_conn [simp]: "greeting s (c\<lparr>conn := cn\<rparr>) = greeting s c"
  by (simp add: fun_eq_iff greeting_def join_text_def server_prefix_def)

lemma strings_ok_conn [simp]: "strings_ok s (c\<lparr>conn := cn\<rparr>) k = strings_ok s c k"
  by (simp add: strings_ok_def)

lemma iter_single: "env_ok e \<Longrightarrow> iter_members e [m] = [m]"
proof -
  assume "env_ok e"
  then have "mset (iter_members e [m]) = {#m#}" by (simp add: env_ok_def iteration_ok_def)
  then show ?thesis by simp
qed

subsection \<open>A new channel\<close>

definition fresh_channel :: "string \<Rightarrow> client_s \<Rightarrow> caddr \<Rightarrow> channel_s" where
  "fresh_channel name c a =
     \<lparr>chan_name = pad (CHANNEL_NAME_MAX + 1) name, chan_topic = replicate (CHANNEL_TOPIC_MAX + 1) NUL,
      members = [(clientId c, a)], member_modes = g_empty, chan_private = False, secret = False,
      invite_only = False, no_outside_messages = False, moderated = False\<rparr>"

lemma fresh_channel_ok: "NUL \<notin> set name \<Longrightarrow> length name \<le> 50 \<Longrightarrow> channel_ok (fresh_channel name c a)"
  by (simp add: channel_ok_def fresh_channel_def array_ok_pad array_ok_replicate g_wf_def)

lemma fresh_channel_strings:
  assumes "NUL \<notin> set name" and "length name \<le> 50"
  shows "cstr (chan_name (fresh_channel name c a)) = Inr name" "cstring (chan_name (fresh_channel name c a)) = name"
    "cstring (chan_topic (fresh_channel name c a)) = []"
proof -
  show n: "cstr (chan_name (fresh_channel name c a)) = Inr name" using assms by (simp add: fresh_channel_def cstr_pad)
  then show "cstring (chan_name (fresh_channel name c a)) = name" by (rule cstr_cstring)
  show "cstring (chan_topic (fresh_channel name c a)) = []" by (simp add: fresh_channel_def cstring_def)
qed

lemma server_create_channel_fresh:
  assumes "client_mem w a = Some c" and "NUL \<notin> set name" and "length name \<le> 50"
  shows "server_create_channel name a w =
     Inr (upd_server (\<lambda>s. s\<lparr>channels := g_insert (lowercase name) (next_addr w) (channels s)\<rparr>)
       (w\<lparr>channel_mem := (channel_mem w)(next_addr w \<mapsto> fresh_channel (lowercase name) c a), next_addr := next_addr w + 1\<rparr>),
       next_addr w)"
proof -
  have "replicate (50 - length name) NUL @ [NUL] = replicate (51 - length name) NUL"
  proof -
    have "51 - length name = Suc (50 - length name)" using assms(3) by simp
    then show ?thesis by (simp add: replicate_append_same)
  qed
  then have "strncpy (replicate 51 NUL) (lowercase name) 50 = Inr (pad 51 (lowercase name))"
    using assms(3) by (simp add: strncpy_def pad_def)
  then show ?thesis
    using get_client_mem [OF assms(1)]
    by (simp add: server_create_channel_def channel_new_def fresh_channel_def Let_def g_insert_def g_empty_def)
qed

text \<open>
  What the first JOIN of a channel does to the state.
\<close>

definition with_channel :: "string \<Rightarrow> client_s \<Rightarrow> caddr \<Rightarrow> world \<Rightarrow> world" where
  "with_channel name c a w =
     w\<lparr>server := (server w)\<lparr>channels := g_insert name (next_addr w) (channels (server w))\<rparr>,
       channel_mem := (channel_mem w)(next_addr w \<mapsto> fresh_channel name c a), next_addr := next_addr w + 1\<rparr>"

lemma join_line_creates:
  assumes "reachable e w" and "env_ok e" and c: "client_mem w a = Some c" "totalRead (conn c) = 0"
    and ch: "word_ok ch" "CHR '','' \<notin> set ch" "ch \<noteq> ''0''" "length ch \<le> CHANNEL_NAME_MAX"
    and "g_lookup (channels (server w)) (lowercase ch) = None"
    and "length (cstring (server_hostname (server w))) \<le> 63" and "length (cstring (username c)) \<le> 300"
  shows "\<exists>cn. drained cn \<and> conn_frame (conn c) cn \<and>
     Client_HandleRead e (Read_bytes (''JOIN '' @ ch @ CRLF)) a w =
       Inr (set_conn a cn ((with_channel (lowercase ch) c a w)\<lparr>wire := wire w @ map (Pair (conn_fd (conn c)))
         (greeting (server w) c (lowercase ch) [] [cstring (nickname c)])\<rparr>), 0)"
proof -
  note rc = reachable_client [OF assms(1) c]
  let ?k = "fresh_channel (lowercase ch) c a" and ?ss = "greeting (server w) c (lowercase ch) [] [cstring (nickname c)]"
  let ?u = "with_channel (lowercase ch) c a w"
  have nul: "NUL \<notin> set ch" "NUL \<notin> set (lowercase ch)" using ch(1) by (simp_all add: word_ok_def lowercase_no_NUL)
  have ks: "cstr (chan_name ?k) = Inr (lowercase ch)" "cstring (chan_name ?k) = lowercase ch" "cstring (chan_topic ?k) = []"
    using fresh_channel_strings [OF nul(2)] ch(4) by simp_all
  have ok: "channel_ok ?k" using fresh_channel_ok [OF nul(2)] ch(4) by simp
  note so = reachable_strings [OF assms(1) c(1) ok assms(10,11)]
  have n9: "array_ok 10 (nickname c)" using so by (simp add: strings_ok_def)
  have len: "\<forall>s\<in>set ?ss. length s \<le> IRC_MSG_SIZE"
    using greeting_lengths [OF so, of "[cstring (nickname c)]"] ks array_ok_length [OF n9] by simp
  have cu: "client_mem ?u a = Some c" using c(1) by (simp add: with_channel_def)
  have "join_one e a ch (set_conn a cn w) = Inr (push_all a (map text_response ?ss) (set_conn a cn ?u))"
    if cn: "drained cn" "conn_frame (conn c) cn" for cn
  proof -
    let ?w = "set_conn a cn w" and ?c = "c\<lparr>conn := cn\<rparr>" and ?v = "set_conn a cn ?u"
    have cw: "client_mem ?w a = Some ?c" using c(1) by simp
    have k: "fresh_channel (lowercase ch) ?c a = ?k" by (simp add: fresh_channel_def)
    have "server_create_channel (lowercase ch) a ?w =
        Inr (upd_server (\<lambda>s. s\<lparr>channels := g_insert (lowercase ch) (next_addr w) (channels s)\<rparr>)
          (?w\<lparr>channel_mem := (channel_mem w)(next_addr w \<mapsto> ?k), next_addr := next_addr w + 1\<rparr>), next_addr w)"
      using server_create_channel_fresh [OF cw nul(2)] ch(4) by (simp add: k)
    then have mk: "server_create_channel (lowercase ch) a ?w = Inr (?v, next_addr w)"
      by (simp add: upd_server_def set_conn_def upd_client_def with_channel_def)
    have cv: "client_mem ?v a = Some ?c" using cu by simp
    have q: "conn_responses (conn ?c) = []" using cn(2) rc(2) by (simp add: conn_frame_def)
    have so': "strings_ok (server ?v) ?c ?k" using so by (simp add: strings_ok_def with_channel_def)
    have "greet e a ?c ?k ?v = Inr (push_all a (map text_response
        (greeting (server ?v) ?c (cstring (chan_name ?k)) (cstring (chan_topic ?k)) [cstring (nickname c)])) ?v)"
      by (rule greet_text [OF cv q so' _ assms(2)])
        (use n9 cu in \<open>simp_all add: fresh_channel_def iter_single [OF assms(2)] nick_of_def\<close>)
    moreover have "greeting (server ?v) ?c (cstring (chan_name ?k)) (cstring (chan_topic ?k)) [cstring (nickname c)] = ?ss"
      by (simp add: ks greeting_def join_text_def server_prefix_def with_channel_def)
    ultimately have "greet e a ?c ?k ?v = Inr (push_all a (map text_response ?ss) ?v)" by simp
    moreover have "channel_mem ?v (next_addr w) = Some ?k" by (simp add: with_channel_def)
    ultimately show ?thesis
      using mk get_client_mem [OF cv] assms(9) by (simp add: join_one_greet server_get_channel_def get_channel_def)
  qed
  from join_line [OF c(1) rc(1,2) ch(1-3) _ cu this len] ch(4) show ?thesis by (simp add: with_channel_def)
qed

text \<open>
  C12: the first JOIN creates the channel.  In a reachable state, a client with nothing pending
  sends \<open>JOIN <channel>\<close> in one read, and no channel is found under the name in lower case.  Then
  \<open>Client_HandleRead\<close> returns normally; the table has one new entry, for a new channel object that carries
  the name in lower case, has no topic and has the sender as its only member; the client, and nobody else,
  is sent the JOIN, the names and the end of the names; and nothing else has changed but the buffers
  of the client's connection, which has nothing pending again.
\<close>

theorem join_line_creates_channel:
  assumes "reachable e w" and "env_ok e" and c: "client_mem w a = Some c" "totalRead (conn c) = 0"
    and ch: "word_ok ch" "CHR '','' \<notin> set ch" "ch \<noteq> ''0''" "length ch \<le> CHANNEL_NAME_MAX"
    and "g_lookup (channels (server w)) (lowercase ch) = None"
    and "length (cstring (server_hostname (server w))) \<le> 63" and "length (cstring (username c)) \<le> 300"
  shows "\<exists>cn k. Client_HandleRead e (Read_bytes (''JOIN '' @ ch @ CRLF)) a w =
       Inr (set_conn a cn (w\<lparr>server := (server w)\<lparr>channels := g_insert (lowercase ch) (next_addr w) (channels (server w))\<rparr>,
         channel_mem := (channel_mem w)(next_addr w \<mapsto> k), next_addr := next_addr w + 1,
         wire := wire w @ map (Pair (conn_fd (conn c)))
           (greeting (server w) c (lowercase ch) [] [cstring (nickname c)])\<rparr>), 0) \<and>
     drained cn \<and> conn_frame (conn c) cn \<and>
     cstr (chan_name k) = Inr (lowercase ch) \<and> cstr (chan_topic k) = Inr [] \<and> members k = [(clientId c, a)]"
proof -
  let ?k = "fresh_channel (lowercase ch) c a"
  have nul: "NUL \<notin> set (lowercase ch)" using ch(1) by (simp add: word_ok_def lowercase_no_NUL)
  have "cstr (chan_name ?k) = Inr (lowercase ch)" using fresh_channel_strings(1) [OF nul] ch(4) by simp
  moreover have "cstr (chan_topic ?k) = Inr []" "members ?k = [(clientId c, a)]"
    by (simp_all add: fresh_channel_def cstr_def)
  ultimately show ?thesis using join_line_creates [OF assms] unfolding with_channel_def
    by (elim exE conjE) (intro exI conjI; simp)
qed

text \<open>The witnesses: two clients have connected and sent nothing yet.\<close>

definition pair_world :: world where
  "pair_world = the (demo_run [[ev_connect 5 True], [ev_connect 6 True]])"

lemma pair_reachable: "reachable demo_env pair_world"
proof -
  have "demo_run [[ev_connect 5 True], [ev_connect 6 True]] \<noteq> None" by code_simp
  then show ?thesis using demo_run_reachable by (auto simp: pair_world_def)
qed

lemma pair_clients:
  "\<exists>c d. client_mem pair_world 0 = Some c \<and> client_mem pair_world 1 = Some d \<and> totalRead (conn c) = 0 \<and>
     totalRead (conn d) = 0 \<and> clientId c = 1 \<and> clientId d = 2 \<and> conn_fd (conn c) = 5 \<and> conn_fd (conn d) = 6 \<and>
     cstring (nickname c) = [] \<and> cstring (nickname d) = [] \<and> cstring (username c) = [] \<and> cstring (username d) = [] \<and>
     cstring (client_hostname c) = ''host'' \<and> cstring (client_hostname d) = ''host''"
proof -
  have "case client_mem pair_world 0 of None \<Rightarrow> False | Some c \<Rightarrow>
     (case client_mem pair_world 1 of None \<Rightarrow> False | Some d \<Rightarrow> totalRead (conn c) = 0 \<and>
     totalRead (conn d) = 0 \<and> clientId c = 1 \<and> clientId d = 2 \<and> conn_fd (conn c) = 5 \<and> conn_fd (conn d) = 6 \<and>
     cstring (nickname c) = [] \<and> cstring (nickname d) = [] \<and> cstring (username c) = [] \<and> cstring (username d) = [] \<and>
     cstring (client_hostname c) = ''host'' \<and> cstring (client_hostname d) = ''host'')"
    by code_simp
  then show ?thesis by (simp split: option.splits)
qed

lemma pair_server:
  "cstring (server_hostname (server pair_world)) = ''irc.example''" "g_lookup (channels (server pair_world)) ''#c'' = None"
  "wire pair_world = []" "next_addr pair_world = 2"
  "interest pair_world = [(3, server_handler 3), (5, client_handler 5 0), (6, client_handler 6 1)]"
  by code_simp+

lemma room_name: "word_ok ''#C''" "CHR '','' \<notin> set ''#C''" "''#C'' \<noteq> ''0''" "length ''#C'' \<le> CHANNEL_NAME_MAX"
  "lowercase ''#C'' = ''#c''"
  by (simp_all add: word_ok_def) code_simp

text \<open>The first client joins, although it has given neither nickname nor user name.\<close>

theorem join_line_creates_channel_witness:
  "\<exists>w'. Client_HandleRead demo_env (Read_bytes (''JOIN #C'' @ CRLF)) 0 pair_world = Inr (w', 0) \<and>
     g_lookup (channels (server w')) ''#c'' = Some 2 \<and>
     wire w' = [(5, '':!@host JOIN #c'' @ CRLF), (5, '':irc.example 353  #c :'' @ CRLF),
                (5, '':irc.example 366  #c :End of NAMES list'' @ CRLF)]"
proof -
  obtain c where c: "client_mem pair_world 0 = Some c" "totalRead (conn c) = 0" "clientId c = 1" "conn_fd (conn c) = 5"
    "cstring (nickname c) = []" "cstring (username c) = []" "cstring (client_hostname c) = ''host''"
    using pair_clients by blast
  show ?thesis
    using join_line_creates_channel [OF pair_reachable demo_env_ok c(1,2) room_name(1-4)] c pair_server room_name(5)
    by (auto simp: greeting_def join_text_def server_prefix_def)
qed

subsection \<open>An existing channel\<close>

lemma nick_of_simps [simp]:
  "nick_of (upd_channel x f w) = nick_of w" "nick_of (w\<lparr>wire := l\<rparr>) = nick_of w"
  "nick_of (set_conn a cn w) = nick_of w"
  by (auto simp: nick_of_def fun_eq_iff split: option.split)

lemma channel_join_announces:
  assumes "env_ok e" and c: "client_mem w a = Some c" and k: "channel_mem w x = Some k"
    and "g_lookup (members k) (clientId c) = None"
    and so: "strings_ok (server w) c k"
    and ready: "\<forall>m\<in>set (members k). ready w (snd m)"
    and k': "k' = k\<lparr>members := g_insert (clientId c) a (members k)\<rparr>"
  shows "channel_join e x a w =
      Inr ((upd_channel x (\<lambda>k. k\<lparr>members := g_insert (clientId c) a (members k)\<rparr>) w)\<lparr>wire := wire w @
        map (\<lambda>b. (fd_of w b, join_text c (cstring (chan_name k)))) (recipients e k' (clientId c))\<rparr>, 0)"
    and "mset (recipients e k' (clientId c)) = image_mset snd (mset (members k))"
proof -
  let ?u = "upd_channel x (\<lambda>k. k\<lparr>members := g_insert (clientId c) a (members k)\<rparr>) w"
  let ?t = "join_text c (cstring (chan_name k))"
  have no: "clientId c \<notin> fst ` set (members k)" using assms(4) by (simp add: g_lookup_def map_of_eq_None_iff)
  then have ins: "members k' = members k @ [(clientId c, a)]" by (simp add: k' g_insert_def update_fresh_append)
  have "filter_mset (\<lambda>m. fst m \<noteq> clientId c) (mset (members k)) = mset (members k)"
    using no by (auto simp: filter_mset_eq_conv image_iff)
  then show ms: "mset (recipients e k' (clientId c)) = image_mset snd (mset (members k))"
    by (simp add: recipients_mset [OF assms(1)] ins)
  have ku: "channel_mem ?u x = Some k'" using k by (simp add: k')
  have "length ?t \<le> IRC_MSG_SIZE" using strings_bounds [OF so] by (simp add: join_text_def CRLF_def)
  then have bs: "resp_bytes (text_response ?t) = Inr ?t" by (rule resp_bytes_text)
  have "Format_MessageJoin c (chan_name k') = clipped ?t"
    using strings_cstr [OF so] by (simp add: Format_MessageJoin_text join_text_def k')
  then have fm: "Format_MessageJoin c (chan_name k') = Inr (text_response ?t)"
    using \<open>length ?t \<le> IRC_MSG_SIZE\<close> by (simp add: clipped_def text_response_def)
  have "set (recipients e k' (clientId c)) = snd ` set (members k)"
    using arg_cong [OF ms, of set_mset] by simp
  then have "\<forall>b\<in>set (recipients e k' (clientId c)). ready ?u b" using ready by (auto simp: ready_def)
  from channel_send_message_delivers [OF ku bs this] show "channel_join e x a w =
      Inr (?u\<lparr>wire := wire w @ map (\<lambda>b. (fd_of w b, ?t)) (recipients e k' (clientId c))\<rparr>, 0)"
    using get_client_mem [OF c] get_client_mem [of ?u a c] c k ku fm assms(4)
    by (simp add: channel_join_def channel_sendall_join_def get_channel_def fd_of_def)
qed

text \<open>The names listed to who has joined: those of the members and one's own.\<close>

lemma joined_names:
  assumes "env_ok e" and c: "client_mem w a = Some c" "array_ok 10 (nickname c)"
    and live: "\<And>m. m \<in> set (members k) \<Longrightarrow> \<exists>d. client_mem w (snd m) = Some d \<and> array_ok 10 (nickname d)"
    and j: "members j = members k @ [(clientId c, a)]" and names: "names = map (\<lambda>m. nick_of w (snd m)) (iter_members e (members j))"
  shows "mset names = image_mset (nick_of w) (image_mset snd (mset (members k))) + {#cstring (nickname c)#}"
    and "\<forall>n\<in>set names. length n \<le> 9" and "length names = Suc (length (members k))"
proof -
  have it: "mset (iter_members e (members j)) = mset (members k) + {#(clientId c, a)#}"
    using assms(1) by (simp add: j env_ok_def iteration_ok_def)
  show n: "mset names = image_mset (nick_of w) (image_mset snd (mset (members k))) + {#cstring (nickname c)#}"
    using arg_cong [OF it, of "image_mset (\<lambda>m. nick_of w (snd m))"] c(1)
    by (simp add: names nick_of_def multiset.map_comp comp_def)
  have "set names = insert (cstring (nickname c)) (nick_of w ` snd ` set (members k))"
    using arg_cong [OF n, of set_mset] by (simp add: image_image)
  moreover have "length (nick_of w (snd m)) \<le> 9" if "m \<in> set (members k)" for m
    using live [OF that] array_ok_length [of 10] by (auto simp: nick_of_def)
  moreover have "length (cstring (nickname c)) \<le> 9" using array_ok_length [OF c(2)] by simp
  ultimately show "\<forall>n\<in>set names. length n \<le> 9" by auto
  show "length names = Suc (length (members k))" using arg_cong [OF n, of size] by simp
qed

text \<open>The member that JOIN adds, the line it is announced with and the answer it gets, on its own connection.\<close>

lemma join_one_announces:
  assumes "env_ok e" and c: "client_mem w a = Some c" "conn_responses (conn c) = []"
    and look: "g_lookup (channels (server w)) (lowercase ch) = Some x" and k: "channel_mem w x = Some k"
    and new: "g_lookup (members k) (clientId c) = None" and few: "length (members k) \<le> 37"
    and so: "strings_ok (server w) c k" and ready: "\<forall>m\<in>set (members k). ready w (snd m)"
    and live: "\<forall>m\<in>set (members k). \<exists>d. client_mem w (snd m) = Some d \<and> array_ok 10 (nickname d)"
    and j: "j = k\<lparr>members := members k @ [(clientId c, a)]\<rparr>"
    and v: "v = w\<lparr>channel_mem := (channel_mem w)(x \<mapsto> j),
      wire := wire w @ map (\<lambda>b. (fd_of w b, join_text c (cstring (chan_name k)))) (recipients e j (clientId c))\<rparr>"
  shows "join_one e a ch w = Inr (push_all a (map text_response
     (greeting (server w) c (cstring (chan_name k)) (cstring (chan_topic k)) (map (\<lambda>m. nick_of w (snd m)) (iter_members e (members j))))) v)"
proof -
  have ins: "k\<lparr>members := g_insert (clientId c) a (members k)\<rparr> = j"
    using new by (simp add: j g_insert_def g_lookup_def update_fresh_append map_of_eq_None_iff)
  have "channel_join e x a w = Inr (v, 0)"
    using channel_join_announces(1) [OF assms(1) c(1) k new so ready refl] k
    by (simp add: v upd_channel_def ins join_text_def)
  moreover have cv: "client_mem v a = Some c" using c(1) by (simp add: v)
  have "\<forall>m\<in>set (members j). \<exists>d. client_mem v (snd m) = Some d \<and> array_ok 10 (nickname d)"
    using live c(1) so by (auto simp: j v strings_ok_def)
  then have "greet e a c j v = Inr (push_all a (map text_response
      (greeting (server v) c (cstring (chan_name j)) (cstring (chan_topic j)) (map (\<lambda>m. nick_of v (snd m)) (iter_members e (members j))))) v)"
    by (intro greet_text [OF cv c(2) _ _ assms(1)]) (use few so in \<open>simp_all add: j v strings_ok_def\<close>)
  moreover have "nick_of v = nick_of w" by (simp add: v nick_of_def fun_eq_iff)
  ultimately show ?thesis using get_client_mem [OF cv] look
    by (simp add: join_one_greet server_get_channel_def get_channel_def) (simp add: v j)
qed

text \<open>
  C11: a JOIN is announced.  In a reachable state, a client with nothing pending sends
  \<open>JOIN <channel>\<close> in one read, where the name in lower case is that of a channel with at most 37
  members of which the client is not one.  Then \<open>Client_HandleRead\<close> returns normally; the client has
  been added to the members; every other member has
  been sent the JOIN exactly once; the client has been sent the JOIN, the topic if there is one,
  the nicknames of all members, its own included, and the end of the names; and nothing else has changed
  but the buffers of the client's connection, which has nothing pending again.
\<close>

theorem join_line_announced:
  assumes "reachable e w" and "env_ok e" and c: "client_mem w a = Some c" "totalRead (conn c) = 0"
    and ch: "word_ok ch" "CHR '','' \<notin> set ch" "ch \<noteq> ''0''" "length ch \<le> CHANNEL_NAME_MAX"
    and look: "g_lookup (channels (server w)) (lowercase ch) = Some x" and k: "channel_mem w x = Some k"
    and new: "g_lookup (members k) (clientId c) = None" and few: "length (members k) \<le> 37"
    and "length (cstring (server_hostname (server w))) \<le> 63" and "length (cstring (username c)) \<le> 300"
  shows "\<exists>cn order names. Client_HandleRead e (Read_bytes (''JOIN '' @ ch @ CRLF)) a w =
       Inr (set_conn a cn (w\<lparr>channel_mem := (channel_mem w)(x \<mapsto> k\<lparr>members := g_insert (clientId c) a (members k)\<rparr>),
         wire := wire w @ map (\<lambda>b. (fd_of w b, join_text c (cstring (chan_name k)))) order @
           map (Pair (conn_fd (conn c))) (greeting (server w) c (cstring (chan_name k)) (cstring (chan_topic k)) names)\<rparr>), 0) \<and>
     drained cn \<and> conn_frame (conn c) cn \<and> mset order = image_mset snd (mset (members k)) \<and>
     mset names = image_mset (nick_of w) (mset order) + {#cstring (nickname c)#}"
proof -
  note rc = reachable_client [OF assms(1) c] and rm = reachable_member [OF assms(1) k]
  have kok: "channel_ok k" by (rule inv_channel(1) [OF reachable_world_ok [OF assms(1)] k])
  note so = reachable_strings [OF assms(1) c(1) kok assms(13,14)]
  define k' where "k' = k\<lparr>members := members k @ [(clientId c, a)]\<rparr>"
  define names where "names = map (\<lambda>m. nick_of w (snd m)) (iter_members e (members k'))"
  define order where "order = recipients e k' (clientId c)"
  define ss where "ss = greeting (server w) c (cstring (chan_name k)) (cstring (chan_topic k)) names"
  have ins: "k\<lparr>members := g_insert (clientId c) a (members k)\<rparr> = k'"
    using new by (simp add: k'_def g_insert_def g_lookup_def update_fresh_append map_of_eq_None_iff)
  have n9: "array_ok 10 (nickname c)" using so by (simp add: strings_ok_def)
  have mem: "members k' = members k @ [(clientId c, a)]" by (simp add: k'_def)
  note n = joined_names [OF assms(2) c(1) n9 rm(2) mem names_def]
  have o: "mset order = image_mset snd (mset (members k))"
    unfolding order_def
    by (rule channel_join_announces(2) [OF assms(2) c(1) k new so _ ins [symmetric]]) (use rm(1) in blast)
  have len: "\<forall>s\<in>set ss. length s \<le> IRC_MSG_SIZE" using greeting_lengths [OF so n(2)] n(3) few by (simp add: ss_def)
  let ?u = "w\<lparr>channel_mem := (channel_mem w)(x \<mapsto> k'),
    wire := wire w @ map (\<lambda>b. (fd_of w b, join_text c (cstring (chan_name k)))) order\<rparr>"
  have cu: "client_mem ?u a = Some c" using c(1) by simp
  have "join_one e a ch (set_conn a cn w) = Inr (push_all a (map text_response ss) (set_conn a cn ?u))"
    if cn: "drained cn" "conn_frame (conn c) cn" for cn
  proof -
    let ?w = "set_conn a cn w" and ?c = "c\<lparr>conn := cn\<rparr>"
    have cr: "conn_responses cn = conn_responses (conn c)" "conn_fd cn = conn_fd (conn c)"
      using cn(2) by (simp_all add: conn_frame_def)
    have "set_conn a cn ?u = ?w\<lparr>channel_mem := (channel_mem ?w)(x \<mapsto> k'), wire := wire ?w @
        map (\<lambda>b. (fd_of ?w b, join_text ?c (cstring (chan_name k)))) (recipients e k' (clientId ?c))\<rparr>"
      by (simp add: order_def fd_of_set_conn [OF c(1) cr(2)] join_text_def) (simp add: set_conn_def upd_client_def)
    then have "join_one e a ch ?w = Inr (push_all a (map text_response
        (greeting (server ?w) ?c (cstring (chan_name k)) (cstring (chan_topic k)) (map (\<lambda>m. nick_of ?w (snd m)) (iter_members e (members k'))))) (set_conn a cn ?u))"
      by (intro join_one_announces [OF assms(2) _ _ _ _ _ few])
        (use c(1) k look new rc(2) cr so rm ready_set_conn [OF _ c(1) cr(1)] in \<open>auto simp: strings_ok_def k'_def\<close>)
    then show ?thesis by (simp add: ss_def names_def)
  qed
  from join_line [OF c(1) rc(1,2) ch(1-3) _ cu this len] ch(4) obtain cn where "drained cn" "conn_frame (conn c) cn"
    "Client_HandleRead e (Read_bytes (''JOIN '' @ ch @ CRLF)) a w =
       Inr (set_conn a cn (?u\<lparr>wire := wire ?u @ map (Pair (conn_fd (conn c))) ss\<rparr>), 0)" by auto
  with n(1) o show ?thesis unfolding ss_def ins by (intro exI [of _ cn] exI [of _ order] exI [of _ names]) simp
qed

theorem join_line_announced_witness:
  "\<exists>w w'. reachable demo_env w \<and> Client_HandleRead demo_env (Read_bytes (''JOIN #C'' @ CRLF)) 1 w = Inr (w', 0) \<and>
     (\<exists>rest. wire w' = wire w @ (5, '':!@host JOIN #c'' @ CRLF) # (6, '':!@host JOIN #c'' @ CRLF) # rest)"
proof -
  obtain c d where c: "client_mem pair_world 0 = Some c" "totalRead (conn c) = 0" "clientId c = 1" "conn_fd (conn c) = 5"
    "cstring (username c) = []" and d: "client_mem pair_world 1 = Some d" "totalRead (conn d) = 0" "clientId d = 2"
    "conn_fd (conn d) = 6" "cstring (nickname d) = []" "cstring (username d) = []" "cstring (client_hostname d) = ''host''"
    using pair_clients by blast
  obtain cn where cn: "conn_frame (conn c) cn" and rd: "Client_HandleRead demo_env (Read_bytes (''JOIN '' @ ''#C'' @ CRLF)) 0 pair_world =
       Inr (set_conn 0 cn ((with_channel ''#c'' c 0 pair_world)\<lparr>wire := wire pair_world @ map (Pair (conn_fd (conn c)))
         (greeting (server pair_world) c ''#c'' [] [cstring (nickname c)])\<rparr>), 0)" (is "_ = Inr (?w, 0)")
    using join_line_creates [OF pair_reachable demo_env_ok c(1,2) room_name(1-4)] c(5) pair_server room_name(5) by auto
  have "(5, client_handler 5 0) \<in> set (interest pair_world)" by (simp add: pair_server)
  from loop_step_read [OF this rd] have r: "reachable demo_env ?w" by (rule reachable.stepped [OF pair_reachable])
  let ?k = "fresh_channel ''#c'' c 0"
  have m: "client_mem ?w 1 = Some d" using d(1) by (simp add: with_channel_def)
  have lk: "g_lookup (channels (server ?w)) (lowercase ''#C'') = Some 2" "channel_mem ?w 2 = Some ?k"
    by (simp_all add: with_channel_def pair_server room_name(5))
  have mem: "members ?k = [(1, 0)]" by (simp add: fresh_channel_def c(3))
  have new: "g_lookup (members ?k) (clientId d) = None" by (simp add: mem d(3) g_lookup_def)
  have few: "length (members ?k) \<le> 37" by (simp add: mem)
  have kn: "cstring (chan_name ?k) = ''#c''" by (rule fresh_channel_strings(2)) simp_all
  have host: "length (cstring (server_hostname (server ?w))) \<le> 63" by (simp add: with_channel_def pair_server)
  obtain cn' order names where j: "Client_HandleRead demo_env (Read_bytes (''JOIN '' @ ''#C'' @ CRLF)) 1 ?w =
       Inr (set_conn 1 cn' (?w\<lparr>channel_mem := (channel_mem ?w)(2 \<mapsto> ?k\<lparr>members := g_insert (clientId d) 1 (members ?k)\<rparr>),
         wire := wire ?w @ map (\<lambda>b. (fd_of ?w b, join_text d (cstring (chan_name ?k)))) order @
           map (Pair (conn_fd (conn d))) (greeting (server ?w) d (cstring (chan_name ?k)) (cstring (chan_topic ?k)) names)\<rparr>), 0)"
    "mset order = image_mset snd (mset (members ?k))"
    using join_line_announced [OF r demo_env_ok m d(2) room_name(1-4) lk new few host] d(6) by fastforce
  have o: "order = [0]" using j(2) by (simp add: mem)
  have "fd_of ?w 0 = 5" using c(1,4) cn by (simp add: fd_of_def with_channel_def conn_frame_def)
  then have out: "\<exists>rest. map (\<lambda>b. (fd_of ?w b, join_text d (cstring (chan_name ?k)))) order @
       map (Pair (conn_fd (conn d))) (greeting (server ?w) d (cstring (chan_name ?k)) (cstring (chan_topic ?k)) names) =
     (5, '':!@host JOIN #c'' @ CRLF) # (6, '':!@host JOIN #c'' @ CRLF) # rest" (is "\<exists>rest. ?out = _ rest")
    using d by (simp add: o kn greeting_def join_text_def)
  obtain w' where w': "Client_HandleRead demo_env (Read_bytes (''JOIN '' @ ''#C'' @ CRLF)) 1 ?w = Inr (w', 0)"
    "wire w' = wire ?w @ ?out" using j(1) by simp
  obtain rest where "?out = (5, '':!@host JOIN #c'' @ CRLF) # (6, '':!@host JOIN #c'' @ CRLF) # rest" using out by blast
  with w'(2) have "wire w' = wire ?w @ (5, '':!@host JOIN #c'' @ CRLF) # (6, '':!@host JOIN #c'' @ CRLF) # rest" by (simp only:)
  moreover have "Client_HandleRead demo_env (Read_bytes (''JOIN #C'' @ CRLF)) 1 ?w = Inr (w', 0)" using w'(1) by simp
  ultimately show ?thesis using r by blast
qed

text \<open>Two clients open a channel each; each of the two member entries names its client (the property is in theory \<open>ServerProps\<close>).\<close>

lemma other_room_name: "word_ok ''#D''" "CHR '','' \<notin> set ''#D''" "''#D'' \<noteq> ''0''" "length ''#D'' \<le> CHANNEL_NAME_MAX"
  "lowercase ''#D'' = ''#d''"
  by (simp_all add: word_ok_def) code_simp

lemma pair_no_room: "g_lookup (channels (server pair_world)) ''#d'' = None"
  by code_simp

lemma two_rooms:
  "\<exists>w k l. reachable demo_env w \<and> channel_mem w 2 = Some k \<and> members k = [(1, 0)] \<and>
     channel_mem w 3 = Some l \<and> members l = [(2, 1)]"
proof -
  obtain c d where c: "client_mem pair_world 0 = Some c" "totalRead (conn c) = 0" "clientId c = 1" "cstring (username c) = []"
    and d: "client_mem pair_world 1 = Some d" "totalRead (conn d) = 0" "clientId d = 2" "cstring (username d) = []"
    using pair_clients by blast
  obtain cn where rd: "Client_HandleRead demo_env (Read_bytes (''JOIN '' @ ''#C'' @ CRLF)) 0 pair_world =
       Inr (set_conn 0 cn ((with_channel ''#c'' c 0 pair_world)\<lparr>wire := wire pair_world @ map (Pair (conn_fd (conn c)))
         (greeting (server pair_world) c ''#c'' [] [cstring (nickname c)])\<rparr>), 0)" (is "_ = Inr (?w, 0)")
    using join_line_creates [OF pair_reachable demo_env_ok c(1,2) room_name(1-4)] c(4) pair_server room_name(5) by auto
  have "(5, client_handler 5 0) \<in> set (interest pair_world)" by (simp add: pair_server)
  from loop_step_read [OF this rd] have r: "reachable demo_env ?w" by (rule reachable.stepped [OF pair_reachable])
  have m: "client_mem ?w 1 = Some d" using d(1) by (simp add: with_channel_def)
  have new: "g_lookup (channels (server ?w)) (lowercase ''#D'') = None"
    using pair_no_room by (simp add: with_channel_def other_room_name(5))
  have host: "length (cstring (server_hostname (server ?w))) \<le> 63" by (simp add: with_channel_def pair_server)
  have user: "length (cstring (username d)) \<le> 300" by (simp add: d(4))
  obtain cn' where rd': "Client_HandleRead demo_env (Read_bytes (''JOIN '' @ ''#D'' @ CRLF)) 1 ?w =
       Inr (set_conn 1 cn' ((with_channel ''#d'' d 1 ?w)\<lparr>wire := wire ?w @ map (Pair (conn_fd (conn d)))
         (greeting (server ?w) d ''#d'' [] [cstring (nickname d)])\<rparr>), 0)" (is "_ = Inr (?v, 0)")
    using join_line_creates [OF r demo_env_ok m d(2) other_room_name(1-4) new host user] other_room_name(5) by auto
  have "(6, client_handler 6 1) \<in> set (interest ?w)" by (simp add: with_channel_def pair_server)
  from loop_step_read [OF this rd'] have "reachable demo_env ?v" by (rule reachable.stepped [OF r])
  moreover have "channel_mem ?v 2 = Some (fresh_channel ''#c'' c 0)" "channel_mem ?v 3 = Some (fresh_channel ''#d'' d 1)"
    by (simp_all add: with_channel_def pair_server)
  moreover have "members (fresh_channel ''#c'' c 0) = [(1, 0)]" "members (fresh_channel ''#d'' d 1) = [(2, 1)]"
    by (simp_all add: fresh_channel_def c(3) d(3))
  ultimately show ?thesis by blast
qed

theorem channel_members_live_witness:
  "\<exists>w k l c d. reachable demo_env w \<and> channel_mem w 2 = Some k \<and> (1, 0) \<in> set (members k) \<and>
     channel_mem w 3 = Some l \<and> (2, 1) \<in> set (members l) \<and>
     client_mem w 0 = Some c \<and> clientId c = 1 \<and> conn_responses (conn c) = [] \<and>
     client_mem w 1 = Some d \<and> clientId d = 2 \<and> conn_responses (conn d) = []"
proof -
  obtain w k l where w: "reachable demo_env w" and k: "channel_mem w 2 = Some k" "(1, 0) \<in> set (members k)"
    and l: "channel_mem w 3 = Some l" "(2, 1) \<in> set (members l)"
    using two_rooms by (metis list.set_intros(1))
  have "\<exists>c. client_mem w 0 = Some c \<and> clientId c = 1 \<and> conn_responses (conn c) = []"
    using channel_members_live [OF w] k by blast
  moreover have "\<exists>d. client_mem w 1 = Some d \<and> clientId d = 2 \<and> conn_responses (conn d) = []"
    using channel_members_live [OF w] l by blast
  ultimately show ?thesis using w k l by blast
qed

end
