(* ===== verification/SpeechRooms.thy ===== *)
theory SpeechRooms
  imports SpeechRefined Joining
begin

text \<open>
  The handlers say what \<open>Speech\<close> says, third part: TOPIC, PART and JOIN, and then every command.
\<close>

subsection \<open>After lowercasing in place\<close>

lemma store_str_told:
  assumes "says w a p n"
  shows "told f a w (store_str a p (lowercase n) w) ([], [])" "queue (store_str a p (lowercase n) w) = queue w"
proof -
  show "queue (store_str a p (lowercase n) w) = queue w"
    by (rule ext) (auto simp: store_str_def queue_def set_message_def split: option.split)
  then show "told f a w (store_str a p (lowercase n) w) ([], [])"
    by (intro told_mute) (auto simp: store_str_def split: option.split)
qed

lemma stored_present:
  assumes "present a w c" and "says w a p n"
  obtains d where "present a (store_str a p (lowercase n) w) d" "core d = core c" "server (store_str a p (lowercase n) w) = server w"
    "channel_mem (store_str a p (lowercase n) w) = channel_mem w" "fd_by (store_str a p (lowercase n) w) = fd_by w"
proof -
  have k: "calm a w (store_str a p (lowercase n) w)" by (rule store_lowercase_calm [OF says_str [OF assms(2)]])
  obtain d where d: "client_mem (store_str a p (lowercase n) w) a = Some d" "core d = core c"
    using quiet_client_mem [OF calm_quiet [OF k]] present_facts(1) [OF assms(1)] by blast
  obtain d' where d': "present a (store_str a p (lowercase n) w) d'" "server (store_str a p (lowercase n) w) = server w"
    "channel_mem (store_str a p (lowercase n) w) = channel_mem w" "fd_by (store_str a p (lowercase n) w) = fd_by w"
    using present_calm [OF assms(1) k] by metis
  have "d' = d" using present_facts(1) [OF d'(1)] d(1) by simp
  with d d' show thesis by (intro that [of d]) simp_all
qed

lemma table_room:
  assumes "present a w c" and "g_lookup (channels (server w)) key = Some ch"
  obtains k where "channel_mem w ch = Some k" "cstring (chan_name k) = key" "cstr (chan_name k) = Inr key"
    "rooms (chat_of w) key = Some (room_of k)" "channel_ok k" "length key \<le> 50"
proof -
  obtain k where k: "channel_mem w ch = Some k" "cstring (chan_name k) = key"
    using present_facts(6) [OF assms(1)] assms(2) unfolding table_ok_def by blast
  have ok: "channel_ok k" by (rule present_channel(1) [OF assms(1) k(1)])
  from channel_strings [OF ok] k rooms_chat_of(2) [OF assms(2) k(1)] ok show thesis by (intro that) simp_all
qed

lemma handler_topic_answered:
  assumes "handler_topic a m w = Inr (v, r)" and sp: "speaker a w c" and m: "parse_err m = 0" and n: "says w a (topic_channel m) n"
    and len: "length n \<le> 200" and x: "x = None \<longleftrightarrow> topic_topic m = None"
  shows "answered a w c (Cmd_topic n x) v"
proof -
  note sf = speaker_facts [OF sp]
  let ?u = "store_str a (topic_channel m) (lowercase n) w" and ?key = "lowercase n" and ?p = "person_of c"
  obtain d where d: "present a ?u d" "server ?u = server w" "channel_mem ?u = channel_mem w"
    using stored_present [OF speaker_present [OF sp] n] by metis
  note du = present_facts(1) [OF d(1)]
  note run = assms(1) [unfolded handler_topic_def sf(8) rbind.simps m says_str [OF n] server_get_channel_def Let_def]
  have "told (fd_by w) a ?u v (topic_speech (house_of w) ?p n x (chat_of w))"
  proof (cases x)
    case None
    then have tt: "topic_topic m = None" using x by simp
    show ?thesis
    proof (cases "g_lookup (channels (server w)) ?key")
      case no: None
      have nul: "NUL \<notin> set ?key" "length ?key \<le> 200" using says_no_NUL [OF n] len by (simp_all add: lowercase_no_NUL)
      have "rbind (push_reply a (Reply_ErrNoSuchChannel c (server w) (lit ?key)) ?u) (\<lambda>w. Inr (w, -1)) = Inr (v, r)"
        using run tt no d(2) by simp
      from reply_told [OF this Reply_ErrNoSuchChannel_sends [OF sf(3,5) nul] du]
      show ?thesis by (simp add: topic_speech_def None rooms_chat_of(1) [OF no])
    next
      case (Some ch)
      obtain k where k: "channel_mem w ch = Some k" "cstring (chan_name k) = ?key" "rooms (chat_of w) ?key = Some (room_of k)"
        "channel_ok k" using table_room [OF speaker_present [OF sp] Some] by metis
      note t = topic_lines_send [OF sf(3,5) k(4)]
      obtain z where z: "chan_topic k = z" "NUL \<in> set z" using k(4) by (auto simp: channel_ok_def array_ok_def)
      have e: "take 1 (chan_topic k) \<noteq> [NUL] \<longleftrightarrow> r_topic (room_of k) \<noteq> []"
        using z by (cases z) (auto simp: room_of_def cstring_def)
      have "rbind (push_reply a (if r_topic (room_of k) \<noteq> [] then Reply_RplTopic c (server w) k else Reply_RplNoTopic c (server w) k) ?u)
          (\<lambda>w. Inr (w, 0)) = Inr (v, r)"
        using run tt Some d(2,3) k(1) e by (auto simp: get_channel_def split: if_splits)
      then have "told (fd_by w) a ?u v ([], [if r_topic (room_of k) = [] then
          numeric (cstring (server_hostname (server w))) ''331'' ?p (?key @ '' :No topic is set'')
          else topic_line (cstring (server_hostname (server w))) ?p ?key (r_topic (room_of k))])"
        by (rule reply_told [OF _ _ du]) (use t(1,2) k(2) in simp)
      then show ?thesis by (simp add: topic_speech_def None k(3) cong: if_cong)
    qed
  next
    case (Some t)
    then have "topic_topic m \<noteq> None" using x by simp
    then obtain ch s where "channel_set_topic ch s ?u = Inr v" using run by (auto elim!: rbind_InrE)
    then have "wire v = wire ?u" "queue v = queue ?u"
      by (auto simp: channel_set_topic_def queue_def elim!: rbind_InrE split: if_splits)
    from told_mute [OF this] show ?thesis by (simp add: topic_speech_def Some)
  qed
  with told_trans [OF store_str_told(1) [OF n]] have "told (fd_by w) a w v (topic_speech (house_of w) ?p n x (chat_of w))" by fastforce
  then show ?thesis by (rule answeredI) simp
qed

lemma leave_mute:
  assumes "channel_remove_member ch a u = Inr x" and "(if b then rbind (server_remove_channel ch x) (\<lambda>w. Inr (w, 0)) else Inr (x, 0)) = Inr (v, r)"
  shows "told f a u v ([], [])"
proof -
  have "wire x = wire u \<and> queue x = queue u" using assms(1)
    by (auto simp: channel_remove_member_def queue_def elim!: rbind_InrE)
  moreover have "wire v = wire x \<and> queue v = queue x" using assms(2)
    by (auto simp: server_remove_channel_def Let_def queue_def fun_eq_iff elim!: rbind_InrE split: if_splits)
  ultimately show ?thesis by (intro told_mute) simp_all
qed

lemma handler_part_answered:
  assumes "handler_part e a m w = Inr (v, r)" and sp: "speaker a w c" and "env_ok e" and n: "says w a (part_channels m) n"
    and x: "case x of None \<Rightarrow> part_message m = None
      | Some t \<Rightarrow> says w a (part_message m) t \<and> apart (part_channels m) n (part_message m)"
    and len: "length n + (case x of None \<Rightarrow> 0 | Some t \<Rightarrow> length t) \<le> 200"
  shows "answered a w c (Cmd_part n x) v"
proof -
  note sf = speaker_facts [OF sp] and pf = present_facts [OF speaker_present [OF sp]]
  let ?u = "store_str a (part_channels m) (lowercase n) w" and ?key = "lowercase n" and ?p = "person_of c"
  let ?i = "clientId c" and ?h = "house_of w"
  obtain d where d: "present a ?u d" "core d = core c" "server ?u = server w" "channel_mem ?u = channel_mem w" "fd_by ?u = fd_by w"
    using stored_present [OF speaker_present [OF sp] n] .
  note du = present_facts [OF d(1)]
  note run = assms(1) [unfolded handler_part_def sf(8) rbind.simps says_str [OF n] server_get_channel_def Let_def]
  have mute: "told (fd_by w) a w ?u ([], [])" by (rule store_str_told(1) [OF n])
  show ?thesis
  proof (cases "g_lookup (channels (server w)) ?key")
    case None
    have nul: "NUL \<notin> set ?key" "length ?key \<le> 200" using says_no_NUL [OF n] len by (simp_all add: lowercase_no_NUL)
    have "rbind (push_reply a (Reply_ErrNoSuchChannel c (server w) (lit ?key)) ?u) (\<lambda>w. Inr (w, -1)) = Inr (v, r)"
      using run None d(3) by simp
    from told_trans [OF mute reply_told [OF this Reply_ErrNoSuchChannel_sends [OF sf(3,5) nul] du(1)]]
    show ?thesis by (intro exI conjI) (assumption, simp add: part_speech_def rooms_chat_of(1) [OF None])
  next
    case (Some ch)
    obtain k where k: "channel_mem w ch = Some k" "cstring (chan_name k) = ?key" "rooms (chat_of w) ?key = Some (room_of k)"
      "channel_ok k" "length ?key \<le> 50" using table_room [OF speaker_present [OF sp] Some] by metis
    have ku: "channel_mem ?u ch = Some k" using k(1) d(4) by simp
    have mem: "channel_is_member k c \<longleftrightarrow> ?i \<in> r_people (room_of k)" by (auto simp: channel_is_member_def room_of_def)
    show ?thesis
    proof (cases "channel_is_member k c")
      case False
      then have "rbind (push_reply a (Reply_ErrNotOnChannel c (server w) k) ?u) (\<lambda>w. Inr (w, -1)) = Inr (v, r)"
        using run Some d(3) ku by (simp add: get_channel_def)
      from told_trans [OF mute reply_told [OF this topic_lines_send(5) [OF sf(3,5) k(4)] du(1)]] False mem
      show ?thesis by (intro exI conjI) (assumption, simp add: part_speech_def k(2,3))
    next
      case True
      let ?x = "case x of None \<Rightarrow> called ?p | Some t \<Rightarrow> t"
      have dp: "person_of d = ?p" "clientId d = ?i" "client_hostname d = client_hostname c"
        using person_of_eq [OF d(2)] core_eqD(4,7) [OF d(2)] by simp_all
      from run Some True d(3) ku obtain pm y l
        where pm: "(if part_message m = None then Inr None
                      else rbind (msg_ptr a (part_message m) ?u) (\<lambda>p. Inr (Some p))) = Inr pm"
        and y: "channel_sendall_part e ch a pm ?u = Inr y"
        and l: "channel_remove_member ch a y = Inr l"
          "\<exists>b. (if b then rbind (server_remove_channel ch l) (\<lambda>w. Inr (w, 0)) else Inr (l, 0)) = Inr (v, r)"
        by (simp add: get_channel_def) (elim rbind_InrE; blast)
      have px: "case pm of None \<Rightarrow> ?x = called (person_of d) | Some q \<Rightarrow> cstr q = Inr ?x"
      proof (cases x)
        case None
        then show ?thesis using x pm dp by simp
      next
        case (Some t)
        then have t: "says w a (part_message m) t" "apart (part_channels m) n (part_message m)" using x by simp_all
        have "says ?u a (part_message m) t" by (rule store_lowercase_apart [OF n t])
        then obtain q where "msg_ptr a (part_message m) ?u = Inr q" "cstr q = Inr t" by (rule says_ptr)
        then show ?thesis using pm says_not_null [OF t(1)] by (auto simp: Some)
      qed
      have lx: "length (cstring (chan_name k)) + length ?x \<le> 200"
        using len k(2,5) person_lengths(1) [OF sf(3)] by (cases x) simp_all
      obtain z where z: "Format_MessagePart d (chan_name k) pm = Inr z" "channel_send_message e ch z ?i ?u = Inr y"
        using y by (auto simp: channel_sendall_part_def get_channel_def ku du(7) dp(2) elim!: rbind_InrE)
      have "resp_bytes z = Inr (parted_text (h_host ?h ?i) ?p ?key ?x)"
        using sends_optional [OF Format_MessagePart_sends [OF du(2,3) k(4) px lx] z(1)] by (simp add: pf(9) dp k(2))
      from channel_send_message_told [OF z(2) this du(5) assms(3) ku _ du(1) dp(2) refl] sf(9) store_str_told(2) [OF n]
      obtain os where os: "told (fd_by w) a ?u y (os, [])"
        "tells (r_people (room_of k) - {?i}) (parted_text (h_host ?h ?i) ?p ?key ?x) os" by (auto simp: d(5))
      obtain b where "(if b then rbind (server_remove_channel ch l) (\<lambda>w. Inr (w, 0)) else Inr (l, 0)) = Inr (v, r)" using l(2) by blast
      from told_trans [OF told_trans [OF mute os(1)] leave_mute [OF l(1) this]]
      have "told (fd_by w) a w v (os, [])" by simp
      then show ?thesis
        by (intro exI [of _ "(os, [])"]) (use os(2) True mem in \<open>simp add: part_speech_def k(3)\<close>)
    qed
  qed
qed

subsection \<open>JOIN\<close>

text \<open>Entering or opening a room: what is announced, and where the client then is.\<close>

lemma house_of_rooms:
  "view v = view w \<Longrightarrow> server v = (server w)\<lparr>channels := x\<rparr> \<Longrightarrow> house_of v = house_of w"
  by (simp add: house_of_def)

definition entered :: "env \<Rightarrow> caddr \<Rightarrow> string \<Rightarrow> world \<Rightarrow> (world \<times> chaddr) run" where
  "entered e a n w =
     (case server_get_channel (server w) n of
        (_, Some ch) \<Rightarrow> rbind (channel_join e ch a w) (\<lambda>(w, _). Inr (w, ch))
      | (name, None) \<Rightarrow> server_create_channel name a w)"

lemma entered_told:
  assumes "entered e a n w = Inr (u, ch)" and able: "able a w" and env: "env_ok e" and n: "joinable w a n" "NUL \<notin> set n"
    and c: "client_mem w a = Some c" and q: "\<forall>b. b \<noteq> a \<longrightarrow> queue w b = []" and f: "f = fd_by w"
  defines "r \<equiv> (case rooms (chat_of w) (lowercase n) of None \<Rightarrow> \<lparr>r_topic = [], r_people = {}\<rparr> | Some r \<Rightarrow> r)"
  shows "\<exists>os. told f a w u (os, []) \<and>
      tells (if clientId c \<in> r_people r then {} else r_people r) (joined_text (h_host (house_of w) (clientId c)) (person_of c) (lowercase n)) os"
    and "able a u" and "view u = view w" and "\<exists>x. server u = (server w)\<lparr>channels := x\<rparr>"
    and "chat_of u = chat_join (clientId c) n (chat_of w)"
    and "g_lookup (channels (server u)) (lowercase n) = Some ch"
proof -
  have pr: "present a w c" using able able_server [OF able] c by (simp add: present_def)
  note pf = present_facts [OF pr]
  let ?i = "clientId c" and ?key = "lowercase n"
  have all: "(\<exists>os. told f a w u (os, []) \<and>
      tells (if ?i \<in> r_people r then {} else r_people r) (joined_text (h_host (house_of w) ?i) (person_of c) ?key) os) \<and>
    able a u \<and> view u = view w \<and> (\<exists>x. server u = (server w)\<lparr>channels := x\<rparr>) \<and> chat_of u = chat_join ?i n (chat_of w) \<and>
    g_lookup (channels (server u)) ?key = Some ch"
  proof (cases "g_lookup (channels (server w)) ?key")
    case None
    then have cr: "server_create_channel ?key a w = Inr (u, ch)" using assms(1) by (simp add: entered_def server_get_channel_def)
    have nm: "NUL \<notin> set ?key" "length ?key \<le> CHANNEL_NAME_MAX" using n by (simp_all add: joinable_def lowercase_no_NUL)
    have au: "able a u" "view u = view w" "channels (server u) = g_insert ?key ch (channels (server w))"
      using server_create_channel_ok [OF able nm c] cr by (auto simp: ok_def)
    have "server u = (server w)\<lparr>channels := g_insert ?key ch (channels (server w))\<rparr>" "told f a w u ([], [])"
      using cr by (auto simp: server_create_channel_def channel_new_def Let_def elim!: rbind_InrE intro!: told_mute)
    moreover have "r_people r = {}" by (simp add: r_def rooms_chat_of(1) [OF None])
    moreover have "chat_of u = chat_join ?i n (chat_of w)"
      using server_create_channel_chat(1) [OF cr pf(5,6) c] by (simp add: chat_join_def rooms_chat_of(1) [OF None])
    ultimately show ?thesis using au by (auto intro: exI [of _ "[]"])
  next
    case (Some x)
    then obtain z where j: "channel_join e x a w = Inr (u, z)" and x: "x = ch"
      using assms(1) by (auto simp: entered_def server_get_channel_def elim!: rbind_InrE)
    obtain k where k: "channel_mem w ch = Some k" "cstring (chan_name k) = ?key" "rooms (chat_of w) ?key = Some (room_of k)"
      "channel_ok k" using table_room [OF pr Some [unfolded x]] by metis
    have "length (members k) < MEMBERS_MAX \<or> g_lookup (members k) ?i \<noteq> None"
      using n(1) Some x k(1) view_SomeI [OF c] by (simp add: joinable_def)
    with channel_join_ok [OF able env k(1) c] j have au: "able a u" "view u = view w" "server u = server w"
      unfolding x by (auto simp: ok_def)
    have ch: "chat_of u = chat_join ?i n (chat_of w)" by (rule channel_join_chat(1) [OF j pf(5,6) c Some])
    have r: "r = room_of k" by (simp add: r_def k(3))
    have "\<exists>os. told f a w u (os, []) \<and>
      tells (if ?i \<in> r_people r then {} else r_people r) (joined_text (h_host (house_of w) ?i) (person_of c) ?key) os"
    proof (cases "g_lookup (members k) ?i")
      case (Some y)
      then have "u = w" "?i \<in> r_people r" using j by (auto simp: x channel_join_def get_channel_def k(1) pf(7) r room_of_def)
      then show ?thesis by (intro exI [of _ "[]"]) simp
    next
      case no: None
      let ?g = "\<lambda>k. k\<lparr>members := g_insert ?i a (members k)\<rparr>"
      let ?v = "upd_channel ch ?g w"
      have s: "channel_sendall_join e ch a ?v = Inr u"
        using j no by (auto simp: x channel_join_def get_channel_def k(1) pf(7) elim!: rbind_InrE)
      have wo: "world_ok ?v"
        using inv_channel [OF pf(5) k(1)] view_SomeI [OF c]
        by (intro inv_upd_channel [OF pf(5) k(1)]) (auto simp: channel_ok_def split: if_splits)
      have kv: "channel_mem ?v ch = Some (?g k)" and cv: "client_mem ?v a = Some c" using k(1) c by simp_all
      obtain t where t: "Format_MessageJoin c (chan_name k) = Inr t" "channel_send_message e ch t ?i ?v = Inr u"
        using s kv cv by (auto simp: channel_sendall_join_def get_channel_def get_client_def elim!: rbind_InrE)
      have "resp_bytes t = Inr (joined_text (h_host (house_of w) ?i) (person_of c) ?key)"
        using sends_optional [OF Format_MessageJoin_sends [OF pf(2,3) k(4)] t(1)] by (simp add: pf(9) k(2))
      moreover have qv: "queue ?v = queue w" by (simp add: queue_def fun_eq_iff)
      have fv: "f = fd_by ?v" using fd_by_views [of ?v w] by (simp add: f)
      have "\<forall>b. b \<noteq> a \<longrightarrow> queue ?v b = []" using q by (simp add: qv)
      ultimately obtain os where os: "told f a ?v u (os, [])"
        "tells (r_people (room_of (?g k)) - {?i}) (joined_text (h_host (house_of w) ?i) (person_of c) ?key) os"
        using channel_send_message_told [OF t(2) _ wo env kv _ cv refl fv] by blast
      have "r_people (room_of (?g k)) - {?i} = r_people r" "?i \<notin> r_people r" using no by (auto simp: r room_of_def)
      moreover have "told f a w ?v ([], [])" by (rule told_mute) (simp_all add: qv)
      ultimately show ?thesis using os told_trans [of f a w ?v "([], [])"] by fastforce
    qed
    moreover have "\<exists>y. server u = (server w)\<lparr>channels := y\<rparr>" using au(3) by (intro exI [of _ "channels (server w)"]) simp
    ultimately show ?thesis using au ch Some x by simp
  qed
  then show "\<exists>os. told f a w u (os, []) \<and>
      tells (if clientId c \<in> r_people r then {} else r_people r) (joined_text (h_host (house_of w) (clientId c)) (person_of c) (lowercase n)) os"
    "able a u" "view u = view w" "\<exists>x. server u = (server w)\<lparr>channels := x\<rparr>"
    "chat_of u = chat_join (clientId c) n (chat_of w)" "g_lookup (channels (server u)) (lowercase n) = Some ch"
    by blast+
qed

lemma join_one_entered:
  "join_one e a n w = rbind (entered e a n w) (\<lambda>(w, ch).
     rbind (get_channel w ch) (\<lambda>channel. rbind (get_client w a) (\<lambda>c. greet e a c channel w)))"
  unfolding join_one_def entered_def greet_def ..

lemma greet_told:
  assumes "greet e a d k u = Inr v" and pr: "present a u d" and env: "env_ok e" and k: "channel_mem u ch = Some k"
  defines "name \<equiv> cstring (server_hostname (server u))" and "key \<equiv> cstring (chan_name k)"
  shows "\<exists>ns. roll (chat_of u) (r_people (room_of k)) ns \<and>
     told f a u v ([], [joined_text (cstring (client_hostname d)) (person_of d) key] @
       (if r_topic (room_of k) = [] then [] else [topic_line name (person_of d) key (r_topic (room_of k))]) @
       names_lines name (person_of d) key ns)"
    and "calm a u v"
proof -
  note pf = present_facts [OF pr] and kok = present_channel(1) [OF pr k]
  from assms(1) obtain x1 topic x2 x3 where
    p1: "push_reply a (Format_MessageJoin d (chan_name k)) u = Inr x1"
    and tp: "cstr (chan_topic k) = Inr topic"
    and p2: "(if length topic \<noteq> 0 then push_reply a (Reply_RplTopic d (server x1) k) x1 else Inr x1) = Inr x2"
    and p3: "push_reply a (Reply_RplNamReply e x2 d (server x2) k) x2 = Inr x3"
    and p4: "push_reply a (Reply_RplEndOfNames d (server x3) k) x3 = Inr v"
    unfolding greet_def by (elim rbind_InrE) auto
  have c0: "client_mem u a \<noteq> None" using pf(1) by simp
  note n1 = push_reply_next [OF p1 c0]
  have topic: "topic = r_topic (room_of k)" using cstr_cstring [OF tp] by (simp add: room_of_def)
  note t1 = push_reply_told' [OF p1 Format_MessageJoin_sends [OF pf(2,3) kok] c0]
  have s2: "sends (Reply_RplTopic d (server x1) k) (topic_line name (person_of d) key (r_topic (room_of k)))"
    using topic_lines_send(1) [OF pf(2,4) kok] by (simp add: name_def key_def n1(2))
  note n2 = optional_reply_next [OF p2 s2 n1(1)]
  have k2: "calm a u x2" using push_reply_calm [OF p1] optional_reply_calm [OF p2] by (rule calm_trans)
  obtain d2 where d2: "present a x2 d2" "person_of d2 = person_of d" "chat_of x2 = chat_of u" "server x2 = server u"
    "channel_mem x2 = channel_mem u" using present_calm [OF pr k2] by metis
  obtain ns where ns: "told f a x2 v ([], names_lines name (person_of d) key ns)" "roll (chat_of u) (r_people (room_of k)) ns"
    using names_told [OF p3 p4 d2(1) pf(2) d2(2) env, of ch f] k d2(3-5) by (auto simp: name_def key_def)
  have "told f a u v ([], ([joined_text (cstring (client_hostname d)) (person_of d) key] @
       (if length topic \<noteq> 0 then [topic_line name (person_of d) key (r_topic (room_of k))] else [])) @
       names_lines name (person_of d) key ns)"
    using told_more [OF told_more [OF t1 n2(1)] ns(1)] by (simp add: key_def)
  then have "told f a u v ([], [joined_text (cstring (client_hostname d)) (person_of d) key] @
       (if r_topic (room_of k) = [] then [] else [topic_line name (person_of d) key (r_topic (room_of k))]) @
       names_lines name (person_of d) key ns)" by (cases "topic = []") (simp_all add: topic)
  with ns(2) show "\<exists>ns. roll (chat_of u) (r_people (room_of k)) ns \<and>
     told f a u v ([], [joined_text (cstring (client_hostname d)) (person_of d) key] @
       (if r_topic (room_of k) = [] then [] else [topic_line name (person_of d) key (r_topic (room_of k))]) @
       names_lines name (person_of d) key ns)" by blast
  show "calm a u v" using calm_trans [OF k2 calm_trans [OF push_reply_calm [OF p3] push_reply_calm [OF p4]]] .
qed

lemma roll_folk: "folk s = folk t \<Longrightarrow> roll s = roll t"
  by (simp add: roll_def fun_eq_iff)

lemma join_one_told:
  assumes "join_one e a n w = Inr v" and able: "able a w" and env: "env_ok e" and n: "joinable w a n" "NUL \<notin> set n"
    and c: "client_mem w a = Some c" and q: "\<forall>b. b \<noteq> a \<longrightarrow> queue w b = []"
  shows "\<exists>sp. told (fd_by w) a w v sp \<and> join_speech (house_of w) (clientId c) (person_of c) n (chat_of w) sp"
    and "view v = view w" and "\<exists>x. server v = (server w)\<lparr>channels := x\<rparr>"
proof -
  let ?i = "clientId c" and ?key = "lowercase n"
  from assms(1) obtain u ch k d where u: "entered e a n w = Inr (u, ch)" and k: "channel_mem u ch = Some k"
    and d: "client_mem u a = Some d" and g: "greet e a d k u = Inr v"
    unfolding join_one_entered by (elim rbind_InrE) (auto simp: get_channel_eq get_client_eq elim!: rbind_InrE)
  note en = entered_told [OF u able env n c q refl]
  have pu: "present a u d" using en(2) able_server [OF en(2)] d by (simp add: present_def)
  have core: "core d = core c" using view_SomeI [OF d] view_SomeI [OF c] en(3) by simp
  have dp: "person_of d = person_of c" "clientId d = ?i" "client_hostname d = client_hostname c"
    using person_of_eq [OF core] core_eqD(4,7) [OF core] by simp_all
  have sh: "server_hostname (server u) = server_hostname (server w)" using en(4) by auto
  define r where "r = (case rooms (chat_of w) ?key of None \<Rightarrow> \<lparr>r_topic = [], r_people = {}\<rparr> | Some r \<Rightarrow> r)"
  have rk: "rooms (chat_of u) ?key = Some (room_of k)" and name: "cstring (chan_name k) = ?key"
    using table_room [OF pu en(6)] k by auto
  have "rooms (chat_of u) ?key = Some (r\<lparr>r_people := insert ?i (r_people r)\<rparr>)"
    unfolding en(5) chat_join_def r_def by (cases "rooms (chat_of w) ?key") simp_all
  with rk have room: "room_of k = r\<lparr>r_people := insert ?i (r_people r)\<rparr>" by simp
  obtain os where os: "told (fd_by w) a w u (os, [])"
    "tells (if ?i \<in> r_people r then {} else r_people r) (joined_text (h_host (house_of w) ?i) (person_of c) ?key) os"
    using en(1) unfolding r_def by blast
  have host: "h_host (house_of w) ?i = cstring (client_hostname c)" by (rule host_of_client [OF able_server(2) [OF able] c])
  let ?own = "\<lambda>ns. [joined_text (h_host (house_of w) ?i) (person_of c) ?key] @
       (if r_topic r = [] then [] else [topic_line (h_name (house_of w)) (person_of c) ?key (r_topic r)]) @
       names_lines (h_name (house_of w)) (person_of c) ?key ns"
  obtain ns where ns: "roll (chat_of u) (r_people (room_of k)) ns" "told (fd_by w) a u v ([], ?own ns)"
    using greet_told(1) [OF g pu env k, of "fd_by w"] by (auto simp: dp name room host sh cong: if_cong)
  have "roll (chat_of w) (insert ?i (r_people r)) ns"
    using ns(1) roll_folk [of "chat_of u" "chat_of w"] by (simp add: room en(5))
  then have "join_speech (house_of w) ?i (person_of c) n (chat_of w) (os, ?own ns)"
    using os(2) unfolding join_speech_def r_def [symmetric] Let_def by auto
  moreover have "told (fd_by w) a w v (os, ?own ns)" using told_trans [OF os(1) ns(2)] by (simp add: then_says_def)
  ultimately show "\<exists>sp. told (fd_by w) a w v sp \<and> join_speech (house_of w) ?i (person_of c) n (chat_of w) sp" by blast
  note ge = quiet_eqs [OF calm_quiet [OF greet_told(2) [OF g pu env k]]]
  show "view v = view w" "\<exists>x. server v = (server w)\<lparr>channels := x\<rparr>" using en(3,4) by (simp_all add: ge)
qed

lemma join_loop_told:
  assumes "rfold (join_one e a) ns w = Inr v" and "able a w" and "env_ok e"
    and "\<forall>n\<in>set ns. joinable w a n \<and> NUL \<notin> set n" and "client_mem w a = Some c" and "\<forall>b. b \<noteq> a \<longrightarrow> queue w b = []"
  shows "(\<exists>sp. told (fd_by w) a w v sp \<and> joins_speech (house_of w) (clientId c) (person_of c) ns (chat_of w) sp) \<and>
     view v = view w \<and> (\<exists>x. server v = (server w)\<lparr>channels := x\<rparr>)"
  using assms(1,2,4-6)
proof (induction ns arbitrary: w c)
  case Nil
  then show ?case by (auto intro: exI [of _ "channels (server w)"])
next
  case (Cons n ns)
  from Cons.prems(1) obtain u where u: "join_one e a n w = Inr u" "rfold (join_one e a) ns u = Inr v"
    by (auto elim!: rbind_InrE)
  have n: "joinable w a n" "NUL \<notin> set n" using Cons.prems(3) by simp_all
  have a: "able a u" "\<forall>m. joinable w a m \<longrightarrow> joinable u a m"
    using join_one_ok [OF Cons.prems(2) assms(3) n] u(1) by (auto simp: ok_def)
  note jt = join_one_told [OF u(1) Cons.prems(2) assms(3) n Cons.prems(4,5)]
  obtain sp where sp: "told (fd_by w) a w u sp" "join_speech (house_of w) (clientId c) (person_of c) n (chat_of w) sp"
    using jt(1) by blast
  obtain x where x: "server u = (server w)\<lparr>channels := x\<rparr>" using jt(3) by blast
  obtain d where d: "client_mem u a = Some d" using able_client [OF a(1)] .
  have core: "core d = core c" using view_SomeI [OF d] view_SomeI [OF Cons.prems(4)] jt(2) by simp
  have dp: "person_of d = person_of c" "clientId d = clientId c" using person_of_eq [OF core] core_eqD(4) [OF core] by simp_all
  have w: "world_ok w" "table_ok w" using able_server(2,4) [OF Cons.prems(2)] by (simp_all add: sane_def)
  have same: "fd_by u = fd_by w" "house_of u = house_of w" "chat_of u = chat_join (clientId c) n (chat_of w)"
    using fd_by_views [OF jt(2)] house_of_rooms [OF jt(2) x] join_one_chat(1) [OF u(1) w Cons.prems(4)] by (simp_all add: x)
  have "\<forall>b. b \<noteq> a \<longrightarrow> queue u b = []" using told_queue [OF sp(1)] Cons.prems(5) by blast
  from Cons.IH [OF u(2) a(1) _ d this] a(2) Cons.prems(3) obtain sp' y where
    sp': "told (fd_by w) a u v sp'" "joins_speech (house_of w) (clientId c) (person_of c) ns (chat_join (clientId c) n (chat_of w)) sp'"
    and v: "view v = view u" "server v = (server u)\<lparr>channels := y\<rparr>" unfolding dp same by auto
  have "told (fd_by w) a w v (then_says sp sp')" by (rule told_trans [OF sp(1) sp'(1)])
  moreover have "joins_speech (house_of w) (clientId c) (person_of c) (n # ns) (chat_of w) (then_says sp sp')"
    using sp(2) sp'(2) unfolding joins_speech.simps by blast
  ultimately have "\<exists>sp. told (fd_by w) a w v sp \<and> joins_speech (house_of w) (clientId c) (person_of c) (n # ns) (chat_of w) sp"
    by blast
  moreover have "view v = view w" "\<exists>z. server v = (server w)\<lparr>channels := z\<rparr>" using v jt(2) x by auto
  ultimately show ?case by blast
qed

subsection \<open>Every command\<close>

lemma command_answered:
  assumes "Handler_HandleMessage e a m w = Inr (v, r)" and sp: "speaker a w c" and "complete_but {} w" and "env_ok e"
    and buf: "msg_buf w a = Some buf" and d: "denotes old buf m ret cmd"
    and "ret \<noteq> -1" and crash: "crash_of (server w) cmd = None" and bl: "blank old \<or> self_contained cmd" and "joins_ok w a cmd"
    and len: "total_length (cmd_strings cmd) \<le> 200" and short: "\<And>n. cmd = Cmd_nick n \<Longrightarrow> length n \<le> 9"
  shows "answered a w c cmd v"
proof -
  note sf = speaker_facts [OF sp]
  note says = points_says [OF buf] and disp = Handler_HandleMessage_def handlers2_def
  have opt: "case x of None \<Rightarrow> p = None | Some s \<Rightarrow> says w a p s" if "points_opt buf p x" for p x
    using that says by (cases x) (auto simp: points_opt_def points_def)
  show ?thesis
  proof (cases cmd)
    case (Cmd_nick n)
    have "answered a w c (Cmd_nick n) v"
      by (rule Handler_Nick_answered [OF _ sp assms(3)]) (use assms(1) d says short Cmd_nick in \<open>auto simp: disp\<close>)
    then show ?thesis by (simp only: Cmd_nick)
  next
    case Cmd_nick_missing
    have "answered a w c Cmd_nick_missing v"
      by (rule few_answered(1) [OF sp]) (use assms(1) d Cmd_nick_missing in \<open>auto simp: disp\<close>)
    then show ?thesis by (simp only: Cmd_nick_missing)
  next
    case (Cmd_user u s)
    have "answered a w c (Cmd_user u s) v"
      by (rule Handler_User_answered [OF _ sp assms(3)]) (use assms(1) d says len Cmd_user in \<open>auto simp: disp\<close>)
    then show ?thesis by (simp only: Cmd_user)
  next
    case Cmd_user_few
    have "answered a w c Cmd_user_few v"
      by (rule few_answered(2) [OF sp]) (use assms(1) d Cmd_user_few in \<open>auto simp: disp\<close>)
    then show ?thesis by (simp only: Cmd_user_few)
  next
    case (Cmd_privmsg t x)
    have "answered a w c (Cmd_privmsg t x) v"
      by (rule Handler_Privmsg_answered [OF _ sp assms(4)]) (use assms(1) d says len Cmd_privmsg in \<open>auto simp: disp\<close>)
    then show ?thesis by (simp only: Cmd_privmsg)
  next
    case Cmd_privmsg_no_recipient
    have "answered a w c Cmd_privmsg_no_recipient v"
      by (rule privmsg_errors_answered(1) [OF _ sp]) (use assms(1) d Cmd_privmsg_no_recipient in \<open>auto simp: disp\<close>)
    then show ?thesis by (simp only: Cmd_privmsg_no_recipient)
  next
    case Cmd_privmsg_no_text
    have "answered a w c Cmd_privmsg_no_text v"
      by (rule privmsg_errors_answered(2) [OF _ sp]) (use assms(1) d Cmd_privmsg_no_text in \<open>auto simp: disp\<close>)
    then show ?thesis by (simp only: Cmd_privmsg_no_text)
  next
    case Cmd_ping
    have "answered a w c Cmd_ping v"
      by (rule Handler_Ping_answered [OF _ sp]) (use assms(1) d Cmd_ping in \<open>auto simp: disp\<close>)
    then show ?thesis by (simp only: Cmd_ping)
  next
    case Cmd_pong
    have "v = w" using assms(1) d Cmd_pong by (simp add: disp Handler_Pong_def)
    then have "told (fd_by w) a w v ([], [])" by simp
    then show ?thesis by (rule answeredI) (simp add: Cmd_pong)
  next
    case Cmd_motd
    have "answered a w c Cmd_motd v"
      by (rule Handler_Motd_answered [OF _ sp]) (use assms(1) d Cmd_motd in \<open>auto simp: disp\<close>)
    then show ?thesis by (simp only: Cmd_motd)
  next
    case Cmd_lusers
    have "answered a w c Cmd_lusers v"
      by (rule Handler_LUsers_answered [OF _ sp]) (use assms(1) d Cmd_lusers in \<open>auto simp: disp\<close>)
    then show ?thesis by (simp only: Cmd_lusers)
  next
    case (Cmd_whois x)
    have "points_opt buf (whois_mask m) x" using d Cmd_whois by simp
    from opt [OF this] have "case x of None \<Rightarrow> whois_mask m = None | Some s \<Rightarrow> says w a (whois_mask m) s \<and> length s \<le> 200"
      using len Cmd_whois by (cases x) simp_all
    then have "answered a w c (Cmd_whois x) v"
      by (intro Handler_WhoIs_answered [OF _ sp]) (use assms(1) d Cmd_whois in \<open>auto simp: disp\<close>)
    then show ?thesis by (simp only: Cmd_whois)
  next
    case (Cmd_join ch)
    have s: "says w a (join_channels m) ch" using d says Cmd_join by simp
    have "NUL \<notin> set n" if "n \<in> set (strtok_all ch (CHR '',''))" for n
      using strtok_all_set [OF that] says_no_NUL [OF s] by blast
    then have n: "\<forall>n\<in>set (strtok_all ch (CHR '','')). joinable w a n \<and> NUL \<notin> set n"
      using \<open>joins_ok w a cmd\<close> by (simp add: Cmd_join joins_ok_def)
    have "rfold (join_one e a) (strtok_all ch (CHR '','')) w = Inr v"
      using assms(1) d says_str [OF s] says_not_null [OF s] Cmd_join
      by (auto simp: disp handler_join_def sf(8) elim!: rbind_InrE)
    from join_loop_told [OF this sf(1) assms(4) n sf(2)] sf(9) show ?thesis by (auto simp: Cmd_join)
  next
    case Cmd_join_few
    have "answered a w c Cmd_join_few v"
      by (rule few_answered(3) [OF sp]) (use assms(1) d Cmd_join_few in \<open>auto simp: disp\<close>)
    then show ?thesis by (simp only: Cmd_join_few)
  next
    case (Cmd_part n x)
    have "case x of None \<Rightarrow> part_message m = None
      | Some t \<Rightarrow> says w a (part_message m) t \<and> apart (part_channels m) n (part_message m)"
      using opt [of "part_message m" x] d Cmd_part by (cases x) simp_all
    then have "answered a w c (Cmd_part n x) v"
      by (intro handler_part_answered [OF _ sp assms(4)])
        (use assms(1) d says len Cmd_part in \<open>auto simp: disp split: option.split\<close>)
    then show ?thesis by (simp only: Cmd_part)
  next
    case (Cmd_list x)
    have "case x of None \<Rightarrow> list_channels m = None | Some s \<Rightarrow> says w a (list_channels m) s"
      using d bl says Cmd_list by (cases x) (auto simp: self_contained_def blank_def)
    then have "answered a w c (Cmd_list x) v"
      by (intro handler_list_answered [OF _ sp assms(4)]) (use assms(1) d Cmd_list in \<open>auto simp: disp\<close>)
    then show ?thesis by (simp only: Cmd_list)
  next
    case (Cmd_topic n x)
    have "x = None \<longleftrightarrow> topic_topic m = None"
      using d bl Cmd_topic by (cases x) (auto simp: self_contained_def blank_def points_def)
    then have "answered a w c (Cmd_topic n x) v"
      by (intro handler_topic_answered [OF _ sp]) (use assms(1) d says len Cmd_topic in \<open>auto simp: disp\<close>)
    then show ?thesis by (simp only: Cmd_topic)
  next
    case Cmd_topic_few
    have "answered a w c Cmd_topic_few v"
      by (rule few_answered(4) [OF sp]) (use assms(1) d Cmd_topic_few in \<open>auto simp: disp\<close>)
    then show ?thesis by (simp only: Cmd_topic_few)
  next
    case (Cmd_names x)
    have "points_opt buf (names_channels m) x" using d Cmd_names by simp
    from opt [OF this] have "answered a w c (Cmd_names x) v"
      by (intro handler_names_answered [OF _ sp assms(4)]) (use assms(1) d Cmd_names in \<open>auto simp: disp\<close>)
    then show ?thesis by (simp only: Cmd_names)
  next
    case (Cmd_away x)
    have "points_opt buf (away_text m) x" using d Cmd_away by simp
    from opt [OF this] have "answered a w c (Cmd_away x) v"
      by (intro handler_away_answered [OF _ sp]) (use assms(1) d Cmd_away in \<open>auto simp: disp\<close>)
    then show ?thesis by (simp only: Cmd_away)
  next
    case (Cmd_unknown s)
    have "answered a w c (Cmd_unknown s) v"
      by (rule Handler_Unknown_answered [OF _ sp]) (use assms(1) d says len Cmd_unknown in \<open>auto simp: disp\<close>)
    then show ?thesis by (simp only: Cmd_unknown)
  qed (use assms(7) d crash in \<open>simp_all add: crash_of_def\<close>)
qed

end
