(* ===== verification/SpeechHouse.thy ===== *)
theory SpeechHouse
  imports SpeechRooms
begin

text \<open>
  What commands do to the house: only the two counters change, and only when a registration becomes
  complete.  With the people and rooms of \<open>ChatRefined\<close> and the answers of \<open>SpeechRooms\<close> this gives the meaning
  of a line as a whole, \<open>spoken\<close> in \<open>PoliteRuns\<close>.
\<close>

subsection \<open>The counters\<close>

definition newly_registered :: "person \<Rightarrow> person \<Rightarrow> bool" where
  "newly_registered p q \<longleftrightarrow> \<not> signed_in p \<and> signed_in q"

definition count_registered :: "bool \<Rightarrow> house \<Rightarrow> house" where
  "count_registered b h = (if b then h\<lparr>h_users := h_users h + 1, h_unknown := h_unknown h - 1\<rparr> else h)"

lemma house_line_eq:
  assumes "folk s i = Some p" and "folk (chat_line i l s) i = Some q"
  shows "house_line i l s h = count_registered (newly_registered p q) h"
  using assms by (simp add: house_line_def count_registered_def newly_registered_def)

lemma newly_registered_same [simp]: "\<not> newly_registered p p"
  by (simp add: newly_registered_def)

text \<open>A change that keeps the server but for its channels and nicknames, and everybody's host.\<close>

lemma house_kept:
  assumes "server v = (server w)\<lparr>channels := x, nicks := y\<rparr>"
    and "\<And>b. map_option client_hostname (view v b) = map_option client_hostname (view w b)"
  shows "house_of v = house_of w"
proof -
  have "(case view v b of None \<Rightarrow> [] | Some c \<Rightarrow> cstring (client_hostname c)) =
      (case view w b of None \<Rightarrow> [] | Some c \<Rightarrow> cstring (client_hostname c))" for b
    using assms(2) [of b] by (cases "view v b"; cases "view w b") simp_all
  then have "h_host (house_of v) j = h_host (house_of w) j" for j
    by (cases "g_lookup (clients (server w)) j") (simp_all add: house_of_def assms(1))
  then show ?thesis by (intro house.equality ext) (simp_all add: assms(1))
qed

lemma house_upd_client:
  assumes "\<And>c. core (f c) = f (core c)" and "\<And>c. client_hostname (f c) = client_hostname c"
  shows "house_of (upd_client a f w) = house_of w"
proof (rule house_kept)
  show "server (upd_client a f w) = (server w)\<lparr>channels := channels (server w), nicks := nicks (server w)\<rparr>" by simp
  show "map_option client_hostname (view (upd_client a f w) b) = map_option client_hostname (view w b)" for b
    by (cases "view w b") (auto simp: view_upd_client [of f a w, OF assms(1)] assms(2))
qed

lemma TryRegister_house:
  assumes "rbind (Client_TryRegister a u) (\<lambda>(w, r). Inr (push_optional a r w, n)) = Inr (v, m)" and pr: "present a u c"
  shows "house_of v = count_registered (\<not> registered c \<and> receivedUser c \<and> receivedNick c) (house_of u)"
proof -
  note pf = present_facts [OF pr]
  from assms(1) obtain x q where x: "Client_TryRegister a u = Inr (x, q)" "v = push_optional a q x"
    by (auto elim!: rbind_InrE)
  have v: "house_of v = house_of x" unfolding x(2) by (rule house_of_quiet [OF calm_quiet [OF push_optional_calm]])
  from x(1) show ?thesis
  proof (cases rule: Client_TryRegister_cases)
    case (no d)
    then show ?thesis using pf(1) v by (auto simp: count_registered_def)
  next
    case (yes d)
    have d: "d = c" using yes(1) pf(1) by simp
    have same: "g_insert (clientId c) a (clients (server u)) = clients (server u)"
      using g_insert_same inv_client(4) [OF pf(5) view_SomeI [OF pf(1)]] by simp
    let ?z = "upd_server (\<lambda>s. s\<lparr>clients := g_insert (clientId c) a (clients s), nUnknown := nUnknown s - 1, nUsers := nUsers s + 1\<rparr>) u"
    have "house_of x = house_of ?z" unfolding yes(6) d by (rule house_upd_client) simp_all
    also have "\<dots> = count_registered True (house_of u)"
      by (simp add: house_of_def count_registered_def same)
    finally show ?thesis using yes(2-4) v by (simp add: d)
  qed
qed

lemma Handler_Nick_house:
  assumes "Handler_Nick a m w = Inr (v, r)" and sp: "speaker a w c" and "complete_but {} w"
    and m: "parse_err m = 0" "says w a (nick_nick m) n" and len: "length n \<le> 9"
    and q: "folk (chat_nick (clientId c) n (chat_of w)) (clientId c) = Some q"
  shows "house_of v = count_registered (newly_registered (person_of c) q) (house_of w)"
proof -
  note sf = speaker_facts [OF sp] and pf = present_facts [OF speaker_present [OF sp]]
  note nul = says_no_NUL [OF m(2)]
  let ?p = "person_of c"
  from assms(1) m(1) says_str [OF m(2)] obtain u y res where u: "Client_TryChangeNick a n w = Inr (u, y, res)"
    and rest: "(if res = -1 then Inr (push_optional a y u, -1)
          else rbind (Client_TryRegister a u) (\<lambda>(w, r). Inr (push_optional a r w, 0))) = Inr (v, r)"
    by (auto simp: Handler_Nick_def sf(8) elim!: rbind_InrE)
  have au: "able a u" using Client_TryChangeNick_ok [OF sf(1) nul len] u by (simp add: ok_def)
  from u show ?thesis
  proof (cases rule: Client_TryChangeNick_cases)
    case in_use
    then have "nick_taken n (chat_of w)" using nick_taken_iff [OF sf(6)] by simp
    then have "q = ?p" using q pf(8) by (simp add: chat_nick_def)
    moreover have "house_of v = house_of w"
      using rest in_use(1,2) house_of_quiet [OF calm_quiet [OF push_optional_calm]] by auto
    ultimately show ?thesis by (simp add: count_registered_def)
  next
    case (changed d nn ks)
    have d: "d = c" using changed(4) sf(2) by simp
    let ?c = "c\<lparr>nickname := nn, receivedNick := True\<rparr>"
    have pu: "present a u ?c" using au sf(2) able_server [OF au] by (simp add: present_def changed(7))
    have qp: "q = ?p\<lparr>p_nick := Some n\<rparr>" using q pf(8) nick_taken_iff [OF sf(6)] changed(3) by (simp add: chat_nick_def)
    have "house_of u = house_of (upd_server (\<lambda>s. s\<lparr>nicks := g_insert n (clientId d) ks\<rparr>) w)"
      unfolding changed(7) by (rule house_upd_client) simp_all
    also have "\<dots> = house_of w" by (rule house_kept [of _ _ "channels (server w)"]) simp_all
    finally have "house_of u = house_of w" .
    moreover have "house_of v = count_registered (\<not> registered ?c \<and> receivedUser ?c \<and> receivedNick ?c) (house_of u)"
      by (rule TryRegister_house [OF _ pu]) (use rest changed(1) in simp)
    moreover have "(\<not> registered ?c \<and> receivedUser ?c \<and> receivedNick ?c) \<longleftrightarrow> newly_registered ?p q"
      using registered_signed [OF sf(6) assms(3) sf(2)] by (auto simp: newly_registered_def qp signed_in_def person_of_def)
    ultimately show ?thesis by simp
  qed
qed

lemma Handler_User_house:
  assumes "Handler_User a m w = Inr (v, r)" and sp: "speaker a w c" and "complete_but {} w"
    and m: "parse_err m = 0" "says w a (user_username m) s" "says w a (user_fullname m) t" and len: "length s + length t \<le> 200"
    and q: "folk (chat_user (clientId c) s t (chat_of w)) (clientId c) = Some q"
  shows "house_of v = count_registered (newly_registered (person_of c) q) (house_of w)"
proof -
  note sf = speaker_facts [OF sp] and pf = present_facts [OF speaker_present [OF sp]]
  note reg = registered_signed [OF sf(6) assms(3) sf(2)]
  let ?p = "person_of c"
  show ?thesis
  proof (cases "registered c")
    case True
    then have "rbind (push_reply a (Reply_ErrAlreadyRegistered c) w) (\<lambda>w. Inr (w, -1)) = Inr (v, r)"
      using assms(1) m(1) by (simp add: Handler_User_def sf(8))
    from house_of_quiet [OF calm_quiet [OF reply_calm [OF this]]] have "house_of v = house_of w" .
    moreover have "q = ?p" using q True reg(2) pf(8) by (simp add: chat_user_def)
    ultimately show ?thesis by (simp add: count_registered_def)
  next
    case False
    note b = msg_str_bound [OF says_str [OF m(2)] sf(6)] msg_str_bound [OF says_str [OF m(3)] sf(6)]
    have l: "length (username c) = IRC_MSG_SIZE" "length (fullname c) = IRC_MSG_SIZE"
      using sf(3) by (simp_all add: client_ok_def array_ok_def)
    let ?f = "\<lambda>c. c\<lparr>username := pad IRC_MSG_SIZE s, fullname := pad IRC_MSG_SIZE t, receivedUser := True\<rparr>"
    let ?u = "upd_client a ?f w"
    have rest: "rbind (Client_TryRegister a ?u) (\<lambda>(w, r). Inr (push_optional a r w, 0)) = Inr (v, r)"
      using assms(1) m(1) False says_str [OF m(2)] says_str [OF m(3)] strncpy_pad [OF b(2,1) l(1)] strncpy_pad [OF b(4,3) l(2)]
      by (simp add: Handler_User_def sf(8))
    have pu: "present a ?u (?f c)" by (rule user_present [OF sp m(2,3) len])
    have "house_of v = count_registered (\<not> registered (?f c) \<and> receivedUser (?f c) \<and> receivedNick (?f c)) (house_of ?u)"
      by (rule TryRegister_house [OF rest pu])
    moreover have "house_of ?u = house_of w" by (rule house_upd_client) simp_all
    moreover have "q = ?p\<lparr>p_user := Some (s, t)\<rparr>" using q False reg(2) pf(8) by (simp add: chat_user_def)
    then have "(\<not> registered (?f c) \<and> receivedUser (?f c) \<and> receivedNick (?f c)) \<longleftrightarrow> newly_registered ?p q"
      using False reg(2) by (simp add: newly_registered_def signed_in_def person_of_def)
    ultimately show ?thesis by simp
  qed
qed

lemma handler_away_house:
  assumes "handler_away a m w = Inr (v, r)" and c: "client_mem w a = Some c"
  shows "house_of v = house_of w"
proof -
  from assms(1) obtain f where f: "\<And>c. core (f c) = f (core c)" "\<And>c. client_hostname (f c) = client_hostname c"
    and k: "calm a (upd_client a f w) v"
  proof (cases "away_text m = None")
    case True
    then have "calm a (upd_client a (\<lambda>c. c\<lparr>away := False\<rparr>) w) v" using assms(1)
      by (auto simp: handler_away_def client_unset_away_def get_client_mem [OF c] intro: push_reply_calm elim!: rbind_InrE)
    then show thesis by (rule that [rotated 2]) simp_all
  next
    case False
    then obtain am where "calm a (upd_client a (\<lambda>c. c\<lparr>away := True, away_message := am\<rparr>) w) v" using assms(1)
      by (auto simp: handler_away_def client_set_away_def get_client_mem [OF c] intro: push_reply_calm elim!: rbind_InrE)
    then show thesis by (rule that [rotated 2]) simp_all
  qed
  from house_of_quiet [OF calm_quiet [OF k]] house_upd_client [OF f] show ?thesis by simp
qed

lemma handler_topic_house:
  assumes "handler_topic a m w = Inr (v, r)" and "present a w c" and n: "parse_err m = 0" "says w a (topic_channel m) n"
  shows "house_of v = house_of w"
proof -
  note pf = present_facts [OF assms(2)]
  let ?u = "store_str a (topic_channel m) (lowercase n) w"
  have k: "calm a w ?u" by (rule store_lowercase_calm [OF says_str [OF n(2)]])
  from assms(1) have "calm a ?u v \<or> view v = view ?u \<and> server v = server ?u"
    unfolding handler_topic_def pf(7) rbind.simps n(1) says_str [OF n(2)] server_get_channel_def Let_def
    by (auto simp: channel_set_topic_def elim!: rbind_InrE split: option.splits if_splits dest!: push_reply_calm)
  then have "house_of v = house_of ?u" using house_of_quiet [OF calm_quiet] by (auto simp: house_of_def)
  then show ?thesis using house_of_quiet [OF calm_quiet [OF k]] by simp
qed

lemma handler_part_house:
  assumes "handler_part e a m w = Inr (v, r)" and "present a w c" and n: "says w a (part_channels m) n"
  shows "house_of v = house_of w"
proof -
  note pf = present_facts [OF assms(2)]
  let ?u = "store_str a (part_channels m) (lowercase n) w"
  have k: "calm a w ?u" by (rule store_lowercase_calm [OF says_str [OF n]])
  have leave: "view v = view z \<and> (\<exists>x. server v = (server z)\<lparr>channels := x\<rparr>)"
    if "channel_remove_member ch a z = Inr l" "(if b then rbind (server_remove_channel ch l) (\<lambda>w. Inr (w, 0)) else Inr (l, 0)) = Inr (v, r)"
    for ch z l b
  proof -
    have "view l = view z \<and> server l = server z" using that(1) by (auto simp: channel_remove_member_def elim!: rbind_InrE)
    moreover have "view v = view l \<and> (\<exists>x. server v = (server l)\<lparr>channels := x\<rparr>)" using that(2)
      by (auto simp: server_remove_channel_def Let_def elim!: rbind_InrE split: if_splits intro: exI [of _ "channels (server l)"])
    ultimately show ?thesis by simp
  qed
  from assms(1) consider "calm a ?u v" | pm ch z l b where "channel_sendall_part e ch a pm ?u = Inr z"
      "channel_remove_member ch a z = Inr l"
      "(if b then rbind (server_remove_channel ch l) (\<lambda>w. Inr (w, 0)) else Inr (l, 0)) = Inr (v, r)"
    unfolding handler_part_def pf(7) rbind.simps says_str [OF n] server_get_channel_def Let_def
    by (auto elim!: rbind_InrE split: option.splits if_splits dest!: push_reply_calm; metis)
  then have "house_of v = house_of ?u"
  proof cases
    case 1
    then show ?thesis by (rule house_of_quiet [OF calm_quiet])
  next
    case 2
    have q: "quiet ?u z" by (rule calm_quiet [OF channel_sendall_calm(2) [OF 2(1), of a]])
    from leave [OF 2(2,3)] obtain x where "view v = view z" "server v = (server z)\<lparr>channels := x\<rparr>" by blast
    from house_of_rooms [OF this] house_of_quiet [OF q] show ?thesis by simp
  qed
  then show ?thesis using house_of_quiet [OF calm_quiet [OF k]] by simp
qed

subsection \<open>Every command\<close>

text \<open>Only NICK and USER complete a registration.\<close>

lemma chat_cmd_signed:
  assumes "folk s i = Some p" and "folk (chat_cmd i cmd s) i = Some q"
    and "\<And>n. cmd \<noteq> Cmd_nick n" and "\<And>u r. cmd \<noteq> Cmd_user u r"
  shows "signed_in q = signed_in p"
proof -
  have "folk (fold (chat_join i) ns s) = folk s" for ns by (induction ns arbitrary: s) simp_all
  then show ?thesis using assms
    by (cases "(i, cmd, s)" rule: chat_cmd.cases)
      (auto simp: chat_part_def chat_topic_def chat_away_def signed_in_def split: option.splits if_splits)
qed

lemma command_house:
  assumes "Handler_HandleMessage e a m w = Inr (v, r)" and sp: "speaker a w c" and "complete_but {} w" and "env_ok e"
    and buf: "msg_buf w a = Some buf" and d: "denotes old buf m ret cmd"
    and "ret \<noteq> -1" and crash: "crash_of (server w) cmd = None" and "joins_ok w a cmd"
    and len: "total_length (cmd_strings cmd) \<le> 200" and short: "\<And>n. cmd = Cmd_nick n \<Longrightarrow> length n \<le> 9"
    and q: "folk (chat_cmd (clientId c) cmd (chat_of w)) (clientId c) = Some q"
  shows "house_of v = count_registered (newly_registered (person_of c) q) (house_of w)"
proof -
  note sf = speaker_facts [OF sp] and pr = speaker_present [OF sp]
  note pf = present_facts [OF pr]
  note says = points_says [OF buf] and disp = Handler_HandleMessage_def handlers2_def
  have calm: "house_of v = house_of w" if "calm a w v" by (rule house_of_quiet [OF calm_quiet [OF that]])
  have reply: "house_of v = house_of w" if "rbind (push_reply a x w) (\<lambda>w. Inr (w, n)) = Inr (v, r)" for x n
    by (rule calm [OF reply_calm [OF that]])
  have "house_of v = house_of w" if "\<And>n. cmd \<noteq> Cmd_nick n" "\<And>u s. cmd \<noteq> Cmd_user u s"
  proof (cases cmd)
    case Cmd_nick_missing
    then show ?thesis using assms(1) d reply by (auto simp: disp Handler_Nick_def sf(8))
  next
    case Cmd_user_few
    then show ?thesis using assms(1) d reply by (auto simp: disp Handler_User_def sf(8))
  next
    case (Cmd_join ch)
    have s: "says w a (join_channels m) ch" using d says Cmd_join by simp
    have "NUL \<notin> set n" if "n \<in> set (strtok_all ch (CHR '',''))" for n
      using strtok_all_set [OF that] says_no_NUL [OF s] by blast
    then have n: "\<forall>n\<in>set (strtok_all ch (CHR '','')). joinable w a n \<and> NUL \<notin> set n"
      using \<open>joins_ok w a cmd\<close> by (simp add: Cmd_join joins_ok_def)
    have "rfold (join_one e a) (strtok_all ch (CHR '','')) w = Inr v"
      using assms(1) d says_str [OF s] says_not_null [OF s] Cmd_join
      by (auto simp: disp handler_join_def sf(8) elim!: rbind_InrE)
    from join_loop_told [OF this sf(1) assms(4) n sf(2)] sf(9) show ?thesis using house_of_rooms by auto
  next
    case Cmd_join_few
    then show ?thesis using assms(1) d reply by (auto simp: disp handler_join_def sf(8))
  next
    case (Cmd_part ch x)
    then show ?thesis using assms(1) d says by (intro handler_part_house [OF _ pr]) (auto simp: disp)
  next
    case (Cmd_topic ch x)
    then show ?thesis using assms(1) d says by (intro handler_topic_house [OF _ pr]) (auto simp: disp)
  next
    case Cmd_topic_few
    then show ?thesis using assms(1) d reply by (auto simp: disp handler_topic_def sf(8))
  next
    case (Cmd_away x)
    then show ?thesis using assms(1) d by (intro handler_away_house [OF _ sf(2)]) (auto simp: disp)
  next
    case Cmd_pong
    then show ?thesis using assms(1) d by (simp add: disp Handler_Pong_def)
  qed (use that assms(1,7) d crash in \<open>auto simp: disp crash_of_def intro!: calm intro: calm_handlers\<close>)
  then have other: ?thesis if "\<And>n. cmd \<noteq> Cmd_nick n" "\<And>u s. cmd \<noteq> Cmd_user u s"
    using that chat_cmd_signed [OF pf(8) q] by (simp add: newly_registered_def count_registered_def)
  show ?thesis
  proof (cases "(\<exists>n. cmd = Cmd_nick n) \<or> (\<exists>u s. cmd = Cmd_user u s)")
    case True
    then show ?thesis
    proof (elim disjE exE)
      fix n assume n: "cmd = Cmd_nick n"
      show ?thesis
        by (rule Handler_Nick_house [OF _ sp assms(3)]) (use assms(1) d says short q n in \<open>auto simp: disp\<close>)
    next
      fix u s assume n: "cmd = Cmd_user u s"
      show ?thesis
        by (rule Handler_User_house [OF _ sp assms(3)]) (use assms(1) d says len q n in \<open>auto simp: disp\<close>)
    qed
  qed (use other in blast)
qed

end
