(* ===== verification/PoliteRuns.thy ===== *)
theory PoliteRuns
  imports SpeechHouse
begin

text \<open>
  Polite reads, events and runs: progress and preservation for the event loop, and what it does to people
  and rooms and writes to whom.
\<close>

subsection \<open>Words\<close>

text \<open>What is written, by the descriptors of those it is written to.\<close>

definition overheard :: "world \<Rightarrow> (int \<times> string) list \<Rightarrow> (int \<times> string) list" where
  "overheard w = map (\<lambda>(j, t). (fd_by w j, t))"

lemma overheard_simps [simp]: "overheard w [] = []" "overheard w (o1 @ o2) = overheard w o1 @ overheard w o2"
  by (simp_all add: overheard_def)

text \<open>From \<open>w\<close> to \<open>v\<close> the person \<open>i\<close> has said the lines \<open>ls\<close>.\<close>

definition spoken :: "int \<Rightarrow> string list \<Rightarrow> world \<Rightarrow> world \<Rightarrow> bool" where
  "spoken i ls w v \<longleftrightarrow> fd_by v = fd_by w \<and>
     (\<exists>out. talk i ls (house_of w, chat_of w) out (house_of v, chat_of v) \<and> wire v = wire w @ overheard w out)"

definition unheard :: "world \<Rightarrow> world \<Rightarrow> bool" where
  "unheard w v \<longleftrightarrow> house_of v = house_of w \<and> chat_of v = chat_of w \<and> fd_by v = fd_by w \<and> wire v = wire w"

lemma unheard_overheard: "unheard w v \<Longrightarrow> overheard v = overheard w"
  by (simp add: unheard_def overheard_def)

lemma spoken_nothing: "unheard w v \<Longrightarrow> spoken i [] w v"
  by (auto simp: spoken_def unheard_def)

lemma spoken_more:
  assumes "spoken i ls w u" and "spoken i ms u v"
  shows "spoken i (ls @ ms) w v"
proof -
  have f: "overheard u = overheard w" using assms(1) by (simp add: spoken_def overheard_def)
  from assms obtain o1 o2 where o: "talk i ls (house_of w, chat_of w) o1 (house_of u, chat_of u)"
    "wire u = wire w @ overheard w o1" "talk i ms (house_of u, chat_of u) o2 (house_of v, chat_of v)"
    "wire v = wire u @ overheard w o2" by (auto simp: spoken_def f)
  have "talk i (ls @ ms) (house_of w, chat_of w) (o1 @ o2) (house_of v, chat_of v)" by (rule talk_append [OF o(1,3)])
  then show ?thesis using assms o(2,4) by (auto simp: spoken_def)
qed

lemma unheard_spoken: "unheard w u \<Longrightarrow> spoken i ls u v \<Longrightarrow> spoken i ls w v"
  using spoken_more [OF spoken_nothing] by fastforce

lemma spoken_chat: "spoken i ls w v \<Longrightarrow> chat_of v = fold (chat_line i) ls (chat_of w)"
  by (auto simp: spoken_def dest!: talk_chat)

lemma fd_by_conns:
  assumes "world_ok w" and "world_ok v" and c: "client_mem w a = Some c" and d: "client_mem v a = Some d" "clientId d = clientId c"
    and same: "conns v = conns w" and others: "\<forall>b. b \<noteq> a \<longrightarrow> view v b = view w b"
  shows "fd_by v = fd_by w"
proof
  have one: "fd_by x j = conn_fd (conn k)" if "world_ok x" "view x b = Some k" "clientId k = j" for x j b k
    using inv_client(4) [OF that(1,2)] that(2,3) by (simp add: fd_by_def fd_of_view)
  have none: "fd_by x j = -1" if "world_ok x" "\<And>b k. view x b = Some k \<Longrightarrow> clientId k \<noteq> j" for x j
    using that(2) inv_table [OF that(1)] by (fastforce simp: fd_by_def fd_of_view split: option.split)
  have ids: "map_option clientId (view v b) = map_option clientId (view w b)" for b
    using others view_SomeI [OF c] view_SomeI [OF d(1)] d(2) by (cases "b = a") simp_all
  fix j
  show "fd_by v j = fd_by w j"
  proof (cases "\<exists>b k. view w b = Some k \<and> clientId k = j")
    case True
    then obtain b k where k: "view w b = Some k" "clientId k = j" by blast
    then obtain l where l: "view v b = Some l" "clientId l = j" using ids [of b] by auto
    have "conn l = conn k" using fun_cong [OF same, of b] k(1) l(1) by (simp add: conns_def)
    then show ?thesis using one [OF assms(1) k] one [OF assms(2) l] by simp
  next
    case False
    then have "view v b = Some k \<Longrightarrow> clientId k \<noteq> j" for b k using ids [of b] by (cases "view w b") auto
    then show ?thesis using none [OF assms(1)] none [OF assms(2)] False by metis
  qed
qed

subsection \<open>One line\<close>

lemma joinable_quiet: "quiet w w' \<Longrightarrow> joinable w' a n = joinable w a n"
  unfolding joinable_def by (simp only: quiet_eqs)

lemma joins_ok_quiet: "quiet w w' \<Longrightarrow> joins_ok w' a cmd = joins_ok w a cmd"
  by (simp add: joins_ok_def joinable_quiet split: irc_cmd.split)

lemma set_message_able:
  assumes "able a w" and c: "client_mem w a = Some c" and "length buf = length (conn_message (conn c))"
  shows "able a (upd_client a (set_message buf) w)" "quiet w (upd_client a (set_message buf) w)"
    "msg_buf (upd_client a (set_message buf) w) a = Some buf"
proof -
  let ?v = "upd_client a (set_message buf) w"
  show q: "quiet w ?v" by (rule calm_quiet [OF set_message_calm(1) [OF c assms(3)]])
  have "queue ?v = queue w" by (rule ext) (simp add: queue_def set_message_def split: option.split)
  then show "able a ?v" using able_quiet [OF assms(1) q] assms(1) by (simp add: able_def sendq_ok_def)
  show "msg_buf ?v a = Some buf" using c by (simp add: msg_buf_def)
qed

lemma steady_but_able:
  assumes "steady_but a w" and "sane w" and "is_open w a"
  shows "able a w" "\<forall>b. queue w b = []"
proof -
  have "queue w b = []" for b using assms(1) by (auto simp: queue_def steady_but_def idle_def split: option.split)
  then show "able a w" "\<forall>b. queue w b = []" using assms by (simp_all add: able_def steady_but_def sendq_ok_def)
qed

lemma set_message_unheard:
  assumes "quiet w (upd_client a (set_message buf) w)"
  shows "unheard w (upd_client a (set_message buf) w)" "queue (upd_client a (set_message buf) w) = queue w"
proof -
  note q = quiet_eqs [OF assms]
  show "unheard w (upd_client a (set_message buf) w)"
    using house_of_quiet [OF assms] chat_of_quiet [OF assms] fd_by_views [OF q(1)] q(2) by (simp add: unheard_def)
  show "queue (upd_client a (set_message buf) w) = queue w"
    by (rule ext) (simp add: queue_def set_message_def split: option.split)
qed

text \<open>What a command says has been written when the queue has been emptied.\<close>

lemma answered_written:
  assumes "told f a w u sp" and "queue w a = []" and "client_mem u a = Some d" and x: "Client_TryEmptyBuffer a u = Inr x"
    and "f i = conn_fd (conn d)"
  shows "wire x = wire w @ map (\<lambda>(j, t). (f j, t)) (fst sp @ map (Pair i) (snd sp))"
proof -
  have "wire u = wire w @ map (\<lambda>(j, t). (f j, t)) (fst sp)" and "all_bytes (conn_responses (conn d)) = Inr (snd sp)"
    using assms(1,2,3) by (auto simp: told_def queue_def)
  with Client_TryEmptyBuffer_writes [OF assms(3), of "snd sp"] x assms(5) show ?thesis
    by (simp add: flushed_def comp_def case_prod_beta)
qed

text \<open>The handler's part of a line: the command is carried out and answered.\<close>

abbreviation (input) handled :: "env \<Rightarrow> caddr \<Rightarrow> irc_message \<Rightarrow> int \<Rightarrow> world \<Rightarrow> world run" where
  "handled e a m ret w \<equiv> if ret \<noteq> -1 then rbind (Handler_HandleMessage e a m w) (\<lambda>(w, _). Inr w) else Inr w"

lemma line_commanded:
  assumes sp: "speaker a w c" and cb: "complete_but {} w" and "env_ok e" and buf: "msg_buf w a = Some buf"
    and d: "denotes old buf m ret (command_of l)" and ln: "total_length (cmd_strings (command_of l)) \<le> 200"
    and pl: "crash_of (server w) (command_of l) = None" "blank old \<or> self_contained (command_of l)" "joins_ok w a (command_of l)"
  shows "ok (handled e a m ret w) (\<lambda>u. able a u \<and> answered a w c (command_of l) u \<and>
     chat_of u = chat_line (clientId c) l (chat_of w) \<and> house_of u = house_line (clientId c) l (chat_of w) (house_of w))"
proof -
  note sf = speaker_facts [OF sp]
  note pf = present_facts(8) [OF speaker_present [OF sp]]
  let ?i = "clientId c" and ?s = "chat_line (clientId c) l (chat_of w)"
  have "folk ?s ?i \<noteq> None" using pf by (simp add: chat_line_def folk_chat_cmd)
  then obtain q where q: "folk ?s ?i = Some q" by blast
  have short: "length n \<le> 9" if "command_of l = Cmd_nick n" for n
    using that by (auto simp: command_of_def dest: parse_spec_nick)
  show ?thesis
  proof (cases "ret = -1")
    case True
    then have k: "command_of l = Cmd_invalid" using d by (cases "command_of l") auto
    then have "q = person_of c" using q pf by (simp add: chat_line_def)
    then have "house_of w = house_line ?i l (chat_of w) (house_of w)"
      using house_line_eq [OF pf q] by (simp add: count_registered_def)
    moreover have "told (fd_by w) a w w ([], [])" by simp
    ultimately show ?thesis using True sf(1) k by (auto simp: chat_line_def)
  next
    case False
    have "returns_able a (Handler_HandleMessage e a m w)"
      by (rule tame_command_ok [OF sf(1) assms(3) buf d False pl ln short])
    then obtain u k where u: "Handler_HandleMessage e a m w = Inr (u, k)" "able a u" by (auto simp: ok_def)
    have "chat_of u = ?s"
      using command_refines_chat [OF u(1) sf(1) cb assms(3) sf(2) buf d False pl ln] by (simp add: chat_line_def)
    moreover have "answered a w c (command_of l) u"
      by (rule command_answered [OF u(1) sp cb assms(3) buf d False pl ln short])
    moreover have "house_of u = house_line ?i l (chat_of w) (house_of w)"
      using command_house [OF u(1) sp cb assms(3) buf d False pl(1,3) ln short, of q] house_line_eq [OF pf q] q
      by (simp add: chat_line_def)
    ultimately show ?thesis using u False by simp
  qed
qed

text \<open>And the reader's part: parsing before it, and emptying the queue after it.\<close>

lemma polite_line_handled:
  assumes st: "steady_but a w" "sane w" "is_open w a" and "env_ok e" and c: "client_mem w a = Some c"
    and msg: "conn_message (conn c) = pad IRC_MSG_SIZE (l @ CRLF)" and l: "polite_line w a m l"
  shows "ok (handle_one e a m w) (\<lambda>(v, m'). able a v \<and> spoken (clientId c) [l] w v)"
proof -
  note ab = steady_but_able [OF st]
  have line: "line_at (conn_message (conn c)) 0 l" using l by (simp add: line_at_def polite_line_def msg pad_def)
  obtain buf m' ret where p: "parse_message (conn_message (conn c)) m = Inr (buf, m', ret)"
    "length buf = length (conn_message (conn c))" "denotes m buf m' ret (command_of l)"
    using parse_message_line [OF line, of m] by (auto simp: parses_def command_of_def)
  let ?v = "upd_client a (set_message buf) w" and ?c = "set_message buf c" and ?i = "clientId c"
  note v = set_message_able [OF ab(1) c p(2)] and un = set_message_unheard [OF set_message_able(2) [OF ab(1) c p(2)]]
  have cv: "client_mem ?v a = Some ?c" "clientId ?c = ?i" using c by (simp_all add: set_message_def)
  have co: "complete_but {} ?v" using st(1) complete_quiet [OF v(2), of "{}"] by (simp add: steady_but_def)
  have sp: "speaker a ?v ?c" using v(1) cv(1) un(2) ab(2) by (simp add: speaker_def)
  have ln: "total_length (cmd_strings (command_of l)) \<le> 200" using command_length [of l] l by (simp add: polite_line_def)
  have pl: "crash_of (server ?v) (command_of l) = None" "blank m \<or> self_contained (command_of l)" "joins_ok ?v a (command_of l)"
    using l by (simp_all add: polite_line_def joins_ok_quiet [OF v(2)])
  have sv: "chat_of ?v = chat_of w" "house_of ?v = house_of w" "fd_by ?v = fd_by w" "wire ?v = wire w"
    using un(1) by (simp_all add: unheard_def)
  obtain u sp' where u: "handled e a m' ret ?v = Inr u" "able a u" "chat_of u = chat_line ?i l (chat_of w)"
      "house_of u = house_line ?i l (chat_of w) (house_of w)"
    and says: "told (fd_by w) a ?v u sp'" "replies (house_of w) ?i (person_of ?c) (command_of l) (chat_of w) sp'"
    using line_commanded [OF sp co assms(4) v(3) p(3) ln pl] unfolding cv(2) sv by (auto simp: ok_def)
  obtain d where d: "client_mem u a = Some d" using able_client [OF u(2)] .
  then have "ok (Client_TryEmptyBuffer a u) (\<lambda>x. able a x \<and> hushed a u x)"
    by (intro Client_TryEmptyBuffer_ok [OF u(2)]) simp
  then obtain x where x: "Client_TryEmptyBuffer a u = Inr x" "able a x" "hushed a u x" by (auto simp: ok_def)
  have one: "handle_one e a m w = Inr (x, m')"
    using u(1) p(1) x(1) by (simp add: handle_one_def get_client_mem [OF c] Let_def)
  note h = handle_one_ok [OF one st(1,3)]
  have cx: "chat_of x = chat_line ?i l (chat_of w)" "house_of x = house_line ?i l (chat_of w) (house_of w)"
    using chat_of_quiet [of u x] house_of_quiet [of u x] x(3) u(3,4) by (simp_all add: hushed_def)
  have pf: "folk (chat_of w) ?i = Some (person_of ?c)"
    using present_facts(8) [OF speaker_present [OF sp]] cv(2) by (simp add: sv)
  obtain y where y: "client_mem x a = Some y" using able_client [OF x(2)] .
  have wo: "world_ok w" "world_ok x" using st(1) h by (simp_all add: steady_but_def)
  have "folk (chat_of x) ?i \<noteq> None" using pf by (simp add: cx(1) chat_line_def folk_chat_cmd)
  with same_client_id [OF wo c y] h have i: "clientId y = ?i" by blast
  have fd: "fd_by x = fd_by w" using fd_by_conns [OF wo c y i] h by blast
  have "core y = core d" using hushed_eqs(1) [OF x(3)] view_SomeI [OF d] view_SomeI [OF y] by simp
  then have "fd_by w ?i = conn_fd (conn d)"
    using fd_of_client [OF wo(2) y] y by (simp add: i fd fd_of_def) (metis core_simps(11))
  moreover have "queue ?v a = []" using un(2) ab(2) by simp
  ultimately have "wire x = wire w @ overheard w (fst sp' @ map (Pair ?i) (snd sp'))"
    using answered_written [OF says(1) _ d x(1), of ?i] by (simp only: sv overheard_def)
  moreover have "line_heard (house_of w) ?i l (chat_of w) (fst sp' @ map (Pair ?i) (snd sp'))"
    using says(2) pf unfolding line_heard_def by blast
  ultimately have "spoken ?i [l] w x" unfolding spoken_def using fd cx by auto
  then show ?thesis using one x(2) by simp
qed

subsection \<open>The lines of a read\<close>

text \<open>Each line is polite in the state in which it is handled.\<close>

fun polite_lines :: "env \<Rightarrow> caddr \<Rightarrow> irc_message \<Rightarrow> world \<Rightarrow> string list \<Rightarrow> bool" where
  "polite_lines e a m w [] = True"
| "polite_lines e a m w (l # ls) =
     (polite_line w a m l \<and>
      (case next_round a w of
         Inl _ \<Rightarrow> True
       | Inr (w, _) \<Rightarrow> (case handle_one e a m w of Inl _ \<Rightarrow> True | Inr (w, m) \<Rightarrow> polite_lines e a m w ls)))"

definition bytes_of :: "string list \<Rightarrow> char list" where
  "bytes_of ls = concat (map (\<lambda>l. l @ CRLF) ls)"

lemma bytes_of_simps [simp]: "bytes_of [] = []" "bytes_of (l # ls) = l @ CRLF @ bytes_of ls"
  by (simp_all add: bytes_of_def)

lemma bytes_of_length: "length ls \<le> length (bytes_of ls)"
  by (induction ls) (auto simp: CRLF_def)

lemma sane_set_conn:
  assumes "sane w"
  shows "sane (set_conn a cn w)"
proof (rule sane_change [OF assms])
  fix b c assume "view (set_conn a cn w) b = Some c"
  then obtain d where d: "client_mem (set_conn a cn w) b = Some d" "c = core d" using view_SomeD by blast
  then obtain x where "client_mem w b = Some x" "d = x \<or> d = x\<lparr>conn := cn\<rparr>" by (auto split: if_splits)
  with sane_client [OF assms, of b x] d(2) show "modest c" by (auto simp: modest_def)
qed simp_all

lemma polite_line_set_conn:
  assumes "client_mem w a = Some c"
  shows "polite_line (set_conn a cn w) a m l = polite_line w a m l"
proof -
  have "joinable (set_conn a cn w) a n = joinable w a n" for n
    using assms by (simp add: joinable_def view_def split: option.split)
  then show ?thesis by (simp add: polite_line_def joins_ok_def split: irc_cmd.split)
qed

lemma set_conn_unheard:
  assumes "client_mem w a = Some c" and "conn_fd cn = conn_fd (conn c)"
  shows "unheard w (set_conn a cn w)"
proof -
  have "map_option client_hostname (view (set_conn a cn w) b) = map_option client_hostname (view w b)" for b
    by (cases "client_mem w b") (auto simp: view_def)
  then have "house_of (set_conn a cn w) = house_of w" by (intro house_kept [where w = w and x = "channels (server w)" and y = "nicks (server w)"]) simp_all
  moreover have "fd_of (set_conn a cn w) = fd_of w" using fd_of_set_conn [OF assms] by blast
  then have "fd_by (set_conn a cn w) = fd_by w" by (intro ext) (simp only: fd_by_def set_conn_simps)
  with calculation show ?thesis by (simp add: unheard_def)
qed

lemma lines_handled:
  assumes "steady_but a w" and "sane w" and "is_open w a" and "env_ok e" and "client_mem w a = Some c"
    and "pending (conn c) = bytes_of ls" and "polite_lines e a m w ls" and "length ls < n"
  shows "\<exists>v. handle_messages n e a m w = Some (Inr v) \<and> sane v \<and> is_open v a \<and>
     (\<forall>cn. conns v a = Some cn \<longrightarrow> totalRead cn = 0) \<and>
     list_all is_line ls \<and> spoken (clientId c) ls w v"
  using assms(1-3,5-8)
proof (induction ls arbitrary: m w c n)
  case Nil
  note wf = steady_client [OF Nil.prems(1,4)]
  have "drained (conn c)" using wf length_pending [OF wf(1)] Nil.prems(5) by (simp add: drained_def)
  then obtain cn where cn: "conn_read_message (conn c) = Inr (cn, False)" "drained cn" "conn_frame (conn c) cn"
    using take_nothing by blast
  have sp: "spoken (clientId c) [] w (set_conn a cn w)"
    using cn(3) by (intro spoken_nothing set_conn_unheard [OF Nil.prems(4)]) (simp add: conn_frame_def)
  obtain k where n: "n = Suc k" using Nil.prems(7) by (cases n) auto
  have "handle_messages n e a m w = Some (Inr (set_conn a cn w))"
    using cn(1) by (simp add: n next_round_def get_client_mem [OF Nil.prems(4)])
  moreover have "is_open (set_conn a cn w) a" using Nil.prems(3) by (simp add: is_open_def)
  moreover have "totalRead x = 0" if "conns (set_conn a cn w) a = Some x" for x
    using that Nil.prems(4) cn(2) by (auto simp: conns_def view_def drained_def)
  ultimately show ?case using sane_set_conn [OF Nil.prems(2)] sp
    by (intro exI [of _ "set_conn a cn w"]) simp
next
  case (Cons l ls)
  note wf = steady_client [OF Cons.prems(1,4)]
  have l: "polite_line w a m l" "find_crlf l = None" using Cons.prems(6) by (simp_all add: polite_line_def is_line_def)
  have "next_message False (pending (conn c)) = (Some (l @ CRLF), False, bytes_of ls)"
    using frame_line [OF l(2), of "bytes_of ls"] by (simp add: next_message_def Cons.prems(5))
  with conn_read_message_refines [OF wf(1)] wf(2) obtain cn b where
    r: "conn_read_message (conn c) = Inr (cn, b)" "reads (conn c) b cn (Some (l @ CRLF), False, bytes_of ls)" by auto
  then have cn: "b" "conn_wf cn" "conn_frame (conn c) cn" "\<not> discardNext cn" "pending cn = bytes_of ls"
    "conn_message cn = pad IRC_MSG_SIZE (l @ CRLF)" by (simp_all add: reads_def)
  let ?w = "set_conn a cn w" and ?c = "c\<lparr>conn := cn\<rparr>"
  have nr: "next_round a w = Inr (?w, True)" using r(1) cn(1) by (simp add: next_round_def get_client_mem [OF Cons.prems(4)])
  have fd: "conn_fd cn = conn_fd (conn c)" "conn_responses cn = conn_responses (conn c)"
    using cn(3) by (simp_all add: conn_frame_def)
  note sc = set_conn_steady [OF Cons.prems(1,4) cn(2,4) fd]
  have o: "is_open ?w a" using Cons.prems(3) by (simp add: is_open_def)
  have pl: "polite_line ?w a m l" using l(1) polite_line_set_conn [OF Cons.prems(4)] by simp
  have "conn_message (conn ?c) = pad IRC_MSG_SIZE (l @ CRLF)" using cn(6) by simp
  then obtain v m' where v: "handle_one e a m ?w = Inr (v, m')" "able a v" "spoken (clientId c) [l] ?w v"
    using polite_line_handled [OF sc(1) sane_set_conn [OF Cons.prems(2)] o assms(4) sc(3) _ pl] by (auto simp: ok_def)
  have sw: "spoken (clientId c) [l] w v" by (rule unheard_spoken [OF set_conn_unheard [OF Cons.prems(4) fd(1)] v(3)])
  have h: "steady_but a v" "conns v = conns ?w" "interest v = interest ?w" "\<forall>b. b \<noteq> a \<longrightarrow> view v b = view ?w b"
    using handle_one_ok [OF v(1) sc(1) o] by auto
  have ov: "is_open v a" using v(2) by (rule able_server)
  have sv: "sane v" using v(2) by (rule able_server)
  obtain d where d: "client_mem v a = Some d" using able_client [OF v(2)] .
  have wo: "world_ok ?w" "world_ok v" using sc(1) h(1) by (simp_all add: steady_but_def)
  have "folk (chat_of w) (clientId c) \<noteq> None" using chat_of_client [OF wo(1) sc(3)] by simp
  then have "folk (chat_of v) (clientId c) \<noteq> None" by (simp add: spoken_chat [OF sw] chat_line_def folk_chat_cmd)
  with same_client_id [OF wo sc(3) d h(4)] have i: "clientId d = clientId c" by simp
  have "conns v a = Some (conn (core ?c))" by (simp add: h(2) sc(4))
  then have same: "conn (core d) = conn (core ?c)" using d by (simp add: conns_def view_def)
  have "store (conn d) = store cn" "totalRead (conn d) = totalRead cn"
    using arg_cong [OF same, of store] arg_cong [OF same, of totalRead] by simp_all
  then have "pending (conn d) = bytes_of ls" using cn(5) by (simp add: pending_def)
  moreover have "polite_lines e a m' v ls" using Cons.prems(6) nr v(1) by simp
  moreover obtain k where n: "n = Suc k" "length ls < k" using Cons.prems(7) by (cases n) auto
  ultimately have "\<exists>x. handle_messages k e a m' v = Some (Inr x) \<and> sane x \<and> is_open x a \<and>
     (\<forall>cn. conns x a = Some cn \<longrightarrow> totalRead cn = 0) \<and>
     list_all is_line ls \<and> spoken (clientId c) ls v x"
    using Cons.IH [OF h(1) sv ov d] unfolding i by blast
  moreover have "is_line l" using l(1) by (simp add: polite_line_def)
  ultimately show ?case using spoken_more [OF sw] by (auto simp: n(1) nr v(1))
qed

subsection \<open>Reads and events\<close>

text \<open>
  What the server keeps in a polite run: nothing is pending on any connection between two events, and
  the bounds of \<open>sane\<close> hold.
\<close>

definition well :: "world \<Rightarrow> bool" where
  "well w \<longleftrightarrow> steady w \<and> sane w \<and> (\<forall>b cn. conns w b = Some cn \<longrightarrow> totalRead cn = 0)"

text \<open>
  A read that fails, or whole lines, each polite when its turn comes, of at most as many bytes as the
  store holds; no line at all is the end of the stream.
\<close>

definition polite_read :: "env \<Rightarrow> caddr \<Rightarrow> world \<Rightarrow> read_result \<Rightarrow> bool" where
  "polite_read e a w rr =
     (case rr of
        Read_error \<Rightarrow> True
      | Read_bytes bs \<Rightarrow> length bs \<le> IRC_MSG_SIZE \<and>
          (\<exists>ls. bs = bytes_of ls \<and>
             (case rbind (get_client w a) (\<lambda>c. Conn_ReadStoreBuffer (conn c) rr) of
                Inl _ \<Rightarrow> True
              | Inr (cn, _) \<Rightarrow> polite_lines e a zero_message (set_conn a cn w) ls)))"

text \<open>The lines of a read; lines hold no CRLF, so they are determined by the bytes.\<close>

definition said :: "read_result \<Rightarrow> string list \<Rightarrow> bool" where
  "said rr ls \<longleftrightarrow> (case rr of Read_error \<Rightarrow> ls = [] | Read_bytes bs \<Rightarrow> bs = bytes_of ls \<and> list_all is_line ls)"

lemma bytes_of_inj:
  "list_all is_line ls \<Longrightarrow> list_all is_line ms \<Longrightarrow> bytes_of ls = bytes_of ms \<Longrightarrow> ls = ms"
proof (induction ls arbitrary: ms)
  case Nil
  then show ?case by (cases ms) (auto simp: CRLF_def)
next
  case (Cons l ls)
  then obtain m ms' where ms: "ms = m # ms'" by (cases ms) (auto simp: CRLF_def)
  have "find_crlf (l @ CRLF @ bytes_of ls) = Some (length l)" "find_crlf (m @ CRLF @ bytes_of ms') = Some (length m)"
    by (rule find_crlf_append; use Cons.prems in \<open>simp add: ms is_line_def\<close>)+
  then have "length l = length m" using Cons.prems(3) by (simp add: ms)
  then show ?case using Cons.prems Cons.IH [of ms'] by (simp add: ms)
qed

lemma said_unique: "said rr ls \<Longrightarrow> said rr ms \<Longrightarrow> ls = ms"
  by (auto simp: said_def split: read_result.splits intro: bytes_of_inj)

lemma store_bytes:
  assumes "drained cn" and "length bs \<le> IRC_MSG_SIZE"
  shows "\<exists>cn1. Conn_ReadStoreBuffer cn (Read_bytes bs) = Inr (cn1, int (length bs)) \<and>
     conn_wf cn1 \<and> \<not> discardNext cn1 \<and> pending cn1 = bs \<and> conn_frame cn cn1"
proof -
  have s: "length (store cn) = 512" "totalRead cn = 0" using assms(1) by (simp_all add: drained_def conn_wf_def)
  let ?cn = "cn\<lparr>store := bs @ drop (length bs) (store cn), totalRead := totalRead cn + length bs\<rparr>"
  have "Conn_ReadStoreBuffer cn (Read_bytes bs) = Inr (?cn, int (length bs))"
    using s assms(2) by (simp add: Conn_ReadStoreBuffer_def memcpy_def)
  moreover have "conn_wf ?cn" using assms s by (simp add: drained_def conn_wf_def)
  moreover have "pending ?cn = bs" using s by (simp add: pending_def)
  ultimately show ?thesis using assms(1) by (intro exI [of _ ?cn]) (simp add: drained_def conn_frame_def)
qed

lemma sane_close:
  assumes "sane w"
  shows "sane (close_fd fd w)" "sane (upd_server (\<lambda>s. s\<lparr>nUsers := n\<rparr>) w)" "sane (upd_server (\<lambda>s. s\<lparr>nUnknown := n\<rparr>) w)"
  using assms by (simp_all add: sane_def table_ok_def modest_server_def close_fd_def)

lemma close_client_ok:
  assumes "sane w" and c: "client_mem w a = Some c" and w: "world_ok w" "complete_but {} w"
  shows "ok (close_client a w) (\<lambda>(v, r). sane v \<and> conns v = conns w \<and> chat_of v = chat_of w \<and>
     house_of v = house_left (person_of c) (house_of w) \<and> fd_by v = fd_by w \<and> wire v = wire w)"
proof -
  let ?w = "close_fd (conn_fd (conn c)) w"
  let ?v = "if registered c then upd_server (\<lambda>s. s\<lparr>nUsers := nUsers (server w) - 1\<rparr>) ?w
       else upd_server (\<lambda>s. s\<lparr>nUnknown := nUnknown (server w) - 1\<rparr>) ?w"
  have e: "close_client a w = Inr (?v, 1)"
    by (simp add: close_client_def get_client_mem [OF c] Let_def upd_server_def close_fd_def)
  have v: "view ?v = view w" "clients (server ?v) = clients (server w)" by (simp_all add: close_fd_def view_def fun_eq_iff)
  have "house_of ?v = house_left (person_of c) (house_of w)"
    using registered_signed(2) [OF w c] v(1)
    by (cases "registered c") (simp_all add: house_left_def house_of_def close_fd_def)
  then show ?thesis using e fd_by_views [OF v] chat_of_close [OF e] sane_close [OF assms(1)]
      sane_close(2,3) [OF sane_close(1) [OF assms(1)]] by (simp add: close_fd_def)
qed

text \<open>What a read amounts to: its lines are said, and at the end of the stream the person leaves.\<close>

definition read_spoken :: "int \<Rightarrow> person \<Rightarrow> read_result \<Rightarrow> string list \<Rightarrow> world \<Rightarrow> world \<Rightarrow> bool" where
  "read_spoken i p rr ls w v \<longleftrightarrow> fd_by v = fd_by w \<and>
     (\<exists>out h. talk i ls (house_of w, chat_of w) out (h, chat_of v) \<and> wire v = wire w @ overheard w out \<and>
        house_of v = (if rr = Read_bytes [] then house_left p h else h))"

lemma spoken_read: "spoken i ls w v \<Longrightarrow> rr \<noteq> Read_bytes [] \<Longrightarrow> read_spoken i p rr ls w v"
  by (auto simp: spoken_def read_spoken_def)

lemma polite_read_ok:
  assumes "well w" and "env_ok e" and "is_open w a" and c: "client_mem w a = Some c" and "polite_read e a w rr"
  shows "\<exists>v r ls. Client_HandleRead e rr a w = Inr (v, r) \<and> well v \<and> said rr ls \<and>
     read_spoken (clientId c) (person_of c) rr ls w v"
proof -
  have st: "steady w" "sane w" and t0: "\<And>b cn. conns w b = Some cn \<Longrightarrow> totalRead cn = 0"
    using assms(1) by (auto simp: well_def)
  note sb = steady_steady_but [OF st(1), of a]
  have "totalRead (conn c) = 0" using t0 [of a "conn (core c)"] view_SomeI [OF c] by (simp add: conns_def)
  then have dr: "drained (conn c)" using steady_client [OF sb c] by (simp add: drained_def)
  have "\<exists>v r ls. Client_HandleRead e rr a w = Inr (v, r) \<and> sane v \<and> (\<forall>cn. conns v a = Some cn \<longrightarrow> totalRead cn = 0) \<and>
     said rr ls \<and> read_spoken (clientId c) (person_of c) rr ls w v"
  proof (cases rr)
    case Read_error
    have "set_conn a (conn c) w = w"
      using c by (cases w) (auto simp: set_conn_def upd_client_def fun_upd_idem)
    then have "Client_HandleRead e rr a w = Inr (w, -1)"
      by (simp add: Client_HandleRead_def get_client_mem [OF c] Read_error Conn_ReadStoreBuffer_def)
    moreover have "read_spoken (clientId c) (person_of c) rr [] w w"
      by (rule spoken_read [OF spoken_nothing]) (simp_all add: unheard_def Read_error)
    ultimately show ?thesis using st(2) t0 by (intro exI [of _ w] exI [of _ "-1"] exI [of _ "[]"]) (simp add: said_def Read_error)
  next
    case (Read_bytes bs)
    then obtain ls where ls: "bs = bytes_of ls" "length bs \<le> IRC_MSG_SIZE"
      "case rbind (get_client w a) (\<lambda>c. Conn_ReadStoreBuffer (conn c) rr) of Inl _ \<Rightarrow> True
         | Inr (cn, _) \<Rightarrow> polite_lines e a zero_message (set_conn a cn w) ls"
      using assms(5) by (auto simp: polite_read_def)
    obtain cn where cn: "Conn_ReadStoreBuffer (conn c) rr = Inr (cn, int (length bs))" "conn_wf cn"
      "\<not> discardNext cn" "pending cn = bs" "conn_frame (conn c) cn"
      using store_bytes [OF dr ls(2)] Read_bytes by blast
    let ?w = "set_conn a cn w"
    have fd: "conn_fd cn = conn_fd (conn c)" "conn_responses cn = conn_responses (conn c)"
      using cn(5) by (simp_all add: conn_frame_def)
    note sc = set_conn_steady [OF sb c cn(2,3) fd]
    have o: "is_open ?w a" using assms(3) by (simp add: is_open_def)
    have pl: "polite_lines e a zero_message ?w ls" using ls(3) cn(1) by (simp add: get_client_mem [OF c])
    have "pending (conn (c\<lparr>conn := cn\<rparr>)) = bytes_of ls" using cn(4) ls(1) by simp
    moreover have "length ls < IRC_MSG_SIZE + 1" using bytes_of_length [of ls] ls(1,2) by simp
    ultimately obtain v where v: "handle_messages (IRC_MSG_SIZE + 1) e a zero_message ?w = Some (Inr v)" "sane v"
      "is_open v a" "\<forall>cn. conns v a = Some cn \<longrightarrow> totalRead cn = 0" "list_all is_line ls"
      "spoken (clientId c) ls ?w v"
      using lines_handled [OF sc(1) sane_set_conn [OF st(2)] o assms(2) sc(3) _ pl] by auto
    then have hs: "handle_store e a ?w = Inr v" unfolding handle_store_def by (simp only: option.case)
    have sp: "spoken (clientId c) ls w v" by (rule unheard_spoken [OF set_conn_unheard [OF c fd(1)] v(6)])
    have sv: "steady v" "\<forall>b. b \<noteq> a \<longrightarrow> view v b = view ?w b" using handle_store_ok [OF hs sc(1) o] by blast+
    then have "able a v" using steady_but_able(1) steady_steady_but v(2,3) by blast
    then obtain d where d: "client_mem v a = Some d" using able_client by blast
    have wo: "world_ok w" "world_ok v" "complete_but {} v" using st(1) sv(1) by (simp_all add: steady_def)
    have e: "Client_HandleRead e rr a w = (if bs = [] then close_client a v else Inr (v, 0))"
      using hs cn(1) by (simp add: Client_HandleRead_def get_client_mem [OF c])
    obtain x q where x: "close_client a v = Inr (x, q)" "sane x" "conns x = conns v" "chat_of x = chat_of v"
      "house_of x = house_left (person_of d) (house_of v)" "fd_by x = fd_by v" "wire x = wire v"
      using close_client_ok [OF v(2) d wo(2,3)] by (auto simp: ok_def)
    have sd: "said rr ls" using v(5) ls(1) by (simp add: said_def Read_bytes)
    show ?thesis
    proof (cases "bs = []")
      case True
      then have "ls = []" using ls(1) by (cases ls) (auto simp: CRLF_def)
      with sp have s: "house_of v = house_of w" "chat_of v = chat_of w" "fd_by v = fd_by w" "wire v = wire w"
        by (auto simp: spoken_def)
      have fc: "folk (chat_of w) (clientId c) = Some (person_of c)" by (rule chat_of_client [OF wo(1) c])
      have "\<forall>b. b \<noteq> a \<longrightarrow> view v b = view w b" using sv(2) by (simp add: view_def)
      then have "clientId d = clientId c" using same_client_id [OF wo(1,2) c d] fc s(2) by simp
      then have "person_of d = person_of c" using chat_of_client [OF wo(2) d] fc s(2) by simp
      then have "read_spoken (clientId c) (person_of c) rr ls w x"
        using x s True \<open>ls = []\<close> by (simp add: read_spoken_def Read_bytes)
      then show ?thesis using e x True v(4) sd by auto
    next
      case False
      then have "read_spoken (clientId c) (person_of c) rr ls w v" by (intro spoken_read [OF sp]) (simp add: Read_bytes)
      then show ?thesis using e False v(2,4) sd by auto
    qed
  qed
  then obtain v r ls where v: "Client_HandleRead e rr a w = Inr (v, r)" "sane v"
    "\<forall>cn. conns v a = Some cn \<longrightarrow> totalRead cn = 0" "said rr ls"
    "read_spoken (clientId c) (person_of c) rr ls w v" by blast
  note k = Client_HandleRead_ok [OF v(1) st(1) assms(3) c]
  have "totalRead cn = 0" if "conns v b = Some cn" for b cn
    using that v(3) t0 [of b cn] k by (cases "b = a") (auto simp: conns_def)
  then have "well v" using v(2) k by (auto simp: well_def)
  with v(1,4,5) show ?thesis by blast
qed

text \<open>
  From one state to a later one there was a conversation, everything written in it is on the wire, and nobody's
  descriptor has changed.
\<close>

definition converses :: "world \<Rightarrow> world \<Rightarrow> bool" where
  "converses w v \<longleftrightarrow> (\<forall>j. folk (chat_of w) j \<noteq> None \<longrightarrow> fd_by v j = fd_by w j) \<and>
     (\<exists>tr. conversation (house_of w, chat_of w) tr (house_of v, chat_of v) \<and> wire v = wire w @ overheard v tr)"

lemma converses_refl: "unheard w v \<Longrightarrow> converses w v"
  by (auto simp: converses_def unheard_def intro!: exI [of _ "[]"] conversation.silence)

lemma overheard_known: "known s out \<Longrightarrow> \<forall>j. folk s j \<noteq> None \<longrightarrow> fd_by v j = fd_by w j \<Longrightarrow> overheard v out = overheard w out"
  by (auto simp: known_def overheard_def)

lemma converses_chat: "converses w v \<Longrightarrow> chat_ok (chat_of w) \<Longrightarrow> chat_ok (chat_of v)"
  by (auto simp: converses_def dest!: conversation_chat intro: chat_run_ok)

lemma chat_steps_people: "chat_step\<^sup>*\<^sup>* s t \<Longrightarrow> folk s j \<noteq> None \<Longrightarrow> folk t j \<noteq> None"
proof (induction rule: rtranclp_induct)
  case (step t u)
  have "folk (fold (chat_line i) ls t) j = None \<longleftrightarrow> folk t j = None" for i ls
    by (induction ls arbitrary: t) (simp_all add: chat_line_def folk_chat_cmd)
  then show ?case using step by (auto elim!: chat_step_cases)
qed

lemma converses_trans:
  assumes "converses u v" and "converses v w" and "chat_ok (chat_of u)"
  shows "converses u w"
proof -
  from assms obtain t1 t2 where t: "conversation (house_of u, chat_of u) t1 (house_of v, chat_of v)" "wire v = wire u @ overheard v t1"
    "conversation (house_of v, chat_of v) t2 (house_of w, chat_of w)" "wire w = wire v @ overheard w t2"
    by (auto simp: converses_def)
  have fd: "\<forall>j. folk (chat_of u) j \<noteq> None \<longrightarrow> fd_by v j = fd_by u j" "\<forall>j. folk (chat_of v) j \<noteq> None \<longrightarrow> fd_by w j = fd_by v j"
    using assms(1,2) by (auto simp: converses_def)
  have "known (chat_of v) t1" using conversation_known [OF t(1)] assms(3) by simp
  then have "wire w = wire u @ overheard w (t1 @ t2)" using t(2,4) overheard_known [OF _ fd(2)] by simp
  moreover have "folk (chat_of v) j \<noteq> None" if "folk (chat_of u) j \<noteq> None" for j
    using chat_steps_people [OF conversation_chat [OF t(1)]] that by simp
  ultimately show ?thesis using conversation_trans [OF t(3,1)] fd by (auto simp: converses_def)
qed

lemma read_converses:
  assumes "read_spoken i p rr ls w v" and p: "folk (chat_of w) i = Some p" and ls: "rr = Read_bytes [] \<Longrightarrow> ls = []"
  shows "converses w v"
proof -
  from assms(1) obtain out h where o: "talk i ls (house_of w, chat_of w) out (h, chat_of v)" "wire v = wire w @ overheard w out"
    "house_of v = (if rr = Read_bytes [] then house_left p h else h)" "fd_by v = fd_by w" by (auto simp: read_spoken_def)
  have c: "conversation (house_of w, chat_of w) out (h, chat_of v)"
    using conversation.says [OF conversation.silence _ o(1)] p by simp
  have "conversation (house_of w, chat_of w) out (house_of v, chat_of v)"
    using c conversation.leaves [OF c, of i p] o(1,3) p ls by auto
  then show ?thesis using o(2,4) by (auto simp: converses_def overheard_def)
qed

lemma accept_converses:
  assumes "Server_HandleReadEvent ar reg w = Inr v" and w: "world_ok w"
  shows "converses w v"
  using assms(1)
proof (cases rule: Server_HandleReadEvent_cases)
  case failed
  have "view v = view w" by (simp add: failed view_def fun_eq_iff)
  then have "unheard w v" using fd_by_views [of v w] chat_of_frame [of v w]
    by (simp add: unheard_def failed house_of_def)
  then show ?thesis by (rule converses_refl)
next
  case (accepted fd host a i c s)
  note new = accepted_new [OF w accepted(2,3)]
  have va: "view w a = None" using new(2) by (simp add: view_def)
  have srv: "server v = s" "wire v = wire w" using accepted(7) by simp_all
  have cl: "g_lookup (clients (server v)) = (g_lookup (clients (server w)))(i \<mapsto> a)"
    by (simp add: srv accepted(6) fun_eq_iff)
  show ?thesis
  proof (cases "reg \<and> fd \<notin> fst ` set (interest w)")
    case False
    have v: "view v = view w" using False accepted(7) new(2) by (auto simp: view_def fun_eq_iff)
    have "chat_of v = chat_of w" using accepted_chat [OF w accepted] False by simp
    moreover have "h_host (house_of v) j = h_host (house_of w) j" for j
      using new(1) va by (simp add: house_of_def v cl)
    then have "house_of v = (house_of w)\<lparr>h_unknown := h_unknown (house_of w) + 1\<rparr>"
      by (intro house.equality) (simp_all add: srv accepted(6) fun_eq_iff)
    moreover have "fd_by v = fd_by w"
      by (rule ext) (use new(1) va in \<open>simp add: fd_by_def fd_of_view v cl cong: option.case_cong\<close>)
    moreover have "conversation (house_of w, chat_of w) [] ((house_of w)\<lparr>h_unknown := h_unknown (house_of w) + 1\<rparr>, chat_of w)"
      by (rule conversation.turned_away [OF conversation.silence])
    ultimately show ?thesis
      by (auto simp: srv converses_def intro!: exI [of _ "[]"])
  next
    case True
    have v: "view v = (view w)(a \<mapsto> core c)" using True accepted(7) by (auto simp: view_def fun_eq_iff)
    have "chat_of v = (chat_of w)\<lparr>folk := (folk (chat_of w))(i \<mapsto> newcomer)\<rparr>"
      using accepted_chat [OF w accepted] True by simp
    moreover have "h_host (house_of v) j = ((h_host (house_of w))(i := cstring (client_hostname c))) j" for j
      using new(3) by (cases "g_lookup (clients (server w)) j") (auto simp: house_of_def v cl)
    then have "house_of v = (house_of w)\<lparr>h_host := (h_host (house_of w))(i := cstring (client_hostname c)),
        h_unknown := h_unknown (house_of w) + 1\<rparr>"
      by (intro house.equality) (simp_all add: srv accepted(6) fun_eq_iff)
    moreover have "fd_by v j = fd_by w j" if "folk (chat_of w) j \<noteq> None" for j
      using that new(1,3) by (auto simp: fd_by_def fd_of_view v cl chat_of_def split: option.split)
    moreover have "folk (chat_of w) i = None" using new(1) by (simp add: chat_of_def)
    then have "conversation (house_of w, chat_of w) [] ((house_of w)\<lparr>h_host := (h_host (house_of w))(i := cstring (client_hostname c)),
        h_unknown := h_unknown (house_of w) + 1\<rparr>, (chat_of w)\<lparr>folk := (folk (chat_of w))(i \<mapsto> newcomer)\<rparr>)"
      by (rule conversation.arrives [OF conversation.silence])
    ultimately show ?thesis
      by (auto simp: srv converses_def intro!: exI [of _ "[]"])
  qed
qed

lemma accepted_views:
  assumes "Server_HandleReadEvent ar reg w = Inr v"
  shows "view v b = Some d \<Longrightarrow> view w b = Some d \<or> modest d \<and> totalRead (conn d) = 0"
    and "server_hostname (server v) = server_hostname (server w)" "motd (server v) = motd (server w)"
      "channels (server v) = channels (server w)" "channel_mem v = channel_mem w"
proof -
  have z: "modest (core (zero_client\<lparr>clientId := i, conn := zero_conn\<lparr>conn_fd := fd\<rparr>, client_hostname := h\<rparr>))"
    "totalRead (conn (core (zero_client\<lparr>clientId := i, conn := zero_conn\<lparr>conn_fd := fd\<rparr>, client_hostname := h\<rparr>))) = 0"
    for i fd h by (simp_all add: modest_def zero_client_def cstring_def zero_conn_def)
  show "view w b = Some d \<or> modest d \<and> totalRead (conn d) = 0" if "view v b = Some d"
    using assms
  proof (cases rule: Server_HandleReadEvent_cases)
    case failed
    then show ?thesis using that by (simp add: view_def)
  next
    case (accepted fd host a i c s)
    then show ?thesis using that z by (auto simp: view_def split: if_splits)
  qed
  show "server_hostname (server v) = server_hostname (server w)" "motd (server v) = motd (server w)"
      "channels (server v) = channels (server w)" "channel_mem v = channel_mem w"
    using assms by (cases rule: Server_HandleReadEvent_cases; simp)+
qed

lemma polite_accept_ok:
  assumes "well w" and "ar \<noteq> Accept_error \<longrightarrow> idCounter (server w) + 1 < 2 ^ 31"
  shows "\<exists>v. Server_HandleReadEvent ar reg w = Inr v \<and> well v \<and> converses w v"
proof -
  have st: "steady w" "sane w" and t0: "\<And>b cn. conns w b = Some cn \<Longrightarrow> totalRead cn = 0"
    using assms(1) by (auto simp: well_def)
  have "\<exists>v. Server_HandleReadEvent ar reg w = Inr v"
    using assms(2) by (cases ar)
      (auto simp: Server_HandleReadEvent_def server_generate_id_def Let_def reactor_register_handler_def)
  then obtain v where v: "Server_HandleReadEvent ar reg w = Inr v" by blast
  have m: "modest d" if "view v b = Some d" for b d
    using accepted_views(1) [OF v that] st(2) by (auto simp: sane_def)
  have "sane v" by (rule sane_change [OF st(2) accepted_views(2-5) [OF v] m])
  moreover have "steady v" using Server_HandleReadEvent_ok [OF v st(1)] by blast
  moreover have "totalRead cn = 0" if cn: "conns v b = Some cn" for b cn
  proof -
    obtain c where c: "view v b = Some c" "cn = conn c" using cn by (auto simp: conns_def)
    show ?thesis using accepted_views(1) [OF v c(1)] t0 [of b cn] c(2) by (auto simp: conns_def)
  qed
  ultimately have "well v" by (auto simp: well_def)
  moreover have "converses w v"
    by (rule accept_converses [OF v]) (use st(1) in \<open>simp add: steady_def\<close>)
  ultimately show ?thesis using v by blast
qed

definition polite_event :: "env \<Rightarrow> io_event \<Rightarrow> world \<Rightarrow> bool" where
  "polite_event e ev w =
     (case handler_inst (ev_handler ev) of
        Server_instance \<Rightarrow> (ev_accept ev \<noteq> Accept_error \<longrightarrow> idCounter (server w) + 1 < 2 ^ 31)
      | Client_instance a \<Rightarrow> polite_read e a w (ev_read ev))"

lemma polite_event_ok:
  assumes "well w" and "env_ok e" and en: "(fd, ev_handler ev) \<in> set (interest w)"
    and bits: "ev_bits ev AND NOT (reactor_configure_events 0 (ev_handler ev) OR EPOLLERR OR EPOLLHUP) = 0"
    and "polite_event e ev w"
  shows "\<exists>v. handle_event e ev w = Inr v \<and> well v \<and> converses w v"
proof -
  have ii: "interest_inv w" using assms(1) by (simp add: well_def steady_def world_ok_def)
  then have eo: "entry_ok w (fd, ev_handler ev)" using en by (auto simp: interest_inv_def)
  then have rw: "handle_read (ev_handler ev) \<noteq> None" "handle_write (ev_handler ev) = None"
    by (auto simp: entry_ok_def server_handler_def client_handler_def)
  then have "reactor_configure_events 0 (ev_handler ev) = EPOLLIN OR EPOLLERR"
    by (simp add: reactor_configure_events_def Let_def)
  then have nw: "ev_bits ev AND EPOLLOUT = 0" using bits no_write_bits [of "ev_bits ev"] by simp
  have "\<exists>v. call_read e ev w = Inr v \<and> well v \<and> converses w v"
    using eo unfolding entry_ok_def
  proof (elim disjE conjE exE)
    assume h: "snd (fd, ev_handler ev) = server_handler (fst (fd, ev_handler ev))"
    then show ?thesis using polite_accept_ok [OF assms(1), of "ev_accept ev" "ev_registered ev"] assms(5)
      by (simp add: call_read_def server_handler_def polite_event_def)
  next
    fix a c
    assume h: "snd (fd, ev_handler ev) = client_handler (fst (fd, ev_handler ev)) a" and c: "view w a = Some c"
    obtain d where d: "client_mem w a = Some d" using view_SomeD [OF c] by blast
    have "is_open w a" using en h by (auto simp: is_open_def)
    then obtain v r ls where v: "Client_HandleRead e (ev_read ev) a w = Inr (v, r)" "well v"
      "said (ev_read ev) ls" "read_spoken (clientId d) (person_of d) (ev_read ev) ls w v"
      using polite_read_ok [OF assms(1,2) _ d, of "ev_read ev"] assms(5) h
      by (auto simp: polite_event_def client_handler_def)
    have "world_ok w" using assms(1) by (simp add: well_def steady_def)
    then have "folk (chat_of w) (clientId d) = Some (person_of d)" using chat_of_client [OF _ d] by simp
    moreover have "ls = []" if "ev_read ev = Read_bytes []" using v(3) that by (cases ls) (auto simp: said_def CRLF_def)
    ultimately have "converses w v" by (intro read_converses [OF v(4)])
    then show ?thesis using v(1,2) h by (simp add: call_read_def client_handler_def Client_HandleReadEvent_def)
  qed
  moreover have "converses w w" by (rule converses_refl) (simp add: unheard_def)
  ultimately show ?thesis using nw assms(1) by (auto simp: handle_event_def)
qed

subsection \<open>Polite runs\<close>

text \<open>The events of one iteration, each polite in the state in which it is handled.\<close>

fun polite_events :: "env \<Rightarrow> io_event list \<Rightarrow> world \<Rightarrow> bool" where
  "polite_events e [] w = True"
| "polite_events e (ev # evs) w =
     (polite_event e ev w \<and> (case handle_event e ev w of Inl _ \<Rightarrow> True | Inr w \<Rightarrow> polite_events e evs w))"

inductive polite_run :: "env \<Rightarrow> world \<Rightarrow> bool" for e where
  started: "start_server host mt lfd efd reg = Some w \<Longrightarrow> (\<And>p. mt = Some p \<Longrightarrow> NUL \<in> set p) \<Longrightarrow> polite_run e w"
| stepped: "polite_run e w \<Longrightarrow> reported w evs \<Longrightarrow> polite_events e evs w \<Longrightarrow>
    reactor_handle_events e evs w = Inr w' \<Longrightarrow> polite_run e w'"

inductive_cases polite_run_cases: "polite_run e w"

lemma polite_batch_ok:
  assumes "well w" and "env_ok e" and "polite_events e evs w"
    and "distinct (map (\<lambda>ev. handler_fd (ev_handler ev)) evs)"
    and "\<forall>ev\<in>set evs. (handler_fd (ev_handler ev), ev_handler ev) \<in> set (interest w) \<and>
       ev_bits ev AND NOT (reactor_configure_events 0 (ev_handler ev) OR EPOLLERR OR EPOLLHUP) = 0"
    and "chat_ok (chat_of w)"
  shows "\<exists>v. rfold (handle_event e) evs w = Inr v \<and> well v \<and> converses w v"
  using assms(1,3-6)
proof (induction evs arbitrary: w)
  case Nil
  have "converses w w" by (rule converses_refl) (simp add: unheard_def)
  then show ?case using Nil by simp
next
  case (Cons ev evs)
  have en: "(handler_fd (ev_handler ev), ev_handler ev) \<in> set (interest w)"
    and bits: "ev_bits ev AND NOT (reactor_configure_events 0 (ev_handler ev) OR EPOLLERR OR EPOLLHUP) = 0"
    using Cons.prems(4) by auto
  obtain v where v: "handle_event e ev w = Inr v" "well v" "converses w v"
    using polite_event_ok [OF Cons.prems(1) assms(2) en bits] Cons.prems(2) by auto
  have "steady w" using Cons.prems(1) by (simp add: well_def)
  from handle_event_ok [OF v(1) this en bits]
  have keep: "\<forall>p\<in>set (interest w). fst p \<noteq> handler_fd (ev_handler ev) \<longrightarrow> p \<in> set (interest v)" by blast
  have "\<exists>u. rfold (handle_event e) evs v = Inr u \<and> well u \<and> converses v u"
  proof (rule Cons.IH [OF v(2)])
    show "polite_events e evs v" using Cons.prems(2) v(1) by simp
    show "distinct (map (\<lambda>ev. handler_fd (ev_handler ev)) evs)" using Cons.prems(3) by simp
    show "\<forall>ev\<in>set evs. (handler_fd (ev_handler ev), ev_handler ev) \<in> set (interest v) \<and>
       ev_bits ev AND NOT (reactor_configure_events 0 (ev_handler ev) OR EPOLLERR OR EPOLLHUP) = 0"
    proof
      fix x assume x: "x \<in> set evs"
      then have "handler_fd (ev_handler x) \<noteq> handler_fd (ev_handler ev)" using Cons.prems(3) by (auto simp: image_iff)
      with x Cons.prems(4) keep show "(handler_fd (ev_handler x), ev_handler x) \<in> set (interest v) \<and>
          ev_bits x AND NOT (reactor_configure_events 0 (ev_handler x) OR EPOLLERR OR EPOLLHUP) = 0" by auto
    qed
    show "chat_ok (chat_of v)" by (rule converses_chat [OF v(3) Cons.prems(5)])
  qed
  then show ?case using v(1) converses_trans [OF v(3) _ Cons.prems(5)] by auto
qed

lemma start_server_well:
  assumes "start_server host mt lfd efd reg = Some w" and "\<And>p. mt = Some p \<Longrightarrow> NUL \<in> set p"
  shows "well w"
proof -
  let ?h = "take IRC_HOSTNAME_MAX (takeWhile (\<lambda>c. c \<noteq> NUL) host)"
  have n: "NUL \<notin> set ?h" by (auto dest!: in_set_takeD set_takeWhileD)
  then have h: "array_ok HOSTNAME_MAX (pad HOSTNAME_MAX ?h)" "cstring (pad HOSTNAME_MAX ?h) = ?h"
    by (auto intro!: array_ok_pad cstring_pad)
  have s: "server w = start_server_state host mt lfd" "client_mem w = (\<lambda>_. None)" "channel_mem w = (\<lambda>_. None)"
    using assms(1) by (auto simp: start_server_def reactor_register_handler_def server_handler_def split: if_splits)
  have "sane w" using h assms(2)
    by (auto simp: sane_def modest_server_def table_ok_def s start_server_state_def view_def split: option.split)
  then show ?thesis using start_server_ok [OF assms(1)] by (simp add: well_def conns_def view_def s)
qed

text \<open>The conversation that a state is the outcome of, and the whole wire with it.\<close>

definition conversed :: "world \<Rightarrow> bool" where
  "conversed w \<longleftrightarrow> (\<exists>tr. conversation (new_house (h_name (house_of w)) (h_motd (house_of w)), empty_chat) tr (house_of w, chat_of w) \<and>
     wire w = overheard w tr)"

lemma conversed_ok: "conversed w \<Longrightarrow> chat_step\<^sup>*\<^sup>* empty_chat (chat_of w) \<and> chat_ok (chat_of w)"
  using chat_run_ok [OF _ empty_chat_ok] by (auto simp: conversed_def dest!: conversation_chat)

lemma conversed_start:
  assumes "start_server host mt lfd efd reg = Some w"
  shows "conversed w"
proof -
  have s: "clients (server w) = g_empty" "nUsers (server w) = 0" "nUnknown (server w) = 0" "wire w = []"
    using assms by (auto simp: start_server_def reactor_register_handler_def start_server_state_def server_handler_def
        split: if_splits)
  have "house_of w = new_house (h_name (house_of w)) (h_motd (house_of w))"
    by (simp add: house_of_def new_house_def s fun_eq_iff)
  then have "conversation (new_house (h_name (house_of w)) (h_motd (house_of w)), empty_chat) [] (house_of w, chat_of w)"
    using conversation.silence chat_of_start [OF assms] by metis
  then show ?thesis using s(4) by (auto simp: conversed_def intro!: exI [of _ "[]"])
qed

lemma conversed_step:
  assumes "conversed w" and "converses w v"
  shows "conversed v"
proof -
  let ?h = "new_house (h_name (house_of w)) (h_motd (house_of w))"
  from assms obtain t1 t2 where t: "conversation (?h, empty_chat) t1 (house_of w, chat_of w)" "wire w = overheard w t1"
    "conversation (house_of w, chat_of w) t2 (house_of v, chat_of v)" "wire v = wire w @ overheard v t2"
    and fd: "\<forall>j. folk (chat_of w) j \<noteq> None \<longrightarrow> fd_by v j = fd_by w j"
    by (auto simp: conversed_def converses_def)
  have "known (chat_of w) t1" using conversation_known [OF t(1)] empty_chat_ok by simp
  then have "wire v = overheard v (t1 @ t2)" using t(2,4) overheard_known [OF _ fd] by simp
  moreover have "h_name (house_of v) = h_name (house_of w)" "h_motd (house_of v) = h_motd (house_of w)"
    using conversation_house [OF t(3)] by simp_all
  ultimately show ?thesis using conversation_trans [OF t(3,1)] by (auto simp: conversed_def simp del: house_simps)
qed

lemma polite_run_well: "polite_run e w \<Longrightarrow> env_ok e \<Longrightarrow> well w \<and> conversed w"
proof (induction rule: polite_run.induct)
  case (started host mt lfd efd reg w)
  then show ?case using start_server_well conversed_start [OF started(1)] by auto
next
  case (stepped w evs w')
  then have "rfold (handle_event e) evs w = Inr w'" by (simp add: reactor_handle_events_def reported_def)
  then have "well w' \<and> converses w w'"
    using polite_batch_ok [of w e evs] stepped conversed_ok [of w] by (auto simp: reported_def)
  then show ?case using stepped.IH [OF stepped.prems] conversed_step by blast
qed

lemmas polite_well = conjunct1 [OF polite_run_well] and polite_conversed = conjunct2 [OF polite_run_well]

text \<open>
  C2: polite clients cannot crash the server.  From its start, through any number of iterations in
  which epoll reports what it may and every client sends only polite lines (accepting at most as
  many connections as \<open>int\<close> has ids), the next iteration with polite events never leaves defined
  behaviour: every handler, reply, send, accept and close in it is defined, and the state it leads to is again
  one of a polite run.
\<close>

theorem polite_server_never_stuck:
  assumes "env_ok e" and "polite_run e w" and "reported w evs" and "polite_events e evs w"
  shows "\<exists>w'. reactor_handle_events e evs w = Inr w' \<and> polite_run e w'"
proof -
  obtain v where "reactor_handle_events e evs w = Inr v"
    using polite_batch_ok [OF polite_well [OF assms(2,1)] assms(1,4)] conversed_ok [OF polite_conversed [OF assms(2,1)]] assms(3)
    by (auto simp: reactor_handle_events_def reported_def)
  with polite_run.stepped [OF assms(2-4)] show ?thesis by blast
qed

lemma polite_demo:
  "\<exists>u. polite_run demo_env u \<and> (5, client_handler 5 0) \<in> set (interest u)"
proof -
  have "case start_server ''irc.example'' None 3 4 True of None \<Rightarrow> False
        | Some w \<Rightarrow> reported w [ev_connect 5 True] \<and> idCounter (server w) + 1 < 2 ^ 31 \<and>
            (case reactor_handle_events demo_env [ev_connect 5 True] w of Inl _ \<Rightarrow> False
             | Inr u \<Rightarrow> (5, client_handler 5 0) \<in> set (interest u))"
    by code_simp
  then obtain w u where w: "start_server ''irc.example'' None 3 4 True = Some w" "reported w [ev_connect 5 True]"
    "idCounter (server w) + 1 < 2 ^ 31" "reactor_handle_events demo_env [ev_connect 5 True] w = Inr u"
    "(5, client_handler 5 0) \<in> set (interest u)"
    by (auto split: option.splits sum.splits)
  have "polite_run demo_env w" by (rule polite_run.started [OF w(1)]) simp
  moreover have "polite_events demo_env [ev_connect 5 True] w"
    using w(3) by (simp add: polite_event_def ev_connect_def server_handler_def split: sum.split)
  ultimately show ?thesis using polite_run.stepped w(2,4,5) by blast
qed

lemma polite_nick_command: "command_of ''NICK ann'' = Cmd_nick ''ann''"
proof -
  have "word_ok ''NICK''" "word_ok ''ann''" by (simp_all add: word_ok_def)
  then have "tokens ''NICK ann'' = [''NICK'', ''ann'']" using tokens_render [of "[''NICK'', ''ann'']" None] by simp
  then show ?thesis by (simp add: command_of_def parse_spec_def nonempty_arg_def)
qed

lemma polite_nick: "polite_lines e a zero_message w [''NICK ann'']"
proof -
  have "polite_line w a zero_message ''NICK ann''"
    by (simp add: polite_line_def polite_nick_command is_line_def crash_of_def blank_def zero_message_def joins_ok_def)
  then show ?thesis by (auto split: sum.split)
qed

theorem polite_server_never_stuck_witness:
  "\<exists>u w'. polite_run demo_env u \<and>
     reactor_handle_events demo_env [read_event 5 0 (Read_bytes (''NICK ann'' @ CRLF))] u = Inr w'"
proof -
  obtain u where u: "polite_run demo_env u" "(5, client_handler 5 0) \<in> set (interest u)" using polite_demo by blast
  let ?bs = "''NICK ann'' @ CRLF" and ?ev = "read_event 5 0 (Read_bytes (''NICK ann'' @ CRLF))"
  have "reactor_configure_events 0 (client_handler 5 0) = 1 OR 8"
    by (simp add: reactor_configure_events_def client_handler_def)
  then have r: "reported u [?ev]"
    using u(2) read_bits(1) by (simp add: reported_def read_event_def client_handler_def)
  have "\<exists>ls. ?bs = bytes_of ls \<and>
      (case rbind (get_client u 0) (\<lambda>c. Conn_ReadStoreBuffer (conn c) (Read_bytes ?bs)) of Inl _ \<Rightarrow> True
       | Inr (cn, _) \<Rightarrow> polite_lines demo_env 0 zero_message (set_conn 0 cn u) ls)"
    by (rule exI [of _ "[''NICK ann'']"]) (auto simp del: polite_lines.simps intro: polite_nick split: sum.split)
  then have "polite_read demo_env 0 u (Read_bytes ?bs)" by (simp add: polite_read_def CRLF_def)
  then have "polite_events demo_env [?ev] u"
    by (auto simp: polite_event_def read_event_def client_handler_def split: sum.split)
  from polite_server_never_stuck [OF demo_env_ok u(1) r this] u(1) show ?thesis by blast
qed

text \<open>
  C1: the server implements the chat.  In a polite run, a polite read from an open client returns,
  and what it does to the people and the rooms is what the lines of the read, one after the other, mean;
  and what it writes is what the chat says to them: every reply with its text, to the descriptor of the person
  it is for, in that order, and nothing else.  So parsing, framing, dispatch, every handler with its tables and
  buffers, and the replies implement \<open>chat_line\<close> and \<open>talk\<close>.  The counters of the server follow; the end of
  the stream takes the person off them.
\<close>

theorem polite_read_refines_chat:
  assumes "env_ok e" and "polite_run e w" and "(fd, client_handler fd a) \<in> set (interest w)"
    and "client_mem w a = Some c" and "polite_read e a w rr"
  shows "\<exists>w' r ls out h. Client_HandleRead e rr a w = Inr (w', r) \<and> said rr ls \<and>
     chat_of w' = fold (chat_line (clientId c)) ls (chat_of w) \<and>
     talk (clientId c) ls (house_of w, chat_of w) out (h, chat_of w') \<and>
     wire w' = wire w @ map (\<lambda>(j, t). (fd_by w j, t)) out \<and>
     house_of w' = (if rr = Read_bytes [] then house_left (person_of c) h else h)"
proof -
  have "is_open w a" using assms(3) by (auto simp: is_open_def)
  from polite_read_ok [OF polite_well [OF assms(2,1)] assms(1) this assms(4,5)] obtain v r ls where
    v: "Client_HandleRead e rr a w = Inr (v, r)" "said rr ls" "read_spoken (clientId c) (person_of c) rr ls w v" by blast
  from v(3) obtain out h where o: "talk (clientId c) ls (house_of w, chat_of w) out (h, chat_of v)"
    "wire v = wire w @ overheard w out" "house_of v = (if rr = Read_bytes [] then house_left (person_of c) h else h)"
    by (auto simp: read_spoken_def)
  then show ?thesis using v(1,2) talk_chat [OF o(1)] unfolding overheard_def by auto
qed

text \<open>
  C13: in a polite run every entry of the channel table points to a live channel that has the name it
  is found under, so no handler follows a dangling channel pointer; and no channel grows beyond what
  RPL_NAMREPLY can list.
\<close>

theorem polite_channel_table_exact:
  assumes "env_ok e" and "polite_run e w" and "g_lookup (channels (server w)) key = Some ch"
  shows "\<exists>k. channel_mem w ch = Some k \<and> cstr (chan_name k) = Inr key \<and> length (members k) \<le> MEMBERS_MAX"
proof -
  have w: "world_ok w" "sane w" using polite_well [OF assms(2,1)] by (simp_all add: well_def steady_def)
  from w(2) assms(3) obtain k where k: "channel_mem w ch = Some k" "cstring (chan_name k) = key"
    unfolding sane_def table_ok_def by blast
  have "channel_ok k" by (rule inv_channel(1) [OF w(1) k(1)])
  then have "cstr (chan_name k) = Inr key" using k(2) by (auto simp: channel_ok_def array_ok_cstr)
  with k(1) w(2) show ?thesis by (auto simp: sane_def)
qed

text \<open>
  C6: every polite run of the server is a run of the chat, and everything the server has ever written is
  what is said in it.  Whatever the clients send, the state the server is in is, as people, rooms and counters, the
  outcome of a conversation that started with nobody: people arrived, said lines and left.  The sequence
  of all writes is the transcript of that conversation, each text written to the descriptor of the
  person it is addressed to.  So no two people have the same nickname and every room has somebody in it.
\<close>

theorem polite_run_is_chat_run:
  assumes "env_ok e" and "polite_run e w"
  shows "(\<exists>tr. conversation (new_house (h_name (house_of w)) (h_motd (house_of w)), empty_chat) tr (house_of w, chat_of w) \<and>
      wire w = map (\<lambda>(j, t). (fd_by w j, t)) tr) \<and>
    chat_step\<^sup>*\<^sup>* empty_chat (chat_of w) \<and> nicks_unique (chat_of w) \<and> rooms_occupied (chat_of w)"
  using polite_conversed [OF assms(2,1)] conversed_ok [OF polite_conversed [OF assms(2,1)]]
  unfolding conversed_def overheard_def chat_ok_def by blast

end
