(* ===== verification/PoliteDemo.thy ===== *)
theory PoliteDemo
  imports PoliteRuns Joining
begin

text \<open>
  Polite runs are runs of the server, and one of them: two clients connect and the first joins a
  channel.
\<close>

lemma polite_run_reachable: "polite_run e w \<Longrightarrow> reachable e w"
proof (induction rule: polite_run.induct)
  case (started host mt lfd efd reg w)
  show ?case by (rule reachable.started [OF started(1)])
next
  case (stepped w evs w')
  have "loop_step e w w'" using stepped(2,4) by (auto simp: loop_step_def)
  then show ?case using stepped(5) by (rule reachable.stepped [rotated])
qed

lemma polite_connect: "polite_events demo_env [ev_connect fd True] w \<longleftrightarrow> idCounter (server w) + 1 < 2 ^ 31"
  by (simp add: polite_event_def ev_connect_def server_handler_def split: sum.split)

lemma pair_polite: "polite_run demo_env pair_world"
proof -
  have "case start_server ''irc.example'' None 3 4 True of None \<Rightarrow> False
        | Some w \<Rightarrow> reported w [ev_connect 5 True] \<and> idCounter (server w) + 1 < 2 ^ 31 \<and>
            (case reactor_handle_events demo_env [ev_connect 5 True] w of Inl _ \<Rightarrow> False
             | Inr u \<Rightarrow> reported u [ev_connect 6 True] \<and> idCounter (server u) + 1 < 2 ^ 31 \<and>
                 (case reactor_handle_events demo_env [ev_connect 6 True] u of Inl _ \<Rightarrow> False | Inr v \<Rightarrow> True))"
    by code_simp
  then obtain w u v where s: "start_server ''irc.example'' None 3 4 True = Some w"
    and w: "reported w [ev_connect 5 True]" "idCounter (server w) + 1 < 2 ^ 31"
      "reactor_handle_events demo_env [ev_connect 5 True] w = Inr u"
    and u: "reported u [ev_connect 6 True]" "idCounter (server u) + 1 < 2 ^ 31"
      "reactor_handle_events demo_env [ev_connect 6 True] u = Inr v"
    by (auto split: option.splits sum.splits)
  have "pair_world = v" by (simp add: pair_world_def demo_run_def s w u)
  moreover have "polite_run demo_env w" by (rule polite_run.started [OF s]) simp
  then have "polite_run demo_env u" by (rule polite_run.stepped [OF _ w(1) _ w(3)]) (use w(2) polite_connect in blast)
  then have "polite_run demo_env v" by (rule polite_run.stepped [OF _ u(1) _ u(3)]) (use u(2) polite_connect in blast)
  ultimately show ?thesis by simp
qed

lemma polite_single:
  assumes "length l \<le> 200" and "\<And>cn. polite_line (set_conn a cn w) a zero_message l"
  shows "polite_read e a w (Read_bytes (l @ CRLF))"
proof -
  have "polite_lines e a zero_message (set_conn a cn w) [l]" for cn
    using assms(2) by (auto split: sum.split)
  then show ?thesis using assms(1)
    unfolding polite_read_def by (auto simp: CRLF_def simp del: polite_lines.simps split: sum.split intro!: exI [of _ "[l]"])
qed

text \<open>A read of one polite line is a step of a polite run.\<close>

lemma polite_single_read:
  assumes "polite_run e w" and "(fd, client_handler fd a) \<in> set (interest w)"
    and "Client_HandleRead e (Read_bytes (l @ CRLF)) a w = Inr (w', r)" and "length l \<le> 200"
    and "\<And>cn. polite_line (set_conn a cn w) a zero_message l"
  shows "polite_run e w'"
proof -
  let ?bs = "l @ CRLF" and ?ev = "read_event fd a (Read_bytes (l @ CRLF))"
  have "reactor_configure_events 0 (client_handler fd a) = 1 OR 8"
    by (simp add: reactor_configure_events_def client_handler_def)
  then have r: "reported w [?ev]"
    using assms(2) read_bits(1) by (simp add: reported_def read_event_def client_handler_def)
  have "polite_read e a w (Read_bytes ?bs)" by (rule polite_single [OF assms(4,5)])
  then have "polite_events e [?ev] w"
    by (auto simp: polite_event_def read_event_def client_handler_def split: sum.split)
  moreover have "handle_event e ?ev w = Inr w'"
    using assms(3) read_bits(2,3)
    by (simp add: handle_event_def read_event_def call_read_def client_handler_def Client_HandleReadEvent_def)
  then have "reactor_handle_events e [?ev] w = Inr w'" using r by (simp add: reactor_handle_events_def)
  ultimately show ?thesis by (rule polite_run.stepped [OF assms(1) r])
qed

lemma polite_join:
  assumes "channels (server w) = channels (server pair_world)"
  shows "polite_line w a zero_message ''JOIN #C''"
proof -
  have "command_of ''JOIN #C'' = Cmd_join ''#C''"
    using join_spec [OF room_name(1,3)] by (simp add: command_of_def)
  moreover have "joinable w a ''#C''" using assms pair_server(2) room_name(4,5) by (simp add: joinable_def)
  ultimately show ?thesis
    by (simp add: polite_line_def is_line_def crash_of_def blank_def zero_message_def joins_ok_def
        strtok_single [OF room_name(1,2)])
qed

lemma polite_joined:
  "\<exists>w. polite_run demo_env w \<and> g_lookup (channels (server w)) ''#c'' = Some 2"
proof -
  obtain c where c: "client_mem pair_world 0 = Some c" "totalRead (conn c) = 0" "cstring (username c) = []"
    using pair_clients by blast
  obtain w where w: "Client_HandleRead demo_env (Read_bytes (''JOIN '' @ ''#C'' @ CRLF)) 0 pair_world = Inr (w, 0)"
    "g_lookup (channels (server w)) ''#c'' = Some 2"
    using join_line_creates [OF pair_reachable demo_env_ok c(1,2) room_name(1-4)] c(3) pair_server room_name(5)
    by (auto simp: with_channel_def)
  have "polite_run demo_env w"
    by (rule polite_single_read [OF pair_polite, of 5 0 "''JOIN #C''"])
      (use w(1) pair_server(5) polite_join in auto)
  with w(2) show ?thesis by blast
qed

theorem polite_channel_table_exact_witness:
  "\<exists>w k. polite_run demo_env w \<and> g_lookup (channels (server w)) ''#c'' = Some 2 \<and>
     channel_mem w 2 = Some k \<and> cstr (chan_name k) = Inr ''#c''"
  using polite_joined polite_channel_table_exact [OF demo_env_ok] by blast

text \<open>The room that the JOIN opened, as part of the chat; and all that was written is what was said.\<close>

theorem polite_run_is_chat_run_witness:
  "\<exists>w tr. polite_run demo_env w \<and> g_lookup (channels (server w)) ''#c'' = Some 2 \<and>
     conversation (new_house (h_name (house_of w)) (h_motd (house_of w)), empty_chat) tr (house_of w, chat_of w) \<and>
     wire w = map (\<lambda>(j, t). (fd_by w j, t)) tr \<and> rooms_occupied (chat_of w)"
  using polite_joined polite_run_is_chat_run [OF demo_env_ok] by blast

text \<open>The first client takes a nickname, and takes it again; the second time it is told that the name is in use.\<close>

lemma said_nick: "said (Read_bytes (bytes_of [''NICK ann'', ''NICK ann''])) [''NICK ann'', ''NICK ann'']"
  by (simp add: said_def is_line_def)

lemma polite_nicks:
  "polite_read demo_env a w (Read_bytes (bytes_of [''NICK ann'', ''NICK ann'']))"
proof -
  have one: "polite_line v a m ''NICK ann''" for v m
    by (simp add: polite_line_def polite_nick_command is_line_def crash_of_def self_contained_def joins_ok_def)
  have "polite_lines demo_env a zero_message v [''NICK ann'', ''NICK ann'']" for v
    by (auto simp: one split: sum.split)
  then show ?thesis unfolding polite_read_def
    by (auto simp: CRLF_def simp del: polite_lines.simps split: sum.split intro!: exI [of _ "[''NICK ann'', ''NICK ann'']"])
qed

theorem polite_read_refines_chat_witness:
  "\<exists>w' r p. Client_HandleRead demo_env (Read_bytes (''NICK ann'' @ CRLF @ ''NICK ann'' @ CRLF)) 0 pair_world = Inr (w', r) \<and>
     folk (chat_of w') 1 = Some p \<and> p_nick p = Some ''ann'' \<and>
     wire w' = wire pair_world @ [(5, ''433 ann ann :Nickname is already in use'' @ CRLF)]"
proof -
  obtain c where c: "client_mem pair_world 0 = Some c" "clientId c = 1" "conn_fd (conn c) = 5"
    using pair_clients by blast
  have "case client_mem pair_world 0 of None \<Rightarrow> False | Some c \<Rightarrow> \<not> receivedNick c \<and> \<not> receivedUser c" by code_simp
  then have new: "\<not> receivedNick c" "\<not> receivedUser c" using c(1) by simp_all
  have "(5, client_handler 5 0) \<in> set (interest pair_world)" by (simp add: pair_server)
  then obtain w' r ls out h where
    w': "Client_HandleRead demo_env (Read_bytes (bytes_of [''NICK ann'', ''NICK ann''])) 0 pair_world = Inr (w', r)"
    "said (Read_bytes (bytes_of [''NICK ann'', ''NICK ann''])) ls" "chat_of w' = fold (chat_line 1) ls (chat_of pair_world)"
    "talk 1 ls (house_of pair_world, chat_of pair_world) out (h, chat_of w')"
    "wire w' = wire pair_world @ map (\<lambda>(j, t). (fd_by pair_world j, t)) out"
    using polite_read_refines_chat [OF demo_env_ok pair_polite _ c(1) polite_nicks] c(2) by metis
  have ls: "ls = [''NICK ann'', ''NICK ann'']" by (rule said_unique [OF w'(2) said_nick])
  let ?s = "chat_of pair_world" and ?p = "person_of c"
  let ?t = "chat_nick 1 ''ann'' ?s"
  have wo: "world_ok pair_world" by (rule reachable_world_ok [OF pair_reachable])
  have "g_lookup (nicks (server pair_world)) ''ann'' = None" by code_simp
  then have free: "\<not> nick_taken ''ann'' ?s" by (simp add: nick_taken_iff [OF wo])
  have p: "folk ?s 1 = Some ?p" "p_nick ?p = None" "p_user ?p = None"
    using chat_of_client [OF wo c(1)] c(2) new by (simp_all add: person_of_def)
  have t: "folk ?t 1 = Some (?p\<lparr>p_nick := Some ''ann''\<rparr>)" using p(1) free by (simp add: chat_nick_def)
  moreover have "p_nick (?p\<lparr>p_nick := Some ''ann''\<rparr>) = Some ''ann''" by simp
  ultimately have taken: "nick_taken ''ann'' ?t" unfolding nick_taken_def by blast
  then have "chat_nick 1 ''ann'' ?t = ?t" by (simp add: chat_nick_def)
  then have "chat_of w' = ?t" using w'(3) polite_nick_command by (simp add: ls chat_line_def)
  moreover have "out = [(1, ''433 ann ann :Nickname is already in use'' @ CRLF)]"
    using w'(4) p t free taken polite_nick_command
    by (auto simp: ls line_heard_def chat_line_def nick_answer_def coded_def called_or_star_def)
  moreover have "fd_by pair_world 1 = 5" using fd_of_client [OF wo c(1)] c(1-3) by (simp add: fd_of_def)
  ultimately show ?thesis using w'(1,5) t by auto
qed

end
