(* ===== verification/Hashtable.thy ===== *)
theory Hashtable
  imports GHash
begin

text \<open>
  \<open>src/hashtable.c\<close>: the repository's own hash table, open addressing with tombstones.

  A key is the C string it points to, a value is what its \<open>void *\<close> holds (the type variable, null
  included), an item slot is \<open>None\<close> for a null pointer.  \<open>size_t\<close> values are natural numbers; where a
  sum can wrap it is taken in \<open>64 word\<close>.  Operations also return the values they hand to the
  destructor (or to \<open>free\<close> when the table has none), in order.  The probe loops may run for
  ever: they are \<open>partial_function (option)\<close>, and \<open>None\<close> means that the call does not return.
\<close>

unbundle bit_operations_syntax

subsection \<open>Capacities\<close>

text \<open>
  \<open>(size_t) floor(sqrt(x))\<close>.  A \<open>double\<close> holds 53 bits, so for larger arguments the computed value
  can exceed this one by one; \<open>is_prime_limit\<close> shows that no larger limit below \<open>x\<close> changes the
  result of the loop.
\<close>

definition floor_sqrt :: "nat \<Rightarrow> nat" where
  "floor_sqrt x = nat \<lfloor>sqrt (real x)\<rfloor>"

function is_prime_from :: "nat \<Rightarrow> nat \<Rightarrow> nat \<Rightarrow> int" where
  "is_prime_from limit x i =
     (if i \<le> limit then (if x mod i = 0 then 0 else is_prime_from limit x (i + 1)) else 1)"
  by pat_completeness auto
termination by (relation "measure (\<lambda>(limit, x, i). limit + 1 - i)") auto

declare is_prime_from.simps [simp del]

definition is_prime :: "nat \<Rightarrow> int" where
  "is_prime x = (if x = 0 then 0 else if x = 1 then 1 else is_prime_from (floor_sqrt x) x 2)"

text \<open>\<open>start++\<close> wraps to 0 after \<open>2 ^ 64 - 1\<close>.\<close>

function next_prime :: "nat \<Rightarrow> nat" where
  "next_prime start = (if is_prime start = 0 then next_prime ((start + 1) mod 2 ^ 64) else start)"
  by pat_completeness auto
termination
proof (relation "measure (\<lambda>s. if s \<le> 1 then 1 - s else if s < 2 ^ 64 then 2 ^ 64 - s + 2 else 2 ^ 64 + 2)")
  fix start :: nat
  assume np: "is_prime start = 0"
  then have "start \<noteq> 1" by (auto simp: is_prime_def)
  moreover have "(start + 1) mod 2 ^ 64 < 2 ^ 64" by simp
  ultimately show "((start + 1) mod 2 ^ 64, start) \<in>
      measure (\<lambda>s. if s \<le> 1 then 1 - s else if s < 2 ^ 64 then 2 ^ 64 - s + 2 else 2 ^ 64 + 2)"
    by (cases "start = 0"; cases "start + 1 < 2 ^ 64"; cases "start + 1 = 2 ^ 64") auto
qed simp

declare next_prime.simps [simp del]

subsection \<open>Hash functions\<close>

fun djb2_from :: "64 word \<Rightarrow> string \<Rightarrow> 64 word" where
  "djb2_from hash [] = hash"
| "djb2_from hash (c # str) = djb2_from ((push_bit 5 hash + hash) + of_char c) str"

definition djb2 :: "string \<Rightarrow> 64 word" where
  "djb2 str = djb2_from 5381 str"

fun djb2a_from :: "64 word \<Rightarrow> string \<Rightarrow> 64 word" where
  "djb2a_from hash [] = hash"
| "djb2a_from hash (c # str) = djb2a_from ((push_bit 5 hash + hash) XOR of_char c) str"

definition djb2a :: "string \<Rightarrow> 64 word" where
  "djb2a str = djb2a_from 5381 str"

subsection \<open>Tables\<close>

record 'v hashtable_item =
  item_key :: string
  item_value :: 'v
  item_deleted :: bool

record 'v hashtable_table =
  ht_size :: nat
  ht_occupied :: nat
  ht_cap :: nat
  ht_items :: "'v hashtable_item option list"
  has_destructor :: bool

definition new_hashtable_item :: "string \<Rightarrow> 'v \<Rightarrow> 'v hashtable_item" where
  "new_hashtable_item key v = \<lparr>item_key = key, item_value = v, item_deleted = False\<rparr>"

text \<open>The value goes to \<open>free\<close> or to the destructor; the key and the item are freed.\<close>

definition delete_hashtable_item :: "'v hashtable_item \<Rightarrow> 'v list" where
  "delete_hashtable_item item = [item_value item]"

definition hashtable_new_table :: "nat \<Rightarrow> bool \<Rightarrow> 'v hashtable_table" where
  "hashtable_new_table cap_hint destr =
     (let cap = next_prime cap_hint in
      \<lparr>ht_size = 0, ht_occupied = 0, ht_cap = cap, ht_items = replicate cap None, has_destructor = destr\<rparr>)"

definition first_loc :: "nat \<Rightarrow> string \<Rightarrow> nat" where
  "first_loc cap key = unat (djb2 key) mod cap"

definition next_loc :: "nat \<Rightarrow> string \<Rightarrow> nat \<Rightarrow> nat" where
  "next_loc cap key loc = unat (of_nat loc + djb2a key + 1) mod cap"

text \<open>Where the loop of \<open>hashtable_insert\<close> stops.\<close>

datatype probe_end = Replace nat | Reuse nat | Fresh nat | Cycled

partial_function (option) insert_probe ::
    "'v hashtable_item option list \<Rightarrow> nat \<Rightarrow> string \<Rightarrow> nat \<Rightarrow> nat \<Rightarrow> probe_end run option" where
  "insert_probe items cap key init loc =
     (if \<not> loc < length items then Some (Inl OutOfBounds)
      else case items ! loc of
        None \<Rightarrow> Some (Inr (Fresh loc))
      | Some item \<Rightarrow>
          if \<not> item_deleted item \<and> item_key item = key then Some (Inr (Replace loc))
          else if item_deleted item then Some (Inr (Reuse loc))
          else if next_loc cap key loc = init then Some (Inr Cycled)
          else insert_probe items cap key init (next_loc cap key loc))"

definition hashtable_insert ::
    "'v hashtable_table \<Rightarrow> string \<Rightarrow> 'v \<Rightarrow> ('v hashtable_table \<times> int \<times> 'v list) run option" where
  "hashtable_insert t key v =
     (if ht_size t = ht_cap t then Some (Inr (t, 1, []))
      else
        let initLoc = first_loc (ht_cap t) key;
            put = (\<lambda>loc t. t\<lparr>ht_items := (ht_items t)[loc := Some (new_hashtable_item key v)],
                             ht_size := ht_size t + 1, ht_occupied := ht_occupied t + 1\<rparr>) in
        case insert_probe (ht_items t) (ht_cap t) key initLoc initLoc of
          None \<Rightarrow> None
        | Some (Inl f) \<Rightarrow> Some (Inl f)
        | Some (Inr Cycled) \<Rightarrow> Some (Inr (t, 1, []))
        | Some (Inr (Replace loc)) \<Rightarrow>
            (let item = the (ht_items t ! loc) in
             if \<not> has_destructor t then Some (Inl NullCall)
             else Some (Inr (t\<lparr>ht_items := (ht_items t)[loc := Some (item\<lparr>item_value := v\<rparr>)]\<rparr>, 0,
                             [item_value item])))
        | Some (Inr (Reuse loc)) \<Rightarrow>
            Some (Inr (put loc (t\<lparr>ht_occupied := ht_occupied t - 1\<rparr>), 0,
                       delete_hashtable_item (the (ht_items t ! loc))))
        | Some (Inr (Fresh loc)) \<Rightarrow> Some (Inr (put loc t, 0, [])))"

text \<open>The result \<open>None\<close> inside is the null pointer for a missing key.\<close>

partial_function (option) search_probe ::
    "'v hashtable_item option list \<Rightarrow> nat \<Rightarrow> string \<Rightarrow> nat \<Rightarrow> nat \<Rightarrow> 'v option run option" where
  "search_probe items cap key init loc =
     (if \<not> loc < length items then Some (Inl OutOfBounds)
      else case items ! loc of
        None \<Rightarrow> Some (Inr None)
      | Some item \<Rightarrow>
          if \<not> item_deleted item \<and> item_key item = key then Some (Inr (Some (item_value item)))
          else if next_loc cap key loc = init then Some (Inr None)
          else search_probe items cap key init (next_loc cap key loc))"

definition hashtable_search :: "'v hashtable_table \<Rightarrow> string \<Rightarrow> 'v option run option" where
  "hashtable_search t key =
     (let init = first_loc (ht_cap t) key in search_probe (ht_items t) (ht_cap t) key init init)"

text \<open>The loop of \<open>hashtable_remove\<close>, which does not notice that it has come round.\<close>

partial_function (option) remove_probe ::
    "'v hashtable_item option list \<Rightarrow> nat \<Rightarrow> string \<Rightarrow> nat \<Rightarrow> nat option run option" where
  "remove_probe items cap key loc =
     (if \<not> loc < length items then Some (Inl OutOfBounds)
      else case items ! loc of
        None \<Rightarrow> Some (Inr None)
      | Some item \<Rightarrow>
          if \<not> item_deleted item \<and> item_key item = key then Some (Inr (Some loc))
          else remove_probe items cap key (next_loc cap key loc))"

definition hashtable_remove :: "'v hashtable_table \<Rightarrow> string \<Rightarrow> ('v hashtable_table \<times> int) run option" where
  "hashtable_remove t key =
     (case remove_probe (ht_items t) (ht_cap t) key (first_loc (ht_cap t) key) of
        None \<Rightarrow> None
      | Some (Inl f) \<Rightarrow> Some (Inl f)
      | Some (Inr None) \<Rightarrow> Some (Inr (t, 1))
      | Some (Inr (Some loc)) \<Rightarrow>
          Some (Inr (t\<lparr>ht_items := (ht_items t)[loc := Some ((the (ht_items t ! loc))\<lparr>item_deleted := True\<rparr>)],
                       ht_size := ht_size t - 1\<rparr>, 0)))"

definition hashtable_delete_table :: "'v hashtable_table \<Rightarrow> 'v list \<times> int" where
  "hashtable_delete_table t =
     (concat (map (\<lambda>i. case ht_items t ! i of None \<Rightarrow> [] | Some item \<Rightarrow> delete_hashtable_item item)
                  [0..<ht_cap t]), 0)"

end
