(* ===== verification/HashtableProps.thy ===== *)
theory HashtableProps
  imports Hashtable
begin

text \<open>
  The capacities of \<open>src/hashtable.c\<close>: \<open>is_prime\<close> decides primality but for 1, and \<open>next_prime\<close> is the
  least accepted number from its argument on.
\<close>

subsection \<open>Primes\<close>

definition prime_number :: "nat \<Rightarrow> bool" where
  "prime_number x \<longleftrightarrow> 1 < x \<and> (\<forall>d. d dvd x \<longrightarrow> d = 1 \<or> d = x)"

lemma floor_sqrt_bounds: "floor_sqrt x * floor_sqrt x \<le> x" "x < (floor_sqrt x + 1) * (floor_sqrt x + 1)"
proof -
  let ?r = "sqrt (real x)"
  have r: "0 \<le> ?r" "?r * ?r = real x" by simp_all
  have f: "real (floor_sqrt x) \<le> ?r" "?r < real (floor_sqrt x) + 1"
    unfolding floor_sqrt_def by (simp_all add: of_nat_nat)
  have "real (floor_sqrt x) * real (floor_sqrt x) \<le> ?r * ?r" using f(1) by (intro mult_mono) auto
  then show "floor_sqrt x * floor_sqrt x \<le> x" using r(2) by (metis of_nat_le_iff of_nat_mult)
  have "?r * ?r < (real (floor_sqrt x) + 1) * (real (floor_sqrt x) + 1)"
    using f(2) r(1) by (intro mult_strict_mono') auto
  then have "real x < real ((floor_sqrt x + 1) * (floor_sqrt x + 1))" using r(2) by (simp add: algebra_simps)
  then show "x < (floor_sqrt x + 1) * (floor_sqrt x + 1)" using of_nat_less_iff by blast
qed

lemma floor_sqrt_less:
  assumes "2 \<le> x"
  shows "floor_sqrt x < x"
proof (rule ccontr)
  assume "\<not> floor_sqrt x < x"
  then have "x * x \<le> floor_sqrt x * floor_sqrt x" by (simp add: mult_le_mono)
  also have "\<dots> \<le> x" by (rule floor_sqrt_bounds(1))
  finally show False using assms by (cases x) auto
qed

lemma is_prime_from_eq:
  "is_prime_from limit x i = (if \<exists>d. i \<le> d \<and> d \<le> limit \<and> d dvd x then 0 else 1)"
proof (induction limit x i rule: is_prime_from.induct)
  case (1 limit x i)
  show ?case
  proof (cases "i \<le> limit")
    case True
    show ?thesis
    proof (cases "x mod i = 0")
      case True
      then show ?thesis using \<open>i \<le> limit\<close>
        by (subst is_prime_from.simps) (auto simp: dvd_eq_mod_eq_0)
    next
      case False
      have "i \<le> d \<longleftrightarrow> i + 1 \<le> d" if "d dvd x" for d
        using that False by (cases "d = i") (auto simp: dvd_eq_mod_eq_0)
      then have "(\<exists>d. i \<le> d \<and> d \<le> limit \<and> d dvd x) \<longleftrightarrow> (\<exists>d. i + 1 \<le> d \<and> d \<le> limit \<and> d dvd x)" by blast
      then show ?thesis using "1.IH" \<open>i \<le> limit\<close> False by (subst is_prime_from.simps) simp
    qed
  qed (subst is_prime_from.simps, auto)
qed

lemma trial_division:
  assumes "2 \<le> x" and "x < (limit + 1) * (limit + 1)" and "limit < x"
  shows "(\<exists>d. 2 \<le> d \<and> d \<le> limit \<and> d dvd x) \<longleftrightarrow> \<not> prime_number x"
proof
  assume "\<exists>d. 2 \<le> d \<and> d \<le> limit \<and> d dvd x"
  then show "\<not> prime_number x" using assms(3) by (auto simp: prime_number_def)
next
  assume "\<not> prime_number x"
  then obtain d where d: "d dvd x" "d \<noteq> 1" "d \<noteq> x" using assms(1) by (auto simp: prime_number_def)
  then obtain e where e: "x = d * e" by blast
  have "d \<noteq> 0" "e \<noteq> 0" using e assms(1) by (metis mult_is_0 not_numeral_le_zero)+
  moreover have "e \<noteq> 1" using e d(3) by auto
  ultimately have two: "2 \<le> d" "2 \<le> e" using d(2) by simp_all
  have "d \<le> limit \<or> e \<le> limit"
  proof (rule ccontr)
    assume "\<not> ?thesis"
    then have "(limit + 1) * (limit + 1) \<le> d * e" by (intro mult_le_mono) auto
    then show False using assms(2) e by simp
  qed
  then show "\<exists>d. 2 \<le> d \<and> d \<le> limit \<and> d dvd x" using two e by auto
qed

text \<open>A limit that is too large by rounding changes nothing.\<close>

lemma is_prime_limit:
  assumes "2 \<le> x" and "floor_sqrt x \<le> limit" and "limit < x"
  shows "is_prime_from limit x 2 = is_prime x"
proof -
  have "(floor_sqrt x + 1) * (floor_sqrt x + 1) \<le> (limit + 1) * (limit + 1)"
    using assms(2) by (intro mult_le_mono) auto
  then have "x < (limit + 1) * (limit + 1)" using floor_sqrt_bounds(2) [of x] by linarith
  from trial_division [OF assms(1) this assms(3)]
    trial_division [OF assms(1) floor_sqrt_bounds(2) floor_sqrt_less [OF assms(1)]]
  show ?thesis using assms(1) by (auto simp: is_prime_from_eq is_prime_def)
qed

text \<open>
  \<open>is_prime\<close> is primality, except that it calls 1 a prime: for every argument the result is 1
  exactly for 1 and the primes, and 0 for all other numbers.
\<close>

lemma is_prime_iff: "is_prime x = (if x = 1 \<or> prime_number x then 1 else 0)"
proof (cases "2 \<le> x")
  case True
  then show ?thesis
    using trial_division [OF True floor_sqrt_bounds(2) floor_sqrt_less [OF True]]
    by (auto simp: is_prime_def is_prime_from_eq)
next
  case False
  then have "x = 0 \<or> x = 1" by auto
  then show ?thesis by (auto simp: is_prime_def prime_number_def)
qed

lemma next_prime_is_prime: "is_prime (next_prime start) \<noteq> 0"
proof (induction start rule: next_prime.induct)
  case (1 start)
  then show ?case by (cases "is_prime start = 0") (subst next_prime.simps, simp)+
qed

lemma next_prime_pos: "0 < next_prime start"
  using next_prime_is_prime [of start] by (cases "next_prime start = 0") (simp_all add: is_prime_def)

lemma next_prime_least_aux:
  assumes "is_prime p = 1" and "start \<le> p" and "p < 2 ^ 64"
  shows "start \<le> next_prime start \<and> next_prime start \<le> p \<and> (\<forall>q. start \<le> q \<and> q < next_prime start \<longrightarrow> is_prime q = 0)"
  using assms(2)
proof (induction "p - start" arbitrary: start)
  case 0
  then have "next_prime start = start" using assms(1) by (subst next_prime.simps) simp
  then show ?case using "0.prems" by simp
next
  case (Suc n)
  show ?case
  proof (cases "is_prime start = 0")
    case False
    then have "next_prime start = start" by (subst next_prime.simps) simp
    then show ?thesis using Suc.prems by simp
  next
    case True
    have lt: "start < p" using Suc.hyps(2) by simp
    then have "(start + 1) mod 2 ^ 64 = start + 1" using assms(3) by simp
    then have np: "next_prime start = next_prime (start + 1)" using True by (subst next_prime.simps) simp
    have "n = p - (start + 1)" "start + 1 \<le> p" using Suc.hyps(2) lt by simp_all
    from Suc.hyps(1) [OF this] show ?thesis using True unfolding np
      by (metis Suc_eq_plus1 Suc_leD le_SucE le_antisym not_less_eq_eq)
  qed
qed

text \<open>
  C39: \<open>next_prime\<close> returns, and its result is the least number from the argument on that
  \<open>is_prime\<close> accepts, provided there is a prime that \<open>size_t\<close> can hold.
\<close>

theorem next_prime_least:
  assumes "prime_number p" and "start \<le> p" and "p < 2 ^ 64"
  shows "start \<le> next_prime start \<and> next_prime start \<le> p \<and>
     (next_prime start = 1 \<or> prime_number (next_prime start)) \<and>
     (\<forall>q. start \<le> q \<and> q < next_prime start \<longrightarrow> \<not> prime_number q)"
proof -
  have "is_prime p = 1" using assms(1) by (simp add: is_prime_iff)
  from next_prime_least_aux [OF this assms(2,3)] next_prime_is_prime [of start]
  show ?thesis by (auto simp: is_prime_iff split: if_splits)
qed

text \<open>The capacity the unit test asks for: the hint 7 gives 7, not 53.\<close>

theorem next_prime_least_witness: "7 \<le> next_prime 7 \<and> next_prime 7 \<le> 7"
proof -
  have "prime_number 7" unfolding prime_number_def
  proof (intro conjI allI impI)
    fix d :: nat assume d: "d dvd 7"
    then have "d \<le> 7" "d \<noteq> 0" by (auto dest: dvd_imp_le intro!: Nat.gr0I)
    then have "d \<in> {1, 2, 3, 4, 5, 6, 7}" by auto
    then show "d = 1 \<or> d = 7" using d by auto
  qed simp
  from next_prime_least [OF this, of 7] show ?thesis by simp
qed

end
