(* ===== verification/HashtableMap.thy ===== *)
theory HashtableMap
  imports HashtableProps
begin

text \<open>
  The table as a map.  \<open>walk\<close> is the sequence of slots a key probes; \<open>search\<close> and \<open>insert\<close> are
  characterised by the first slot of the walk on which they stop.  The invariant \<open>ht_inv\<close> says that
  the counters count and that every live key can be reached on its walk without crossing an empty
  slot; with it, insertion is a map update and the table interprets the interface \<open>dict\<close>.
\<close>

subsection \<open>The walk of a key\<close>

definition walk :: "nat \<Rightarrow> string \<Rightarrow> nat \<Rightarrow> nat" where
  "walk cap key n = (next_loc cap key ^^ n) (first_loc cap key)"

lemma walk_0 [simp]: "walk cap key 0 = first_loc cap key"
  by (simp add: walk_def)

lemma walk_Suc: "next_loc cap key (walk cap key n) = walk cap key (Suc n)"
  by (simp add: walk_def)

lemma walk_bound: "0 < cap \<Longrightarrow> walk cap key n < cap"
  by (cases n) (simp_all add: walk_def first_loc_def next_loc_def)

text \<open>The walk has not come back to its first slot.\<close>

definition open_walk :: "nat \<Rightarrow> string \<Rightarrow> nat \<Rightarrow> bool" where
  "open_walk cap key n \<longleftrightarrow> (\<forall>i. 0 < i \<and> i \<le> n \<longrightarrow> walk cap key i \<noteq> first_loc cap key)"

lemma open_walk_mono: "open_walk cap key n \<Longrightarrow> m \<le> n \<Longrightarrow> open_walk cap key m"
  by (auto simp: open_walk_def)

definition holds :: "string \<Rightarrow> 'v hashtable_item option \<Rightarrow> bool" where
  "holds key slot \<longleftrightarrow> (\<exists>it. slot = Some it \<and> \<not> item_deleted it \<and> item_key it = key)"

text \<open>Up to \<open>n\<close>, every slot is occupied by something other than the key.\<close>

definition passes :: "'v hashtable_item option list \<Rightarrow> nat \<Rightarrow> string \<Rightarrow> nat \<Rightarrow> bool" where
  "passes items cap key n \<longleftrightarrow> open_walk cap key n \<and>
     (\<forall>i<n. items ! walk cap key i \<noteq> None \<and> \<not> holds key (items ! walk cap key i))"

text \<open>Two walks that stop at the key stop at the same slot.\<close>

lemma passes_unique:
  assumes "passes items cap key n" "holds key (items ! walk cap key n)"
    and "passes items cap key m" "holds key (items ! walk cap key m)"
  shows "n = m"
  using assms unfolding passes_def by (metis linorder_neqE_nat)

subsection \<open>Searching\<close>

lemma search_probe_skip:
  assumes "passes items cap key n" and "m \<le> n" and "0 < cap" and "length items = cap"
  shows "search_probe items cap key (first_loc cap key) (walk cap key m) =
         search_probe items cap key (first_loc cap key) (walk cap key n)"
  using assms(2)
proof (induction "n - m" arbitrary: m)
  case (Suc d)
  then have m: "m < n" by simp
  then obtain it where it: "items ! walk cap key m = Some it" "\<not> holds key (Some it)"
    using assms(1) unfolding passes_def by (metis option.exhaust)
  have o: "walk cap key (Suc m) \<noteq> first_loc cap key"
    using assms(1) m unfolding passes_def open_walk_def by (metis Suc_leI zero_less_Suc)
  have "search_probe items cap key (first_loc cap key) (walk cap key m) =
        search_probe items cap key (first_loc cap key) (walk cap key (Suc m))"
    using it o walk_bound [OF assms(3), of key m] assms(4)
    by (subst search_probe.simps) (auto simp: walk_Suc holds_def)
  with Suc.hyps(1) [of "Suc m"] Suc.hyps(2) m show ?case by simp
qed simp

lemma search_finds:
  assumes "passes items cap key n" and "items ! walk cap key n = Some it" and "holds key (Some it)"
    and "0 < cap" and "length items = cap"
  shows "search_probe items cap key (first_loc cap key) (first_loc cap key) = Some (Inr (Some (item_value it)))"
proof -
  have "search_probe items cap key (first_loc cap key) (walk cap key 0) =
      search_probe items cap key (first_loc cap key) (walk cap key n)"
    by (rule search_probe_skip [OF assms(1) _ assms(4,5)]) simp
  also have "\<dots> = Some (Inr (Some (item_value it)))"
    using assms walk_bound [OF assms(4), of key n]
    by (subst search_probe.simps) (auto simp: holds_def)
  finally show ?thesis by simp
qed

text \<open>Where a search from the \<open>m\<close>th slot of the walk that finds a value has found it.\<close>

lemma search_probe_Some:
  fixes v :: 'v
  assumes "search_probe items cap key (first_loc cap key) (walk cap key m) = Some (Inr (Some v))"
  shows "\<exists>n\<ge>m. (\<forall>i. m \<le> i \<and> i < n \<longrightarrow> items ! walk cap key i \<noteq> None \<and> \<not> holds key (items ! walk cap key i)) \<and>
     (\<forall>i. m < i \<and> i \<le> n \<longrightarrow> walk cap key i \<noteq> first_loc cap key) \<and>
     (\<exists>it. items ! walk cap key n = Some it \<and> holds key (Some it) \<and> item_value it = v)"
proof -
  let ?P = "\<lambda>its c k init loc r. \<forall>m. its = items \<longrightarrow> c = cap \<longrightarrow> k = key \<longrightarrow> init = first_loc cap key \<longrightarrow>
     loc = walk cap key m \<longrightarrow> r = (Inr (Some v) :: 'v option run) \<longrightarrow>
     (\<exists>n\<ge>m. (\<forall>i. m \<le> i \<and> i < n \<longrightarrow> items ! walk cap key i \<noteq> None \<and> \<not> holds key (items ! walk cap key i)) \<and>
     (\<forall>i. m < i \<and> i \<le> n \<longrightarrow> walk cap key i \<noteq> first_loc cap key) \<and>
     (\<exists>it. items ! walk cap key n = Some it \<and> holds key (Some it) \<and> item_value it = v))"
  have "?P items cap key (first_loc cap key) (walk cap key m) (Inr (Some v))"
  proof (rule search_probe.raw_induct [where P = ?P, OF _ assms], intro allI impI)
    fix f its c k init loc r m
    assume IH: "\<And>its c k init loc r. f its c k init loc = Some r \<Longrightarrow> ?P its c k init loc r"
      and eq: "(if \<not> loc < length its then Some (Inl OutOfBounds)
      else case its ! loc of None \<Rightarrow> Some (Inr None)
      | Some item \<Rightarrow>
          if \<not> item_deleted item \<and> item_key item = k then Some (Inr (Some (item_value item)))
          else if next_loc c k loc = init then Some (Inr None)
          else f its c k init (next_loc c k loc)) = Some r"
      and h: "its = items" "c = cap" "k = key" "init = first_loc cap key" "loc = walk cap key m" "r = Inr (Some v)"
    from eq h obtain it where it: "items ! walk cap key m = Some it"
      by (auto split: if_splits option.splits)
    show "\<exists>n\<ge>m. (\<forall>i. m \<le> i \<and> i < n \<longrightarrow> items ! walk cap key i \<noteq> None \<and> \<not> holds key (items ! walk cap key i)) \<and>
     (\<forall>i. m < i \<and> i \<le> n \<longrightarrow> walk cap key i \<noteq> first_loc cap key) \<and>
     (\<exists>it. items ! walk cap key n = Some it \<and> holds key (Some it) \<and> item_value it = v)"
    proof (cases "holds key (Some it)")
      case True
      then have "item_value it = v" using eq h it by (auto simp: holds_def split: if_splits)
      with True it show ?thesis by (intro exI [of _ m]) auto
    next
      case False
      then have o: "walk cap key (Suc m) \<noteq> first_loc cap key"
        and rec: "f items cap key (first_loc cap key) (walk cap key (Suc m)) = Some (Inr (Some v))"
        using eq h it by (auto simp: holds_def walk_Suc split: if_splits)
      from IH [OF rec] obtain n where n: "Suc m \<le> n"
        "\<forall>i. Suc m \<le> i \<and> i < n \<longrightarrow> items ! walk cap key i \<noteq> None \<and> \<not> holds key (items ! walk cap key i)"
        "\<forall>i. Suc m < i \<and> i \<le> n \<longrightarrow> walk cap key i \<noteq> first_loc cap key"
        "\<exists>it. items ! walk cap key n = Some it \<and> holds key (Some it) \<and> item_value it = v" by blast
      have "\<forall>i. m \<le> i \<and> i < n \<longrightarrow> items ! walk cap key i \<noteq> None \<and> \<not> holds key (items ! walk cap key i)"
        using n(2) it False by (auto simp: le_eq_less_or_eq [of m] Suc_le_eq)
      moreover have "\<forall>i. m < i \<and> i \<le> n \<longrightarrow> walk cap key i \<noteq> first_loc cap key"
        using n(3) o by (metis Suc_lessI)
      ultimately show ?thesis using n(1,4) by (intro exI [of _ n]) auto
    qed
  qed
  then show ?thesis by simp
qed

definition ht_lookup :: "'v hashtable_table \<Rightarrow> string \<Rightarrow> 'v option" where
  "ht_lookup t key = (case hashtable_search t key of Some (Inr r) \<Rightarrow> r | _ \<Rightarrow> None)"

lemma ht_lookup_Some:
  assumes "0 < ht_cap t" and "length (ht_items t) = ht_cap t"
  shows "ht_lookup t key = Some v \<longleftrightarrow>
     (\<exists>n it. passes (ht_items t) (ht_cap t) key n \<and> ht_items t ! walk (ht_cap t) key n = Some it \<and>
        holds key (Some it) \<and> item_value it = v)" (is "?l \<longleftrightarrow> ?r")
proof
  assume ?l
  then have "search_probe (ht_items t) (ht_cap t) key (first_loc (ht_cap t) key) (walk (ht_cap t) key 0) = Some (Inr (Some v))"
    by (auto simp: ht_lookup_def hashtable_search_def Let_def split: option.splits sum.splits)
  from search_probe_Some [OF this] show ?r unfolding passes_def open_walk_def by auto
next
  assume ?r
  with search_finds [OF _ _ _ assms] show ?l by (auto simp: ht_lookup_def hashtable_search_def Let_def)
qed

subsection \<open>The invariant\<close>

definition live :: "'v hashtable_item option \<Rightarrow> bool" where
  "live slot \<longleftrightarrow> (\<exists>it. slot = Some it \<and> \<not> item_deleted it)"

text \<open>Slot \<open>p\<close> lies on the walk of the key, before its first return, behind occupied slots only.\<close>

definition reaches :: "'v hashtable_item option list \<Rightarrow> nat \<Rightarrow> string \<Rightarrow> nat \<Rightarrow> bool" where
  "reaches items cap key p \<longleftrightarrow>
     (\<exists>n. walk cap key n = p \<and> open_walk cap key n \<and> (\<forall>i<n. items ! walk cap key i \<noteq> None))"

definition reach_ok :: "'v hashtable_item option list \<Rightarrow> nat \<Rightarrow> bool" where
  "reach_ok items cap \<longleftrightarrow>
     (\<forall>p it. p < cap \<longrightarrow> items ! p = Some it \<longrightarrow> \<not> item_deleted it \<longrightarrow> reaches items cap (item_key it) p)"

definition ht_inv :: "'v hashtable_table \<Rightarrow> bool" where
  "ht_inv t \<longleftrightarrow> 0 < ht_cap t \<and> length (ht_items t) = ht_cap t \<and>
     ht_size t = length (filter live (ht_items t)) \<and>
     ht_occupied t = length (filter (\<lambda>s. s \<noteq> None) (ht_items t)) \<and> reach_ok (ht_items t) (ht_cap t)"

lemma length_filter_update:
  assumes "p < length xs"
  shows "length (filter P (xs[p := x])) + (if P (xs ! p) then 1 else 0) =
    length (filter P xs) + (if P x then 1 else 0)"
proof -
  have "filter P xs = filter P (take p xs) @ (if P (xs ! p) then [xs ! p] else []) @ filter P (drop (Suc p) xs)"
    using arg_cong [OF id_take_nth_drop [OF assms], of "filter P"] by simp
  moreover have "filter P (xs[p := x]) = filter P (take p xs) @ (if P x then [x] else []) @ filter P (drop (Suc p) xs)"
    by (simp add: upd_conv_take_nth_drop assms)
  ultimately show ?thesis by simp
qed

lemma live_simps [simp]: "\<not> live None" "live (Some it) = (\<not> item_deleted it)"
  by (simp_all add: live_def)

lemma holds_simps [simp]: "\<not> holds k None" "holds k (Some it) \<longleftrightarrow> \<not> item_deleted it \<and> item_key it = k"
  by (simp_all add: holds_def)

lemma reaches_update:
  "reaches items cap k p \<Longrightarrow> q < length items \<Longrightarrow> reaches (items[q := Some it]) cap k p"
  unfolding reaches_def by (metis nth_list_update nth_list_update_neq option.distinct(1))

text \<open>Putting an item into a slot keeps reachability if its own key reaches the slot.\<close>

lemma reach_ok_update:
  assumes "reach_ok items cap" and "length items = cap" and "p < cap"
    and "\<not> item_deleted it \<Longrightarrow> reaches items cap (item_key it) p"
  shows "reach_ok (items[p := Some it]) cap"
  unfolding reach_ok_def
proof (intro allI impI)
  fix q jt assume q: "q < cap" "items[p := Some it] ! q = Some jt" "\<not> item_deleted jt"
  show "reaches (items[p := Some it]) cap (item_key jt) q"
  proof (cases "q = p")
    case True
    then show ?thesis using q assms by (intro reaches_update) auto
  next
    case False
    then show ?thesis using q assms by (intro reaches_update) (auto simp: reach_ok_def)
  qed
qed

subsection \<open>Slot updates and the map\<close>

definition lookup_items :: "'v hashtable_item option list \<Rightarrow> nat \<Rightarrow> string \<Rightarrow> 'v option \<Rightarrow> bool" where
  "lookup_items items cap key r \<longleftrightarrow> (\<forall>v. r = Some v \<longleftrightarrow>
     (\<exists>n it. passes items cap key n \<and> items ! walk cap key n = Some it \<and> holds key (Some it) \<and> item_value it = v))"

lemma lookup_items_other:
  assumes "reach_ok items cap" and "length items = cap" and "0 < cap" and "p < cap"
    and "\<not> holds k (items ! p)" and "\<not> holds k (Some it)"
  shows "(\<exists>n jt. passes (items[p := Some it]) cap k n \<and> items[p := Some it] ! walk cap k n = Some jt \<and>
            holds k (Some jt) \<and> item_value jt = v) \<longleftrightarrow>
         (\<exists>n jt. passes items cap k n \<and> items ! walk cap k n = Some jt \<and> holds k (Some jt) \<and> item_value jt = v)"
    (is "?new \<longleftrightarrow> ?old")
proof
  let ?its = "items[p := Some it]"
  have upd: "?its ! q = (if q = p then Some it else items ! q)" if "q < cap" for q
    using assms(2) that by simp
  have w: "walk cap k i < cap" for i by (rule walk_bound [OF assms(3)])
  show ?new if ?old
  proof -
    from that obtain n jt where n: "passes items cap k n" "items ! walk cap k n = Some jt" "holds k (Some jt)"
      "item_value jt = v" by blast
    have "walk cap k n \<noteq> p" using n(2,3) assms(5) by auto
    moreover have "passes ?its cap k n"
      using n(1) assms(6) unfolding passes_def by (auto simp: upd [OF w])
    ultimately show ?thesis using n(2-4) by (intro exI [of _ n] exI [of _ jt]) (simp add: upd [OF w])
  qed
  show ?old if ?new
  proof -
    from that obtain n jt where n: "passes ?its cap k n" "?its ! walk cap k n = Some jt" "holds k (Some jt)"
      "item_value jt = v" by blast
    have ne: "walk cap k n \<noteq> p" using n(2,3) assms(6) by (auto simp: upd [OF w])
    then have j: "items ! walk cap k n = Some jt" using n(2) by (simp add: upd [OF w])
    then have "reaches items cap k (walk cap k n)" using assms(1) n(3) w by (auto simp: reach_ok_def)
    then obtain m where m: "walk cap k m = walk cap k n" "\<forall>i<m. items ! walk cap k i \<noteq> None"
      by (auto simp: reaches_def)
    have "n \<le> m"
    proof (rule ccontr)
      assume "\<not> n \<le> m"
      then have "\<not> holds k (?its ! walk cap k m)" using n(1) by (auto simp: passes_def)
      then show False using m(1) n(2,3) by simp
    qed
    then have "items ! walk cap k i \<noteq> None \<and> \<not> holds k (items ! walk cap k i)" if "i < n" for i
      using n(1) m(2) that assms(5) unfolding passes_def by (cases "walk cap k i = p") (auto simp: upd [OF w])
    then have "passes items cap k n" using n(1) by (auto simp: passes_def)
    with j n(3,4) show ?thesis by blast
  qed
qed

text \<open>What \<open>insert_probe\<close> has seen when it stops.\<close>

definition stops_at ::
    "'v hashtable_item option list \<Rightarrow> nat \<Rightarrow> string \<Rightarrow> probe_end \<Rightarrow> nat \<Rightarrow> bool" where
  "stops_at items cap key e p \<longleftrightarrow>
     (case e of Fresh q \<Rightarrow> q = p \<and> items ! p = None
      | Reuse q \<Rightarrow> q = p \<and> (\<exists>it. items ! p = Some it \<and> item_deleted it)
      | Replace q \<Rightarrow> q = p \<and> holds key (items ! p)
      | Cycled \<Rightarrow> live (items ! p) \<and> next_loc cap key p = first_loc cap key)"

lemma insert_probe_stops:
  assumes "insert_probe items cap key (first_loc cap key) (walk cap key m) = Some (Inr e)"
  shows "\<exists>n\<ge>m. (\<forall>i. m \<le> i \<and> i < n \<longrightarrow> live (items ! walk cap key i) \<and> \<not> holds key (items ! walk cap key i)) \<and>
     (\<forall>i. m < i \<and> i \<le> n \<longrightarrow> walk cap key i \<noteq> first_loc cap key) \<and> stops_at items cap key e (walk cap key n)"
proof -
  let ?P = "\<lambda>its c k init loc r. \<forall>m. its = items \<longrightarrow> c = cap \<longrightarrow> k = key \<longrightarrow> init = first_loc cap key \<longrightarrow>
     loc = walk cap key m \<longrightarrow> r = (Inr e :: probe_end run) \<longrightarrow>
     (\<exists>n\<ge>m. (\<forall>i. m \<le> i \<and> i < n \<longrightarrow> live (items ! walk cap key i) \<and> \<not> holds key (items ! walk cap key i)) \<and>
     (\<forall>i. m < i \<and> i \<le> n \<longrightarrow> walk cap key i \<noteq> first_loc cap key) \<and> stops_at items cap key e (walk cap key n))"
  have "?P items cap key (first_loc cap key) (walk cap key m) (Inr e)"
  proof (rule insert_probe.raw_induct [where P = ?P, OF _ assms(1)], intro allI impI)
    fix f its c k init loc r m
    assume IH: "\<And>its c k init loc r. f its c k init loc = Some r \<Longrightarrow> ?P its c k init loc r"
      and eq: "(if \<not> loc < length its then Some (Inl OutOfBounds)
      else case its ! loc of None \<Rightarrow> Some (Inr (Fresh loc))
      | Some item \<Rightarrow>
          if \<not> item_deleted item \<and> item_key item = k then Some (Inr (Replace loc))
          else if item_deleted item then Some (Inr (Reuse loc))
          else if next_loc c k loc = init then Some (Inr Cycled)
          else f its c k init (next_loc c k loc)) = Some r"
      and h: "its = items" "c = cap" "k = key" "init = first_loc cap key" "loc = walk cap key m" "r = Inr e"
    let ?l = "walk cap key m"
    show "\<exists>n\<ge>m. (\<forall>i. m \<le> i \<and> i < n \<longrightarrow> live (items ! walk cap key i) \<and> \<not> holds key (items ! walk cap key i)) \<and>
     (\<forall>i. m < i \<and> i \<le> n \<longrightarrow> walk cap key i \<noteq> first_loc cap key) \<and> stops_at items cap key e (walk cap key n)"
    proof (cases "live (items ! ?l) \<and> \<not> holds key (items ! ?l) \<and> next_loc cap key ?l \<noteq> first_loc cap key")
      case False
      then have "stops_at items cap key e ?l" using eq h
        by (cases "items ! ?l") (auto simp: stops_at_def split: if_splits)
      then show ?thesis by (intro exI [of _ m]) auto
    next
      case True
      then have o: "walk cap key (Suc m) \<noteq> first_loc cap key"
        and rec: "f items cap key (first_loc cap key) (walk cap key (Suc m)) = Some (Inr e)"
        using eq h by (auto simp: walk_Suc split: if_splits option.splits)
      from IH [OF rec] obtain n where n: "Suc m \<le> n"
        "\<forall>i. Suc m \<le> i \<and> i < n \<longrightarrow> live (items ! walk cap key i) \<and> \<not> holds key (items ! walk cap key i)"
        "\<forall>i. Suc m < i \<and> i \<le> n \<longrightarrow> walk cap key i \<noteq> first_loc cap key"
        "stops_at items cap key e (walk cap key n)" by blast
      have "\<forall>i. m \<le> i \<and> i < n \<longrightarrow> live (items ! walk cap key i) \<and> \<not> holds key (items ! walk cap key i)"
        using n(2) True by (auto simp: le_eq_less_or_eq [of m] Suc_le_eq)
      moreover have "\<forall>i. m < i \<and> i \<le> n \<longrightarrow> walk cap key i \<noteq> first_loc cap key"
        using n(3) o by (metis Suc_lessI)
      ultimately show ?thesis using n(1,4) by (intro exI [of _ n]) auto
    qed
  qed
  then show ?thesis by simp
qed

subsection \<open>Insertion\<close>

lemma filter_replicate_None [simp]: "filter P (replicate n None) = (if P None then replicate n None else [])"
  by simp

lemma ht_inv_new: "ht_inv (hashtable_new_table hint destr)"
  by (simp add: ht_inv_def hashtable_new_table_def Let_def next_prime_pos reach_ok_def)

lemma ht_lookup_new: "ht_lookup (hashtable_new_table hint destr) k = None"
proof -
  have "first_loc (next_prime hint) k < next_prime hint"
    by (simp add: first_loc_def next_prime_pos)
  then show ?thesis
    by (simp add: ht_lookup_def hashtable_search_def hashtable_new_table_def Let_def)
      (subst search_probe.simps, simp)
qed

text \<open>An item with the key in the slot where \<open>insert_probe\<close> stopped: invariant and map.\<close>

lemma put_ok:
  assumes "ht_inv t" and "\<forall>i<n. live (ht_items t ! walk (ht_cap t) k i) \<and> \<not> holds k (ht_items t ! walk (ht_cap t) k i)"
    and "open_walk (ht_cap t) k n" and p: "p = walk (ht_cap t) k n"
    and stop: "\<not> live (ht_items t ! p) \<or> holds k (ht_items t ! p)"
    and it: "\<not> item_deleted it" "item_key it = k"
    and t': "ht_items t' = (ht_items t)[p := Some it]" "ht_cap t' = ht_cap t"
  shows "reach_ok (ht_items t') (ht_cap t')" and "ht_lookup t' = (ht_lookup t)(k \<mapsto> item_value it)"
proof -
  let ?its = "ht_items t" and ?cap = "ht_cap t"
  have inv: "0 < ?cap" "length ?its = ?cap" "reach_ok ?its ?cap" using assms(1) by (simp_all add: ht_inv_def)
  have pb: "p < ?cap" unfolding p by (rule walk_bound [OF inv(1)])
  have "\<forall>i<n. ?its ! walk ?cap k i \<noteq> None" using assms(2) by (auto simp: live_def)
  then have "reaches ?its ?cap k p" using assms(3) p unfolding reaches_def by blast
  then show "reach_ok (ht_items t') (ht_cap t')"
    unfolding t' using it by (intro reach_ok_update [OF inv(3,2) pb]) simp
  have inv': "0 < ht_cap t'" "length (ht_items t') = ht_cap t'" using inv by (simp_all add: t')
  have "ht_lookup t' k = Some (item_value it)"
  proof -
    have "ht_items t' ! walk ?cap k i = ?its ! walk ?cap k i" if "i < n" for i
    proof -
      have "p \<noteq> walk ?cap k i" using assms(2) that stop by auto
      then show ?thesis by (simp add: t')
    qed
    then have "passes (ht_items t') ?cap k n"
      using assms(2,3) unfolding passes_def by (auto simp: live_def)
    moreover have "ht_items t' ! walk ?cap k n = Some it" using pb p inv(2) by (simp add: t')
    ultimately show ?thesis using ht_lookup_Some [OF inv'] it t'(2) by auto
  qed
  moreover have "ht_lookup t' j = ht_lookup t j" if "j \<noteq> k" for j
  proof -
    have "\<not> holds j (?its ! p)" using stop that by (auto simp: live_def holds_def)
    moreover have "\<not> holds j (Some it)" using it that by simp
    ultimately have "ht_lookup t' j = Some v \<longleftrightarrow> ht_lookup t j = Some v" for v
      unfolding ht_lookup_Some [OF inv'] ht_lookup_Some [OF inv(1,2)] unfolding t'
      by (rule lookup_items_other [OF inv(3,2,1) pb])
    then show ?thesis by (metis option.exhaust)
  qed
  ultimately show "ht_lookup t' = (ht_lookup t)(k \<mapsto> item_value it)" by auto
qed

lemma insert_ok:
  assumes "ht_inv t" and "hashtable_insert t k v = Some (Inr (t', 0, freed))"
  shows "ht_inv t'" and "ht_lookup t' = (ht_lookup t)(k \<mapsto> v)"
proof -
  let ?cap = "ht_cap t" and ?its = "ht_items t"
  have inv: "0 < ?cap" "length ?its = ?cap" "ht_size t = length (filter live ?its)"
    "ht_occupied t = length (filter (\<lambda>s. s \<noteq> None) ?its)" using assms(1) by (simp_all add: ht_inv_def)
  from assms(2) obtain e where e: "insert_probe ?its ?cap k (first_loc ?cap k) (walk ?cap k 0) = Some (Inr e)" "e \<noteq> Cycled"
    by (auto simp: hashtable_insert_def Let_def split: if_splits option.splits sum.splits probe_end.splits)
  from insert_probe_stops [OF e(1)] obtain n where
    n: "\<forall>i<n. live (?its ! walk ?cap k i) \<and> \<not> holds k (?its ! walk ?cap k i)" "open_walk ?cap k n"
    and st: "stops_at ?its ?cap k e (walk ?cap k n)" by (auto simp: open_walk_def)
  let ?p = "walk ?cap k n"
  have pb: "?p < length ?its" using walk_bound [OF inv(1)] inv(2) by simp
  have result: "\<exists>it. \<not> item_deleted it \<and> item_key it = k \<and> item_value it = v \<and>
      ht_items t' = ?its[?p := Some it] \<and> ht_cap t' = ?cap \<and>
      ht_size t' = length (filter live (?its[?p := Some it])) \<and>
      ht_occupied t' = length (filter (\<lambda>s. s \<noteq> None) (?its[?p := Some it]))"
  proof (cases e)
    case (Fresh q)
    then have q: "q = ?p" "?its ! ?p = None" using st by (simp_all add: stops_at_def)
    then show ?thesis
      using assms(2) e(1) Fresh inv length_filter_update [OF pb, of live "Some (new_hashtable_item k v)"]
        length_filter_update [OF pb, of "\<lambda>s. s \<noteq> None" "Some (new_hashtable_item k v)"]
      by (intro exI [of _ "new_hashtable_item k v"])
        (auto simp: hashtable_insert_def Let_def new_hashtable_item_def split: if_splits)
  next
    case (Reuse q)
    then obtain d where q: "q = ?p" "?its ! ?p = Some d" "item_deleted d" using st by (auto simp: stops_at_def)
    have "Some d \<in> set (filter (\<lambda>s. s \<noteq> None) ?its)" using q(2) nth_mem [OF pb] by simp
    from length_pos_if_in_set [OF this] q show ?thesis
      using assms(2) e(1) Reuse inv length_filter_update [OF pb, of live "Some (new_hashtable_item k v)"]
        length_filter_update [OF pb, of "\<lambda>s. s \<noteq> None" "Some (new_hashtable_item k v)"]
      by (intro exI [of _ "new_hashtable_item k v"])
        (auto simp: hashtable_insert_def Let_def new_hashtable_item_def split: if_splits)
  next
    case (Replace q)
    then obtain d where q: "q = ?p" "?its ! ?p = Some d" "\<not> item_deleted d" "item_key d = k"
      using st by (auto simp: stops_at_def holds_def)
    then show ?thesis
      using assms(2) e(1) Replace inv length_filter_update [OF pb, of live "Some (d\<lparr>item_value := v\<rparr>)"]
        length_filter_update [OF pb, of "\<lambda>s. s \<noteq> None" "Some (d\<lparr>item_value := v\<rparr>)"]
      by (intro exI [of _ "d\<lparr>item_value := v\<rparr>"])
        (auto simp: hashtable_insert_def Let_def split: if_splits)
  next
    case Cycled
    with e(2) show ?thesis by simp
  qed
  then obtain it where it: "\<not> item_deleted it" "item_key it = k" "item_value it = v"
    "ht_items t' = ?its[?p := Some it]" "ht_cap t' = ?cap"
    "ht_size t' = length (filter live (?its[?p := Some it]))"
    "ht_occupied t' = length (filter (\<lambda>s. s \<noteq> None) (?its[?p := Some it]))" by blast
  have "\<not> live (?its ! ?p) \<or> holds k (?its ! ?p)"
    using st e(2) by (auto simp: stops_at_def live_def split: probe_end.splits)
  note put = put_ok [OF assms(1) n refl this it(1,2,4,5)]
  show "ht_inv t'" using put(1) inv it(4-7) by (simp add: ht_inv_def)
  show "ht_lookup t' = (ht_lookup t)(k \<mapsto> v)" using put(2) it(3) by simp
qed

definition ht_insert :: "string \<Rightarrow> 'v \<Rightarrow> 'v hashtable_table \<Rightarrow> 'v hashtable_table option" where
  "ht_insert k v t =
     (case hashtable_insert t k v of Some (Inr (t', r, _)) \<Rightarrow> if r = 0 then Some t' else None | _ \<Rightarrow> None)"

lemma ht_insert_Some: "ht_insert k v t = Some t' \<Longrightarrow> \<exists>freed. hashtable_insert t k v = Some (Inr (t', 0, freed))"
  by (auto simp: ht_insert_def split: option.splits sum.splits if_splits)

interpretation ht: dict "hashtable_new_table hint destr" ht_lookup ht_insert ht_inv for hint destr
  by unfold_locales (auto simp: ht_inv_new ht_lookup_new dest!: ht_insert_Some dest: insert_ok)

end
