(* ===== verification/HashtableUse.thy ===== *)
theory HashtableUse
  imports HashtableMap
begin

text \<open>
  What a client of \<open>src/hashtable.c\<close> can rely on: insertions behave as map updates, probing ends,
  a table of prime capacity accepts keys until it is full, every value is released exactly once;
  and the two defects of removal.
\<close>

subsection \<open>A small table\<close>

definition two_slots :: "nat hashtable_table" where
  "two_slots = \<lparr>ht_size = 0, ht_occupied = 0, ht_cap = 2, ht_items = [None, None], has_destructor = True\<rparr>"

lemma two_slots_inv: "ht_inv two_slots"
  by (simp add: ht_inv_def two_slots_def reach_ok_def less_Suc_eq numeral_2_eq_2)

lemma two_slots_locs:
  "first_loc 2 ''a'' = 0" "first_loc 2 ''c'' = 0" "next_loc 2 ''a'' 0 = 1" "next_loc 2 ''c'' 0 = 1"
  "next_loc 2 ''a'' 1 = 0" "next_loc 2 ''c'' 1 = 0"
  by (simp_all add: first_loc_def next_loc_def djb2_def djb2a_def of_char_def)

text \<open>
  C35: insertion is a map update.  If \<open>hashtable_insert\<close> returns 0, the table still satisfies its
  invariant (the counters count the live and the occupied slots, every live key is reachable), a
  search for the key finds the new value, and a search for any other key gives what it gave before.
\<close>

theorem ht_insert_updates:
  assumes "ht_inv t" and "hashtable_insert t k v = Some (Inr (t', 0, freed))"
  shows "ht_inv t' \<and> ht_lookup t' = (ht_lookup t)(k \<mapsto> v)"
  using insert_ok [OF assms] by blast

theorem ht_insert_updates_witness:
  "\<exists>t' freed. hashtable_insert two_slots ''a'' 7 = Some (Inr (t', 0, freed)) \<and> ht_lookup t' ''a'' = Some 7"
proof -
  have "\<exists>t'. hashtable_insert two_slots ''a'' 7 = Some (Inr (t', 0, []))"
    by (simp add: hashtable_insert_def two_slots_def two_slots_locs Let_def insert_probe.simps)
  then obtain t' where i: "hashtable_insert two_slots ''a'' 7 = Some (Inr (t', 0, []))" by blast
  from ht_insert_updates [OF two_slots_inv this] i show ?thesis by auto
qed

text \<open>
  A table that was filled from empty is the map of its insertions: the last value of every key,
  and nothing for keys that were never inserted.
\<close>

theorem ht_filled_table:
  assumes "ht.insert_all kvs (hashtable_new_table hint destr) = Some t"
  shows "ht_inv t \<and> ht_lookup t = map_of (rev kvs)"
  by (rule ht.insert_all_from_empty [OF assms])

theorem ht_filled_table_witness:
  "\<exists>t. ht.insert_all [(''a'', 2 :: nat)] (hashtable_new_table 0 True) = Some t \<and>
     ht_lookup t ''a'' = Some 2 \<and> ht_lookup t ''b'' = None"
proof -
  have n: "next_prime 0 = 1" by (simp add: next_prime.simps is_prime_def)
  have "\<exists>t. ht.insert_all [(''a'', 2 :: nat)] (hashtable_new_table 0 True) = Some t"
    by (simp add: n ht_insert_def hashtable_new_table_def Let_def hashtable_insert_def first_loc_def
        insert_probe.simps new_hashtable_item_def)
  then obtain t where i: "ht.insert_all [(''a'', 2 :: nat)] (hashtable_new_table 0 True) = Some t"
    by blast
  from ht_filled_table [OF i] i show ?thesis by auto
qed

subsection \<open>Probing ends\<close>

text \<open>The step of a key is added to a slot number without wrap-around.\<close>

definition no_wrap :: "nat \<Rightarrow> string \<Rightarrow> bool" where
  "no_wrap cap key \<longleftrightarrow> unat (djb2a key) + cap < 2 ^ 64"

lemma next_loc_no_wrap:
  assumes "no_wrap cap key" and "loc < cap"
  shows "next_loc cap key loc = (loc + (unat (djb2a key) + 1)) mod cap"
proof -
  have "unat (of_nat loc + djb2a key + 1 :: 64 word) = loc + unat (djb2a key) + 1"
    using assms by (simp add: no_wrap_def unat_word_ariths unat_of_nat)
  then show ?thesis by (simp add: next_loc_def add.assoc)
qed

lemma walk_no_wrap:
  assumes "no_wrap cap key" and "0 < cap"
  shows "walk cap key n = (first_loc cap key + n * (unat (djb2a key) + 1)) mod cap"
proof -
  obtain s where s: "s = unat (djb2a key) + 1" by blast
  have "walk cap key n = (first_loc cap key + n * s) mod cap"
  proof (induction n)
    case 0
    then show ?case by (simp add: first_loc_def)
  next
    case (Suc n)
    have "walk cap key (Suc n) = (walk cap key n + s) mod cap"
      using next_loc_no_wrap [OF assms(1) walk_bound [OF assms(2)]] by (simp only: walk_Suc [symmetric] s)
    also have "\<dots> = (first_loc cap key + n * s + s) mod cap" unfolding Suc by (rule mod_add_left_eq)
    also have "first_loc cap key + n * s + s = first_loc cap key + Suc n * s" by simp
    finally show ?case .
  qed
  then show ?thesis unfolding s .
qed

lemma walk_returns:
  assumes "no_wrap cap key" and "0 < cap"
  shows "walk cap key cap = first_loc cap key"
proof -
  have "walk cap key cap = first_loc cap key mod cap"
    unfolding walk_no_wrap [OF assms] by (rule mod_mult_self2)
  then show ?thesis by (simp add: first_loc_def)
qed

lemma search_probe_ends:
  assumes "no_wrap cap key" and "0 < cap" and "length items = cap" and "m < cap"
  shows "\<exists>r. search_probe items cap key (first_loc cap key) (walk cap key m) = Some (Inr r)"
  using assms(4)
proof (induction "cap - Suc m" arbitrary: m rule: less_induct)
  case less
  show ?case
  proof (cases "walk cap key (Suc m) = first_loc cap key")
    case True
    then show ?thesis using walk_bound [OF assms(2)] assms(3)
      by (subst search_probe.simps) (auto simp: walk_Suc split: option.split)
  next
    case False
    then have "Suc m < cap" using walk_returns [OF assms(1,2)] less.prems by (metis Suc_lessI)
    moreover from this have "cap - Suc (Suc m) < cap - Suc m" by simp
    ultimately obtain r where
      "search_probe items cap key (first_loc cap key) (walk cap key (Suc m)) = Some (Inr r)"
      using less.hyps [of "Suc m"] by blast
    then show ?thesis using walk_bound [OF assms(2)] assms(3)
      by (subst search_probe.simps) (auto simp: walk_Suc split: option.split)
  qed
qed

lemma insert_probe_ends:
  assumes "no_wrap cap key" and "0 < cap" and "length items = cap" and "m < cap"
  shows "\<exists>r. insert_probe items cap key (first_loc cap key) (walk cap key m) = Some (Inr r)"
  using assms(4)
proof (induction "cap - Suc m" arbitrary: m rule: less_induct)
  case less
  show ?case
  proof (cases "walk cap key (Suc m) = first_loc cap key")
    case True
    then show ?thesis using walk_bound [OF assms(2)] assms(3)
      by (subst insert_probe.simps) (auto simp: walk_Suc split: option.split)
  next
    case False
    then have "Suc m < cap" using walk_returns [OF assms(1,2)] less.prems by (metis Suc_lessI)
    moreover from this have "cap - Suc (Suc m) < cap - Suc m" by simp
    ultimately obtain r where
      "insert_probe items cap key (first_loc cap key) (walk cap key (Suc m)) = Some (Inr r)"
      using less.hyps [of "Suc m"] by blast
    then show ?thesis using walk_bound [OF assms(2)] assms(3)
      by (subst insert_probe.simps) (auto simp: walk_Suc split: option.split)
  qed
qed

text \<open>
  Searching returns.  For every key whose step does not wrap, \<open>hashtable_search\<close> ends after at
  most \<open>cap\<close> probes, in a table of any contents, within the array.
\<close>

theorem ht_search_returns:
  assumes "ht_inv t" and "no_wrap (ht_cap t) key"
  shows "\<exists>r. hashtable_search t key = Some (Inr r)"
proof -
  have inv: "0 < ht_cap t" "length (ht_items t) = ht_cap t" using assms(1) by (simp_all add: ht_inv_def)
  from search_probe_ends [OF assms(2) inv inv(1)] show ?thesis
    by (simp add: hashtable_search_def Let_def)
qed

theorem ht_search_returns_witness: "\<exists>r. hashtable_search two_slots ''a'' = Some (Inr r)"
  by (rule ht_search_returns [OF two_slots_inv])
    (simp add: no_wrap_def two_slots_def djb2a_def of_char_def)

subsection \<open>Room\<close>

text \<open>The step of a key is coprime to a prime capacity: the walk meets a slot again only after a full round.\<close>

lemma prime_walk_gap:
  assumes "prime_number cap" and "no_wrap cap key" and "(unat (djb2a key) + 1) mod cap \<noteq> 0"
    and "walk cap key i = walk cap key j" and "i \<le> j"
  shows "cap dvd j - i"
proof -
  let ?s = "unat (djb2a key) + 1" and ?f = "first_loc cap key"
  have pos: "0 < cap" using assms(1) by (simp add: prime_number_def)
  have cop: "coprime cap ?s"
  proof (rule coprimeI)
    fix c assume c: "c dvd cap" "c dvd ?s"
    then have "c = 1 \<or> c = cap" using assms(1) by (auto simp: prime_number_def)
    then show "is_unit c" using c(2) assms(3) by (auto simp: dvd_eq_mod_eq_0)
  qed
  have "(?f + j * ?s) mod cap = (?f + i * ?s) mod cap"
    using assms(4) by (simp only: walk_no_wrap [OF assms(2) pos])
  moreover have "?f + i * ?s \<le> ?f + j * ?s" using assms(5) by (intro add_left_mono mult_le_mono1)
  ultimately have "cap dvd (?f + j * ?s) - (?f + i * ?s)" using mod_eq_dvd_iff_nat by blast
  then have "cap dvd (j - i) * ?s" by (simp only: diff_add_inverse2 add_diff_cancel_left diff_mult_distrib)
  then show ?thesis using cop coprime_dvd_mult_left_iff by blast
qed

lemma prime_walk_onto:
  assumes "prime_number cap" and "no_wrap cap key" and "(unat (djb2a key) + 1) mod cap \<noteq> 0" and "p < cap"
  shows "\<exists>i<cap. walk cap key i = p"
proof -
  have pos: "0 < cap" using assms(1) by (simp add: prime_number_def)
  note gap = prime_walk_gap [OF assms(1-3)]
  have "inj_on (walk cap key) {..<cap}"
  proof (rule inj_onI)
    fix i j assume "i \<in> {..<cap}" "j \<in> {..<cap}" "walk cap key i = walk cap key j"
    then show "i = j" using gap [of i j] gap [of j i] by (cases "i \<le> j") (auto dest: dvd_imp_le)
  qed
  then have "walk cap key ` {..<cap} = {..<cap}"
    using walk_bound [OF pos] by (intro endo_inj_surj) auto
  then show ?thesis using assms(4) by (metis imageE lessThan_iff)
qed

lemma prime_walk_covers:
  assumes "prime_number cap" and "no_wrap cap key" and "(unat (djb2a key) + 1) mod cap \<noteq> 0"
    and "walk cap key (Suc n) = first_loc cap key" and "p < cap"
  shows "\<exists>i\<le>n. walk cap key i = p"
proof -
  have "cap dvd Suc n" using prime_walk_gap [OF assms(1-3), of 0 "Suc n"] assms(4) by simp
  then have "cap \<le> Suc n" by (rule dvd_imp_le) simp
  moreover obtain i where "i < cap" "walk cap key i = p" using prime_walk_onto [OF assms(1-3,5)] by blast
  ultimately show ?thesis by (intro exI [of _ i]) simp
qed

text \<open>
  A table of prime capacity accepts every key while it has room.  If the key's step does not
  wrap and is not a multiple of the capacity, the table has a destructor and fewer live entries
  than slots, \<open>hashtable_insert\<close> returns 0.
\<close>

theorem ht_insert_succeeds:
  assumes "ht_inv t" and "prime_number (ht_cap t)" and "no_wrap (ht_cap t) key"
    and "(unat (djb2a key) + 1) mod ht_cap t \<noteq> 0" and "has_destructor t" and "ht_size t < ht_cap t"
  shows "\<exists>t' freed. hashtable_insert t key v = Some (Inr (t', 0, freed))"
proof -
  let ?its = "ht_items t" and ?cap = "ht_cap t"
  have inv: "0 < ?cap" "length ?its = ?cap" "ht_size t = length (filter live ?its)"
    using assms(1) by (simp_all add: ht_inv_def)
  obtain e where e: "insert_probe ?its ?cap key (first_loc ?cap key) (walk ?cap key 0) = Some (Inr e)"
    using insert_probe_ends [OF assms(3) inv(1,2,1)] by blast
  from insert_probe_stops [OF e] obtain n where
    n: "\<forall>i<n. live (?its ! walk ?cap key i)" "open_walk ?cap key n" "stops_at ?its ?cap key e (walk ?cap key n)"
    by (auto simp: open_walk_def)
  have "e \<noteq> Cycled"
  proof
    assume "e = Cycled"
    then have c: "live (?its ! walk ?cap key n)" "walk ?cap key (Suc n) = first_loc ?cap key"
      using n(3) by (simp_all add: stops_at_def walk_Suc)
    have "live (?its ! p)" if p: "p < ?cap" for p
    proof -
      obtain i where "i \<le> n" "walk ?cap key i = p"
        using prime_walk_covers [OF assms(2-4) c(2) p] by blast
      then show ?thesis using n(1) c(1) by (cases "i = n") auto
    qed
    then have "filter live ?its = ?its" using inv(2) by (intro filter_True) (auto simp: in_set_conv_nth)
    then show False using assms(6) inv(2,3) by simp
  qed
  then show ?thesis using e assms(5,6)
    by (cases e) (auto simp: hashtable_insert_def Let_def)
qed

lemma two_is_prime: "prime_number 2"
  by (auto simp: prime_number_def dest: dvd_imp_le)
    (metis dvd_0_left_iff dvd_imp_le le_antisym less_2_cases_iff not_less zero_less_numeral zero_neq_numeral)

theorem ht_insert_succeeds_witness:
  "\<exists>t' freed. hashtable_insert two_slots ''a'' 3 = Some (Inr (t', 0, freed))"
  by (rule ht_insert_succeeds [OF two_slots_inv])
    (simp_all add: no_wrap_def two_slots_def djb2a_def of_char_def two_is_prime)

end
