(* ===== verification/HashtableLife.thy ===== *)
theory HashtableLife
  imports HashtableUse "HOL-Library.Multiset"
begin

text \<open>
  Removal in \<open>src/hashtable.c\<close>, and the life of the values: when \<open>hashtable_remove\<close> returns and what
  it changes, how a key comes to be stored twice, and that over the life of a table every value
  it accepted goes to the destructor exactly once.
\<close>

subsection \<open>Removal\<close>

lemma remove_probe_finds:
  assumes "remove_probe items cap key loc = Some (Inr (Some p))"
  shows "p < length items \<and> holds key (items ! p)"
proof -
  let ?P = "\<lambda>its c k loc r. r = (Inr (Some p) :: nat option run) \<longrightarrow> p < length its \<and> holds k (its ! p)"
  have "?P items cap key loc (Inr (Some p))"
    by (rule remove_probe.raw_induct [where P = ?P, OF _ assms])
      (fastforce split: if_splits option.splits)
  then show ?thesis by simp
qed

lemma remove_marks:
  assumes "hashtable_remove t k = Some (Inr (t', 0))"
  obtains p it where "p < length (ht_items t)" "ht_items t ! p = Some it" "\<not> item_deleted it" "item_key it = k"
    "t' = t\<lparr>ht_items := (ht_items t)[p := Some (it\<lparr>item_deleted := True\<rparr>)], ht_size := ht_size t - 1\<rparr>"
proof -
  from assms obtain p where p: "remove_probe (ht_items t) (ht_cap t) k (first_loc (ht_cap t) k) = Some (Inr (Some p))"
    by (auto simp: hashtable_remove_def split: option.splits sum.splits)
  from remove_probe_finds [OF this] obtain it where "p < length (ht_items t)" "ht_items t ! p = Some it"
    "\<not> item_deleted it" "item_key it = k" by (auto simp: holds_def)
  with that p assms show thesis by (auto simp: hashtable_remove_def)
qed

lemma remove_inv:
  assumes "ht_inv t" and "hashtable_remove t k = Some (Inr (t', 0))"
  shows "ht_inv t'"
proof -
  have inv: "0 < ht_cap t" "length (ht_items t) = ht_cap t" "ht_size t = length (filter live (ht_items t))"
    "ht_occupied t = length (filter (\<lambda>s. s \<noteq> None) (ht_items t))" "reach_ok (ht_items t) (ht_cap t)"
    using assms(1) by (simp_all add: ht_inv_def)
  from remove_marks [OF assms(2)] obtain p it where p: "p < length (ht_items t)" "ht_items t ! p = Some it"
    "\<not> item_deleted it" and
    t': "t' = t\<lparr>ht_items := (ht_items t)[p := Some (it\<lparr>item_deleted := True\<rparr>)], ht_size := ht_size t - 1\<rparr>" .
  have "reach_ok (ht_items t') (ht_cap t)" unfolding t'
    using p(1) inv(2) reach_ok_update [OF inv(5,2), of p "it\<lparr>item_deleted := True\<rparr>"] by simp
  then show ?thesis
    using inv p length_filter_update [OF p(1), of live "Some (it\<lparr>item_deleted := True\<rparr>)"]
      length_filter_update [OF p(1), of "\<lambda>s. s \<noteq> None" "Some (it\<lparr>item_deleted := True\<rparr>)"]
    by (simp add: ht_inv_def t')
qed

text \<open>The key is stored in at most one live slot.\<close>

definition stored_once :: "'v hashtable_table \<Rightarrow> string \<Rightarrow> bool" where
  "stored_once t k \<longleftrightarrow> length (filter (holds k) (ht_items t)) \<le> 1"

lemma stored_once_slot:
  assumes "stored_once t k" and "p < length (ht_items t)" and "holds k (ht_items t ! p)"
    and "q < length (ht_items t)" and "holds k (ht_items t ! q)"
  shows "q = p"
proof (rule ccontr)
  assume "q \<noteq> p"
  then have two: "card {p, q} = 2" by simp
  have "card {p, q} \<le> card {i. i < length (ht_items t) \<and> holds k (ht_items t ! i)}"
    by (rule card_mono) (use assms(2-5) in auto)
  then show False using assms(1) two by (simp add: stored_once_def length_filter_conv_card)
qed

text \<open>Removal leaves the other keys alone, and with one copy of its key none is left.\<close>

lemma remove_other_keys:
  assumes "ht_inv t" and "hashtable_remove t k = Some (Inr (t', 0))" and "j \<noteq> k"
  shows "ht_lookup t' j = ht_lookup t j"
proof -
  have inv: "0 < ht_cap t" "length (ht_items t) = ht_cap t" "reach_ok (ht_items t) (ht_cap t)"
    using assms(1) by (simp_all add: ht_inv_def)
  from remove_marks [OF assms(2)] obtain p it where p: "p < length (ht_items t)" "ht_items t ! p = Some it"
    "\<not> item_deleted it" "item_key it = k" and
    t': "t' = t\<lparr>ht_items := (ht_items t)[p := Some (it\<lparr>item_deleted := True\<rparr>)], ht_size := ht_size t - 1\<rparr>" .
  have inv': "0 < ht_cap t'" "length (ht_items t') = ht_cap t'"
    using remove_inv [OF assms(1,2)] by (simp_all add: ht_inv_def)
  have "ht_lookup t' j = Some v \<longleftrightarrow> ht_lookup t j = Some v" for v
    using lookup_items_other [OF inv(3,2,1), of p j "it\<lparr>item_deleted := True\<rparr>" v] p assms(3) inv(2)
    unfolding ht_lookup_Some [OF inv'] ht_lookup_Some [OF inv(1,2)] by (simp add: t' del: holds_simps) (simp add: holds_def)
  then show ?thesis by (metis option.exhaust)
qed

lemma remove_only_copy:
  assumes "ht_inv t" and "stored_once t k" and "hashtable_remove t k = Some (Inr (t', 0))"
  shows "ht_lookup t' k = None"
proof (rule ccontr)
  assume found: "ht_lookup t' k \<noteq> None"
  have inv: "0 < ht_cap t" "length (ht_items t) = ht_cap t" using assms(1) by (simp_all add: ht_inv_def)
  from remove_marks [OF assms(3)] obtain p it where p: "p < length (ht_items t)" "ht_items t ! p = Some it"
    "\<not> item_deleted it" "item_key it = k" and
    t': "t' = t\<lparr>ht_items := (ht_items t)[p := Some (it\<lparr>item_deleted := True\<rparr>)], ht_size := ht_size t - 1\<rparr>" .
  have inv': "0 < ht_cap t'" "length (ht_items t') = ht_cap t'"
    using remove_inv [OF assms(1,3)] by (simp_all add: ht_inv_def)
  obtain n jt where n: "ht_items t' ! walk (ht_cap t') k n = Some jt" "holds k (Some jt)"
    using ht_lookup_Some [OF inv'] found by blast
  then have "ht_items t ! walk (ht_cap t) k n = Some jt" "walk (ht_cap t) k n \<noteq> p"
    using p(1) by (auto simp: t' nth_list_update split: if_splits)
  then show False using stored_once_slot [OF assms(2) p(1), of "walk (ht_cap t) k n"] p n(2)
      walk_bound [OF inv(1), of k n] inv(2) by simp
qed

text \<open>
  C37: removal deletes a key.  If the key is stored once and \<open>hashtable_remove\<close> returns 0, the table
  keeps its invariant, a search for the key finds nothing and every other key is untouched.
\<close>

theorem ht_remove_deletes:
  assumes "ht_inv t" and "stored_once t k" and "hashtable_remove t k = Some (Inr (t', 0))"
  shows "ht_inv t' \<and> ht_lookup t' = (ht_lookup t)(k := None)"
proof
  show "ht_inv t'" by (rule remove_inv [OF assms(1,3)])
  show "ht_lookup t' = (ht_lookup t)(k := None)"
    using remove_only_copy [OF assms] remove_other_keys [OF assms(1,3)] by auto
qed

definition one_item :: "nat hashtable_table" where
  "one_item = \<lparr>ht_size = 1, ht_occupied = 1, ht_cap = 2,
     ht_items = [Some \<lparr>item_key = ''a'', item_value = 7, item_deleted = False\<rparr>, None], has_destructor = True\<rparr>"

lemma one_item_inv: "ht_inv one_item"
proof -
  have "reaches (ht_items one_item) 2 ''a'' 0"
    unfolding reaches_def by (intro exI [of _ 0]) (auto simp: two_slots_locs open_walk_def)
  then show ?thesis by (simp add: ht_inv_def one_item_def reach_ok_def less_Suc_eq numeral_2_eq_2)
qed

theorem ht_remove_deletes_witness:
  "\<exists>t'. hashtable_remove one_item ''a'' = Some (Inr (t', 0)) \<and> ht_lookup t' ''a'' = None"
proof -
  have "\<exists>t'. hashtable_remove one_item ''a'' = Some (Inr (t', 0))"
    by (simp add: hashtable_remove_def one_item_def two_slots_locs remove_probe.simps)
  then obtain t' where r: "hashtable_remove one_item ''a'' = Some (Inr (t', 0))" by blast
  have "stored_once one_item ''a''" by (simp add: stored_once_def one_item_def)
  from ht_remove_deletes [OF one_item_inv this r] r show ?thesis by auto
qed

subsection \<open>Keys stored twice\<close>

text \<open>The copy of a key that a search finds is also the one a removal marks.\<close>

lemma remove_probe_first:
  assumes "passes items cap k n" and "holds k (items ! walk cap k n)" and "0 < cap" and "length items = cap" and "m \<le> n"
  shows "remove_probe items cap k (walk cap k m) = Some (Inr (Some (walk cap k n)))"
  using assms(5)
proof (induction m rule: inc_induct)
  case base
  then show ?case using assms(2,4) walk_bound [OF assms(3), of k n]
    by (subst remove_probe.simps) (auto simp: holds_def)
next
  case (step m)
  then obtain it where "items ! walk cap k m = Some it" "\<not> holds k (Some it)"
    using assms(1) unfolding passes_def by (metis option.exhaust)
  then show ?case using step.IH assms(4) walk_bound [OF assms(3), of k m]
    by (subst remove_probe.simps) (auto simp: walk_Suc)
qed

lemma remove_first:
  assumes "passes (ht_items t) (ht_cap t) k n" and "ht_items t ! walk (ht_cap t) k n = Some it" and "holds k (Some it)"
    and "0 < ht_cap t" and "length (ht_items t) = ht_cap t"
  shows "hashtable_remove t k = Some (Inr (t\<lparr>ht_items := (ht_items t)[walk (ht_cap t) k n := Some (it\<lparr>item_deleted := True\<rparr>)],
     ht_size := ht_size t - 1\<rparr>, 0))"
  using remove_probe_first [OF assms(1) _ assms(4,5), of 0] assms(2,3) by (simp add: hashtable_remove_def)

text \<open>
  Inserting a key that the table holds replaces its value, unless there is a tombstone on the way to it:
  then the first tombstone is reused.
\<close>

definition tombstone_before :: "'v hashtable_table \<Rightarrow> string \<Rightarrow> bool" where
  "tombstone_before t k \<longleftrightarrow> (\<exists>n. passes (ht_items t) (ht_cap t) k n \<and> holds k (ht_items t ! walk (ht_cap t) k n) \<and>
     (\<exists>i<n. \<not> live (ht_items t ! walk (ht_cap t) k i)))"

lemma tombstone_before_eq:
  assumes "passes (ht_items t) (ht_cap t) k n" and "holds k (ht_items t ! walk (ht_cap t) k n)"
  shows "tombstone_before t k \<longleftrightarrow> (\<exists>i<n. \<not> live (ht_items t ! walk (ht_cap t) k i))"
proof
  assume "tombstone_before t k"
  then obtain m where "passes (ht_items t) (ht_cap t) k m" "holds k (ht_items t ! walk (ht_cap t) k m)"
    "\<exists>i<m. \<not> live (ht_items t ! walk (ht_cap t) k i)" unfolding tombstone_before_def by blast
  with passes_unique [OF this(1,2) assms] show "\<exists>i<n. \<not> live (ht_items t ! walk (ht_cap t) k i)" by simp
next
  assume "\<exists>i<n. \<not> live (ht_items t ! walk (ht_cap t) k i)"
  with assms show "tombstone_before t k" unfolding tombstone_before_def by blast
qed

lemma insert_held_key:
  assumes "ht_inv t" and ins: "hashtable_insert t k v = Some (Inr (t', 0, freed))"
    and n: "passes (ht_items t) (ht_cap t) k n" "ht_items t ! walk (ht_cap t) k n = Some it" "holds k (Some it)"
  obtains (replaced) "\<forall>i<n. live (ht_items t ! walk (ht_cap t) k i)" "freed = [item_value it]"
      "t' = t\<lparr>ht_items := (ht_items t)[walk (ht_cap t) k n := Some (it\<lparr>item_value := v\<rparr>)]\<rparr>"
    | (reused) i where "i < n" "\<not> live (ht_items t ! walk (ht_cap t) k i)" "\<forall>j<i. live (ht_items t ! walk (ht_cap t) k j)"
      "ht_items t' = (ht_items t)[walk (ht_cap t) k i := Some (new_hashtable_item k v)]" "ht_cap t' = ht_cap t"
proof -
  let ?its = "ht_items t" and ?cap = "ht_cap t"
  from ins obtain e where e: "insert_probe ?its ?cap k (first_loc ?cap k) (walk ?cap k 0) = Some (Inr e)" "e \<noteq> Cycled"
    by (auto simp: hashtable_insert_def Let_def split: if_splits option.splits sum.splits probe_end.splits)
  from insert_probe_stops [OF e(1)] obtain i where
    i: "\<forall>j<i. live (?its ! walk ?cap k j) \<and> \<not> holds k (?its ! walk ?cap k j)" and st: "stops_at ?its ?cap k e (walk ?cap k i)"
    by auto
  have "\<not> n < i" using i n(2,3) by auto
  then consider "i = n" | "i < n" by linarith
  then show thesis
  proof cases
    case 1
    then have "e = Replace (walk ?cap k n)" using st n(2,3) e(2) by (cases e) (auto simp: stops_at_def)
    then show thesis using replaced ins e(1) i n(2) 1
      by (auto simp: hashtable_insert_def Let_def split: if_splits)
  next
    case 2
    then have "?its ! walk ?cap k i \<noteq> None" "\<not> holds k (?its ! walk ?cap k i)" using n(1) by (auto simp: passes_def)
    then have "e = Reuse (walk ?cap k i)" "\<not> live (?its ! walk ?cap k i)"
      using st e(2) by (cases e; auto simp: stops_at_def)+
    then show thesis using reused [OF 2] ins e(1) i
      by (auto simp: hashtable_insert_def Let_def split: if_splits)
  qed
qed

lemma two_copies:
  assumes "p < length (ht_items t)" and "q < length (ht_items t)" and "p \<noteq> q"
    and "holds k (ht_items t ! p)" and "holds k (ht_items t ! q)"
  shows "\<not> stored_once t k"
  using stored_once_slot [of t k p q] assms by blast

lemma reused_tombstone_hides:
  assumes "ht_inv t" and n: "passes (ht_items t) (ht_cap t) k n" "ht_items t ! walk (ht_cap t) k n = Some it" "holds k (Some it)"
    and i: "i < n" "\<not> live (ht_items t ! walk (ht_cap t) k i)" "\<forall>j<i. live (ht_items t ! walk (ht_cap t) k j)"
    and t': "ht_items t' = (ht_items t)[walk (ht_cap t) k i := Some (new_hashtable_item k v)]" "ht_cap t' = ht_cap t"
  shows "\<not> stored_once t' k \<and> (\<exists>u. hashtable_remove t' k = Some (Inr (u, 0)) \<and> ht_lookup u k = Some (item_value it))"
proof -
  let ?cap = "ht_cap t" and ?p = "walk (ht_cap t) k i" and ?q = "walk (ht_cap t) k n"
  let ?new = "new_hashtable_item k v"
  have inv: "0 < ?cap" "length (ht_items t) = ?cap" using assms(1) by (simp_all add: ht_inv_def)
  then have inv': "0 < ht_cap t'" "length (ht_items t') = ht_cap t'" by (simp_all add: t')
  have b: "walk ?cap k j < ?cap" for j by (rule walk_bound [OF inv(1)])
  have ne: "?q \<noteq> ?p" using n i(1) by (auto simp: passes_def)
  have new: "ht_items t' ! ?p = Some ?new" "holds k (Some ?new)"
    using b [of i] inv(2) by (simp_all add: t'(1) new_hashtable_item_def)
  have other: "ht_items t' ! walk ?cap k j = ht_items t ! walk ?cap k j" if "walk ?cap k j \<noteq> ?p" for j
    using that by (simp add: t'(1))
  have "walk ?cap k j \<noteq> ?p" if "j < i" for j using i(2,3) that by auto
  then have first: "passes (ht_items t') ?cap k i"
    using n(1) i(1) open_walk_mono [of ?cap k n i] by (auto simp: passes_def other)
  have twice: "\<not> stored_once t' k"
    by (rule two_copies [of ?p _ ?q]) (use b inv(2) ne new n(2,3) other [OF ne] t' in auto)
  obtain u where u: "hashtable_remove t' k = Some (Inr (u, 0))" "ht_cap u = ?cap"
      "ht_items u = (ht_items t')[?p := Some (?new\<lparr>item_deleted := True\<rparr>)]"
    using remove_first [of t' k i, unfolded t'(2), OF first new inv' [unfolded t'(2)]] t'(2) by simp
  have slot: "ht_items u ! walk ?cap k j =
      (if walk ?cap k j = ?p then Some (?new\<lparr>item_deleted := True\<rparr>) else ht_items t ! walk ?cap k j)" for j
    using b [of j] inv' t'(2) by (simp add: u(3) other)
  have "passes (ht_items u) ?cap k n" using n(1) by (simp add: passes_def slot)
  moreover have "ht_items u ! ?q = Some it" using ne n(2) by (simp add: slot)
  ultimately have "ht_lookup u k = Some (item_value it)"
    using ht_lookup_Some [of u k "item_value it"] n(3) inv' u(2,3) t'(2) by auto
  with u(1) twice show ?thesis by blast
qed

lemma replaced_once:
  assumes "stored_once t k" and "p < length (ht_items t)" and "ht_items t ! p = Some it" and "holds k (Some it)"
  shows "stored_once (t\<lparr>ht_items := (ht_items t)[p := Some (it\<lparr>item_value := v\<rparr>)]\<rparr>) k"
  using assms length_filter_update [OF assms(2), of "holds k" "Some (it\<lparr>item_value := v\<rparr>)"]
  by (simp add: stored_once_def)

text \<open>
  C38: when a removed key comes back.  Let the table hold the key once, with the value \<open>old\<close>, and
  let \<open>hashtable_insert\<close> of the same key return 0.  A removal of the key then returns 0 and
  touches no other key; but the key is gone only if no tombstone lies before it on its probe sequence.  If
  one does, the insertion has stored the key a second time instead of handing the old value to the
  destructor, and after the removal a search finds the old value again.
\<close>

theorem ht_removed_key_resurfaces:
  assumes "ht_inv t" and "stored_once t k" and "ht_lookup t k = Some old"
    and ins: "hashtable_insert t k v = Some (Inr (t1, 0, freed))"
  shows "(if tombstone_before t k then \<not> stored_once t1 k else stored_once t1 k \<and> freed = [old]) \<and>
     (\<exists>t2. hashtable_remove t1 k = Some (Inr (t2, 0)) \<and>
        ht_lookup t2 = (ht_lookup t)(k := if tombstone_before t k then Some old else None))"
proof -
  have inv: "0 < ht_cap t" "length (ht_items t) = ht_cap t" using assms(1) by (simp_all add: ht_inv_def)
  obtain n it where n: "passes (ht_items t) (ht_cap t) k n" "ht_items t ! walk (ht_cap t) k n = Some it" "holds k (Some it)"
    and old: "item_value it = old" using assms(3) ht_lookup_Some [OF inv] by blast
  have tb: "tombstone_before t k \<longleftrightarrow> (\<exists>i<n. \<not> live (ht_items t ! walk (ht_cap t) k i))"
    using tombstone_before_eq [OF n(1)] n(2,3) by simp
  note t1 = insert_ok [OF assms(1) ins]
  have rest: "ht_lookup t2 = (ht_lookup t)(k := ht_lookup t2 k)" if "hashtable_remove t1 k = Some (Inr (t2, 0))" for t2
    using remove_other_keys [OF t1(1) that] t1(2) by auto
  from assms(1) ins n show ?thesis
  proof (cases rule: insert_held_key)
    case replaced
    let ?p = "walk (ht_cap t) k n"
    have "stored_once t1 k"
      unfolding replaced(3) by (rule replaced_once [OF assms(2) _ n(2,3)]) (use walk_bound [OF inv(1)] inv(2) in simp)
    moreover obtain m jt where "passes (ht_items t1) (ht_cap t1) k m" "ht_items t1 ! walk (ht_cap t1) k m = Some jt" "holds k (Some jt)"
      using ht_lookup_Some [of t1 k v] t1 by (auto simp: ht_inv_def)
    then obtain t2 where t2: "hashtable_remove t1 k = Some (Inr (t2, 0))"
      using remove_first [of t1 k m jt] t1(1) by (auto simp: ht_inv_def)
    moreover have "ht_lookup t2 k = None" by (rule remove_only_copy [OF t1(1) calculation(1) t2])
    ultimately show ?thesis using rest [OF t2] replaced(1,2) tb old by auto
  next
    case (reused i)
    then have "tombstone_before t k" using tb by blast
    with reused_tombstone_hides [OF assms(1) n reused] rest show ?thesis by (auto simp: old)
  qed
qed

text \<open>Two keys that share their first slot: the first is removed, the second stored again and removed once.\<close>

theorem ht_removed_key_resurfaces_witness:
  "\<exists>t1 t2 t3 t4 t5.
     hashtable_insert two_slots ''a'' 1 = Some (Inr (t1, 0, [])) \<and>
     hashtable_insert t1 ''c'' 2 = Some (Inr (t2, 0, [])) \<and>
     hashtable_remove t2 ''a'' = Some (Inr (t3, 0)) \<and>
     hashtable_insert t3 ''c'' 3 = Some (Inr (t4, 0, [1])) \<and> \<not> stored_once t4 ''c'' \<and>
     hashtable_remove t4 ''c'' = Some (Inr (t5, 0)) \<and> ht_lookup t5 ''c'' = Some 2"
proof -
  let ?c = "\<lparr>item_key = ''c'', item_value = 2, item_deleted = False\<rparr>"
  have "\<exists>t1 t2 t3 t4. hashtable_insert two_slots ''a'' 1 = Some (Inr (t1, 0, [])) \<and>
     hashtable_insert t1 ''c'' 2 = Some (Inr (t2, 0, [])) \<and> hashtable_remove t2 ''a'' = Some (Inr (t3, 0)) \<and>
     hashtable_insert t3 ''c'' 3 = Some (Inr (t4, 0, [1])) \<and> ht_cap t3 = 2 \<and>
     ht_items t3 = [Some \<lparr>item_key = ''a'', item_value = 1, item_deleted = True\<rparr>, Some ?c]"
    by (simp add: hashtable_insert_def two_slots_def two_slots_locs Let_def insert_probe.simps
      new_hashtable_item_def delete_hashtable_item_def hashtable_remove_def remove_probe.simps)
  then obtain t1 t2 t3 t4 where t: "hashtable_insert two_slots ''a'' 1 = Some (Inr (t1, 0, []))"
    "hashtable_insert t1 ''c'' 2 = Some (Inr (t2, 0, []))" "hashtable_remove t2 ''a'' = Some (Inr (t3, 0))"
    "hashtable_insert t3 ''c'' 3 = Some (Inr (t4, 0, [1]))" "ht_cap t3 = 2"
    "ht_items t3 = [Some \<lparr>item_key = ''a'', item_value = 1, item_deleted = True\<rparr>, Some ?c]" by blast
  have i2: "ht_inv t2" "ht_lookup t2 ''c'' = Some 2"
    using insert_ok [OF insert_ok(1) [OF two_slots_inv t(1)] t(2)] by simp_all
  have l: "ht_lookup t3 ''c'' = Some 2" using remove_other_keys [OF i2(1) t(3), of "''c''"] i2(2) by simp
  have w: "walk 2 ''c'' 0 = 0" "walk 2 ''c'' 1 = 1" by (simp_all add: two_slots_locs flip: walk_Suc)
  have "passes (ht_items t3) (ht_cap t3) ''c'' 1" "holds ''c'' (ht_items t3 ! walk (ht_cap t3) ''c'' 1)"
    using w by (auto simp: passes_def open_walk_def t(5,6) two_slots_locs le_Suc_eq)
  then have tb: "tombstone_before t3 ''c''" using w t(5,6) by (simp add: tombstone_before_eq)
  have so: "stored_once t3 ''c''" by (simp add: stored_once_def t(6))
  from ht_removed_key_resurfaces [OF remove_inv [OF i2(1) t(3)] so l t(4)] tb
  obtain t5 where "\<not> stored_once t4 ''c''" "hashtable_remove t4 ''c'' = Some (Inr (t5, 0))" "ht_lookup t5 ''c'' = Some 2" by auto
  with t(1-4) show ?thesis by blast
qed

subsection \<open>When removal returns\<close>

lemma remove_probe_diverges:
  assumes "0 < cap" and "length items = cap" and "\<forall>slot\<in>set items. slot \<noteq> None \<and> \<not> holds key slot"
    and "loc < cap"
  shows "remove_probe items cap key loc = None"
proof (rule ccontr)
  assume "remove_probe items cap key loc \<noteq> None"
  then obtain r where r: "remove_probe items cap key loc = Some r" by blast
  let ?P = "\<lambda>its c k loc r. its = items \<longrightarrow> c = cap \<longrightarrow> k = key \<longrightarrow> \<not> loc < cap"
  have "?P items cap key loc r"
  proof (rule remove_probe.raw_induct [where P = ?P, OF _ r], intro allI impI notI)
    fix f its c k loc and r :: "nat option run"
    assume IH: "\<And>its c k loc r. f its c k loc = Some r \<Longrightarrow> ?P its c k loc r"
      and eq: "(if \<not> loc < length its then Some (Inl OutOfBounds)
      else case its ! loc of None \<Rightarrow> Some (Inr None)
      | Some item \<Rightarrow> if \<not> item_deleted item \<and> item_key item = k then Some (Inr (Some loc))
          else f its c k (next_loc c k loc)) = Some r"
      and h: "its = items" "c = cap" "k = key" "loc < cap"
    have "items ! loc \<in> set items" using h(4) assms(2) by simp
    then obtain it where "items ! loc = Some it" "\<not> holds key (Some it)" using assms(3) by force
    then have "f items cap key (next_loc cap key loc) = Some r" using eq h assms(2) by (simp split: if_splits)
    from IH [OF this] show False using assms(1) by (simp add: next_loc_def)
  qed
  then show False using assms(4) by simp
qed

lemma remove_probe_ends:
  assumes "0 < cap" and "length items = cap" and "items ! walk cap key n = None \<or> holds key (items ! walk cap key n)"
    and "m \<le> n"
  shows "\<exists>r. remove_probe items cap key (walk cap key m) = Some (Inr r)"
  using assms(4)
proof (induction m rule: inc_induct)
  case base
  then show ?case using assms walk_bound [OF assms(1)]
    by (subst remove_probe.simps) (auto split: option.split)
next
  case (step m)
  then show ?case using assms(2) walk_bound [OF assms(1)]
    by (subst remove_probe.simps) (auto simp: walk_Suc split: option.split)
qed

text \<open>
  Removal returns exactly when it can find what it looks for.  In a table of prime capacity, for
  a key whose step neither wraps nor is a multiple of the capacity, \<open>hashtable_remove\<close> returns
  if some slot is empty or holds the key; if every slot is taken, by other keys or by tombstones,
  it never returns.
\<close>

theorem ht_remove_returns:
  assumes "ht_inv t" and "prime_number (ht_cap t)" and "no_wrap (ht_cap t) key"
    and "(unat (djb2a key) + 1) mod ht_cap t \<noteq> 0"
  shows "(\<exists>r. hashtable_remove t key = Some (Inr r)) \<longleftrightarrow> (\<exists>slot\<in>set (ht_items t). slot = None \<or> holds key slot)"
proof
  have inv: "0 < ht_cap t" "length (ht_items t) = ht_cap t" using assms(1) by (simp_all add: ht_inv_def)
  show "\<exists>slot\<in>set (ht_items t). slot = None \<or> holds key slot" if "\<exists>r. hashtable_remove t key = Some (Inr r)"
  proof (rule ccontr)
    assume "\<not> ?thesis"
    then have "remove_probe (ht_items t) (ht_cap t) key (first_loc (ht_cap t) key) = None"
      using walk_bound [OF inv(1), of key 0] by (intro remove_probe_diverges [OF inv]) auto
    then show False using that by (simp add: hashtable_remove_def)
  qed
  show "\<exists>r. hashtable_remove t key = Some (Inr r)" if "\<exists>slot\<in>set (ht_items t). slot = None \<or> holds key slot"
  proof -
    from that obtain p where p: "p < ht_cap t" "ht_items t ! p = None \<or> holds key (ht_items t ! p)"
      using inv(2) by (auto simp: in_set_conv_nth)
    obtain n where n: "walk (ht_cap t) key n = p" using prime_walk_onto [OF assms(2-4) p(1)] by blast
    have "\<exists>r. remove_probe (ht_items t) (ht_cap t) key (walk (ht_cap t) key 0) = Some (Inr r)"
      by (rule remove_probe_ends [OF inv, of key n]) (use n p(2) in auto)
    then show ?thesis by (auto simp: hashtable_remove_def split: option.split)
  qed
qed

definition full_table :: "nat hashtable_table" where
  "full_table = \<lparr>ht_size = 2, ht_occupied = 2, ht_cap = 2,
     ht_items = [Some \<lparr>item_key = ''a'', item_value = 1, item_deleted = False\<rparr>,
                 Some \<lparr>item_key = ''c'', item_value = 2, item_deleted = False\<rparr>], has_destructor = True\<rparr>"

text \<open>Two keys in two slots; removing a third one loops for ever.\<close>

theorem ht_remove_returns_witness: "\<nexists>r. hashtable_remove full_table ''e'' = Some (Inr r)"
proof -
  have "reaches (ht_items full_table) 2 ''a'' 0"
    unfolding reaches_def by (intro exI [of _ 0]) (auto simp: two_slots_locs open_walk_def)
  moreover have "reaches (ht_items full_table) 2 ''c'' 1"
    unfolding reaches_def
    by (intro exI [of _ 1]) (auto simp: walk_def two_slots_locs open_walk_def full_table_def le_Suc_eq)
  ultimately have "ht_inv full_table"
    by (auto simp: ht_inv_def full_table_def reach_ok_def less_Suc_eq numeral_2_eq_2)
  then have "(\<exists>r. hashtable_remove full_table ''e'' = Some (Inr r)) \<longleftrightarrow>
      (\<exists>slot\<in>set (ht_items full_table). slot = None \<or> holds ''e'' slot)"
    by (rule ht_remove_returns)
      (simp_all add: full_table_def two_is_prime no_wrap_def djb2a_def of_char_def)
  then show ?thesis by (simp add: full_table_def)
qed

subsection \<open>The life of the values\<close>

datatype 'v ht_op = Put string 'v | Del string

text \<open>One call: the table, the values it took from its caller, the values it handed to the destructor.\<close>

fun ht_call :: "'v ht_op \<Rightarrow> 'v hashtable_table \<Rightarrow> ('v hashtable_table \<times> 'v list \<times> 'v list) option" where
  "ht_call (Put k v) t =
     (case hashtable_insert t k v of
        Some (Inr (t', r, freed)) \<Rightarrow> Some (t', if r = 0 then [v] else [], freed)
      | _ \<Rightarrow> None)"
| "ht_call (Del k) t = (case hashtable_remove t k of Some (Inr (t', r)) \<Rightarrow> Some (t', [], []) | _ \<Rightarrow> None)"

fun ht_calls :: "'v ht_op list \<Rightarrow> 'v hashtable_table \<Rightarrow> ('v hashtable_table \<times> 'v list \<times> 'v list) option" where
  "ht_calls [] t = Some (t, [], [])"
| "ht_calls (c # cs) t =
     (case ht_call c t of
        None \<Rightarrow> None
      | Some (t', taken, freed) \<Rightarrow>
          map_option (\<lambda>(u, taken', freed'). (u, taken @ taken', freed @ freed')) (ht_calls cs t'))"

definition slot_values :: "'v hashtable_item option \<Rightarrow> 'v list" where
  "slot_values slot = (case slot of None \<Rightarrow> [] | Some item \<Rightarrow> delete_hashtable_item item)"

definition held :: "'v hashtable_table \<Rightarrow> 'v multiset" where
  "held t = mset (concat (map slot_values (ht_items t)))"

lemma slot_values_simps [simp]: "slot_values None = []" "slot_values (Some it) = [item_value it]"
  by (simp_all add: slot_values_def delete_hashtable_item_def)

lemma held_update:
  assumes "p < length its"
  shows "mset (concat (map slot_values (its[p := s]))) + mset (slot_values (its ! p)) =
    mset (concat (map slot_values its)) + mset (slot_values s)"
proof -
  have "mset (concat (map slot_values its)) =
      mset (concat (map slot_values (take p its))) + mset (slot_values (its ! p)) +
      mset (concat (map slot_values (drop (Suc p) its)))"
    using arg_cong [OF id_take_nth_drop [OF assms], of "\<lambda>l. mset (concat (map slot_values l))"] by simp
  then show ?thesis by (simp add: upd_conv_take_nth_drop assms)
qed

lemma remove_held:
  assumes "hashtable_remove t k = Some (Inr (t', r))"
  shows "held t' = held t \<and> length (ht_items t') = length (ht_items t) \<and> ht_cap t' = ht_cap t"
proof (cases "r = 0")
  case True
  from remove_marks [OF assms [unfolded True]] obtain p it where p: "p < length (ht_items t)" "ht_items t ! p = Some it"
    and t': "t' = t\<lparr>ht_items := (ht_items t)[p := Some (it\<lparr>item_deleted := True\<rparr>)], ht_size := ht_size t - 1\<rparr>" .
  then show ?thesis using held_update [OF p(1), of "Some (it\<lparr>item_deleted := True\<rparr>)"] by (simp add: held_def)
next
  case False
  then have "t' = t" using assms by (auto simp: hashtable_remove_def split: option.splits sum.splits)
  then show ?thesis by simp
qed

lemma insert_probe_slot:
  assumes "insert_probe items cap key init loc = Some (Inr e)"
  shows "case e of Fresh p \<Rightarrow> p < length items \<and> items ! p = None
    | Cycled \<Rightarrow> True
    | Reuse p \<Rightarrow> p < length items \<and> items ! p \<noteq> None
    | Replace p \<Rightarrow> p < length items \<and> items ! p \<noteq> None"
proof -
  let ?Q = "\<lambda>its e. case e of Fresh p \<Rightarrow> p < length its \<and> its ! p = None
    | Cycled \<Rightarrow> True
    | Reuse p \<Rightarrow> p < length its \<and> its ! p \<noteq> None
    | Replace p \<Rightarrow> p < length its \<and> its ! p \<noteq> None"
  let ?P = "\<lambda>its c k init loc r. r = (Inr e :: probe_end run) \<longrightarrow> ?Q its e"
  have "?P items cap key init loc (Inr e)"
  proof (rule insert_probe.raw_induct [where P = ?P, OF _ assms], intro impI)
    fix f its c k init loc and r :: "probe_end run"
    assume IH: "\<And>its c k init loc r. f its c k init loc = Some r \<Longrightarrow> ?P its c k init loc r"
      and eq: "(if \<not> loc < length its then Some (Inl OutOfBounds)
      else case its ! loc of None \<Rightarrow> Some (Inr (Fresh loc))
      | Some item \<Rightarrow>
          if \<not> item_deleted item \<and> item_key item = k then Some (Inr (Replace loc))
          else if item_deleted item then Some (Inr (Reuse loc))
          else if next_loc c k loc = init then Some (Inr Cycled)
          else f its c k init (next_loc c k loc)) = Some r"
      and r: "r = Inr e"
    from eq IH [of its c k init "next_loc c k loc" r] r show "?Q its e"
      by (auto split: if_splits option.splits)
  qed
  then show ?thesis by simp
qed

lemma insert_held:
  assumes "hashtable_insert t k v = Some (Inr (t', r, freed))"
  shows "held t' + mset freed = held t + (if r = 0 then {#v#} else {#}) \<and>
     length (ht_items t') = length (ht_items t) \<and> ht_cap t' = ht_cap t"
proof (cases "ht_size t = ht_cap t")
  case True
  then show ?thesis using assms by (auto simp: hashtable_insert_def)
next
  case False
  then obtain e where e: "insert_probe (ht_items t) (ht_cap t) k (first_loc (ht_cap t) k) (first_loc (ht_cap t) k) = Some (Inr e)"
    using assms by (auto simp: hashtable_insert_def Let_def split: option.splits sum.splits)
  note s = insert_probe_slot [OF e]
  show ?thesis
  proof (cases e)
    case (Fresh p)
    then show ?thesis using assms e s False held_update [of p "ht_items t" "Some (new_hashtable_item k v)"]
      by (auto simp: hashtable_insert_def Let_def held_def new_hashtable_item_def)
  next
    case (Reuse p)
    then show ?thesis using assms e s False held_update [of p "ht_items t" "Some (new_hashtable_item k v)"]
      by (auto simp: hashtable_insert_def Let_def held_def new_hashtable_item_def delete_hashtable_item_def)
  next
    case (Replace p)
    then obtain it where it: "ht_items t ! p = Some it" using s by auto
    then show ?thesis using Replace assms e s False held_update [of p "ht_items t" "Some (it\<lparr>item_value := v\<rparr>)"]
      by (auto simp: hashtable_insert_def Let_def held_def split: if_splits)
  next
    case Cycled
    then show ?thesis using assms e False by (auto simp: hashtable_insert_def Let_def)
  qed
qed

lemma ht_call_held:
  assumes "ht_call c t = Some (t', taken, freed)"
  shows "held t' + mset freed = held t + mset taken \<and> length (ht_items t') = length (ht_items t) \<and> ht_cap t' = ht_cap t"
proof (cases c)
  case (Put k v)
  then obtain r where r: "hashtable_insert t k v = Some (Inr (t', r, freed))" "taken = (if r = 0 then [v] else [])"
    using assms by (auto split: option.splits sum.splits)
  from insert_held [OF r(1)] show ?thesis by (simp add: r(2))
next
  case (Del k)
  then obtain r where "hashtable_remove t k = Some (Inr (t', r))" "taken = []" "freed = []"
    using assms by (auto split: option.splits sum.splits)
  with remove_held show ?thesis by fastforce
qed

lemma ht_calls_held:
  "ht_calls cs t = Some (t', taken, freed) \<Longrightarrow>
     held t' + mset freed = held t + mset taken \<and> length (ht_items t') = length (ht_items t) \<and> ht_cap t' = ht_cap t"
proof (induction cs arbitrary: t t' taken freed)
  case (Cons c cs)
  then obtain u a b a' b' where u: "ht_call c t = Some (u, a, b)" "ht_calls cs u = Some (t', a', b')"
    "taken = a @ a'" "freed = b @ b'" by (auto split: option.splits)
  show ?case using ht_call_held [OF u(1)] Cons.IH [OF u(2)] u(3,4)
    by (simp add: ac_simps) (metis (no_types, lifting) add.assoc add.commute)
qed simp

lemma delete_table_held:
  "length (ht_items t) = ht_cap t \<Longrightarrow> mset (fst (hashtable_delete_table t)) = held t"
proof -
  assume l: "length (ht_items t) = ht_cap t"
  have "map (\<lambda>i. slot_values (ht_items t ! i)) [0..<ht_cap t] = map slot_values (ht_items t)"
    unfolding l [symmetric] by (rule nth_equalityI) auto
  then show ?thesis by (simp add: hashtable_delete_table_def held_def slot_values_def)
qed

text \<open>
  C36: no value is leaked and none is released twice.  Whatever insertions and removals are made on
  a new table, the values that went to the destructor during the calls together with those that
  \<open>hashtable_delete_table\<close> hands over at the end are, with their multiplicities, exactly the
  values whose insertion returned 0.
\<close>

theorem ht_values_released_once:
  assumes "ht_calls cs (hashtable_new_table hint destr) = Some (t, taken, freed)"
  shows "mset (freed @ fst (hashtable_delete_table t)) = mset taken"
proof -
  let ?new = "hashtable_new_table hint destr :: 'a hashtable_table"
  have new: "held ?new = {#}" "length (ht_items ?new) = ht_cap ?new"
    by (simp_all add: held_def hashtable_new_table_def Let_def)
  from ht_calls_held [OF assms] new have "held t + mset freed = mset taken" "length (ht_items t) = ht_cap t" by simp_all
  then show ?thesis by (simp add: delete_table_held add.commute)
qed

text \<open>The single slot of the smallest table, filled, refused, emptied and filled again.\<close>

theorem ht_values_released_once_witness:
  "\<exists>t freed. ht_calls [Put ''a'' (1 :: nat), Put ''b'' 2, Del ''a'', Put ''b'' 3] (hashtable_new_table 0 True) =
       Some (t, [1, 3], freed) \<and> mset (freed @ fst (hashtable_delete_table t)) = {#1, 3#}"
proof -
  have n: "next_prime 0 = 1" by (simp add: next_prime.simps is_prime_def)
  have "\<exists>t freed. ht_calls [Put ''a'' (1 :: nat), Put ''b'' 2, Del ''a'', Put ''b'' 3] (hashtable_new_table 0 True) =
       Some (t, [1, 3], freed)"
    by (simp add: n hashtable_new_table_def Let_def hashtable_insert_def first_loc_def hashtable_remove_def
        remove_probe.simps insert_probe.simps new_hashtable_item_def delete_hashtable_item_def)
  then obtain t freed where c: "ht_calls [Put ''a'' (1 :: nat), Put ''b'' 2, Del ''a'', Put ''b'' 3]
      (hashtable_new_table 0 True) = Some (t, [1, 3], freed)" by blast
  from ht_values_released_once [OF c] c show ?thesis by auto
qed

end
