(* ===== verification/Vector.thy ===== *)
theory Vector
  imports Prelude
begin

text \<open>
  \<open>src/vector.c\<close>: a growing array of pointers with a stack interface.

  A pointer stored in the vector is \<open>Some x\<close> or \<open>None\<close> for null.  \<open>vec_bytes\<close> is the size in bytes of
  the block \<open>items\<close> points to (0 for the null pointer), \<open>vec_slots\<close> the pointers written to it so far,
  \<open>vec_sp\<close> the distance of \<open>sp\<close> from \<open>items\<close> in pointers.  A \<open>size_t\<close> is a natural number below
  \<open>2 ^ 64\<close>.  \<open>vector_get_index\<close> and \<open>vector_remove_index\<close> have empty bodies in the source.
\<close>

abbreviation (input) sizeof_ptr :: nat where "sizeof_ptr \<equiv> 8"

record 'a vector_s =
  vec_size :: nat
  vec_cap :: nat
  vec_bytes :: nat
  vec_slots :: "nat \<Rightarrow> 'a option option"
  vec_sp :: nat

definition calloc_slots :: "nat \<Rightarrow> nat \<Rightarrow> 'a option option" where
  "calloc_slots n i = (if i < n then Some None else None)"

definition vector_new :: "nat \<Rightarrow> 'a vector_s" where
  "vector_new cap =
     \<lparr>vec_size = 0, vec_cap = cap, vec_bytes = cap * sizeof_ptr, vec_slots = calloc_slots cap, vec_sp = 0\<rparr>"

text \<open>\<open>*sp++ = data\<close> and \<open>*sp\<close>\<close>

definition put_sp :: "'a option \<Rightarrow> 'a vector_s \<Rightarrow> 'a vector_s run" where
  "put_sp data v =
     (if (vec_sp v + 1) * sizeof_ptr \<le> vec_bytes v
      then Inr (v\<lparr>vec_slots := (vec_slots v)(vec_sp v \<mapsto> data), vec_sp := vec_sp v + 1\<rparr>)
      else Inl BufferOverflow)"

definition get_sp :: "'a vector_s \<Rightarrow> 'a option run" where
  "get_sp v =
     (if (vec_sp v + 1) * sizeof_ptr \<le> vec_bytes v
      then (case vec_slots v (vec_sp v) of None \<Rightarrow> Inl UninitPointer | Some x \<Rightarrow> Inr x)
      else Inl OutOfBounds)"

text \<open>
  \<open>realloc(items, cap)\<close>: the size is in bytes, and the code passes the number of pointers.  What the
  new block holds is what fits of the old one.  \<open>items + size * sizeof(void *)\<close> is arithmetic on
  \<open>void **\<close>, so the offset is a number of pointers.
\<close>

definition realloc_items :: "nat \<Rightarrow> 'a vector_s \<Rightarrow> 'a vector_s" where
  "realloc_items bytes v =
     v\<lparr>vec_bytes := bytes,
       vec_slots := (\<lambda>i. if (i + 1) * sizeof_ptr \<le> bytes then vec_slots v i else None)\<rparr>"

definition vector_push_back :: "'a option \<Rightarrow> 'a vector_s \<Rightarrow> 'a vector_s run" where
  "vector_push_back data v =
     (let v = (if vec_size v = vec_cap v then
                 let v = v\<lparr>vec_cap := (if vec_cap v = 0 then 1 else vec_cap v * 2 mod 2 ^ 64)\<rparr>;
                     v = realloc_items (vec_cap v) v
                 in v\<lparr>vec_sp := vec_size v * sizeof_ptr\<rparr>
               else v)
      in put_sp data v)"

definition vector_peek_back :: "'a vector_s \<Rightarrow> 'a option run" where
  "vector_peek_back v = (if vec_size v \<noteq> 0 then get_sp v else Inr None)"

definition vector_pop_back :: "'a vector_s \<Rightarrow> ('a vector_s \<times> 'a option) run" where
  "vector_pop_back v =
     (let v = (if vec_size v \<noteq> 0 then v\<lparr>vec_size := vec_size v - 1\<rparr> else v)
      in rbind (get_sp v) (\<lambda>x. Inr (v, x)))"

text \<open>\<open>vector_free\<close> frees the struct only; the result is the number of bytes nothing refers to any more.\<close>

definition vector_free :: "'a vector_s \<Rightarrow> nat" where
  "vector_free v = vec_bytes v"

subsection \<open>What a vector can be used for\<close>

text \<open>After pushing \<open>n\<close> pointers onto a vector with room for \<open>cap\<close>.\<close>

definition pushed_vector :: "nat \<Rightarrow> nat \<Rightarrow> 'a vector_s \<Rightarrow> bool" where
  "pushed_vector cap n v \<longleftrightarrow> vec_size v = 0 \<and> vec_cap v = cap \<and> vec_bytes v = cap * sizeof_ptr \<and> vec_sp v = n \<and>
     (\<forall>i. n \<le> i \<and> i < cap \<longrightarrow> vec_slots v i = Some None)"

lemma pushed_new: "pushed_vector cap 0 (vector_new cap)"
  by (simp add: pushed_vector_def vector_new_def calloc_slots_def)

lemma push_step:
  assumes "pushed_vector cap n v"
  shows "if n < cap then \<exists>v'. vector_push_back x v = Inr v' \<and> pushed_vector cap (n + 1) v'
    else vector_push_back x v = Inl BufferOverflow"
  using assms
  by (cases "cap = 0") (auto simp: pushed_vector_def vector_push_back_def put_sp_def realloc_items_def Let_def)

lemma push_all:
  assumes "pushed_vector cap n v" and "n \<le> cap"
  shows "if n + length xs \<le> cap then \<exists>v'. rfold vector_push_back xs v = Inr v' \<and> pushed_vector cap (n + length xs) v'
    else rfold vector_push_back xs v = Inl BufferOverflow"
  using assms
proof (induction xs arbitrary: n v)
  case (Cons x xs)
  show ?case
  proof (cases "n < cap")
    case True
    then obtain v' where v': "vector_push_back x v = Inr v'" "pushed_vector cap (n + 1) v'"
      using push_step [OF Cons.prems(1), of x] by auto
    from Cons.IH [OF v'(2)] True v'(1) show ?thesis by (cases "Suc (n + length xs) \<le> cap") auto
  next
    case False
    then show ?thesis using push_step [OF Cons.prems(1), of x] Cons.prems(2) by simp
  qed
qed auto

text \<open>
  A vector never grows and never gives back what was pushed.  Pushing works for the first \<open>cap\<close>
  pointers and then writes past the block, for a vector without initial capacity at the very
  first push.  The size stays 0: \<open>vector_peek_back\<close> returns null, and \<open>vector_pop_back\<close> the null
  pointer of the next unused slot, or reads past the block when none is left.
\<close>

theorem vector_never_yields:
  fixes xs :: "'a option list"
  shows "if length xs \<le> cap then
     \<exists>v. rfold vector_push_back xs (vector_new cap) = Inr v \<and> vec_size v = 0 \<and> vector_peek_back v = Inr None \<and>
       vector_pop_back v = (if length xs < cap then Inr (v, None) else Inl OutOfBounds)
   else rfold vector_push_back xs (vector_new cap) = Inl BufferOverflow"
proof (cases "length xs \<le> cap")
  case True
  then obtain v :: "'a vector_s" where v: "rfold vector_push_back xs (vector_new cap) = Inr v"
    "pushed_vector cap (length xs) v"
    using push_all [OF pushed_new, of cap xs] by auto
  then show ?thesis using True
    by (auto simp: pushed_vector_def vector_peek_back_def vector_pop_back_def get_sp_def)
next
  case False
  then show ?thesis using push_all [OF pushed_new, of cap xs] by simp
qed

end
