(* ===== verification/Config.thy ===== *)
theory Config
  imports Printf
begin

text \<open>
  \<open>src/config.c\<close>: the default configuration and the command-line options.

  \<open>getopt\<close> belongs to the C library: \<open>parse_configuration\<close> gets the sequence of its results as an
  argument, the option with its argument, a missing argument or an unrecognised option (with
  \<open>optopt\<close>); the end of the sequence is the result -1.  \<open>optarg\<close> is a string.
\<close>

subsection \<open>\<open>strtol\<close> and \<open>snprintf\<close>\<close>

definition isspace :: "char \<Rightarrow> bool" where
  "isspace c = (c = SP \<or> (9 \<le> (of_char c :: nat) \<and> (of_char c :: nat) \<le> 13))"

definition isdigit :: "char \<Rightarrow> bool" where
  "isdigit c = (48 \<le> (of_char c :: nat) \<and> (of_char c :: nat) \<le> 57)"

definition digits_value :: "string \<Rightarrow> int" where
  "digits_value ds = foldl (\<lambda>n c. n * 10 + (int (of_char c) - 48)) 0 ds"

text \<open>\<open>strtol(s, &rest, 10)\<close>: the value, cut to the range of \<open>long\<close>, and the rest of the string.\<close>

definition strtol :: "string \<Rightarrow> int \<times> string" where
  "strtol s =
     (let t = dropWhile isspace s;
          u = (if take 1 t = ''-'' \<or> take 1 t = ''+'' then drop 1 t else t);
          ds = takeWhile isdigit u;
          v = (if take 1 t = ''-'' then - digits_value ds else digits_value ds)
      in if ds = [] then (0, s) else (max (- (2 ^ 63)) (min (2 ^ 63 - 1) v), dropWhile isdigit u))"

text \<open>\<open>snprintf(msg, n, fmt, ...)\<close> into an array.\<close>

definition snprintf_array :: "char list \<Rightarrow> nat \<Rightarrow> string \<Rightarrow> farg list \<Rightarrow> char list run" where
  "snprintf_array msg n fmt args =
     rbind (vformat fmt args) (\<lambda>s.
       if n = 0 then Inr msg
       else
         let t = take (n - 1) s @ [NUL] in
         if length t \<le> length msg then Inr (t @ drop (length t) msg) else Inl BufferOverflow)"

subsection \<open>Configuration\<close>

definition HOSTNAME_LEN :: nat where "HOSTNAME_LEN = HOSTNAME_MAX"
definition CIRC_HOSTNAME_DEFAULT :: string where "CIRC_HOSTNAME_DEFAULT = ''localhost''"
definition CIRC_PORT_NUM_DEFAULT :: "16 word" where "CIRC_PORT_NUM_DEFAULT = 50002"

definition MESSAGE_FMT_INVALID_PORT :: string where
  "MESSAGE_FMT_INVALID_PORT = ''error: Argument %s for option -%c is not a valid port number.''"
definition MESSAGE_FMT_NAN :: string where
  "MESSAGE_FMT_NAN = ''error: Argument %s for option -%c is not a number.''"
definition MESSAGE_FMT_MISSING_ARG :: string where
  "MESSAGE_FMT_MISSING_ARG = ''error: Missing argument for option -%c.''"
definition MESSAGE_FMT_UNEXPECTED_CASE :: string where
  "MESSAGE_FMT_UNEXPECTED_CASE = ''error: Unexpected case in switch.''"
definition MESSAGE_FMT_UNRECOGNIZED_OPT :: string where
  "MESSAGE_FMT_UNRECOGNIZED_OPT = ''error: Unrecognized option -%c.''"

record config_s =
  port :: "16 word"
  host :: "char list"

definition set_default_configuration :: "config_s \<Rightarrow> config_s run" where
  "set_default_configuration conf =
     rbind (strncpy (host conf) CIRC_HOSTNAME_DEFAULT HOSTNAME_LEN) (\<lambda>h.
       if HOSTNAME_LEN < length h
       then Inr (conf\<lparr>port := CIRC_PORT_NUM_DEFAULT, host := h[HOSTNAME_LEN := NUL]\<rparr>)
       else Inl BufferOverflow)"

datatype getopt_result = Opt char string | Missing_argument char | Unrecognized_option char

text \<open>\<open>if (msg) snprintf(msg, msg_len, ...)\<close>\<close>

definition put_msg :: "char list option \<Rightarrow> nat \<Rightarrow> string \<Rightarrow> farg list \<Rightarrow> char list option run" where
  "put_msg msg n fmt args =
     (case msg of None \<Rightarrow> Inr None | Some b \<Rightarrow> rbind (snprintf_array b n fmt args) (\<lambda>b. Inr (Some b)))"

fun parse_configuration ::
    "getopt_result list \<Rightarrow> config_s \<Rightarrow> nat \<Rightarrow> char list option \<Rightarrow> (config_s \<times> char list option \<times> int) run" where
  "parse_configuration [] conf n msg = Inr (conf, msg, 0)"
| "parse_configuration (Missing_argument optopt # os) conf n msg =
     rbind (put_msg msg n MESSAGE_FMT_MISSING_ARG [Ch optopt]) (\<lambda>msg. Inr (conf, msg, -1))"
| "parse_configuration (Unrecognized_option optopt # os) conf n msg =
     rbind (put_msg msg n MESSAGE_FMT_UNRECOGNIZED_OPT [Ch optopt]) (\<lambda>msg. Inr (conf, msg, -1))"
| "parse_configuration (Opt opt optarg # os) conf n msg =
     (if opt = CHR ''h'' then
        rbind (strncpy (host conf) optarg HOSTNAME_LEN) (\<lambda>h.
          parse_configuration os (conf\<lparr>host := h\<rparr>) n msg)
      else if opt = CHR ''p'' then
        (let (l, s) = strtol optarg in
         if s = optarg then
           rbind (put_msg msg n MESSAGE_FMT_NAN [S (optarg @ [NUL]), Ch opt]) (\<lambda>msg. Inr (conf, msg, -1))
         else
           rbind (if l > 65535 then put_msg msg n MESSAGE_FMT_INVALID_PORT [S (optarg @ [NUL]), Ch opt]
                  else Inr msg) (\<lambda>msg.
             parse_configuration os conf n msg))
      else rbind (put_msg msg n MESSAGE_FMT_UNEXPECTED_CASE []) (\<lambda>msg. Inr (conf, msg, 1)))"

subsection \<open>What the options do\<close>

definition conf_ok :: "config_s \<Rightarrow> bool" where
  "conf_ok conf \<longleftrightarrow> length (host conf) = HOSTNAME_LEN + 1 \<and> host conf ! HOSTNAME_LEN = NUL"

text \<open>Results of \<open>getopt\<close> for the option string \<open>":h:p:"\<close>.\<close>

definition opt_ok :: "getopt_result \<Rightarrow> bool" where
  "opt_ok r = (case r of Opt c s \<Rightarrow> (c = CHR ''h'' \<or> c = CHR ''p'') \<and> NUL \<notin> set s | _ \<Rightarrow> True)"

definition option_error :: "getopt_result \<Rightarrow> string option" where
  "option_error r =
     (case r of
        Opt c s \<Rightarrow>
          if c = CHR ''p'' \<and> snd (strtol s) = s then Some (''error: Argument '' @ s @ '' for option -p is not a number.'')
          else None
      | Missing_argument c \<Rightarrow> Some (''error: Missing argument for option -'' @ [c] @ ''.'')
      | Unrecognized_option c \<Rightarrow> Some (''error: Unrecognized option -'' @ [c] @ ''.''))"

fun first_error :: "getopt_result list \<Rightarrow> string option" where
  "first_error [] = None"
| "first_error (r # rs) = (case option_error r of None \<Rightarrow> first_error rs | Some t \<Rightarrow> Some t)"

fun last_host :: "getopt_result list \<Rightarrow> string \<Rightarrow> string" where
  "last_host [] h = h"
| "last_host (Opt c s # rs) h = last_host rs (if c = CHR ''h'' then take HOSTNAME_LEN s else h)"
| "last_host (_ # rs) h = last_host rs h"

lemma cstr_zeros: "NUL \<notin> set s \<Longrightarrow> cstr (s @ replicate k NUL @ [NUL]) = Inr s"
  by (cases k) auto

lemma conf_ok_cstr:
  assumes "conf_ok conf" and "strncpy (host conf) s HOSTNAME_LEN = Inr h" and "NUL \<notin> set s"
  shows "conf_ok (conf\<lparr>host := h\<rparr>)" and "cstr h = Inr (take HOSTNAME_LEN s)"
proof -
  have h: "h = pad HOSTNAME_LEN (take HOSTNAME_LEN s) @ drop HOSTNAME_LEN (host conf)"
    using assms(2) by (auto simp: strncpy_def split: if_splits)
  have "length (drop HOSTNAME_LEN (host conf)) = 1" using assms(1) by (simp add: conf_ok_def)
  moreover have "drop HOSTNAME_LEN (host conf) ! 0 = NUL" using assms(1) by (simp add: conf_ok_def)
  ultimately have d: "drop HOSTNAME_LEN (host conf) = [NUL]"
    by (cases "drop HOSTNAME_LEN (host conf)") auto
  show "conf_ok (conf\<lparr>host := h\<rparr>)"
    by (simp add: conf_ok_def h d length_pad nth_append)
  have "NUL \<notin> set (take HOSTNAME_LEN s)" using assms(3) by (auto dest: in_set_takeD)
  from cstr_zeros [OF this] show "cstr h = Inr (take HOSTNAME_LEN s)" unfolding h d pad_def append_assoc .
qed

lemma conf_ok_strncpy: "conf_ok conf \<Longrightarrow> \<exists>h. strncpy (host conf) s HOSTNAME_LEN = Inr h"
  by (simp add: conf_ok_def strncpy_def)

lemma snprintf_array_ok:
  assumes "vformat fmt args = Inr s" and "0 < n" and "n \<le> length msg"
  shows "\<exists>b. snprintf_array msg n fmt args = Inr b \<and> length b = length msg \<and>
    (NUL \<notin> set s \<longrightarrow> cstr b = Inr (take (n - 1) s))"
proof -
  let ?t = "take (n - 1) s"
  have "length (?t @ [NUL]) \<le> length msg" using assms(2,3) by simp
  then have b: "snprintf_array msg n fmt args = Inr (?t @ NUL # drop (length (?t @ [NUL])) msg)"
    using assms(1,2) by (simp add: snprintf_array_def Let_def)
  have "cstr (?t @ NUL # drop (length (?t @ [NUL])) msg) = Inr ?t" if "NUL \<notin> set s"
    by (rule cstr_terminated) (use that in \<open>auto dest: in_set_takeD\<close>)
  moreover have "length (?t @ NUL # drop (length (?t @ [NUL])) msg) = length msg"
    using assms(2,3) by auto
  ultimately show ?thesis using b by blast
qed

lemmas config_formats = MESSAGE_FMT_INVALID_PORT_def MESSAGE_FMT_NAN_def MESSAGE_FMT_MISSING_ARG_def
  MESSAGE_FMT_UNRECOGNIZED_OPT_def

lemma config_texts:
  "vformat MESSAGE_FMT_MISSING_ARG [Ch c] = Inr (''error: Missing argument for option -'' @ [c] @ ''.'')"
  "vformat MESSAGE_FMT_UNRECOGNIZED_OPT [Ch c] = Inr (''error: Unrecognized option -'' @ [c] @ ''.'')"
  "NUL \<notin> set s \<Longrightarrow> vformat MESSAGE_FMT_NAN [S (s @ [NUL]), Ch c] =
     Inr (''error: Argument '' @ s @ '' for option -'' @ [c] @ '' is not a number.'')"
  "NUL \<notin> set s \<Longrightarrow> vformat MESSAGE_FMT_INVALID_PORT [S (s @ [NUL]), Ch c] =
     Inr (''error: Argument '' @ s @ '' for option -'' @ [c] @ '' is not a valid port number.'')"
  by (simp_all add: config_formats)

lemma parse_configuration_ok:
  assumes "conf_ok conf" and "0 < n" and "n \<le> length msg" and "\<forall>r\<in>set opts. opt_ok r"
    and "cstr (host conf) = Inr h"
  shows "\<exists>conf' msg'. parse_configuration opts conf n (Some msg) =
       Inr (conf', Some msg', if first_error opts = None then 0 else -1) \<and>
     length msg' = length msg \<and> port conf' = port conf \<and> conf_ok conf' \<and>
     (first_error opts = None \<longrightarrow> cstr (host conf') = Inr (last_host opts h)) \<and>
     (\<forall>t. first_error opts = Some t \<longrightarrow> NUL \<notin> set t \<longrightarrow> cstr msg' = Inr (take (n - 1) t))"
  using assms
proof (induction opts arbitrary: conf msg h)
  case Nil
  then show ?case by simp
next
  case (Cons r opts)
  have ok: "\<forall>r\<in>set opts. opt_ok r" using Cons.prems(4) by simp
  show ?case
  proof (cases r)
    case (Missing_argument c)
    from snprintf_array_ok [OF config_texts(1) Cons.prems(2,3), of c] Cons.prems(1) show ?thesis
      by (auto simp: Missing_argument put_msg_def option_error_def)
  next
    case (Unrecognized_option c)
    from snprintf_array_ok [OF config_texts(2) Cons.prems(2,3), of c] Cons.prems(1) show ?thesis
      by (auto simp: Unrecognized_option put_msg_def option_error_def)
  next
    case (Opt c s)
    then have s: "NUL \<notin> set s" "c = CHR ''h'' \<or> c = CHR ''p''" using Cons.prems(4) by (simp_all add: opt_ok_def)
    show ?thesis
    proof (cases "c = CHR ''h''")
      case True
      obtain g where g: "strncpy (host conf) s HOSTNAME_LEN = Inr g" using conf_ok_strncpy [OF Cons.prems(1)] by blast
      note c' = conf_ok_cstr [OF Cons.prems(1) g s(1)]
      have "cstr (host (conf\<lparr>host := g\<rparr>)) = Inr (take HOSTNAME_LEN s)" using c'(2) by simp
      from Cons.IH [OF c'(1) Cons.prems(2,3) ok this] show ?thesis
        using Opt True g by (simp add: option_error_def)
    next
      case False
      then have p: "c = CHR ''p''" using s(2) by simp
      show ?thesis
      proof (cases "snd (strtol s) = s")
        case True
        from snprintf_array_ok [OF config_texts(3) [OF s(1)] Cons.prems(2,3), of c] True Cons.prems(1) show ?thesis
          by (auto simp: Opt p put_msg_def option_error_def split: prod.split)
      next
        case nan: False
        then have e: "first_error (r # opts) = first_error opts" "last_host (r # opts) h = last_host opts h"
          by (simp_all add: Opt p option_error_def)
        obtain b where b: "(if fst (strtol s) > 65535 then put_msg (Some msg) n MESSAGE_FMT_INVALID_PORT [S (s @ [NUL]), Ch c]
             else Inr (Some msg)) = Inr (Some b)" "length b = length msg"
        proof (cases "fst (strtol s) > 65535")
          case True
          obtain b where "snprintf_array msg n MESSAGE_FMT_INVALID_PORT [S (s @ [NUL]), Ch c] = Inr b" "length b = length msg"
            using snprintf_array_ok [OF config_texts(4) [OF s(1)] Cons.prems(2,3), of c] by blast
          with that True show thesis by (simp add: put_msg_def)
        qed (use that in simp)
        have "parse_configuration (r # opts) conf n (Some msg) = parse_configuration opts conf n (Some b)"
          using b(1) nan by (auto simp: Opt p split: prod.split)
        moreover have "n \<le> length b" using b(2) Cons.prems(3) by simp
        ultimately show ?thesis using Cons.IH [OF Cons.prems(1,2) _ ok Cons.prems(5), of b] b(2)
          unfolding e by simp
      qed
    qed
  qed
qed

lemma set_default_ok:
  assumes "length (host raw) = HOSTNAME_LEN + 1"
  shows "\<exists>conf. set_default_configuration raw = Inr conf \<and> conf_ok conf \<and> port conf = 50002 \<and>
    cstr (host conf) = Inr ''localhost''"
proof -
  let ?h = "pad HOSTNAME_LEN ''localhost'' @ drop HOSTNAME_LEN (host raw)"
  have t: "take HOSTNAME_LEN ''localhost'' = ''localhost''" by (simp add: HOSTNAME_LEN_def)
  have l: "length (pad HOSTNAME_LEN ''localhost'') = HOSTNAME_LEN" by (simp add: length_pad HOSTNAME_LEN_def)
  have "set_default_configuration raw = Inr (raw\<lparr>port := 50002, host := ?h[HOSTNAME_LEN := NUL]\<rparr>)"
    using assms l by (simp add: set_default_configuration_def strncpy_def CIRC_HOSTNAME_DEFAULT_def
        CIRC_PORT_NUM_DEFAULT_def t)
  moreover have "cstr (?h[HOSTNAME_LEN := NUL]) = Inr ''localhost''"
  proof -
    have "length (drop HOSTNAME_LEN (host raw)) = 1" using assms by simp
    then have "(drop HOSTNAME_LEN (host raw))[0 := NUL] = [NUL]" by (cases "drop HOSTNAME_LEN (host raw)") auto
    then have "?h[HOSTNAME_LEN := NUL] = pad HOSTNAME_LEN ''localhost'' @ [NUL]" using l by (simp add: list_update_append)
    then show ?thesis using cstr_zeros [of "''localhost''"] by (simp add: pad_def)
  qed
  moreover have "length (?h[HOSTNAME_LEN := NUL]) = HOSTNAME_LEN + 1" using assms l by simp
  moreover have "?h[HOSTNAME_LEN := NUL] ! HOSTNAME_LEN = NUL" using assms l by simp
  ultimately show ?thesis by (simp add: conf_ok_def)
qed

text \<open>
  C34: the command line.  From the default configuration, whatever \<open>getopt\<close> reports for the option
  string, \<open>parse_configuration\<close> ends normally.  The result is -1 exactly when some option has no
  argument, is unknown or is a \<open>-p\<close> without a number, and the message is then the text for the
  first of them, cut to the buffer.  Otherwise the host is the last one given, cut at 255
  characters, and always terminated.  The port stays 50002 in every case.
\<close>

theorem parse_configuration_spec:
  assumes "length (host raw) = HOSTNAME_LEN + 1" and "0 < n" and "n \<le> length msg" and "\<forall>r\<in>set opts. opt_ok r"
  shows "\<exists>conf conf' msg'. set_default_configuration raw = Inr conf \<and>
     parse_configuration opts conf n (Some msg) = Inr (conf', Some msg', if first_error opts = None then 0 else -1) \<and>
     port conf' = 50002 \<and> NUL \<in> set (host conf') \<and>
     (first_error opts = None \<longrightarrow> cstr (host conf') = Inr (last_host opts ''localhost'')) \<and>
     (\<forall>t. first_error opts = Some t \<longrightarrow> NUL \<notin> set t \<longrightarrow> cstr msg' = Inr (take (n - 1) t))"
proof -
  obtain conf where c: "set_default_configuration raw = Inr conf" "conf_ok conf" "port conf = 50002"
    "cstr (host conf) = Inr ''localhost''" using set_default_ok [OF assms(1)] by blast
  from parse_configuration_ok [OF c(2) assms(2-4) c(4)] obtain conf' msg' where
    p: "parse_configuration opts conf n (Some msg) = Inr (conf', Some msg', if first_error opts = None then 0 else -1)"
    "port conf' = port conf" "conf_ok conf'"
    "first_error opts = None \<longrightarrow> cstr (host conf') = Inr (last_host opts ''localhost'')"
    "\<forall>t. first_error opts = Some t \<longrightarrow> NUL \<notin> set t \<longrightarrow> cstr msg' = Inr (take (n - 1) t)"
    by (elim exE conjE) (rule that; assumption)
  have "NUL \<in> set (host conf')" using p(3) unfolding conf_ok_def
    by (metis in_set_conv_nth less_add_one)
  then show ?thesis using c(1,3) p by auto
qed

text \<open>A port that is not a number after a valid one; and a host and a port that are accepted.\<close>

theorem parse_configuration_spec_witness:
  "(let raw = \<lparr>port = 0, host = replicate 256 NUL\<rparr>; msg = replicate 255 NUL;
        bad = [Opt (CHR ''p'') ''6667'', Opt (CHR ''p'') ''irc'']; good = [Opt (CHR ''h'') ''::1'', Opt (CHR ''p'') ''6667''] in
    (\<exists>conf conf' msg'. set_default_configuration raw = Inr conf \<and>
       parse_configuration bad conf 255 (Some msg) = Inr (conf', Some msg', -1) \<and>
       cstr msg' = Inr ''error: Argument irc for option -p is not a number.'') \<and>
    (\<exists>conf conf' msg'. set_default_configuration raw = Inr conf \<and>
       parse_configuration good conf 255 (Some msg) = Inr (conf', Some msg', 0) \<and>
       cstr (host conf') = Inr ''::1'' \<and> port conf' = 50002))"
proof -
  let ?bad = "[Opt (CHR ''p'') ''6667'', Opt (CHR ''p'') ''irc'']"
  let ?good = "[Opt (CHR ''h'') ''::1'', Opt (CHR ''p'') ''6667'']"
  have b: "first_error ?bad = Some ''error: Argument irc for option -p is not a number.''" by code_simp
  have g: "first_error ?good = None" "last_host ?good ''localhost'' = ''::1''" by code_simp+
  have ok: "\<forall>r\<in>set ?bad. opt_ok r" "\<forall>r\<in>set ?good. opt_ok r" by (simp_all add: opt_ok_def)
  have l: "length (host \<lparr>port = 0, host = replicate 256 NUL\<rparr>) = HOSTNAME_LEN + 1" by (simp add: HOSTNAME_LEN_def)
  from parse_configuration_spec [OF l _ _ ok(1), of 255 "replicate 255 NUL"] b
    parse_configuration_spec [OF l _ _ ok(2), of 255 "replicate 255 NUL"] g
  show ?thesis by (simp add: Let_def) blast
qed

end
