(* ===== verification/Log.thy ===== *)
theory Log
  imports CStr "HOL-Library.Sublist"
begin

text \<open>
  \<open>src/log.c\<close>: level names and the line \<open>circlog\<close> prints.

  \<open>loglevel_t\<close> is \<open>int\<close>; the threshold, a static variable of the file, is passed and returned.  The
  time stamp that \<open>strftime\<close> writes and the text that \<open>vprintf\<close> makes of the format and its
  arguments are arguments.
\<close>

abbreviation (input) L_TRACE :: int where "L_TRACE \<equiv> 0"
abbreviation (input) L_DEBUG :: int where "L_DEBUG \<equiv> 1"
abbreviation (input) L_INFO :: int where "L_INFO \<equiv> 2"
abbreviation (input) L_WARNING :: int where "L_WARNING \<equiv> 3"
abbreviation (input) L_ERROR :: int where "L_ERROR \<equiv> 4"
abbreviation (input) L_CRITICAL :: int where "L_CRITICAL \<equiv> 5"

text \<open>
  \<open>strncasecmp(s, t, n)\<close> in the C locale, as the difference of the first characters that differ,
  lower case; a string ends with its NUL.
\<close>

fun strncasecmp :: "string \<Rightarrow> string \<Rightarrow> nat \<Rightarrow> int" where
  "strncasecmp s t 0 = 0"
| "strncasecmp [] [] (Suc n) = 0"
| "strncasecmp [] (d # t) (Suc n) = - int (of_char (tolower d))"
| "strncasecmp (c # s) [] (Suc n) = int (of_char (tolower c))"
| "strncasecmp (c # s) (d # t) (Suc n) =
     (if tolower c = tolower d then strncasecmp s t n
      else int (of_char (tolower c)) - int (of_char (tolower d)))"

definition parse_loglevel :: "string \<Rightarrow> int" where
  "parse_loglevel levelstr =
     (let levelstrlen = length levelstr in
      if strncasecmp ''TRACE'' levelstr levelstrlen = 0 then L_TRACE
      else if strncasecmp ''DEBUG'' levelstr levelstrlen = 0 then L_DEBUG
      else if strncasecmp ''INFO'' levelstr levelstrlen = 0 then L_INFO
      else if strncasecmp ''WARNING'' levelstr levelstrlen = 0 then L_WARNING
      else if strncasecmp ''ERROR'' levelstr levelstrlen = 0 then L_ERROR
      else if strncasecmp ''CRITICAL'' levelstr levelstrlen = 0 then L_CRITICAL
      else -1)"

definition threshold :: int where
  "threshold = L_DEBUG"

definition set_loglevel :: "int \<Rightarrow> int \<Rightarrow> int" where
  "set_loglevel level old = level"

definition level_name :: "int \<Rightarrow> string" where
  "level_name level =
     (if level = L_CRITICAL then ''FATAL''
      else if level = L_ERROR then ''ERROR''
      else if level = L_WARNING then ''WARN''
      else if level = L_INFO then ''INFO''
      else if level = L_DEBUG then ''DEBUG''
      else if level = L_TRACE then ''TRACE''
      else ''UNKNOWN'')"

text \<open>What goes to \<open>stdout\<close>; \<open>%.5s\<close> prints at most five characters.\<close>

definition circlog_internal :: "int \<Rightarrow> int \<Rightarrow> string \<Rightarrow> string \<Rightarrow> string" where
  "circlog_internal limit level buf body =
     (if level < limit then []
      else ''['' @ take 5 (level_name level) @ '']'' @ [CHR 0x09] @ '' '' @ buf @ '' - '' @ body @ [LF])"

definition circlog :: "int \<Rightarrow> int \<Rightarrow> string \<Rightarrow> string \<Rightarrow> string" where
  "circlog limit level buf body = circlog_internal limit level buf body"

subsection \<open>Level names\<close>

lemma strncasecmp_prefix:
  "NUL \<notin> set s \<Longrightarrow> NUL \<notin> set t \<Longrightarrow> strncasecmp s t (length t) = 0 \<longleftrightarrow> prefix (lowercase t) (lowercase s)"
proof (induction t arbitrary: s)
  case (Cons d t)
  show ?case
  proof (cases s)
    case Nil
    have "tolower d \<noteq> NUL" using Cons.prems(2) tolower_NUL_iff [of d] by auto
    then have "(of_char (tolower d) :: nat) \<noteq> 0" using of_char_eq_iff [of "tolower d" NUL, where 'a = nat] by simp
    then show ?thesis using Nil by (simp add: lowercase_def)
  next
    case (Cons c s')
    show ?thesis
    proof (cases "tolower c = tolower d")
      case True
      then show ?thesis using Cons.IH [of s'] Cons.prems \<open>s = c # s'\<close> by (simp add: lowercase_def)
    next
      case False
      then have "(of_char (tolower c) :: nat) \<noteq> of_char (tolower d)" by simp
      then show ?thesis using \<open>s = c # s'\<close> False by (auto simp: lowercase_def)
    qed
  qed
qed (simp add: lowercase_def)

text \<open>
  \<open>parse_loglevel\<close> accepts every prefix of a level name in any mixture of cases, the empty string
  included, which means \<open>L_TRACE\<close>; for anything else the result is \<open>-1\<close>.  The prefixes of
  different names differ, so the result is the level whose name begins with the argument.
\<close>

theorem parse_loglevel_spec:
  assumes "NUL \<notin> set s"
  shows "parse_loglevel s =
    (if s = [] then L_TRACE
     else if prefix (lowercase s) ''trace'' then L_TRACE
     else if prefix (lowercase s) ''debug'' then L_DEBUG
     else if prefix (lowercase s) ''info'' then L_INFO
     else if prefix (lowercase s) ''warning'' then L_WARNING
     else if prefix (lowercase s) ''error'' then L_ERROR
     else if prefix (lowercase s) ''critical'' then L_CRITICAL
     else -1)"
proof -
  have names: "lowercase ''TRACE'' = ''trace''" "lowercase ''DEBUG'' = ''debug''" "lowercase ''INFO'' = ''info''"
    "lowercase ''WARNING'' = ''warning''" "lowercase ''ERROR'' = ''error''" "lowercase ''CRITICAL'' = ''critical''"
    by code_simp+
  have p: "strncasecmp u s (length s) = 0 \<longleftrightarrow> prefix (lowercase s) (lowercase u)" if "NUL \<notin> set u" for u
    by (rule strncasecmp_prefix [OF that assms])
  show ?thesis unfolding parse_loglevel_def Let_def
    by (simp add: p names) (simp add: lowercase_def)
qed

theorem parse_loglevel_spec_witness: "parse_loglevel ''Warn'' = 3"
proof -
  have "lowercase ''Warn'' = ''warn''" by code_simp
  then show ?thesis using parse_loglevel_spec [of "''Warn''"] by simp
qed

text \<open>
  C0: the name \<open>circlog\<close> prints for a level is read back as that level, except for
  \<open>L_CRITICAL\<close>, which is printed as FATAL, a name \<open>parse_loglevel\<close> does not know.
\<close>

theorem loglevel_roundtrip:
  "map (\<lambda>l. parse_loglevel (level_name l)) [L_TRACE, L_DEBUG, L_INFO, L_WARNING, L_ERROR, L_CRITICAL] =
     [L_TRACE, L_DEBUG, L_INFO, L_WARNING, L_ERROR, -1]"
  by code_simp

end
