(* ===== verification/Startup.thy ===== *)
theory Startup
  imports Config Log EventLoop
begin

text \<open>
  The start of the process: \<open>src/motd.c\<close>, \<open>src/socket.c\<close>, \<open>main\<close> in \<open>src/circ.c\<close> and the way
  \<open>start_server\<close> uses them.

  The record \<open>system\<close> holds what the system calls and the C library's streams return to this
  process.  Memory allocation succeeds, as everywhere in the development.
\<close>

subsection \<open>The operating system\<close>

text \<open>A stream that \<open>fopen\<close> has opened: the bytes of the file, and whether each later call on it succeeds.\<close>

record stream =
  contents :: "char list"
  seek_end_ok :: bool
  tell_ok :: bool
  seek_set_ok :: bool
  read_ok :: bool

record sockaddr_in =
  sin_family :: int
  sin_port :: "16 word"
  sin_addr :: "32 word"

record system =
  fopen :: "string \<Rightarrow> stream option"
  sys_socket :: int
  setsockopt :: "int \<Rightarrow> int"
  inet_pton :: "string \<Rightarrow> int"
  bind_socket :: "int \<Rightarrow> sockaddr_in \<Rightarrow> int"
  listen_on :: "int \<Rightarrow> int \<Rightarrow> int"
  gethostname :: string
  epoll_create1 :: int
  epoll_add_ok :: bool

subsection \<open>\<open>Motd_Get\<close>\<close>

text \<open>\<open>fread(_, item, nmemb, f)\<close>: the number of whole items read, which is 0 for items of size 0.\<close>

definition fread_items :: "stream \<Rightarrow> nat \<Rightarrow> nat \<Rightarrow> nat" where
  "fread_items f item nmemb =
     (if item = 0 \<or> \<not> read_ok f then 0 else min nmemb (length (contents f) div item))"

text \<open>The string, its length (\<open>*len\<close>) and whether the stream has been closed.\<close>

definition Motd_Get :: "system \<Rightarrow> string \<Rightarrow> (cptr \<times> nat) option \<times> bool" where
  "Motd_Get sys path =
     (case fopen sys path of
        None \<Rightarrow> (None, True)
      | Some f \<Rightarrow>
          let offset = length (contents f) in
          if \<not> seek_end_ok f then (None, False)
          else if \<not> tell_ok f then (None, False)
          else if \<not> seek_set_ok f then (None, False)
          else if fread_items f offset 1 \<noteq> 1 then (None, False)
          else (Some (take offset (contents f) @ [NUL], offset), True))"

subsection \<open>\<open>Socket_Listen\<close>\<close>

unbundle bit_operations_syntax

text \<open>\<open>htons\<close> on a little-endian machine.\<close>

definition htons :: "16 word \<Rightarrow> 16 word" where
  "htons p = push_bit 8 p OR drop_bit 8 p"

abbreviation (input) AF_INET :: int where "AF_INET \<equiv> 2"
abbreviation (input) BACKLOG :: int where "BACKLOG \<equiv> 5"
definition WILDCARD_IP :: string where "WILDCARD_IP = ''0.0.0.0''"

text \<open>\<open>inet_pton\<close> stores the address 0.0.0.0, four zero bytes, over the zero bytes of \<open>memset\<close>.\<close>

definition listen_addr :: "16 word \<Rightarrow> sockaddr_in" where
  "listen_addr p = \<lparr>sin_family = AF_INET, sin_port = htons p, sin_addr = 0\<rparr>"

definition Socket_Listen :: "system \<Rightarrow> 16 word \<Rightarrow> int" where
  "Socket_Listen sys p =
     (let fd = sys_socket sys in
      if fd = -1 then -1
      else if setsockopt sys fd = -1 then -1
      else if inet_pton sys WILDCARD_IP = -1 then -1
      else if bind_socket sys fd (listen_addr p) = -1 then -1
      else if listen_on sys fd BACKLOG = -1 then -1
      else fd)"

subsection \<open>\<open>main\<close>\<close>

definition start_server_conf :: "system \<Rightarrow> config_s \<Rightarrow> world option" where
  "start_server_conf sys conf =
     (let mt = map_option fst (fst (Motd_Get sys ''motd.txt'')) in
      start_server (gethostname sys) mt (Socket_Listen sys (port conf)) (epoll_create1 sys) (epoll_add_ok sys))"

definition USAGE_STRING :: string where "USAGE_STRING = ''circ [-h hostname] [-p port]''"

text \<open>What \<open>usageErr\<close> prints.\<close>

definition usageErr :: string where
  "usageErr = ''usage: '' @ USAGE_STRING @ [LF]"

abbreviation (input) ERR_MESSAGE_SIZE :: nat where "ERR_MESSAGE_SIZE \<equiv> 255"

text \<open>The exits with their output on \<open>stderr\<close>, or the server at the head of its loop with its log level.\<close>

datatype main_result = Usage_exit string | Fatal_exit | Serving world int

text \<open>\<open>raw\<close> and \<open>raw_msg\<close> are what the uninitialised locals \<open>conf\<close> and \<open>msg\<close> hold.\<close>

definition main :: "system \<Rightarrow> config_s \<Rightarrow> char list \<Rightarrow> getopt_result list \<Rightarrow> main_result run" where
  "main sys raw raw_msg opts =
     rbind (set_default_configuration raw) (\<lambda>conf.
     rbind (parse_configuration opts conf ERR_MESSAGE_SIZE (Some raw_msg)) (\<lambda>(conf, msg, result).
       if result = -1 then
         rbind (deref NullDeref msg) (\<lambda>m.
         rbind (cstr m) (\<lambda>s. Inr (Usage_exit (s @ [LF] @ usageErr))))
       else
         let level = set_loglevel L_TRACE threshold in
         Inr (case start_server_conf sys conf of None \<Rightarrow> Fatal_exit | Some w \<Rightarrow> Serving w level)))"

subsection \<open>What starting up guarantees\<close>

lemma Motd_Get_eq:
  "fst (Motd_Get sys path) =
     (case fopen sys path of
        None \<Rightarrow> None
      | Some f \<Rightarrow>
          if contents f \<noteq> [] \<and> seek_end_ok f \<and> tell_ok f \<and> seek_set_ok f \<and> read_ok f
          then Some (contents f @ [NUL], length (contents f)) else None)"
  by (auto simp: Motd_Get_def fread_items_def Let_def split: option.split)

text \<open>
  \<open>Motd_Get\<close> returns the whole file, terminated, with its length, when the file can be opened,
  sought and read and is not empty.  An empty file is reported as an error; and whenever it fails
  after the file has been opened, the stream stays open.
\<close>

lemma Motd_Get_spec:
  "Motd_Get sys path =
     (case fopen sys path of
        None \<Rightarrow> (None, True)
      | Some f \<Rightarrow>
          if contents f = [] then (None, False)
          else if seek_end_ok f \<and> tell_ok f \<and> seek_set_ok f \<and> read_ok f
          then (Some (contents f @ [NUL], length (contents f)), True) else (None, False))"
  by (auto simp: Motd_Get_def fread_items_def Let_def split: option.split)

lemma main_serving:
  assumes "length (host raw) = HOSTNAME_LEN + 1" and "ERR_MESSAGE_SIZE \<le> length raw_msg" and "\<forall>r\<in>set opts. opt_ok r"
  shows "\<exists>conf. port conf = 50002 \<and>
    (first_error opts = None \<longrightarrow>
       main sys raw raw_msg opts =
         Inr (case start_server_conf sys conf of None \<Rightarrow> Fatal_exit | Some w \<Rightarrow> Serving w L_TRACE)) \<and>
    (\<forall>t. first_error opts = Some t \<longrightarrow> NUL \<notin> set t \<longrightarrow>
       main sys raw raw_msg opts = Inr (Usage_exit (take 254 t @ [LF] @ usageErr)))"
proof -
  obtain conf where c: "set_default_configuration raw = Inr conf" "conf_ok conf" "port conf = 50002"
    "cstr (host conf) = Inr ''localhost''" using set_default_ok [OF assms(1)] by blast
  have "0 < (255 :: nat)" by simp
  from parse_configuration_ok [OF c(2) this assms(2,3) c(4)] obtain conf' msg' where
    p: "parse_configuration opts conf 255 (Some raw_msg) = Inr (conf', Some msg', if first_error opts = None then 0 else -1)"
    "port conf' = port conf"
    "\<forall>t. first_error opts = Some t \<longrightarrow> NUL \<notin> set t \<longrightarrow> cstr msg' = Inr (take (255 - 1) t)"
    by (elim exE conjE) (rule that; assumption)
  show ?thesis
    by (rule exI [of _ conf']) (use c(1,3) p in \<open>auto simp: main_def set_loglevel_def Let_def\<close>)
qed

text \<open>The socket comes up exactly when each call on the way succeeds.\<close>

lemma Socket_Listen_fails:
  "Socket_Listen sys p = -1 \<longleftrightarrow>
     sys_socket sys = -1 \<or> setsockopt sys (sys_socket sys) = -1 \<or> inet_pton sys WILDCARD_IP = -1 \<or>
     bind_socket sys (sys_socket sys) (listen_addr p) = -1 \<or> listen_on sys (sys_socket sys) BACKLOG = -1"
  by (simp add: Socket_Listen_def Let_def)

lemma Socket_Listen_ok: "Socket_Listen sys p \<noteq> -1 \<Longrightarrow> Socket_Listen sys p = sys_socket sys"
  by (auto simp: Socket_Listen_def Let_def split: if_splits)

lemma start_server_starts:
  assumes "start_server hn mt lfd efd reg = Some w"
  shows "server w = start_server_state hn mt lfd \<and> interest w = (if reg then [(lfd, server_handler lfd)] else [])"
  using assms by (auto simp: start_server_def reactor_register_handler_def server_handler_def split: if_splits)

lemma start_server_fails: "start_server hn mt lfd efd reg = None \<longleftrightarrow> lfd = -1 \<or> efd = -1"
  by (simp add: start_server_def)

text \<open>
  C32: the whole start.  If the options are in order, the process ends with a fatal error exactly when
  one of the system calls of \<open>Socket_Listen\<close> for port 50002 (whatever \<open>-p\<close> said) or \<open>epoll_create1\<close>
  fails.  Otherwise it reaches the event loop in a reachable state, on the socket it has bound and
  listens on, with the file \<open>motd.txt\<close> as its message of the day, and, if epoll has accepted it, with this
  socket as the only one that is watched.  If an option is in error, the process prints the message for
  the first one and its usage, and never listens.
\<close>

theorem main_starts_server:
  assumes "length (host raw) = HOSTNAME_LEN + 1" and "ERR_MESSAGE_SIZE \<le> length raw_msg" and "\<forall>r\<in>set opts. opt_ok r"
    and fd: "fd = sys_socket sys"
  shows "(first_error opts = None \<longrightarrow>
      (if fd = -1 \<or> setsockopt sys fd = -1 \<or> inet_pton sys ''0.0.0.0'' = -1 \<or>
          bind_socket sys fd \<lparr>sin_family = AF_INET, sin_port = htons 50002, sin_addr = 0\<rparr> = -1 \<or>
          listen_on sys fd 5 = -1 \<or> epoll_create1 sys = -1
       then main sys raw raw_msg opts = Inr Fatal_exit
       else \<exists>w. main sys raw raw_msg opts = Inr (Serving w L_TRACE) \<and> reachable e w \<and> server_fd (server w) = fd \<and>
         motd (server w) = map_option fst (fst (Motd_Get sys ''motd.txt'')) \<and>
         interest w = (if epoll_add_ok sys then [(fd, server_handler fd)] else []))) \<and>
    (\<forall>t. first_error opts = Some t \<longrightarrow> NUL \<notin> set t \<longrightarrow>
      main sys raw raw_msg opts =
        Inr (Usage_exit (take 254 t @ [LF] @ ''usage: circ [-h hostname] [-p port]'' @ [LF])))"
    (is "(_ \<longrightarrow> (if ?fails then _ else \<exists>w. ?serves w)) \<and> ?errors")
proof -
  from main_serving [OF assms(1-3)] obtain conf where c: "port conf = 50002"
    "first_error opts = None \<Longrightarrow> main sys raw raw_msg opts =
         Inr (case start_server_conf sys conf of None \<Rightarrow> Fatal_exit | Some w \<Rightarrow> Serving w L_TRACE)"
    "\<forall>t. first_error opts = Some t \<longrightarrow> NUL \<notin> set t \<longrightarrow>
       main sys raw raw_msg opts = Inr (Usage_exit (take 254 t @ [LF] @ usageErr))" by blast
  have errors: "?errors" using c(3) by (simp add: usageErr_def USAGE_STRING_def)
  have fails: "start_server_conf sys conf = None \<longleftrightarrow> ?fails"
    by (simp add: start_server_conf_def start_server_fails c(1) Socket_Listen_fails listen_addr_def WILDCARD_IP_def fd)
  show ?thesis
  proof (cases "start_server_conf sys conf")
    case None
    then show ?thesis using c(2) fails errors by simp
  next
    case (Some w)
    let ?mt = "map_option fst (fst (Motd_Get sys ''motd.txt''))" and ?fd = "Socket_Listen sys 50002"
    have w: "start_server (gethostname sys) ?mt ?fd (epoll_create1 sys) (epoll_add_ok sys) = Some w"
      using Some c(1) by (simp add: start_server_conf_def)
    then have "?fd \<noteq> -1" by (auto simp: start_server_def split: if_splits)
    then have f: "?fd = fd" unfolding fd by (rule Socket_Listen_ok)
    have "?serves w" if "first_error opts = None"
      using c(2) [OF that] Some start_server_starts [OF w] started [OF w] f
      by (simp add: start_server_state_def)
    moreover have nf: "\<not> ?fails" using fails Some by simp
    ultimately show ?thesis unfolding if_not_P [OF nf] using errors by blast
  qed
qed

definition demo_system :: system where
  "demo_system = \<lparr>fopen = (\<lambda>_. None), sys_socket = 3, setsockopt = (\<lambda>_. 0), inet_pton = (\<lambda>_. 1),
     bind_socket = (\<lambda>_ _. 0), listen_on = (\<lambda>_ _. 0), gethostname = ''irc.example'', epoll_create1 = 4,
     epoll_add_ok = True\<rparr>"

text \<open>The same system with its port taken.\<close>

definition busy_system :: system where
  "busy_system = demo_system\<lparr>bind_socket := (\<lambda>_ _. -1)\<rparr>"

theorem main_starts_server_witness:
  "(\<exists>w. main demo_system \<lparr>port = 0, host = replicate 256 NUL\<rparr> (replicate 255 NUL)
       [Opt (CHR ''p'') ''6667''] = Inr (Serving w 0) \<and> server_fd (server w) = 3 \<and> motd (server w) = None \<and>
       interest w = [(3, server_handler 3)]) \<and>
   main busy_system \<lparr>port = 0, host = replicate 256 NUL\<rparr> (replicate 255 NUL) [Opt (CHR ''p'') ''6667''] = Inr Fatal_exit \<and>
   main demo_system \<lparr>port = 0, host = replicate 256 NUL\<rparr> (replicate 255 NUL)
       [Unrecognized_option (CHR ''x'')] =
     Inr (Usage_exit (''error: Unrecognized option -x.'' @ [LF] @ ''usage: circ [-h hostname] [-p port]'' @ [LF]))"
proof -
  let ?good = "[Opt (CHR ''p'') ''6667'']" and ?bad = "[Unrecognized_option (CHR ''x'')]"
  let ?raw = "\<lparr>port = 0, host = replicate 256 NUL\<rparr>"
  have l: "length (host ?raw) = HOSTNAME_LEN + 1" "255 \<le> length (replicate 255 NUL)" by (simp_all add: HOSTNAME_LEN_def)
  have ok: "\<forall>r\<in>set ?good. opt_ok r" "\<forall>r\<in>set ?bad. opt_ok r" by (simp_all add: opt_ok_def)
  have g: "first_error ?good = None" by code_simp
  have b: "first_error ?bad = Some ''error: Unrecognized option -x.''" by code_simp
  have m: "map_option fst (fst (Motd_Get demo_system ''motd.txt'')) = None"
    by (simp add: Motd_Get_def demo_system_def)
  have s: "3 = sys_socket demo_system" "3 = sys_socket busy_system" by (simp_all add: demo_system_def busy_system_def)
  have "\<exists>w. main demo_system ?raw (replicate 255 NUL) ?good = Inr (Serving w 0) \<and> server_fd (server w) = 3 \<and>
      motd (server w) = None \<and> interest w = [(3, server_handler 3)]"
    using conjunct1 [OF main_starts_server [OF l ok(1) s(1)]] g m by (auto simp: demo_system_def)
  moreover have "main busy_system ?raw (replicate 255 NUL) ?good = Inr Fatal_exit"
    using conjunct1 [OF main_starts_server [OF l ok(1) s(2)]] g by (simp add: busy_system_def)
  ultimately show ?thesis using conjunct2 [OF main_starts_server [OF l ok(2) s(1)]] b by auto
qed

end
