(* ===== verification/MotdShown.thy ===== *)
theory MotdShown
  imports Startup SessionProps
begin

text \<open>
  From the file to the reply: \<open>Motd_Get\<close>, \<open>start_server\<close> and \<open>Handler_Motd\<close> together.
\<close>

lemma motd_fragment_length: "p \<in> set (motd_fragments s) \<Longrightarrow> length p \<le> 80"
  by (auto simp: motd_fragments_def motd_fragment_def)

text \<open>
  C33: the file reaches the client.  If the message of the day of a server is what \<open>Motd_Get\<close> made of a
  readable file without NUL bytes that is not empty, MOTD is answered with a start line, lines of at
  most 80 characters and an end line; put together the lines are the whole file, unless its length
  is a multiple of 80: then its last 80 characters are missing and the last line is empty.
\<close>

theorem motd_file_shown:
  assumes "fopen sys path = Some f" and "contents f \<noteq> []" and "NUL \<notin> set (contents f)"
    and "seek_end_ok f" and "tell_ok f" and "seek_set_ok f" and "read_ok f"
    and "motd (server w) = map_option fst (fst (Motd_Get sys path))"
    and "client_mem w a = Some c" and "cstr (nickname c) = Inr n" and "length n \<le> 9"
    and "cstr (server_hostname (server w)) = Inr sh" and "length sh \<le> 255"
  shows "\<exists>w' parts. Handler_Motd a m w = Inr (w', 0) \<and>
     queue w' a = queue w a @
       [text_response (''375 '' @ star_nick c n @ '' :- '' @ sh @ '' Message of the day - '' @ CRLF)] @
       map (\<lambda>p. text_response (motd_line c n p)) parts @
       [text_response (''376 '' @ star_nick c n @ '' :End of MOTD command'' @ CRLF)] \<and>
     (\<forall>p\<in>set parts. length p \<le> 80) \<and>
     concat parts = (if length (contents f) mod 80 \<noteq> 0 then contents f
                     else take (length (contents f) - 80) (contents f))"
proof -
  have mt: "motd (server w) = Some (contents f @ [NUL])" using assms(1-8) by (simp add: Motd_Get_eq)
  have "cstr (contents f @ [NUL]) = Inr (contents f)" using assms(3) by simp
  from motd_reply_sequence [OF assms(9-11) mt this assms(12,13), of m] obtain w' where
    "Handler_Motd a m w = Inr (w', 0)"
    "queue w' a = queue w a @
       [text_response (''375 '' @ star_nick c n @ '' :- '' @ sh @ '' Message of the day - '' @ CRLF)] @
       map (\<lambda>p. text_response (motd_line c n p)) (motd_fragments (contents f)) @
       [text_response (''376 '' @ star_nick c n @ '' :End of MOTD command'' @ CRLF)]" by blast
  then show ?thesis using motd_fragment_length motd_fragments_cover by blast
qed

text \<open>A file of one short line, with its line feed.\<close>

definition hello_stream :: stream where
  "hello_stream = \<lparr>contents = ''hello'' @ [LF], seek_end_ok = True, tell_ok = True, seek_set_ok = True, read_ok = True\<rparr>"

theorem motd_file_shown_witness:
  "\<exists>w'. Handler_Motd 0 zero_message
      (upd_server (\<lambda>s. s\<lparr>motd := map_option fst (fst (Motd_Get (demo_system\<lparr>fopen := \<lambda>_. Some hello_stream\<rparr>) ''motd.txt''))\<rparr>)
        (mini_world [])) = Inr (w', 0) \<and> 3 \<le> length (queue w' 0)"
proof -
  let ?sys = "demo_system\<lparr>fopen := \<lambda>_. Some hello_stream\<rparr>"
  let ?w = "upd_server (\<lambda>s. s\<lparr>motd := map_option fst (fst (Motd_Get ?sys ''motd.txt''))\<rparr>) (mini_world [])"
  let ?c = "mini_client 1 ''ann'' []"
  have f: "fopen ?sys ''motd.txt'' = Some hello_stream" "contents hello_stream \<noteq> []" "NUL \<notin> set (contents hello_stream)"
    "seek_end_ok hello_stream" "tell_ok hello_stream" "seek_set_ok hello_stream" "read_ok hello_stream"
    by (simp_all add: hello_stream_def)
  have mt: "motd (server ?w) = map_option fst (fst (Motd_Get ?sys ''motd.txt''))" by (simp add: upd_server_def)
  have c: "client_mem ?w 0 = Some ?c" by (simp add: mini_simps)
  have n: "cstr (nickname ?c) = Inr ''ann''" by (simp add: mini_client_strings cstr_pad)
  have l: "length ''ann'' \<le> 9" "length ''s'' \<le> 255" by simp_all
  have h: "cstr (server_hostname (server ?w)) = Inr ''s''" by (simp add: upd_server_def mini_world_def) code_simp
  from motd_file_shown [OF f mt c n l(1) h l(2), of zero_message] obtain w' parts where
    "Handler_Motd 0 zero_message ?w = Inr (w', 0)" "concat parts = contents hello_stream"
    "length (queue w' 0) = length (queue ?w 0) + 2 + length parts"
    by (auto simp: hello_stream_def)
  moreover from this have "parts \<noteq> []" by (auto simp: hello_stream_def)
  then have "1 \<le> length parts" by (cases parts) auto
  ultimately show ?thesis by (intro exI [of _ w']) simp
qed

end
