(* ===== verification/OldReader.thy ===== *)
theory OldReader
  imports ReadMessage
begin

text \<open>
  \<open>read_to_CRLF\<close> and \<open>read_message\<close> of \<open>src/read_message.c\<close>: the reader that \<open>conn_read_message\<close>
  replaced.  It reads from the descriptor itself, so the results of the successive calls of
  \<open>read\<close> are an argument; \<open>None\<close> as a result means that the call waits for more than they give.
\<close>

subsection \<open>\<open>read_to_CRLF\<close>\<close>

text \<open>
  The variables of the caller: \<open>buf\<close>, \<open>*totalRead\<close>, \<open>gotCRLF\<close> and \<open>msgLen\<close>, which is
  uninitialised until a CRLF has been found.
\<close>

record reader =
  rd_buf :: "char list"
  rd_total :: nat
  rd_got :: bool
  rd_len :: "nat option"

text \<open>\<open>read(fd, buf + total, 512 - total)\<close>\<close>

definition read_at :: "reader \<Rightarrow> char list \<Rightarrow> reader run" where
  "read_at r bytes =
     (let bs = take (IRC_MSG_SIZE - rd_total r) bytes in
      if rd_total r + length bs \<le> length (rd_buf r)
      then Inr (r\<lparr>rd_buf := take (rd_total r) (rd_buf r) @ bs @ drop (rd_total r + length bs) (rd_buf r),
                 rd_total := rd_total r + length bs\<rparr>)
      else Inl BufferOverflow)"

fun read_to_CRLF :: "reader \<Rightarrow> read_result list \<Rightarrow> (reader \<times> int \<times> read_result list) run option" where
  "read_to_CRLF r input =
     (case strncrlf (rd_buf r) (rd_total r) of
        Inl f \<Rightarrow> Some (Inl f)
      | Inr (Some i) \<Rightarrow> Some (Inr (r\<lparr>rd_got := True, rd_len := Some (i + 2)\<rparr>, 1, input))
      | Inr None \<Rightarrow>
          (case input of
             [] \<Rightarrow> None
           | Read_error # rest \<Rightarrow> Some (Inr (r, -1, rest))
           | Read_bytes bytes # rest \<Rightarrow>
               if take (IRC_MSG_SIZE - rd_total r) bytes = [] then Some (Inr (r, 0, rest))
               else
                 (case read_at r bytes of
                    Inl f \<Rightarrow> Some (Inl f)
                  | Inr r' \<Rightarrow>
                      if rd_total r' \<ge> IRC_MSG_SIZE then Some (Inr (r', 1, rest))
                      else read_to_CRLF r' rest)))"

declare read_to_CRLF.simps [simp del]

lemma read_to_CRLF_reads:
  "read_to_CRLF r input = Some (Inr (r', res, rest)) \<Longrightarrow>
     length rest \<le> length input \<and> (length rest = length input \<longrightarrow> rd_got r')"
proof (induction r input arbitrary: r' res rest rule: read_to_CRLF.induct)
  case (1 r input)
  show ?case
  proof (cases "strncrlf (rd_buf r) (rd_total r)")
    case (Inl f)
    then show ?thesis using "1.prems" by (subst (asm) read_to_CRLF.simps) simp
  next
    case (Inr x)
    show ?thesis
    proof (cases x)
      case (Some i)
      then show ?thesis using "1.prems" Inr by (subst (asm) read_to_CRLF.simps) auto
    next
      case None
      show ?thesis
      proof (cases input)
        case Nil
        then show ?thesis using "1.prems" Inr None by (subst (asm) read_to_CRLF.simps) simp
      next
        case (Cons y ys)
        show ?thesis
        proof (cases y)
          case Read_error
          then show ?thesis using "1.prems" Inr None Cons by (subst (asm) read_to_CRLF.simps) auto
        next
          case (Read_bytes bytes)
          show ?thesis
          proof (cases "take (IRC_MSG_SIZE - rd_total r) bytes = []")
            case True
            then show ?thesis using "1.prems" Inr None Cons Read_bytes by (subst (asm) read_to_CRLF.simps) auto
          next
            case False
            then obtain q where q: "read_at r bytes = Inr q"
              using "1.prems" Inr None Cons Read_bytes
              by (subst (asm) read_to_CRLF.simps) (auto split: sum.splits)
            then have "read_to_CRLF r input =
                (if rd_total q \<ge> IRC_MSG_SIZE then Some (Inr (q, 1, ys)) else read_to_CRLF q ys)"
              using Inr None Cons Read_bytes False by (subst read_to_CRLF.simps) simp
            then consider "rest = ys" | "\<not> rd_total q \<ge> IRC_MSG_SIZE" "read_to_CRLF q ys = Some (Inr (r', res, rest))"
              using "1.prems" by (auto split: if_splits)
            then show ?thesis
            proof cases
              case 1
              then show ?thesis using Cons by simp
            next
              case 2
              have "length rest \<le> length ys"
                using "1.IH" [OF Inr None Cons Read_bytes False q 2] by blast
              then show ?thesis using Cons by simp
            qed
          qed
        qed
      qed
    qed
  qed
qed

subsection \<open>\<open>read_message\<close>\<close>

text \<open>
  \<open>memmove(buf, buf + msgLen, total - msgLen)\<close> and \<open>memset(buf + (total - msgLen), 0, 512 - (total - msgLen))\<close>.
  The lengths are signed in the source; a negative one is a huge \<open>size_t\<close>.
\<close>

definition shift_out :: "char list \<Rightarrow> nat \<Rightarrow> nat \<Rightarrow> char list run" where
  "shift_out buf n len =
     (if n < len then Inl BufferOverflow
      else rbind (memmove_down buf len (n - len)) (\<lambda>b.
             memset0 b (n - len) (IRC_MSG_SIZE - (n - len))))"

text \<open>
  The result is the return value with \<open>msg\<close>, the bookkeeping the caller keeps (\<open>buf\<close>, \<open>*storeTotalRead\<close>,
  \<open>*storeDiscardNext\<close>) and the results that are left.
\<close>

record old_state =
  old_msg :: "char list"
  old_buf :: "char list"
  old_total :: nat
  old_discard :: bool

definition reader_of :: "bool \<Rightarrow> nat option \<Rightarrow> old_state \<Rightarrow> reader" where
  "reader_of got len st = \<lparr>rd_buf = old_buf st, rd_total = old_total st, rd_got = got, rd_len = len\<rparr>"

definition of_reader :: "reader \<Rightarrow> old_state \<Rightarrow> old_state" where
  "of_reader r st = st\<lparr>old_buf := rd_buf r, old_total := rd_total r\<rparr>"

function read_message_loop ::
    "bool \<Rightarrow> nat option \<Rightarrow> old_state \<Rightarrow> read_result list \<Rightarrow> (old_state \<times> int \<times> read_result list) run option" where
  "read_message_loop got len st input =
     (case read_to_CRLF (reader_of got len st) input of
        None \<Rightarrow> None
      | Some (Inl f) \<Rightarrow> Some (Inl f)
      | Some (Inr (r, res, rest)) \<Rightarrow>
          let st = of_reader r st in
          if res = 0 \<or> res = -1 then Some (Inr (st, res, rest))
          else if rd_got r then
            (case rd_len r of
               None \<Rightarrow> Some (Inl UninitPointer)
             | Some msgLen \<Rightarrow>
                 if old_discard st then
                   (case shift_out (old_buf st) (old_total st) msgLen of
                      Inl f \<Rightarrow> Some (Inl f)
                    | Inr b \<Rightarrow>
                        read_message_loop True (rd_len r) (st\<lparr>old_buf := b, old_discard := False\<rparr>) rest)
                 else
                   Some (rbind (memcpy (old_msg st) (old_buf st) msgLen) (\<lambda>m.
                         rbind (shift_out (old_buf st) (old_total st) msgLen) (\<lambda>b.
                           Inr (st\<lparr>old_msg := m, old_buf := b, old_total := old_total st - msgLen\<rparr>,
                                int msgLen, rest)))))
          else if old_discard st then
            (case memset0 (old_buf st) 0 IRC_MSG_SIZE of
               Inl f \<Rightarrow> Some (Inl f)
             | Inr b \<Rightarrow> read_message_loop False (rd_len r) (st\<lparr>old_buf := b, old_total := 0\<rparr>) rest)
          else
            Some (rbind (memcpy (old_msg st) (old_buf st) IRC_MSG_SIZE) (\<lambda>m.
                  if IRC_MSG_SIZE \<le> length m then
                    Inr (st\<lparr>old_msg := m[IRC_MSG_SIZE - 2 := CR, IRC_MSG_SIZE - 1 := LF], old_total := 0,
                            old_discard := True\<rparr>, int IRC_MSG_SIZE, rest)
                  else Inl BufferOverflow)))"
  by pat_completeness auto
termination
proof (relation "measure (\<lambda>(got, len, st, input). 2 * length input + (if old_discard st then 1 else 0))")
  fix got len st input x2 y r z res rest u
  assume s: "read_to_CRLF (reader_of got len st) input = Some x2" "x2 = Inr y" "(r, z) = y" "(res, rest) = z"
    "u = of_reader r st"
  from read_to_CRLF_reads [of "reader_of got len st" input r res rest] s
  have l: "length rest \<le> length input" "length rest = length input \<longrightarrow> rd_got r" by auto
  show "((True, rd_len r, u\<lparr>old_buf := b, old_discard := False\<rparr>, rest), got, len, st, input)
      \<in> measure (\<lambda>(got, len, st, input). 2 * length input + (if old_discard st then 1 else 0))"
    if "old_discard u" for b using l s(5) that by (simp add: of_reader_def)
  show "((False, rd_len r, u\<lparr>old_buf := b, old_total := 0\<rparr>, rest), got, len, st, input)
      \<in> measure (\<lambda>(got, len, st, input). 2 * length input + (if old_discard st then 1 else 0))"
    if "\<not> rd_got r" for b using l s(5) that by (auto simp: of_reader_def)
qed auto

declare read_message_loop.simps [simp del]

definition read_message :: "old_state \<Rightarrow> read_result list \<Rightarrow> (old_state \<times> int \<times> read_result list) run option" where
  "read_message st input = read_message_loop False None st input"

subsection \<open>What it does with a line\<close>

lemma strncrlf_take: "n \<le> length b \<Longrightarrow> strncrlf b n = Inr (find_crlf (take n b))"
  by (rule strncrlf_eq)

lemma strncrlf_prefix: "strncrlf (b @ c) (length b) = Inr (find_crlf b)"
  by (simp add: strncrlf_eq)

text \<open>One \<open>read\<close> completes a line, with room to spare.\<close>

lemma read_to_CRLF_line:
  assumes "length (p @ q) = IRC_MSG_SIZE" and "find_crlf p = None" and "find_crlf (p @ bs) = Some i"
    and "bs \<noteq> []" and "length (p @ bs) < IRC_MSG_SIZE"
  shows "read_to_CRLF \<lparr>rd_buf = p @ q, rd_total = length p, rd_got = got, rd_len = len\<rparr> (Read_bytes bs # rest) =
    Some (Inr (\<lparr>rd_buf = (p @ bs) @ drop (length bs) q, rd_total = length (p @ bs), rd_got = True, rd_len = Some (i + 2)\<rparr>,
               1, rest))"
proof -
  have t: "take (IRC_MSG_SIZE - length p) bs = bs" using assms(5) by simp
  have r: "read_at \<lparr>rd_buf = p @ q, rd_total = length p, rd_got = got, rd_len = len\<rparr> bs =
      Inr \<lparr>rd_buf = (p @ bs) @ drop (length bs) q, rd_total = length (p @ bs), rd_got = got, rd_len = len\<rparr>"
    using assms(1,5) t by (simp add: read_at_def Let_def)
  have found: "read_to_CRLF \<lparr>rd_buf = (p @ bs) @ drop (length bs) q, rd_total = length (p @ bs), rd_got = got, rd_len = len\<rparr> rest =
      Some (Inr (\<lparr>rd_buf = (p @ bs) @ drop (length bs) q, rd_total = length (p @ bs), rd_got = True, rd_len = Some (i + 2)\<rparr>, 1, rest))"
    by (subst read_to_CRLF.simps)
      (simp only: reader.select_convs strncrlf_prefix assms(3) sum.case option.case reader.update_convs)
  show ?thesis
    apply (subst read_to_CRLF.simps)
    apply (simp only: reader.select_convs strncrlf_prefix assms(2) sum.case option.case list.case read_result.case t r)
    using assms(4,5) found by simp
qed

lemma shift_out_all: "length b = IRC_MSG_SIZE \<Longrightarrow> n \<le> IRC_MSG_SIZE \<Longrightarrow> shift_out b n n = Inr (replicate IRC_MSG_SIZE NUL)"
  by (simp add: shift_out_def memmove_down_def memset0_def)

lemma find_crlf_zeros: "find_crlf l = None \<Longrightarrow> find_crlf (replicate n NUL @ l) = None"
  by (induction n) (auto simp: find_crlf_Cons)

lemma find_crlf_line: "find_crlf l = None \<Longrightarrow> find_crlf (l @ CRLF) = Some (length l)"
  using find_crlf_append [of l "[]"] by simp

text \<open>A line of exactly the length of the buffer, read at once.\<close>

lemma old_full_line:
  assumes "length l = IRC_MSG_SIZE - 2" and "length (old_buf st) = IRC_MSG_SIZE" and "length (old_msg st) = IRC_MSG_SIZE"
    and "old_total st = 0" and "\<not> old_discard st"
  shows "read_message st (Read_bytes (l @ CRLF) # rest) =
    Some (Inr (st\<lparr>old_msg := l @ CRLF, old_buf := l @ CRLF, old_discard := True\<rparr>, int IRC_MSG_SIZE, rest))"
proof -
  let ?bs = "l @ CRLF"
  have len: "length ?bs = IRC_MSG_SIZE" using assms(1) by (simp add: CRLF_def)
  have "read_to_CRLF (reader_of False None st) (Read_bytes ?bs # rest) =
      Some (Inr (\<lparr>rd_buf = ?bs, rd_total = IRC_MSG_SIZE, rd_got = False, rd_len = None\<rparr>, 1, rest))"
    using len assms(2,4)
    by (subst read_to_CRLF.simps) (auto simp: reader_of_def strncrlf_take read_at_def Let_def)
  moreover have "(take IRC_MSG_SIZE ?bs @ drop IRC_MSG_SIZE (old_msg st))[IRC_MSG_SIZE - 2 := CR, IRC_MSG_SIZE - 1 := LF] = ?bs"
    using len assms(1,3) by (simp add: CRLF_def list_update_append)
  ultimately show ?thesis using len assms
    by (simp add: read_message_def) (subst read_message_loop.simps, simp add: of_reader_def memcpy_def Let_def)
qed

lemma old_discarded_line:
  assumes "find_crlf l = None" and "find_crlf k = None" and "length l + length k + 4 < IRC_MSG_SIZE"
    and "length (old_buf st) = IRC_MSG_SIZE" and "length (old_msg st) = IRC_MSG_SIZE"
    and "old_total st = 0" and "old_discard st"
  shows "\<exists>st'. read_message st (Read_bytes (l @ CRLF) # Read_bytes (k @ CRLF) # rest) =
      Some (Inr (st', int (length l + length k + 4), rest)) \<and>
    take (length l + length k + 4) (old_msg st') = replicate (length l + 2) NUL @ k @ CRLF"
proof -
  let ?n = "length l + 2" and ?z = "replicate IRC_MSG_SIZE NUL" and ?input = "Read_bytes (k @ CRLF) # rest"
  let ?p = "replicate (length l + 2) NUL"
  have crlf: "length (CRLF :: string) = 2" by (simp add: CRLF_def)
  have first: "read_to_CRLF (reader_of False None st) (Read_bytes (l @ CRLF) # ?input) =
      Some (Inr (\<lparr>rd_buf = l @ CRLF @ drop ?n (old_buf st), rd_total = ?n, rd_got = True, rd_len = Some ?n\<rparr>, 1, ?input))"
    using read_to_CRLF_line [of "[]" "old_buf st" "l @ CRLF" "length l" False None ?input] assms(1,3,4,6)
    by (simp add: reader_of_def find_crlf_line crlf) (simp add: CRLF_def)
  have buf: "length (l @ CRLF @ drop ?n (old_buf st)) = IRC_MSG_SIZE" using assms(3,4) crlf by simp
  let ?st = "st\<lparr>old_total := ?n, old_buf := ?z, old_discard := False\<rparr>"
  have "read_message st (Read_bytes (l @ CRLF) # ?input) = read_message_loop True (Some ?n) ?st ?input"
    using first assms(3,7) buf
    by (simp add: read_message_def) (subst read_message_loop.simps, simp add: of_reader_def shift_out_all Let_def)
  moreover have z: "?z = ?p @ replicate (IRC_MSG_SIZE - ?n) NUL"
  proof -
    have "IRC_MSG_SIZE = ?n + (IRC_MSG_SIZE - ?n)" using assms(3) by simp
    then show ?thesis using replicate_add [of ?n "IRC_MSG_SIZE - ?n" NUL] by metis
  qed
  have none: "find_crlf ?p = None" "find_crlf (?p @ k) = None"
    using find_crlf_zeros [of "[]" ?n] find_crlf_zeros [OF assms(2), of ?n] by simp_all
  have second: "read_to_CRLF (reader_of True (Some ?n) ?st) ?input =
      Some (Inr (\<lparr>rd_buf = (?p @ k @ CRLF) @ drop (length k + 2) (replicate (IRC_MSG_SIZE - ?n) NUL),
        rd_total = ?n + length k + 2, rd_got = True, rd_len = Some (?n + length k + 2)\<rparr>, 1, rest))"
    using read_to_CRLF_line [of ?p "replicate (IRC_MSG_SIZE - ?n) NUL" "k @ CRLF" "?n + length k" True "Some ?n" rest]
      none find_crlf_line [OF none(2)] assms(3) z crlf
    by (simp add: reader_of_def) (simp add: CRLF_def)
  have m: "memcpy (old_msg st) ((?p @ k @ CRLF) @ drop (length k + 2) (replicate (IRC_MSG_SIZE - ?n) NUL)) (?n + length k + 2) =
      Inr ((?p @ k @ CRLF) @ drop (?n + length k + 2) (old_msg st))"
    using assms(3,5) crlf by (simp add: memcpy_def)
  have s: "shift_out ((?p @ k @ CRLF) @ drop (length k + 2) (replicate (IRC_MSG_SIZE - ?n) NUL)) (?n + length k + 2) (?n + length k + 2) =
      Inr ?z"
    by (rule shift_out_all) (use assms(3) crlf in auto)
  obtain B N M where B: "B = (?p @ k @ CRLF) @ drop (length k + 2) (replicate (IRC_MSG_SIZE - ?n) NUL)"
    and N: "N = ?n + length k + 2" and M: "M = (?p @ k @ CRLF) @ drop (?n + length k + 2) (old_msg st)" by blast
  note eqs = second [folded B N] m [folded B N M, folded N] s [folded B N]
  have "read_message_loop True (Some ?n) ?st ?input =
      Some (Inr (?st\<lparr>old_buf := ?z, old_total := 0, old_msg := M\<rparr>, int N, rest))"
    by (subst read_message_loop.simps, subst eqs(1)) (simp add: of_reader_def eqs(2,3) Let_def)
  moreover have "take N M = ?p @ k @ CRLF" "int N = int (length l + length k + 4)" "N = length l + length k + 4"
    using crlf by (simp_all add: N M)
  ultimately show ?thesis by (intro exI [of _ "?st\<lparr>old_buf := ?z, old_total := 0, old_msg := M\<rparr>"]) simp
qed

text \<open>
  C40: the old reader loses lines.  A complete line of exactly 512 bytes is returned, but marks what
  follows as the rest of an overlong line: the next line, which is complete as well, is thrown away.
  As \<open>*storeTotalRead\<close> is not reduced for it, the line after that comes with as many zero bytes
  in front as the discarded line had, and reads as an empty string.
\<close>

theorem old_reader_loses_lines:
  assumes "length l1 = IRC_MSG_SIZE - 2" and "find_crlf l2 = None" and "find_crlf l3 = None"
    and "length l2 + length l3 + 4 < IRC_MSG_SIZE"
    and "length (old_buf st) = IRC_MSG_SIZE" and "length (old_msg st) = IRC_MSG_SIZE"
    and "old_total st = 0" and "\<not> old_discard st"
  shows "\<exists>st1 st2.
    read_message st [Read_bytes (l1 @ CRLF), Read_bytes (l2 @ CRLF), Read_bytes (l3 @ CRLF)] =
      Some (Inr (st1, int IRC_MSG_SIZE, [Read_bytes (l2 @ CRLF), Read_bytes (l3 @ CRLF)])) \<and>
    old_msg st1 = l1 @ CRLF \<and>
    read_message st1 [Read_bytes (l2 @ CRLF), Read_bytes (l3 @ CRLF)] =
      Some (Inr (st2, int (length l2 + length l3 + 4), [])) \<and>
    take (length l2 + length l3 + 4) (old_msg st2) = replicate (length l2 + 2) NUL @ l3 @ CRLF"
proof -
  let ?st1 = "st\<lparr>old_msg := l1 @ CRLF, old_buf := l1 @ CRLF, old_discard := True\<rparr>"
  have "length (old_buf ?st1) = IRC_MSG_SIZE" "length (old_msg ?st1) = IRC_MSG_SIZE" "old_total ?st1 = 0" "old_discard ?st1"
    using assms(1,7) by (simp_all add: CRLF_def)
  from old_discarded_line [OF assms(2-4) this, of "[]"] obtain st2 where
    "read_message ?st1 [Read_bytes (l2 @ CRLF), Read_bytes (l3 @ CRLF)] =
      Some (Inr (st2, int (length l2 + length l3 + 4), []))"
    "take (length l2 + length l3 + 4) (old_msg st2) = replicate (length l2 + 2) NUL @ l3 @ CRLF" by blast
  with old_full_line [OF assms(1,5-8)] show ?thesis
    by (intro exI [of _ ?st1] exI [of _ st2]) simp
qed

theorem old_reader_loses_lines_witness:
  "\<exists>st1 st2. read_message st1 [Read_bytes (''NICK ann'' @ CRLF), Read_bytes (''PING x'' @ CRLF)] = Some (Inr (st2, 18, [])) \<and>
     old_msg st1 = replicate 510 (CHR ''x'') @ CRLF \<and> take 18 (old_msg st2) = replicate 10 NUL @ ''PING x'' @ CRLF"
proof -
  let ?st = "\<lparr>old_msg = replicate 512 NUL, old_buf = replicate 512 NUL, old_total = 0, old_discard = False\<rparr>"
  have z: "replicate 10 NUL = [NUL, NUL, NUL, NUL, NUL, NUL, NUL, NUL, NUL, NUL]" by (simp add: numeral_eq_Suc)
  have "find_crlf ''NICK ann'' = None" "find_crlf ''PING x'' = None" by code_simp+
  from old_reader_loses_lines [OF _ this, of "replicate 510 (CHR ''x'')" ?st] obtain st1 st2 where
    "old_msg st1 = replicate 510 (CHR ''x'') @ CRLF"
    "read_message st1 [Read_bytes (''NICK ann'' @ CRLF), Read_bytes (''PING x'' @ CRLF)] = Some (Inr (st2, 18, []))"
    "take 18 (old_msg st2) = replicate 10 NUL @ ''PING x'' @ CRLF" by (auto simp: z)
  then show ?thesis by blast
qed

end
