(* ===== verification/Spec2Isabelle.thy ===== *)
theory Spec2Isabelle
  imports PoliteDemo HashtableLife Vector MotdShown OldReader
begin

text \<open>
  A verification development of cIRC, a single-threaded IRC server in C (\<open>src/\<close> and \<open>include/\<close> of the
  repository).  Every definition is a translation of the C function of the same name; the theorems
  named C1, C2, ... in the text blocks before them are its properties.

  \<^bold>\<open>The program.\<close>  \<open>main\<close> (\<open>circ.c\<close>) reads the options (\<open>config.c\<close>) and calls \<open>start_server\<close> (\<open>server.c\<close>),
  which loads the message of the day (\<open>motd.c\<close>), opens the listening socket (\<open>socket.c\<close>), registers the
  server with the reactor (\<open>reactor.c\<close>, a wrapper of epoll) and loops over \<open>reactor_handle_events\<close> for
  ever.  An event on the listening socket accepts a client (\<open>Server_HandleReadEvent\<close>, \<open>client.c\<close>); an
  event on a client's socket reads bytes into the client's store (\<open>connection.c\<close>), cuts them into
  messages (\<open>read_message.c\<close>), tokenizes and parses each (\<open>msgtok.c\<close>, \<open>parser.c\<close>), runs its handler
  (\<open>handlers.c\<close>) on the shared tables of nicknames, clients and channels (\<open>client.c\<close>, \<open>channel.c\<close>,
  \<open>server.c\<close>), and writes the replies (\<open>replies.c\<close>) that the handler has queued.  \<open>hashtable.c\<close> and
  \<open>vector.c\<close> are containers of the repository that the server does not use: it uses GLib's.

  \<^bold>\<open>How C is modelled.\<close>  Undefined behaviour is a value: an operation returns \<open>'a run\<close>, \<open>Inl\<close> of a \<open>fault\<close>
  (null or dangling pointer, read or write out of bounds, uninitialised pointer, signed overflow,
  null function pointer) or \<open>Inr\<close> of its result (\<open>Prelude\<close>).  A character array is the list of its
  bytes at its declared length; a pointer into it is a position; a string is what precedes the first
  NUL (\<open>CStr\<close>).  Client and channel objects live in two heaps, maps from addresses to records, and
  the whole process state is the record \<open>world\<close> (\<open>State\<close>): the global server struct, the heaps, the
  epoll interest list and the sequence of writes.  The counters of the server are \<open>32 word\<close>, hashes
  \<open>64 word\<close>, ports \<open>16 word\<close>; an \<open>int\<close> that could overflow is checked (\<open>server_generate_id\<close>); other
  lengths and sizes are natural numbers.  Memory allocation succeeds, and so does \<open>write\<close>.

  \<^bold>\<open>Theories.\<close>

  \<^item> \<open>Prelude\<close>, \<open>CStr\<close>, \<open>GHash\<close>, \<open>State\<close>, \<open>Printf\<close>: the shared vocabulary.  \<open>GHash\<close> holds the interfaces: locale
    \<open>dict\<close> (what may be relied on after an insertion) and \<open>registry\<close> (with removal, for tables whose
    keys belong to owners), interpreted there by the model of GLib's table and, for \<open>dict\<close>, by the
    repository's own table in \<open>HashtableMap\<close>.
  \<^item> \<open>Msgtok\<close>, \<open>Parser\<close>: \<open>msgtok\<close>, \<open>msgtok_r\<close> and \<open>parse_message\<close> work in place on the message buffer.  The
    specification is \<open>tokens\<close> and \<open>parse_spec\<close> on the text of the line; \<open>msgtok_r\<close> returns exactly the
    tokens, and \<open>parse_message\<close> leaves a struct that denotes the command of \<open>parse_spec\<close>.
  \<^item> \<open>ReadMessage\<close>: \<open>Conn_ReadStoreBuffer\<close>, \<open>strncrlf\<close>, \<open>conn_read_message\<close>, refined by \<open>frame\<close> on the pending
    bytes.  \<open>OldReader\<close>: \<open>read_message\<close>, which it replaced.
  \<^item> \<open>Replies\<close>, \<open>ReplyTexts\<close>: the format strings and formatting functions, their texts, and when a text
    leaves the response buffer.
  \<^item> \<open>Client\<close>, \<open>Channel\<close>, \<open>Handlers\<close>, \<open>EventLoop\<close>: the operations of \<open>client.c\<close>, \<open>channel.c\<close> with the channel
    operations of \<open>server.c\<close>, \<open>handlers.c\<close>, and \<open>reactor.c\<close> with the event handlers and \<open>start_server\<close>.
    \<open>loop_step\<close> is one iteration of the event loop with any events epoll may report, and \<open>reachable\<close>
    the states at the head of the loop.
  \<^item> \<open>Invariant\<close>, \<open>Preserve\<close>, \<open>HandlerFrames\<close>, \<open>ServerSafety\<close>, \<open>ServerProps\<close>: the invariant of the server
    (tables, objects, counters and interest list agree; registration is complete exactly when NICK
    and USER were accepted), its preservation by each state change, each handler, each event and
    each iteration, and what it says in every reachable state.
  \<^item> \<open>ChannelProps\<close>, \<open>HandlerProps\<close>, \<open>SessionProps\<close>: what channel operations and handlers do.  \<open>EndToEnd\<close>: a
    login from the bytes read to the bytes written; \<open>Delivery\<close>: a line said in a channel; \<open>Joining\<close>: JOIN, for a
    new channel and for one with members.  \<open>Departed\<close>: what a closed connection leaves behind for
    ever.  \<open>Faults\<close>: the input that makes the server leave defined behaviour.
  \<^item> \<open>ReplyBounds\<close>, \<open>Progress\<close>, \<open>HandlersDefined\<close>, \<open>ChangesDefined\<close>, \<open>ChannelsDefined\<close>, \<open>Polite\<close>, \<open>PoliteRuns\<close>: the other
    side of \<open>Faults\<close>.  \<open>able\<close> is the invariant together with bounds on the strings, under which each
    reply fits its buffer and each handler is defined; \<open>polite_line\<close> says which lines keep the bounds, and
    \<open>polite_run\<close> are the runs in which clients send only such lines, each in one read.
  \<^item> \<open>Chat\<close>, \<open>ChatRefined\<close>: the abstract specification of the server, people and rooms and what each
    command does to them (\<open>chat_cmd\<close>), and the proof that the handlers implement it through the
    abstraction function \<open>chat_of\<close>, which forgets tables, heaps, ids, buffers and counters.
  \<^item> \<open>Speech\<close>: the other half of the specification, who is written what in answer to each command (\<open>replies\<close>),
    in answer to lines (\<open>talk\<close>) and in a whole run (\<open>conversation\<close>).  A \<open>house\<close> is what the answers need besides people
    and rooms.  \<open>SpeechTexts\<close>: the response buffer of each reply holds the text of \<open>Speech\<close>; \<open>Told\<close>: how sending
    and queueing compose (\<open>told\<close>); \<open>SpeechAsked\<close>, \<open>SpeechRefined\<close>, \<open>SpeechRooms\<close>: each handler says what \<open>replies\<close>
    allows (\<open>command_answered\<close>); \<open>SpeechHouse\<close>: what it does to the counters.
  \<^item> \<open>PoliteRuns\<close> lifts both halves to lines, reads, events and runs: the state of a polite run is the outcome of a
    conversation and the sequence of its writes is the transcript.  \<open>PoliteDemo\<close> holds a run and the witnesses.
  \<^item> \<open>Config\<close>, \<open>Log\<close>, \<open>Startup\<close>, \<open>MotdShown\<close>: options, log levels, \<open>Motd_Get\<close>, \<open>Socket_Listen\<close> and \<open>main\<close>; the
    start of the process as a whole with the system calls whose failure ends it, and the way of the file \<open>motd.txt\<close> to the client.
  \<^item> \<open>Hashtable\<close> with \<open>HashtableProps\<close>, \<open>HashtableMap\<close>, \<open>HashtableUse\<close>, \<open>HashtableLife\<close>: the open-addressing
    table; primes, the probe sequence (\<open>walk\<close>) and the table as a map, when probing ends, removal, when
    a removed key comes back (\<open>tombstone_before\<close>), and the life of the values.  \<open>Vector\<close>: the pointer vector.

  \<^bold>\<open>Code that is not in the repository.\<close>  The results of system calls and of \<open>getopt\<close> are arguments.  Of epoll
  the model uses that it reports each registered descriptor at most once per call, with events that
  were asked for or cannot be masked, and that closing a descriptor ends its registration.  GLib's
  hash tables are maps; the order of their iteration is a parameter (\<open>env\<close>), of which only
  \<open>iteration_ok\<close>, that each entry is visited once, is used.

  \<^bold>\<open>Bounds.\<close>  The loop of \<open>Client_HandleRead\<close> has a bound of \<open>IRC_MSG_SIZE + 1\<close> rounds in the model; every
  round takes at least one byte out of a store of \<open>IRC_MSG_SIZE\<close>, and \<open>client_read_terminates\<close> shows that
  the bound is never reached.  The probe loops of the hash table have no bound: they are partial
  functions, and \<open>ht_search_returns\<close>, \<open>ht_insert_succeeds\<close> and \<open>ht_remove_returns\<close> say when they return.
  All other loops are total functions.  The bounds of polite lines: at most 200 characters, so that the
  strings of a client and the text of a reply together fit into 512 bytes; channel names of at most 50
  characters, the size of the array; at most 38 members in a channel (\<open>MEMBERS_MAX\<close>), with nicknames of 9
  characters each what RPL_NAMREPLY has room for.  Beyond them the code does leave defined
  behaviour (\<open>Faults\<close>, \<open>privmsg_overruns_iff_too_long\<close>, \<open>long_channel_name_dangles\<close>).

  \<^bold>\<open>Not modelled.\<close>  Log output inside the server's functions (it prints only; \<open>circlog\<close> itself is in \<open>Log\<close>).
  \<open>Server_TrySend\<close>, whose body is commented out, has no caller.  \<open>vector_get_index\<close> and \<open>vector_remove_index\<close> are empty.
  \<open>channel_free\<close>, \<open>channel_part\<close>, \<open>Conn_Close\<close>, \<open>Conn_HandleRead\<close> and \<open>Conn_HandleWrite\<close> are declared, and
  the last two commented out, but not defined.  \<open>circlist.h\<close> and \<open>list.h\<close> declare structures without
  code.  Of the file system and the network only the results the code looks at appear.  The lines of
  the sources that no definition names are comments, prototypes, includes and code that is
  commented out (\<open>connection.c\<close>).
\<close>

end
